(* ===== verification/Prelude.thy ===== *)
theory Prelude
  imports Complex_Main "HOL-Library.Word" "HOL-Library.Finite_Map"
begin

section \<open>Shared vocabulary of the development\<close>

text \<open>
  This theory holds what every contract model shares:
  \<^item> the error values a failing action produces, and the simplification rules
    that read a chain of checks from a successful result;
  \<^item> the fixed-width integers of the contracts, kept as \<open>int\<close> with the
    wrap-around of each width written out;
  \<^item> a multi-index table as a finite map, its rows in primary-key order and the
    sum of a column over all rows.
\<close>

named_theorems result_simps \<open>inversion of a chain of checks that ends in a result\<close>
named_theorems width_simps \<open>machine-width operations that do not wrap\<close>

subsection \<open>Failing actions\<close>

text \<open>
  A failed \<open>eosio::check\<close>, a missing authority and a WebAssembly trap all abort
  the whole transaction and undo its writes.  An operation therefore returns
  \<open>Inl\<close> of the reason or \<open>Inr\<close> of the new state.
\<close>

datatype error =
    Check string          \<comment> \<open>a failed \<open>check( cond, msg )\<close>\<close>
  | Missing_auth          \<comment> \<open>\<open>require_auth\<close> without the authority\<close>
  | No_row                \<comment> \<open>dereferencing the end iterator of a table\<close>
  | Trap string           \<comment> \<open>a trap of the virtual machine\<close>

type_synonym 'a result = "error + 'a"

lemma check_eq_Inr [result_simps]:
  "((if c then Inl e else x) = Inr r) \<longleftrightarrow> (\<not> c \<and> x = Inr r)"
  by auto

lemma bind_eq_Inr [result_simps]:
  "(case m of Inl e \<Rightarrow> Inl e | Inr x \<Rightarrow> f x) = Inr r \<longleftrightarrow> (\<exists>x. m = Inr x \<and> f x = Inr r)"
  by (cases m) auto

lemma find_eq_Inr [result_simps]:
  "(case m of None \<Rightarrow> Inl e | Some x \<Rightarrow> f x) = Inr r \<longleftrightarrow> (\<exists>x. m = Some x \<and> f x = Inr r)"
  by (cases m) auto

lemma bind_eq_Inr_prod [result_simps]:
  "(case m of Inl e \<Rightarrow> Inl e | Inr (x, y) \<Rightarrow> f x y) = Inr r \<longleftrightarrow>
     (\<exists>x y. m = Inr (x, y) \<and> f x y = Inr r)"
  by (cases m) (auto split: prod.splits)

subsection \<open>Fixed-width integers\<close>

text \<open>
  \<open>int64_t\<close> arithmetic on raw amounts wraps in the WebAssembly target; \<open>uint\<close>
  types are reduced modulo their width.
\<close>

definition i64 :: "int \<Rightarrow> int" where
  "i64 x = (x + 2 ^ 63) mod 2 ^ 64 - 2 ^ 63"

definition u128 :: "int \<Rightarrow> int" where "u128 x = x mod 2 ^ 128"
definition u64 :: "int \<Rightarrow> int" where "u64 x = x mod 2 ^ 64"
definition u32 :: "int \<Rightarrow> int" where "u32 x = x mod 2 ^ 32"
definition u16 :: "int \<Rightarrow> int" where "u16 x = x mod 2 ^ 16"

definition i32 :: "int \<Rightarrow> int" where
  "i32 x = (x + 2 ^ 31) mod 2 ^ 32 - 2 ^ 31"

definition i128 :: "int \<Rightarrow> int" where
  "i128 x = (x + 2 ^ 127) mod 2 ^ 128 - 2 ^ 127"

definition in_i64 :: "int \<Rightarrow> bool" where
  "in_i64 x \<longleftrightarrow> - (2 ^ 63) \<le> x \<and> x < 2 ^ 63"

lemma i64_id [width_simps]: "- (2 ^ 63) \<le> x \<Longrightarrow> x < 2 ^ 63 \<Longrightarrow> i64 x = x"
  by (simp add: i64_def)

lemma i128_id [width_simps]: "- (2 ^ 127) \<le> x \<Longrightarrow> x < 2 ^ 127 \<Longrightarrow> i128 x = x"
  by (simp add: i128_def)

lemma i32_id [width_simps]: "- (2 ^ 31) \<le> x \<Longrightarrow> x < 2 ^ 31 \<Longrightarrow> i32 x = x"
  by (simp add: i32_def)

lemma u128_id [width_simps]: "0 \<le> x \<Longrightarrow> x < 2 ^ 128 \<Longrightarrow> u128 x = x"
  by (simp add: u128_def)

lemma u64_id [width_simps]: "0 \<le> x \<Longrightarrow> x < 2 ^ 64 \<Longrightarrow> u64 x = x"
  by (simp add: u64_def)

lemma u32_id [width_simps]: "0 \<le> x \<Longrightarrow> x < 2 ^ 32 \<Longrightarrow> u32 x = x"
  by (simp add: u32_def)

lemma u16_id [width_simps]: "0 \<le> x \<Longrightarrow> x < 2 ^ 16 \<Longrightarrow> u16 x = x"
  by (simp add: u16_def)

lemma in_i64_i64 [simp]: "in_i64 (i64 x)"
proof -
  have "0 \<le> (x + 2 ^ 63) mod 2 ^ 64" "(x + 2 ^ 63) mod 2 ^ 64 < 2 ^ 64" by simp_all
  then show ?thesis unfolding in_i64_def i64_def by (simp add: algebra_simps)
qed

lemma i64_add_left: "i64 (i64 a + b) = i64 (a + b)"
proof -
  have "i64 a + b + 2 ^ 63 = (a + 2 ^ 63) mod 2 ^ 64 + b" by (simp add: i64_def)
  then have "(i64 a + b + 2 ^ 63) mod 2 ^ 64 = (a + 2 ^ 63 + b) mod 2 ^ 64" by (simp only: mod_add_left_eq)
  then show ?thesis unfolding i64_def [of "i64 a + b"] i64_def [of "a + b"] by (simp add: algebra_simps)
qed

lemma i64_add_right: "i64 (a + i64 b) = i64 (a + b)"
  using i64_add_left [of b a] by (simp add: add.commute)

lemma i64_i64 [simp]: "i64 (i64 a) = i64 a"
  using i64_add_left [of a 0] by simp

lemma u64_add_left: "u64 (u64 a + b) = u64 (a + b)"
  by (simp add: u64_def mod_add_left_eq)

lemma u64_add_right: "u64 (a + u64 b) = u64 (a + b)"
  by (simp add: u64_def mod_add_right_eq)

lemma u64_diff_right: "u64 (a - u64 b) = u64 (a - b)"
  by (simp add: u64_def mod_diff_right_eq)

lemma u64_i64: "u64 (i64 a) = u64 a"
proof -
  have "(i64 a + 2 ^ 63) mod 2 ^ 64 = (a + 2 ^ 63) mod 2 ^ 64" by (simp add: i64_def)
  then have "(i64 a + 2 ^ 63 - 2 ^ 63) mod 2 ^ 64 = (a + 2 ^ 63 - 2 ^ 63) mod 2 ^ 64"
    by (metis mod_diff_left_eq)
  then show ?thesis by (simp add: u64_def)
qed

lemma u64_i64_add: "u64 (a + i64 b) = u64 (a + b)" "u64 (i64 b + a) = u64 (b + a)" "u64 (a - i64 b) = u64 (a - b)"
  "u64 (i64 b - a) = u64 (b - a)"
  using u64_add_right [of a "i64 b"] u64_add_right [of a b] u64_add_left [of "i64 b" a] u64_add_left [of b a]
    u64_diff_right [of a "i64 b"] u64_diff_right [of a b] u64_add_left [of "i64 b" "- a"] u64_add_left [of b "- a"]
  by (simp_all add: u64_i64)

lemmas u64_ring = u64_add_left u64_add_right u64_diff_right u64_i64 u64_i64_add

lemma u64_range [simp]: "0 \<le> u64 x" "u64 x < 2 ^ 64"
  by (simp_all add: u64_def)

lemma u32_range [simp]: "0 \<le> u32 x" "u32 x < 2 ^ 32"
  by (simp_all add: u32_def)

lemma u16_range [simp]: "0 \<le> u16 x" "u16 x < 2 ^ 16"
  by (simp_all add: u16_def)

text \<open>C++ integer division truncates towards zero; a zero divisor traps.\<close>

definition tdiv :: "int \<Rightarrow> int \<Rightarrow> int" where
  "tdiv a b = sgn a * sgn b * (\<bar>a\<bar> div \<bar>b\<bar>)"

definition tmod :: "int \<Rightarrow> int \<Rightarrow> int" where
  "tmod a b = a - b * tdiv a b"

lemma tdiv_nonneg: "0 \<le> a \<Longrightarrow> 0 < b \<Longrightarrow> tdiv a b = a div b"
  by (cases "a = 0") (simp_all add: tdiv_def)

lemma tmod_nonneg: "0 \<le> a \<Longrightarrow> 0 < b \<Longrightarrow> tmod a b = a mod b"
  by (simp add: tmod_def tdiv_nonneg minus_mult_div_eq_mod)

text \<open>
  \<open>int64_t( ( uint128_t(a) * b ) / c )\<close>: the product and the quotient are taken at
  128 bits, the quotient is cut to 64 bits.
\<close>

definition muldiv :: "int \<Rightarrow> int \<Rightarrow> int \<Rightarrow> int result" where
  "muldiv a b c =
     (if u128 c = 0 then Inl (Trap ''division by zero'')
      else Inr (i64 (u128 (u128 a * u128 b) div u128 c)))"

lemma mult_lt_power2: "0 \<le> a \<Longrightarrow> a < 2 ^ m \<Longrightarrow> 0 \<le> b \<Longrightarrow> b < 2 ^ n \<Longrightarrow> a * b < (2::int) ^ (m + n)"
  by (simp add: power_add mult_strict_mono)

lemma muldiv_exact:
  assumes "0 \<le> a" "a < 2 ^ 63" "0 \<le> b" "b < 2 ^ 63" "0 < c" "c < 2 ^ 63"
    and "a * b div c < 2 ^ 63"
  shows "muldiv a b c = Inr (a * b div c)"
proof -
  have ab: "a * b < 2 ^ 128"
    using mult_lt_power2 [OF assms(1,2,3,4)] by simp
  have "0 \<le> a * b div c" using assms by (simp add: pos_imp_zdiv_nonneg_iff)
  then show ?thesis using assms ab by (simp add: muldiv_def width_simps)
qed

subsection \<open>Tables\<close>

text \<open>
  A multi-index table maps a primary key to a row and holds finitely many rows:
  a finite map.  \<open>find\<close> is \<open>fmlookup\<close>, \<open>emplace\<close> and \<open>modify\<close> are \<open>fmupd\<close>,
  \<open>erase\<close> is \<open>fmdrop\<close>.  Iterating over the table visits the rows in the order of
  the primary key; a secondary index sorts them by its key, and rows with equal
  keys stay in primary-key order.
\<close>

definition rows :: "('k::linorder, 'v) fmap \<Rightarrow> 'v list" where
  "rows m = map (\<lambda>k. the (fmlookup m k)) (sorted_list_of_fset (fmdom m))"

definition fmsum :: "('v \<Rightarrow> 'b::comm_monoid_add) \<Rightarrow> ('k, 'v) fmap \<Rightarrow> 'b" where
  "fmsum f m = (\<Sum>k\<in>fset (fmdom m). f (the (fmlookup m k)))"

definition fmval :: "('v \<Rightarrow> 'b::zero) \<Rightarrow> 'v option \<Rightarrow> 'b" where
  "fmval f x = (case x of None \<Rightarrow> 0 | Some v \<Rightarrow> f v)"

lemma fmval_simps [simp]: "fmval f None = 0" "fmval f (Some v) = f v"
  by (simp_all add: fmval_def)

lemma fmsum_empty [simp]: "fmsum f fmempty = 0"
  by (simp add: fmsum_def)

lemma fmsum_remove:
  "fmsum f m = fmval f (fmlookup m k) + (\<Sum>k\<in>fset (fmdom m) - {k}. f (the (fmlookup m k)))"
proof (cases "k |\<in>| fmdom m")
  case True
  then obtain v where "fmlookup m k = Some v" by (auto simp: fmlookup_dom_iff)
  with True show ?thesis
    by (simp add: fmsum_def sum.remove [of "fset (fmdom m)" k])
next
  case False
  then have "fmlookup m k = None" by (simp add: fmdom_notD)
  with False show ?thesis by (simp add: fmsum_def)
qed

lemma fmsum_upd:
  fixes f :: "'v \<Rightarrow> 'b::ab_group_add"
  shows "fmsum f (fmupd k v m) = fmsum f m - fmval f (fmlookup m k) + f v"
proof -
  have "(\<Sum>x\<in>fset (fmdom m) - {k}. f (the (fmlookup (fmupd k v m) x))) =
        (\<Sum>x\<in>fset (fmdom m) - {k}. f (the (fmlookup m x)))"
    by (rule sum.cong) auto
  then show ?thesis
    using fmsum_remove [of f "fmupd k v m" k] fmsum_remove [of f m k] by simp
qed

lemma fmsum_drop:
  fixes f :: "'v \<Rightarrow> 'b::ab_group_add"
  shows "fmsum f (fmdrop k m) = fmsum f m - fmval f (fmlookup m k)"
proof -
  have "(\<Sum>x\<in>fset (fmdom m) - {k}. f (the (fmlookup (fmdrop k m) x))) =
        (\<Sum>x\<in>fset (fmdom m) - {k}. f (the (fmlookup m x)))"
    by (rule sum.cong) auto
  then show ?thesis
    using fmsum_remove [of f "fmdrop k m" k] fmsum_remove [of f m k] by simp
qed

lemma fmsum_nonneg:
  fixes f :: "'v \<Rightarrow> 'b::ordered_comm_monoid_add"
  assumes "\<And>k v. fmlookup m k = Some v \<Longrightarrow> 0 \<le> f v"
  shows "0 \<le> fmsum f m"
  unfolding fmsum_def
proof (rule sum_nonneg)
  fix k assume "k \<in> fset (fmdom m)"
  then obtain v where "fmlookup m k = Some v" by (auto simp: fmlookup_dom_iff)
  then show "0 \<le> f (the (fmlookup m k))" using assms by auto
qed

lemma fmsum_ge_row:
  fixes f :: "'v \<Rightarrow> 'b::ordered_ab_group_add"
  assumes "\<And>k v. fmlookup m k = Some v \<Longrightarrow> 0 \<le> f v" and "fmlookup m k = Some v"
  shows "f v \<le> fmsum f m"
proof -
  have "0 \<le> fmsum f (fmdrop k m)" by (rule fmsum_nonneg) (auto simp: assms(1) split: if_splits)
  then show ?thesis using assms(2) by (simp add: fmsum_drop)
qed

lemma set_rows: "set (rows m) = {v. \<exists>k. fmlookup m k = Some v}"
  by (force simp: rows_def fmlookup_dom_iff)

lemma length_rows: "length (rows m) = fcard (fmdom m)"
  by (simp add: rows_def sorted_list_of_fset.rep_eq fcard.rep_eq)

end
