(* ===== verification/IEEE_Double.thy ===== *)
theory IEEE_Double
  imports Prelude
begin

section \<open>IEEE-754 binary64 arithmetic\<close>

text \<open>
  The contracts compute prices, vote weights and rewards with C++ \<open>double\<close>.
  This theory models the finite doubles as the rational numbers they denote,
  with every operation rounded to nearest, ties to even, at 53 bits of
  precision, down to the subnormal grid \<open>2 powi -1074\<close> and up to the overflow
  threshold.  Infinities and NaN are values of their own.  The one thing left
  out is the sign of zero, which only a division by zero could observe; every
  zero here is the positive one.
\<close>

subsection \<open>Rounding\<close>

function ilog2 :: "int \<Rightarrow> int" where
  "ilog2 n = (if n < 2 then 0 else 1 + ilog2 (n div 2))"
  by pat_completeness auto
termination
  by (relation "measure nat") auto

declare ilog2.simps [simp del]

definition flog2 :: "rat \<Rightarrow> int" where
  "flog2 x = (let (a, b) = quotient_of x; k = ilog2 a - ilog2 b
              in if 2 powi k \<le> x then k else k - 1)"

definition rne :: "rat \<Rightarrow> int" where
  "rne x = (let f = \<lfloor>x\<rfloor>; d = x - of_int f
            in if d < 1/2 then f else if d > 1/2 then f + 1 else if even f then f else f + 1)"

definition dexp :: "rat \<Rightarrow> int" where
  "dexp x = (if x = 0 then -1074 else max (flog2 \<bar>x\<bar> - 52) (-1074))"

definition rv :: "rat \<Rightarrow> rat" where
  "rv x = of_int (rne (x / 2 powi dexp x)) * 2 powi dexp x"

subsection \<open>Facts about rounding\<close>

lemma ilog2_nonneg: "0 \<le> ilog2 n"
proof (induction n rule: ilog2.induct)
  case (1 n)
  then show ?case by (cases "n < 2") (simp_all add: ilog2.simps [of n])
qed

lemma ilog2_bounds: "0 < n \<Longrightarrow> 2 powi ilog2 n \<le> (of_int n :: rat) \<and> of_int n < 2 * (2::rat) powi ilog2 n"
proof (induction n rule: ilog2.induct)
  case (1 n)
  show ?case
  proof (cases "n < 2")
    case True
    with 1 have "n = 1" by simp
    moreover have "ilog2 1 = 0" by (subst ilog2.simps) simp
    ultimately show ?thesis by (simp only: of_int_1 power_int_0_right) simp
  next
    case False
    define h where "h = n div 2"
    from False 1 have IH: "2 powi ilog2 h \<le> (of_int h :: rat)" "of_int h < 2 * (2::rat) powi ilog2 h"
      by (simp_all add: h_def)
    have pw: "(2::rat) powi ilog2 h = of_int (2 ^ nat (ilog2 h))"
      using ilog2_nonneg [of h] by (simp add: power_int_def)
    have h: "2 ^ nat (ilog2 h) \<le> h" "h < 2 * 2 ^ nat (ilog2 h)"
    proof -
      have "(of_int (2 ^ nat (ilog2 h)) :: rat) \<le> of_int h" using IH(1) pw by simp
      then show "2 ^ nat (ilog2 h) \<le> h" by (simp only: of_int_le_iff)
      have "(of_int h :: rat) < of_int (2 * 2 ^ nat (ilog2 h))" using IH(2) pw by simp
      then show "h < 2 * 2 ^ nat (ilog2 h)" by (simp only: of_int_less_iff)
    qed
    have "2 * 2 ^ nat (ilog2 h) \<le> n" "n < 2 * (2 * 2 ^ nat (ilog2 h))"
      using h unfolding h_def by linarith+
    then have n: "(of_int (2 * 2 ^ nat (ilog2 h)) :: rat) \<le> of_int n"
      "(of_int n :: rat) < of_int (2 * (2 * 2 ^ nat (ilog2 h)))"
      by (simp_all only: of_int_le_iff of_int_less_iff)
    have "(2::rat) powi ilog2 n = 2 * 2 powi ilog2 h"
      using False by (simp add: ilog2.simps [of n] h_def power_int_add)
    with n show ?thesis unfolding pw by simp
  qed
qed

lemmas ilog2_bounds_rat = ilog2_bounds [THEN conjunct1] ilog2_bounds [THEN conjunct2]

lemma flog2_bounds:
  assumes "0 < x"
  shows "2 powi flog2 x \<le> x \<and> x < 2 powi (flog2 x + 1)"
proof -
  obtain a b where ab: "quotient_of x = (a, b)" by force
  then have b: "0 < b" by (rule quotient_of_denom_pos)
  have x: "x = of_int a / of_int b" using ab by (rule quotient_of_div)
  with assms b have a: "0 < a" by (simp add: zero_less_divide_iff)
  define k where "k = ilog2 a - ilog2 b"
  have split: "(2::rat) powi k = 2 powi ilog2 a / 2 powi ilog2 b"
    by (simp add: k_def power_int_diff)
  have pos: "0 < (2::rat) powi ilog2 b" by simp
  have lower: "2 powi (k - 1) \<le> x"
  proof -
    have "(2::rat) powi (k - 1) = 2 powi k / 2" by (simp add: power_int_diff)
    also have "\<dots> = 2 powi ilog2 a / (2 * 2 powi ilog2 b)" by (simp add: split)
    also have "\<dots> \<le> of_int a / of_int b"
      using ilog2_bounds_rat [OF a] ilog2_bounds_rat [OF b] a b by (intro frac_le) auto
    finally show ?thesis by (simp add: x)
  qed
  have upper: "x < 2 powi (k + 1)"
  proof -
    have "of_int a / of_int b < (2 * 2 powi ilog2 a) / (2::rat) powi ilog2 b"
      using ilog2_bounds_rat [OF a] ilog2_bounds_rat [OF b] b a
      by (intro frac_less) auto
    also have "\<dots> = 2 powi (k + 1)" by (simp add: split power_int_add)
    finally show ?thesis by (simp add: x)
  qed
  have "flog2 x = (if 2 powi k \<le> x then k else k - 1)"
    by (simp add: flog2_def ab k_def Let_def)
  with lower upper show ?thesis by (auto simp: not_le)
qed

lemma powi2_le_iff: "(2::rat) powi m \<le> 2 powi n \<longleftrightarrow> m \<le> n"
proof
  assume "m \<le> n"
  then show "(2::rat) powi m \<le> 2 powi n" by (intro power_int_increasing) auto
next
  assume le: "(2::rat) powi m \<le> 2 powi n"
  show "m \<le> n"
  proof (rule ccontr)
    assume "\<not> m \<le> n"
    then have "(2::rat) powi n < 2 powi m" by (intro power_int_strict_increasing) auto
    with le show False by simp
  qed
qed

lemma powi2_less_iff: "(2::rat) powi m < 2 powi n \<longleftrightarrow> m < n"
  using powi2_le_iff [of n m] by (simp add: not_le [symmetric])

lemma flog2_le: "0 < x \<Longrightarrow> x < 2 powi (k + 1) \<Longrightarrow> flog2 x \<le> k"
proof -
  assume "0 < x" "x < 2 powi (k + 1)"
  with flog2_bounds have "2 powi flog2 x < (2::rat) powi (k + 1)" by (meson le_less_trans)
  then show ?thesis by (simp add: powi2_less_iff)
qed

lemma flog2_mono: "0 < x \<Longrightarrow> x \<le> y \<Longrightarrow> flog2 x \<le> flog2 y"
  using flog2_bounds [of x] flog2_bounds [of y] flog2_le [of x "flog2 y"] by fastforce

lemma rne_bounds: "\<bar>of_int (rne x) - x\<bar> \<le> 1/2"
proof -
  define d where "d = x - of_int \<lfloor>x\<rfloor>"
  have d: "0 \<le> d" "d < 1" unfolding d_def by linarith+
  have "of_int (rne x) - x = (if d < 1/2 \<or> d = 1/2 \<and> even \<lfloor>x\<rfloor> then - d else 1 - d)"
    by (auto simp: rne_def Let_def d_def [symmetric]) (simp_all add: d_def)
  then show ?thesis using d by auto
qed

lemma rne_of_int [simp]: "rne (of_int n) = n"
  by (simp add: rne_def)

lemma rne_mono: "x \<le> y \<Longrightarrow> rne x \<le> rne y"
proof -
  assume xy: "x \<le> y"
  have f: "\<lfloor>x\<rfloor> \<le> \<lfloor>y\<rfloor>" using xy by (rule floor_mono)
  consider "\<lfloor>x\<rfloor> = \<lfloor>y\<rfloor>" | "\<lfloor>x\<rfloor> + 1 \<le> \<lfloor>y\<rfloor>" using f by linarith
  then show ?thesis
  proof cases
    case 1
    then show ?thesis using xy by (auto simp: rne_def Let_def)
  next
    case 2
    have "rne x \<le> \<lfloor>x\<rfloor> + 1" "\<lfloor>y\<rfloor> \<le> rne y" by (auto simp: rne_def Let_def)
    with 2 show ?thesis by linarith
  qed
qed

lemma rne_minus: "rne (- x) = - rne x"
proof (cases "x = of_int \<lfloor>x\<rfloor>")
  case True
  then obtain n where "x = of_int n" by blast
  then show ?thesis using rne_of_int [of "- n"] by simp
next
  case False
  have lt: "of_int \<lfloor>x\<rfloor> < x" "x < of_int \<lfloor>x\<rfloor> + 1" using False by linarith+
  then have "\<lfloor>- x\<rfloor> = - \<lfloor>x\<rfloor> - 1" by (intro floor_unique) auto
  with lt show ?thesis by (auto simp: rne_def Let_def)
qed

lemma rne_le_int: "x \<le> of_int n \<Longrightarrow> rne x \<le> n"
  using rne_mono [of x "of_int n"] by simp

lemma rne_ge_int: "of_int n \<le> x \<Longrightarrow> n \<le> rne x"
  using rne_mono [of "of_int n" x] by simp

lemma dexp_minus [simp]: "dexp (- x) = dexp x"
  by (simp add: dexp_def)

lemma rv_minus: "rv (- x) = - rv x"
  using rne_minus [of "x / 2 powi dexp x"] by (simp add: rv_def)

lemma rv_0 [simp]: "rv 0 = 0"
  using rne_of_int [of 0] by (simp add: rv_def)

lemma rv_nonneg: "0 \<le> x \<Longrightarrow> 0 \<le> rv x"
  using rne_ge_int [of 0 "x / 2 powi dexp x"] by (simp add: rv_def)

lemma rv_mono_pos:
  assumes x: "0 < x" and xy: "x \<le> y"
  shows "rv x \<le> rv y"
proof -
  have y: "0 < y" using x xy by simp
  have fl: "flog2 x \<le> flog2 y" using x xy by (rule flog2_mono)
  then have de: "dexp x \<le> dexp y" using x y by (simp add: dexp_def)
  show ?thesis
  proof (cases "dexp x = dexp y")
    case True
    then have "rne (x / 2 powi dexp x) \<le> rne (y / 2 powi dexp y)"
      using xy by (intro rne_mono) (simp add: divide_right_mono)
    then show ?thesis using True by (simp add: rv_def mult_right_mono)
  next
    case False
    with de have lt: "dexp x < dexp y" by simp
    then have ey: "dexp y = flog2 y - 52" and ex: "flog2 x < flog2 y" "dexp x \<le> flog2 y"
      using x y fl by (auto simp: dexp_def max_def split: if_splits)
    define B where "B = (2::rat) powi flog2 y"
    have "x \<le> B"
    proof -
      have "x < 2 powi (flog2 x + 1)" using flog2_bounds [OF x] by simp
      also have "\<dots> \<le> B" unfolding B_def using ex(1) by (simp add: powi2_le_iff)
      finally show ?thesis by simp
    qed
    then have "x / 2 powi dexp x \<le> B / 2 powi dexp x" by (simp add: divide_right_mono)
    also have "\<dots> = 2 powi (flog2 y - dexp x)" by (simp add: B_def power_int_diff)
    also have "\<dots> = of_int (2 ^ nat (flog2 y - dexp x))" using ex(2) by (simp add: power_int_def)
    finally have "rne (x / 2 powi dexp x) \<le> 2 ^ nat (flog2 y - dexp x)" by (rule rne_le_int)
    then have "of_int (rne (x / 2 powi dexp x)) \<le> (2::rat) powi (flog2 y - dexp x)"
      using ex(2) by (simp add: power_int_def)
    then have "rv x \<le> 2 powi (flog2 y - dexp x) * 2 powi dexp x"
      unfolding rv_def by (rule mult_right_mono) simp
    also have "\<dots> = B" by (simp add: B_def power_int_diff)
    finally have 1: "rv x \<le> B" .
    have By: "B = 2 ^ 52 * 2 powi dexp y"
      by (simp add: B_def ey power_int_diff)
    have "B \<le> y" unfolding B_def using flog2_bounds [OF y] by simp
    then have "of_int (2 ^ 52) \<le> y / 2 powi dexp y" by (simp add: By field_simps)
    then have "2 ^ 52 \<le> rne (y / 2 powi dexp y)" by (rule rne_ge_int)
    then have "(2::rat) ^ 52 \<le> of_int (rne (y / 2 powi dexp y))"
      by (metis of_int_le_iff of_int_numeral of_int_power)
    then have "B \<le> rv y" unfolding By rv_def by (rule mult_right_mono) simp
    with 1 show ?thesis by simp
  qed
qed

lemma rv_mono: "x \<le> y \<Longrightarrow> rv x \<le> rv y"
proof -
  assume xy: "x \<le> y"
  consider "0 < x" | "x \<le> 0" "0 \<le> y" | "y < 0" using xy by linarith
  then show ?thesis
  proof cases
    case 1 then show ?thesis using xy by (rule rv_mono_pos)
  next
    case 2
    then have "0 \<le> rv (- x)" "0 \<le> rv y" by (simp_all add: rv_nonneg)
    then show ?thesis by (simp add: rv_minus)
  next
    case 3
    then have "rv (- y) \<le> rv (- x)" using xy by (intro rv_mono_pos) auto
    then show ?thesis by (simp add: rv_minus)
  qed
qed


lemma rv_exact_lt:
  assumes "\<bar>m\<bar> < 2 ^ 53" and "-1074 \<le> e"
  shows "rv (of_int m * 2 powi e) = of_int m * 2 powi e"
proof (cases "m = 0")
  case False
  let ?x = "of_int m * (2::rat) powi e"
  have ax: "\<bar>?x\<bar> = of_int \<bar>m\<bar> * 2 powi e" by (simp add: abs_mult)
  have "(of_int \<bar>m\<bar> :: rat) < of_int (2 ^ 53)" using assms(1) by (rule of_int_less_iff [THEN iffD2])
  then have "\<bar>?x\<bar> < 2 ^ 53 * 2 powi e" unfolding ax by (intro mult_strict_right_mono) auto
  also have "\<dots> = 2 powi (e + 52 + 1)" by (simp add: power_int_add)
  finally have "flog2 \<bar>?x\<bar> \<le> e + 52" using False by (intro flog2_le) auto
  then have le: "dexp ?x \<le> e" using assms(2) False by (simp add: dexp_def)
  have "?x / 2 powi dexp ?x = of_int m * 2 powi (e - dexp ?x)" by (simp add: power_int_diff)
  also have "\<dots> = of_int (m * 2 ^ nat (e - dexp ?x))" using le by (simp add: power_int_def)
  finally have "rv ?x = of_int (m * 2 ^ nat (e - dexp ?x)) * 2 powi dexp ?x"
    unfolding rv_def by (simp only: rne_of_int)
  also have "\<dots> = of_int m * 2 powi (e - dexp ?x) * 2 powi dexp ?x" using le by (simp add: power_int_def)
  also have "\<dots> = ?x" by (simp add: power_int_diff)
  finally show ?thesis .
qed simp

lemma rv_exact:
  assumes "\<bar>m\<bar> \<le> 2 ^ 53" and "-1074 \<le> e"
  shows "rv (of_int m * 2 powi e) = of_int m * 2 powi e"
proof (cases "\<bar>m\<bar> = 2 ^ 53")
  case True
  then consider "m = 2 ^ 53" | "m = - (2 ^ 53)" by linarith
  then have "m = 2 * (m div 2)" "\<bar>m div 2\<bar> < 2 ^ 53" by (cases; simp)+
  then have "(of_int m :: rat) = 2 * of_int (m div 2)" by (metis of_int_mult of_int_numeral)
  then have "of_int m * (2::rat) powi e = of_int (m div 2) * 2 powi (e + 1)"
    by (simp add: power_int_add)
  then show ?thesis using rv_exact_lt [of "m div 2" "e + 1"] assms(2) \<open>\<bar>m div 2\<bar> < 2 ^ 53\<close> by simp
qed (use assms rv_exact_lt in auto)

lemma rv_int: "\<bar>m\<bar> \<le> 2 ^ 53 \<Longrightarrow> rv (of_int m) = of_int m"
  using rv_exact [of m 0] by simp

lemma rv_half: "\<bar>m\<bar> \<le> 2 ^ 53 \<Longrightarrow> rv (of_int m / 2) = of_int m / 2"
  using rv_exact [of m "-1"] by (simp only: power_int_minus1_right divide_inverse)

lemma rv_error: "\<bar>rv x - x\<bar> \<le> 2 powi dexp x / 2"
proof -
  let ?g = "(2::rat) powi dexp x"
  have "rv x - x = (of_int (rne (x / ?g)) - x / ?g) * ?g" by (simp add: rv_def left_diff_distrib)
  then have "\<bar>rv x - x\<bar> = \<bar>of_int (rne (x / ?g)) - x / ?g\<bar> * ?g" by (simp add: abs_mult)
  also have "\<dots> \<le> 1/2 * ?g" by (rule mult_right_mono [OF rne_bounds]) simp
  finally show ?thesis by simp
qed

lemma rv_rel_error:
  assumes "2 powi (-1022) \<le> \<bar>x\<bar>"
  shows "\<bar>rv x - x\<bar> \<le> \<bar>x\<bar> / 2 ^ 53"
proof -
  have x: "0 < \<bar>x\<bar>" using assms by (meson less_le_trans zero_less_numeral zero_less_power_int)
  have "(2::rat) powi (-1022) < 2 powi (flog2 \<bar>x\<bar> + 1)" using assms flog2_bounds [OF x] by linarith
  then have "-1022 \<le> flog2 \<bar>x\<bar>" by (simp only: powi2_less_iff)
  then have "dexp x = flog2 \<bar>x\<bar> - 52" using x by (auto simp: dexp_def)
  then have "(2::rat) powi dexp x = 2 powi flog2 \<bar>x\<bar> / 2 ^ 52" by (simp add: power_int_diff)
  also have "\<dots> \<le> \<bar>x\<bar> / 2 ^ 52" using flog2_bounds [OF x] by (intro divide_right_mono) auto
  finally show ?thesis using rv_error [of x] by simp
qed

lemma rv_code [code]: "rv x = (if x = 0 then 0 else of_int (rne (x / 2 powi dexp x)) * 2 powi dexp x)"
  by (simp add: rv_def rne_def)

subsection \<open>Doubles and their operations\<close>

datatype double = Fin rat | PInf | MInf | NaN

definition rnd :: "rat \<Rightarrow> double" where
  "rnd x = (let r = rv x
            in if r = 0 \<or> flog2 \<bar>r\<bar> < 1024 then Fin r else if 0 < r then PInf else MInf)"

definition d_of_int :: "int \<Rightarrow> double" where
  "d_of_int n = rnd (of_int n)"

fun dneg :: "double \<Rightarrow> double" where
  "dneg (Fin a) = Fin (- a)"
| "dneg PInf = MInf"
| "dneg MInf = PInf"
| "dneg NaN = NaN"

fun dadd :: "double \<Rightarrow> double \<Rightarrow> double" where
  "dadd (Fin a) (Fin b) = rnd (a + b)"
| "dadd NaN _ = NaN"
| "dadd _ NaN = NaN"
| "dadd PInf MInf = NaN"
| "dadd MInf PInf = NaN"
| "dadd PInf _ = PInf"
| "dadd _ PInf = PInf"
| "dadd MInf _ = MInf"
| "dadd _ MInf = MInf"

definition dsub :: "double \<Rightarrow> double \<Rightarrow> double" where
  "dsub a b = dadd a (dneg b)"

fun dsgn :: "double \<Rightarrow> int" where
  "dsgn (Fin a) = (if 0 < a then 1 else if a < 0 then -1 else 0)"
| "dsgn PInf = 1"
| "dsgn MInf = -1"
| "dsgn NaN = 0"

definition dinf :: "int \<Rightarrow> double" where
  "dinf s = (if 0 < s then PInf else if s < 0 then MInf else NaN)"

fun dmul :: "double \<Rightarrow> double \<Rightarrow> double" where
  "dmul (Fin a) (Fin b) = rnd (a * b)"
| "dmul NaN _ = NaN"
| "dmul _ NaN = NaN"
| "dmul a b = dinf (dsgn a * dsgn b)"

text \<open>A finite number divided by (positive) zero is an infinity of its sign, \<open>0/0\<close> is NaN.\<close>

fun ddiv :: "double \<Rightarrow> double \<Rightarrow> double" where
  "ddiv (Fin a) (Fin b) = (if b = 0 then dinf (dsgn (Fin a)) else rnd (a / b))"
| "ddiv NaN _ = NaN"
| "ddiv _ NaN = NaN"
| "ddiv (Fin a) _ = Fin 0"
| "ddiv a (Fin b) = dinf (dsgn a * (if b < 0 then -1 else 1))"
| "ddiv _ _ = NaN"

fun dlt :: "double \<Rightarrow> double \<Rightarrow> bool" where
  "dlt (Fin a) (Fin b) \<longleftrightarrow> a < b"
| "dlt NaN _ \<longleftrightarrow> False"
| "dlt _ NaN \<longleftrightarrow> False"
| "dlt MInf b \<longleftrightarrow> b \<noteq> MInf"
| "dlt a PInf \<longleftrightarrow> a \<noteq> PInf"
| "dlt _ _ \<longleftrightarrow> False"

definition dle :: "double \<Rightarrow> double \<Rightarrow> bool" where
  "dle a b \<longleftrightarrow> dlt a b \<or> a = b \<and> a \<noteq> NaN"

text \<open>
  Casting to \<open>int64_t\<close> truncates towards zero; a value outside the range, an
  infinity or NaN traps in WebAssembly (it is undefined in C++).
\<close>

definition rtrunc :: "rat \<Rightarrow> int" where
  "rtrunc x = (if 0 \<le> x then \<lfloor>x\<rfloor> else - \<lfloor>- x\<rfloor>)"

fun d_to_i64 :: "double \<Rightarrow> int result" where
  "d_to_i64 (Fin a) =
     (if - (2 ^ 63) \<le> rtrunc a \<and> rtrunc a < 2 ^ 63 then Inr (rtrunc a)
      else Inl (Trap ''integer overflow''))"
| "d_to_i64 _ = Inl (Trap ''integer overflow'')"

fun d_to_u32 :: "double \<Rightarrow> int result" where
  "d_to_u32 (Fin a) =
     (if 0 \<le> rtrunc a \<and> rtrunc a < 2 ^ 32 then Inr (rtrunc a)
      else Inl (Trap ''integer overflow''))"
| "d_to_u32 _ = Inl (Trap ''integer overflow'')"

fun dceil :: "double \<Rightarrow> double" where
  "dceil (Fin a) = rnd (of_int \<lceil>a\<rceil>)"
| "dceil d = d"

definition dmin :: "double \<Rightarrow> double \<Rightarrow> double" where
  "dmin a b = (if dlt b a then b else a)"

subsection \<open>Facts about the operations\<close>

lemma rnd_Fin: "\<bar>rv x\<bar> < 2 powi 1024 \<Longrightarrow> rnd x = Fin (rv x)"
proof (cases "rv x = 0")
  case False
  assume "\<bar>rv x\<bar> < 2 powi 1024"
  then have "flog2 \<bar>rv x\<bar> \<le> 1023" using False flog2_le [of "\<bar>rv x\<bar>" 1023]
    by (simp only: zero_less_abs_iff) simp
  then show ?thesis by (simp add: rnd_def Let_def)
qed (simp add: rnd_def)

lemma rv_abs_le: "\<bar>x\<bar> \<le> of_int m * 2 powi e \<Longrightarrow> \<bar>m\<bar> \<le> 2 ^ 53 \<Longrightarrow> -1074 \<le> e \<Longrightarrow> \<bar>rv x\<bar> \<le> of_int m * 2 powi e"
  using rv_mono [of x "of_int m * 2 powi e"] rv_mono [of "- x" "of_int m * 2 powi e"] rv_exact [of m e]
  by (simp add: abs_le_iff rv_minus)

lemma rnd_small:
  assumes "\<bar>x\<bar> \<le> 2 ^ 200"
  shows "rnd x = Fin (rv x)"
proof -
  have "\<bar>rv x\<bar> \<le> of_int 1 * 2 powi 200" using assms by (intro rv_abs_le) auto
  also have "\<dots> < 2 powi 1024" by (simp only: powi2_less_iff of_int_1 mult_1)
  finally show ?thesis by (rule rnd_Fin)
qed

lemma d_of_int_exact: "\<bar>n\<bar> \<le> 2 ^ 53 \<Longrightarrow> d_of_int n = Fin (of_int n)"
proof -
  assume n: "\<bar>n\<bar> \<le> 2 ^ 53"
  have "(of_int \<bar>n\<bar> :: rat) \<le> of_int (2 ^ 53)" using n by (rule of_int_le_iff [THEN iffD2])
  then have "\<bar>of_int n :: rat\<bar> \<le> 2 ^ 200" by simp
  then show ?thesis using n by (simp add: d_of_int_def rnd_small rv_int)
qed

lemma rtrunc_nonneg: "0 \<le> x \<Longrightarrow> rtrunc x = \<lfloor>x\<rfloor>"
  by (simp add: rtrunc_def)

lemma rtrunc_mono: "x \<le> y \<Longrightarrow> rtrunc x \<le> rtrunc y"
proof -
  assume xy: "x \<le> y"
  consider "0 \<le> x" | "x < 0" "0 \<le> y" | "y < 0" using xy by linarith
  then show ?thesis
  proof cases
    case 1 with xy show ?thesis by (simp add: rtrunc_def floor_mono)
  next
    case 2
    then have "0 \<le> \<lfloor>- x\<rfloor>" "0 \<le> \<lfloor>y\<rfloor>" by simp_all
    moreover have "rtrunc x = - \<lfloor>- x\<rfloor>" "rtrunc y = \<lfloor>y\<rfloor>" using 2 by (simp_all only: rtrunc_def) auto
    ultimately show ?thesis by linarith
  next
    case 3 with xy show ?thesis by (simp add: rtrunc_def floor_mono)
  qed
qed

lemma rtrunc_of_int [simp]: "rtrunc (of_int n) = n"
  using floor_of_int [of "- n"] by (simp add: rtrunc_def)

subsection \<open>The order of a secondary index\<close>

text \<open>
  A table index on a double orders its rows numerically, the infinities at the ends; the chain
  refuses a NaN as a key, and its place in the order is never observed.
\<close>

fun drank :: "double \<Rightarrow> nat \<times> rat" where
  "drank MInf = (0, 0)"
| "drank (Fin x) = (1, x)"
| "drank PInf = (2, 0)"
| "drank NaN = (3, 0)"

lemma drank_inject: "drank x = drank y \<longleftrightarrow> x = y"
  by (cases x; cases y) simp_all

instantiation double :: linorder
begin

definition less_eq_double :: "double \<Rightarrow> double \<Rightarrow> bool" where
  "less_eq_double x y \<longleftrightarrow> fst (drank x) < fst (drank y) \<or> fst (drank x) = fst (drank y) \<and> snd (drank x) \<le> snd (drank y)"

definition less_double :: "double \<Rightarrow> double \<Rightarrow> bool" where
  "less_double x y \<longleftrightarrow> fst (drank x) < fst (drank y) \<or> fst (drank x) = fst (drank y) \<and> snd (drank x) < snd (drank y)"

instance
proof
  fix x y z :: double
  show "(x < y) = (x \<le> y \<and> \<not> y \<le> x)" by (auto simp: less_eq_double_def less_double_def)
  show "x \<le> x" by (simp add: less_eq_double_def)
  show "x \<le> y \<Longrightarrow> y \<le> z \<Longrightarrow> x \<le> z" by (auto simp: less_eq_double_def)
  show "x \<le> y \<Longrightarrow> y \<le> x \<Longrightarrow> x = y" by (auto simp: less_eq_double_def drank_inject [symmetric] prod_eq_iff)
  show "x \<le> y \<or> y \<le> x" by (auto simp: less_eq_double_def)
qed

end

end
