(* ===== verification/Chain_Env.thy ===== *)
theory Chain_Env
  imports IEEE_Double
begin

section \<open>What the contracts take from the chain and the contract SDK\<close>

text \<open>
  The contracts are compiled against the contract development kit and run inside
  the node; neither is part of this repository.  What they call is gathered in one
  record \<open>env\<close>, an argument of every operation that uses it:
  \<^item> the context of the action (\<open>get_self\<close>, \<open>require_auth\<close>, \<open>is_account\<close>, the
    clocks);
  \<^item> the arithmetic of the \<open>asset\<close> class, which aborts when symbols differ or an
    amount leaves its range;
  \<^item> the transcendental functions of the C library on doubles.
  The locale \<open>chain_laws\<close> states the documented behaviour the contracts rely on.
\<close>

type_synonym name = "64 word"
type_synonym symcode = "64 word"
type_synonym permission_level = "name \<times> name"

record symbol =
  scode :: symcode
  sprec :: "8 word"

record asset =
  amount :: int
  sym :: symbol

record env =
  get_self :: name
  has_auth :: "name \<Rightarrow> bool"
  has_perm :: "permission_level \<Rightarrow> bool"
  is_account :: "name \<Rightarrow> bool"
  current_time :: int             \<comment> \<open>\<open>current_time_point()\<close>, microseconds\<close>
  current_sec :: int              \<comment> \<open>\<open>time_point_sec( current_time_point() )\<close>, seconds\<close>
  current_slot :: int             \<comment> \<open>\<open>current_block_time().slot\<close>\<close>
  slot_to_time :: "int \<Rightarrow> int"    \<comment> \<open>\<open>block_timestamp\<close> to \<open>time_point\<close>\<close>
  time_to_slot :: "int \<Rightarrow> int"    \<comment> \<open>\<open>time_point\<close> to \<open>block_timestamp\<close>\<close>
  name_suffix :: "name \<Rightarrow> name"
  to_string :: "name \<Rightarrow> string"
  asset_new :: "int \<Rightarrow> symbol \<Rightarrow> asset result"
  asset_add :: "asset \<Rightarrow> asset \<Rightarrow> asset result"
  asset_sub :: "asset \<Rightarrow> asset \<Rightarrow> asset result"
  asset_neg :: "asset \<Rightarrow> asset"
  asset_le :: "asset \<Rightarrow> asset \<Rightarrow> bool result"
  asset_valid :: "asset \<Rightarrow> bool"
  symbol_valid :: "symbol \<Rightarrow> bool"
  std_pow :: "double \<Rightarrow> double \<Rightarrow> double"
  std_sin :: "double \<Rightarrow> double"
  std_exp :: "double \<Rightarrow> double"
  std_log1p :: "double \<Rightarrow> double"

definition max_amount :: int where
  "max_amount = 2 ^ 62 - 1"

text \<open>
  The documented contract of \<open>asset\<close>: a result is the exact sum or difference of
  two assets of the same symbol and stays within \<open>max_amount\<close>; an operation whose
  exact result is in range does not abort; a comparison needs equal symbols.
\<close>

locale chain_laws =
  fixes E :: env
  assumes new_exact: "asset_new E n y = Inr a \<Longrightarrow> a = \<lparr>amount = n, sym = y\<rparr>"
    and new_range: "asset_new E n y = Inr a \<Longrightarrow> \<bar>n\<bar> \<le> max_amount"
    and new_ok: "symbol_valid E y \<Longrightarrow> \<bar>n\<bar> \<le> max_amount \<Longrightarrow> asset_new E n y = Inr \<lparr>amount = n, sym = y\<rparr>"
    and add_exact: "asset_add E a b = Inr c \<Longrightarrow>
          sym b = sym a \<and> c = \<lparr>amount = amount a + amount b, sym = sym a\<rparr> \<and> \<bar>amount c\<bar> \<le> max_amount"
    and add_ok: "sym a = sym b \<Longrightarrow> \<bar>amount a + amount b\<bar> \<le> max_amount \<Longrightarrow>
          asset_add E a b = Inr \<lparr>amount = amount a + amount b, sym = sym a\<rparr>"
    and sub_exact: "asset_sub E a b = Inr c \<Longrightarrow>
          sym b = sym a \<and> c = \<lparr>amount = amount a - amount b, sym = sym a\<rparr> \<and> \<bar>amount c\<bar> \<le> max_amount"
    and sub_ok: "sym a = sym b \<Longrightarrow> \<bar>amount a - amount b\<bar> \<le> max_amount \<Longrightarrow>
          asset_sub E a b = Inr \<lparr>amount = amount a - amount b, sym = sym a\<rparr>"
    and neg_exact: "asset_neg E a = \<lparr>amount = - amount a, sym = sym a\<rparr>"
    and le_exact: "asset_le E a b = Inr r \<Longrightarrow> sym a = sym b \<and> r = (amount a \<le> amount b)"
    and le_ok: "sym a = sym b \<Longrightarrow> asset_le E a b = Inr (amount a \<le> amount b)"
    and valid_iff: "asset_valid E a \<longleftrightarrow> \<bar>amount a\<bar> \<le> max_amount \<and> symbol_valid E (sym a)"
begin

lemma add_amount: "asset_add E a b = Inr c \<Longrightarrow> amount c = amount a + amount b"
  using add_exact by fastforce

lemma sub_amount: "asset_sub E a b = Inr c \<Longrightarrow> amount c = amount a - amount b"
  using sub_exact by fastforce

text \<open>Adding and subtracting the same asset gives back the first one.\<close>

lemma add_sub_inverse:
  assumes "asset_add E a b = Inr c" and "\<bar>amount a\<bar> \<le> max_amount"
  shows "asset_sub E c b = Inr a"
proof -
  from add_exact [OF assms(1)] have c: "sym b = sym a" "c = \<lparr>amount = amount a + amount b, sym = sym a\<rparr>"
    by auto
  then have "asset_sub E c b = Inr \<lparr>amount = amount a, sym = sym a\<rparr>"
    using sub_ok [of c b] assms(2) by simp
  then show ?thesis by simp
qed

lemma sub_add_inverse:
  assumes "asset_sub E a b = Inr c" and "\<bar>amount a\<bar> \<le> max_amount"
  shows "asset_add E c b = Inr a"
proof -
  from sub_exact [OF assms(1)] have c: "sym b = sym a" "c = \<lparr>amount = amount a - amount b, sym = sym a\<rparr>"
    by auto
  then have "asset_add E c b = Inr \<lparr>amount = amount a, sym = sym a\<rparr>"
    using add_ok [of c b] assms(2) by simp
  then show ?thesis by simp
qed

end

subsection \<open>A concrete environment\<close>

text \<open>
  The asset arithmetic of the kit, written out, in an environment whose other
  fields are simple; it satisfies the laws, and concrete runs are evaluated in
  it.  Its C library functions are exact on the few arguments the runs use and
  are otherwise arbitrary.
\<close>

definition in_amount_range :: "int \<Rightarrow> bool" where
  "in_amount_range n \<longleftrightarrow> - max_amount \<le> n \<and> n \<le> max_amount"

definition sdk_symbol_valid :: "symbol \<Rightarrow> bool" where
  "sdk_symbol_valid y \<longleftrightarrow> scode y \<noteq> 0"

definition sdk_new :: "int \<Rightarrow> symbol \<Rightarrow> asset result" where
  "sdk_new n y =
     (if \<not> in_amount_range n then Inl (Check ''magnitude of asset amount must be less than 2^62'')
      else if \<not> sdk_symbol_valid y then Inl (Check ''invalid symbol name'')
      else Inr \<lparr>amount = n, sym = y\<rparr>)"

definition sdk_add :: "asset \<Rightarrow> asset \<Rightarrow> asset result" where
  "sdk_add a b =
     (if sym a \<noteq> sym b then Inl (Check ''attempt to add asset with different symbol'')
      else if amount a + amount b < - max_amount then Inl (Check ''addition underflow'')
      else if max_amount < amount a + amount b then Inl (Check ''addition overflow'')
      else Inr \<lparr>amount = amount a + amount b, sym = sym a\<rparr>)"

definition sdk_sub :: "asset \<Rightarrow> asset \<Rightarrow> asset result" where
  "sdk_sub a b =
     (if sym a \<noteq> sym b then Inl (Check ''attempt to subtract asset with different symbol'')
      else if amount a - amount b < - max_amount then Inl (Check ''subtraction underflow'')
      else if max_amount < amount a - amount b then Inl (Check ''subtraction overflow'')
      else Inr \<lparr>amount = amount a - amount b, sym = sym a\<rparr>)"

definition sdk_le :: "asset \<Rightarrow> asset \<Rightarrow> bool result" where
  "sdk_le a b =
     (if sym a \<noteq> sym b then Inl (Check ''comparison of assets with different symbols is not allowed'')
      else Inr (amount a \<le> amount b))"

definition sdk_env :: "name \<Rightarrow> int \<Rightarrow> env" where
  "sdk_env self now =
     \<lparr>get_self = self, has_auth = (\<lambda>_. True), has_perm = (\<lambda>_. True), is_account = (\<lambda>_. True),
      current_time = now * 1000000, current_sec = now, current_slot = now * 2,
      slot_to_time = (\<lambda>x. x * 500000), time_to_slot = (\<lambda>x. x div 500000),
      name_suffix = (\<lambda>n. n), to_string = (\<lambda>n. []),
      asset_new = sdk_new, asset_add = sdk_add, asset_sub = sdk_sub,
      asset_neg = (\<lambda>a. a\<lparr>amount := - amount a\<rparr>), asset_le = sdk_le,
      asset_valid = (\<lambda>a. in_amount_range (amount a) \<and> sdk_symbol_valid (sym a)),
      symbol_valid = sdk_symbol_valid,
      std_pow = (\<lambda>x y. if y = Fin 0 then Fin 1 else if y = Fin 1 then x else dmul x x),
      std_sin = (\<lambda>x. if dlt x (Fin 0) then Fin (-1) else Fin 1),
      std_exp = (\<lambda>x. Fin 1), std_log1p = (\<lambda>x. x)\<rparr>"

interpretation sdk: chain_laws "sdk_env self now"
  by unfold_locales
    (auto simp: sdk_env_def sdk_new_def sdk_add_def sdk_sub_def sdk_le_def in_amount_range_def
      sdk_symbol_valid_def abs_le_iff split: if_splits)

end
