(* ===== verification/Eosio_Msig.thy ===== *)
theory Eosio_Msig
  imports Chain_Env "HOL-Library.Multiset"
begin

section \<open>The multi-signature contract\<close>

text \<open>
  Model of \<open>contracts/eosio.msig\<close>.  The tables are scoped by the proposer, so a row is
  keyed by the pair of proposer and proposal name; \<open>approvals\<close> is the current table
  \<open>approvals2\<close> and \<open>old_approvals\<close> the one of earlier versions, which the code still
  reads.  \<open>earliest_exec_time\<close> is \<open>None\<close> when the binary extension is absent,
  \<open>Some None\<close> when it is present and empty.  The deserialiser of transactions, the
  node's authorisation check and the hash assertion are code of the chain, gathered
  in the record \<open>codec\<close>.  Inline actions that \<open>exec\<close> sends are logged in \<open>sent\<close>.
\<close>

subsection \<open>State\<close>

type_synonym packed = "8 word list"
type_synonym proposal_key = "name \<times> name"

record trx_header =
  expiration :: int
  delay_sec :: int

record ('act, 'hash) codec =
  get_trx_header :: "packed \<Rightarrow> trx_header result"
  get_context_free :: "packed \<Rightarrow> 'act list result"
  get_actions :: "packed \<Rightarrow> 'act list result"
  check_transaction_authorization :: "packed \<Rightarrow> permission_level list \<Rightarrow> int"
  sha256_matches :: "packed \<Rightarrow> 'hash \<Rightarrow> bool"

record proposal =
  packed_transaction :: packed
  earliest_exec_time :: "int option option"

record old_approvals_info =
  old_requested :: "permission_level list"
  old_provided :: "permission_level list"

record approval =
  alevel :: permission_level
  atime :: int

record approvals_info =
  requested_approvals :: "approval list"
  provided_approvals :: "approval list"

record 'act msig_state =
  proposals :: "(proposal_key, proposal) fmap"
  approvals :: "(proposal_key, approvals_info) fmap"
  old_approvals :: "(proposal_key, old_approvals_info) fmap"
  invalidations :: "(name, int) fmap"
  sent :: "'act list"

subsection \<open>Helpers of the actions\<close>

fun erase_first :: "('a \<Rightarrow> bool) \<Rightarrow> 'a list \<Rightarrow> 'a list" where
  "erase_first P [] = []"
| "erase_first P (x # xs) = (if P x then xs else x # erase_first P xs)"

definition approval_valid :: "(name, int) fmap \<Rightarrow> approval \<Rightarrow> bool" where
  "approval_valid ivs a =
     (case fmlookup ivs (fst (alevel a)) of None \<Rightarrow> True | Some t \<Rightarrow> t < atime a)"

definition get_approvals :: "proposal_key \<Rightarrow> 'act msig_state \<Rightarrow> permission_level list result" where
  "get_approvals k s =
     (case fmlookup (approvals s) k of
        Some a \<Rightarrow> Inr (map alevel (filter (approval_valid (invalidations s)) (provided_approvals a)))
      | None \<Rightarrow>
          (case fmlookup (old_approvals s) k of
             None \<Rightarrow> Inl (Check ''proposal not found'')
           | Some a \<Rightarrow> Inr (filter (\<lambda>l. fmlookup (invalidations s) (fst l) = None) (old_provided a))))"

definition erase_approvals :: "proposal_key \<Rightarrow> 'act msig_state \<Rightarrow> 'act msig_state" where
  "erase_approvals k s =
     (if fmlookup (approvals s) k \<noteq> None then s\<lparr>approvals := fmdrop k (approvals s)\<rparr>
      else s\<lparr>old_approvals := fmdrop k (old_approvals s)\<rparr>)"

definition trx_is_authorized :: "('act, 'hash) codec \<Rightarrow> permission_level list \<Rightarrow> packed \<Rightarrow> bool" where
  "trx_is_authorized C approvs trx = (check_transaction_authorization C trx approvs \<noteq> 0)"

subsection \<open>Actions\<close>

definition propose :: "env \<Rightarrow> ('act, 'hash) codec \<Rightarrow> name \<Rightarrow> name \<Rightarrow> permission_level list \<Rightarrow> packed
    \<Rightarrow> 'act msig_state \<Rightarrow> 'act msig_state result" where
  "propose E C proposer proposal_name requested trx s =
     (if \<not> has_auth E proposer then Inl Missing_auth else
      (case get_trx_header C trx of Inl e \<Rightarrow> Inl e | Inr h \<Rightarrow>
      if \<not> current_sec E \<le> expiration h then Inl (Check ''transaction expired'') else
      (case get_context_free C trx of Inl e \<Rightarrow> Inl e | Inr cfa \<Rightarrow>
      if cfa \<noteq> [] then Inl (Check ''not allowed to `propose` a transaction with context-free actions'') else
      if fmlookup (proposals s) (proposer, proposal_name) \<noteq> None
      then Inl (Check ''proposal with the same name exists'') else
      if \<not> 0 < check_transaction_authorization C trx requested
      then Inl (Check ''transaction authorization failed'') else
      if fmlookup (approvals s) (proposer, proposal_name) \<noteq> None
      then Inl (Trap ''duplicate primary key'') else
      Inr (s\<lparr>proposals := fmupd (proposer, proposal_name)
               \<lparr>packed_transaction = trx, earliest_exec_time = Some None\<rparr> (proposals s),
             approvals := fmupd (proposer, proposal_name)
               \<lparr>requested_approvals = map (\<lambda>l. \<lparr>alevel = l, atime = 0\<rparr>) requested,
                provided_approvals = []\<rparr> (approvals s)\<rparr>))))"

text \<open>The part of \<open>approve\<close> that moves the level from the requested to the provided list.\<close>

definition move_to_provided :: "env \<Rightarrow> proposal_key \<Rightarrow> permission_level \<Rightarrow> 'act msig_state \<Rightarrow> 'act msig_state result" where
  "move_to_provided E k level s =
     (case fmlookup (approvals s) k of
        Some a \<Rightarrow>
          if \<not> list_ex (\<lambda>x. alevel x = level) (requested_approvals a)
          then Inl (Check ''approval is not on the list of requested approvals'') else
          Inr (s\<lparr>approvals := fmupd k
             (a\<lparr>provided_approvals := provided_approvals a @ [\<lparr>alevel = level, atime = current_time E\<rparr>],
                requested_approvals := erase_first (\<lambda>x. alevel x = level) (requested_approvals a)\<rparr>) (approvals s)\<rparr>)
      | None \<Rightarrow>
          (case fmlookup (old_approvals s) k of
             None \<Rightarrow> Inl (Check ''proposal not found'')
           | Some a \<Rightarrow>
               if level \<notin> set (old_requested a)
               then Inl (Check ''approval is not on the list of requested approvals'') else
               Inr (s\<lparr>old_approvals := fmupd k
                  (a\<lparr>old_provided := old_provided a @ [level],
                     old_requested := remove1 level (old_requested a)\<rparr>) (old_approvals s)\<rparr>)))"

definition approve :: "env \<Rightarrow> ('act, 'hash) codec \<Rightarrow> name \<Rightarrow> name \<Rightarrow> permission_level \<Rightarrow> 'hash option
    \<Rightarrow> 'act msig_state \<Rightarrow> 'act msig_state result" where
  "approve E C proposer proposal_name level proposal_hash s =
     (if \<not> has_perm E level then Inl Missing_auth else
      (case fmlookup (proposals s) (proposer, proposal_name) of
        None \<Rightarrow> Inl (Check ''proposal not found'')
      | Some prop \<Rightarrow>
      if (case proposal_hash of None \<Rightarrow> False | Some h \<Rightarrow> \<not> sha256_matches C (packed_transaction prop) h)
      then Inl (Check ''hash mismatch'') else
      (case move_to_provided E (proposer, proposal_name) level s of Inl e \<Rightarrow> Inl e | Inr s1 \<Rightarrow>
      (case get_trx_header C (packed_transaction prop) of Inl e \<Rightarrow> Inl e | Inr h \<Rightarrow>
      (case earliest_exec_time prop of
        Some None \<Rightarrow>
          (case get_approvals (proposer, proposal_name) s1 of Inl e \<Rightarrow> Inl e | Inr apps \<Rightarrow>
           if trx_is_authorized C apps (packed_transaction prop)
           then Inr (s1\<lparr>proposals := fmupd (proposer, proposal_name)
                  (prop\<lparr>earliest_exec_time := Some (Some (current_time E + delay_sec h * 1000000))\<rparr>) (proposals s1)\<rparr>)
           else Inr s1)
      | Some (Some t) \<Rightarrow> Inr s1
      | None \<Rightarrow>
          if delay_sec h \<noteq> 0
          then Inl (Check ''old proposals are not allowed to have non-zero `delay_sec`; cancel and retry'')
          else Inr s1)))))"

text \<open>The part of \<open>unapprove\<close> that moves the level back.\<close>

definition move_to_requested :: "env \<Rightarrow> proposal_key \<Rightarrow> permission_level \<Rightarrow> 'act msig_state \<Rightarrow> 'act msig_state result" where
  "move_to_requested E k level s =
     (case fmlookup (approvals s) k of
        Some a \<Rightarrow>
          if \<not> list_ex (\<lambda>x. alevel x = level) (provided_approvals a)
          then Inl (Check ''no approval previously granted'') else
          Inr (s\<lparr>approvals := fmupd k
             (a\<lparr>requested_approvals := requested_approvals a @ [\<lparr>alevel = level, atime = current_time E\<rparr>],
                provided_approvals := erase_first (\<lambda>x. alevel x = level) (provided_approvals a)\<rparr>) (approvals s)\<rparr>)
      | None \<Rightarrow>
          (case fmlookup (old_approvals s) k of
             None \<Rightarrow> Inl (Check ''proposal not found'')
           | Some a \<Rightarrow>
               if level \<notin> set (old_provided a)
               then Inl (Check ''no approval previously granted'') else
               Inr (s\<lparr>old_approvals := fmupd k
                  (a\<lparr>old_requested := old_requested a @ [level],
                     old_provided := remove1 level (old_provided a)\<rparr>) (old_approvals s)\<rparr>)))"

definition unapprove :: "env \<Rightarrow> ('act, 'hash) codec \<Rightarrow> name \<Rightarrow> name \<Rightarrow> permission_level
    \<Rightarrow> 'act msig_state \<Rightarrow> 'act msig_state result" where
  "unapprove E C proposer proposal_name level s =
     (if \<not> has_perm E level then Inl Missing_auth else
      (case move_to_requested E (proposer, proposal_name) level s of Inl e \<Rightarrow> Inl e | Inr s1 \<Rightarrow>
      (case fmlookup (proposals s1) (proposer, proposal_name) of
        None \<Rightarrow> Inl (Check ''proposal not found'')
      | Some prop \<Rightarrow>
      (case earliest_exec_time prop of
        Some None \<Rightarrow> Inr s1
      | Some (Some t) \<Rightarrow>
          (case get_approvals (proposer, proposal_name) s1 of Inl e \<Rightarrow> Inl e | Inr apps \<Rightarrow>
           if \<not> trx_is_authorized C apps (packed_transaction prop)
           then Inr (s1\<lparr>proposals := fmupd (proposer, proposal_name)
                  (prop\<lparr>earliest_exec_time := Some None\<rparr>) (proposals s1)\<rparr>)
           else Inr s1)
      | None \<Rightarrow>
          (case get_trx_header C (packed_transaction prop) of Inl e \<Rightarrow> Inl e | Inr h \<Rightarrow>
           if delay_sec h \<noteq> 0
           then Inl (Check ''old proposals are not allowed to have non-zero `delay_sec`; cancel and retry'')
           else Inr s1)))))"

definition cancel :: "env \<Rightarrow> ('act, 'hash) codec \<Rightarrow> name \<Rightarrow> name \<Rightarrow> name \<Rightarrow> 'act msig_state \<Rightarrow> 'act msig_state result" where
  "cancel E C proposer proposal_name canceler s =
     (if \<not> has_auth E canceler then Inl Missing_auth else
      (case fmlookup (proposals s) (proposer, proposal_name) of
        None \<Rightarrow> Inl (Check ''proposal not found'')
      | Some prop \<Rightarrow>
      (case (if canceler = proposer then Inr ()
            else (case get_trx_header C (packed_transaction prop) of Inl e \<Rightarrow> Inl e | Inr h \<Rightarrow>
                 if \<not> expiration h < current_sec E then Inl (Check ''cannot cancel until expiration'') else Inr ())) of
        Inl e \<Rightarrow> Inl e
      | Inr _ \<Rightarrow>
      let s1 = s\<lparr>proposals := fmdrop (proposer, proposal_name) (proposals s)\<rparr> in
      if fmlookup (approvals s1) (proposer, proposal_name) = None \<and>
         fmlookup (old_approvals s1) (proposer, proposal_name) = None
      then Inl (Check ''proposal not found'')
      else Inr (erase_approvals (proposer, proposal_name) s1))))"

definition exec :: "env \<Rightarrow> ('act, 'hash) codec \<Rightarrow> name \<Rightarrow> name \<Rightarrow> name \<Rightarrow> 'act msig_state \<Rightarrow> 'act msig_state result" where
  "exec E C proposer proposal_name executer s =
     (if \<not> has_auth E executer then Inl Missing_auth else
      (case fmlookup (proposals s) (proposer, proposal_name) of
        None \<Rightarrow> Inl (Check ''proposal not found'')
      | Some prop \<Rightarrow>
      (case get_trx_header C (packed_transaction prop) of Inl e \<Rightarrow> Inl e | Inr h \<Rightarrow>
      if \<not> current_sec E \<le> expiration h then Inl (Check ''transaction expired'') else
      (case get_context_free C (packed_transaction prop) of Inl e \<Rightarrow> Inl e | Inr cfa \<Rightarrow>
      if cfa \<noteq> [] then Inl (Check ''not allowed to `exec` a transaction with context-free actions'') else
      (case get_actions C (packed_transaction prop) of Inl e \<Rightarrow> Inl e | Inr acts \<Rightarrow>
      (case get_approvals (proposer, proposal_name) s of Inl e \<Rightarrow> Inl e | Inr apps \<Rightarrow>
      let s1 = erase_approvals (proposer, proposal_name) s in
      if \<not> trx_is_authorized C apps (packed_transaction prop)
      then Inl (Check ''transaction authorization failed'') else
      if (case earliest_exec_time prop of Some (Some t) \<Rightarrow> \<not> t \<le> current_time E | _ \<Rightarrow> False)
      then Inl (Check ''too early to execute'') else
      if (case earliest_exec_time prop of Some (Some t) \<Rightarrow> False | _ \<Rightarrow> delay_sec h \<noteq> 0)
      then Inl (Check ''old proposals are not allowed to have non-zero `delay_sec`; cancel and retry'') else
      Inr (s1\<lparr>sent := sent s1 @ acts, proposals := fmdrop (proposer, proposal_name) (proposals s1)\<rparr>)))))))"

definition invalidate :: "env \<Rightarrow> name \<Rightarrow> 'act msig_state \<Rightarrow> 'act msig_state result" where
  "invalidate E account s =
     (if \<not> has_auth E account then Inl Missing_auth else
      Inr (s\<lparr>invalidations := fmupd account (current_time E) (invalidations s)\<rparr>))"

datatype 'hash msig_action =
    Propose name name "permission_level list" packed
  | Approve name name permission_level "'hash option"
  | Unapprove name name permission_level
  | Cancel name name name
  | Exec name name name
  | Invalidate name

fun msig_apply :: "env \<Rightarrow> ('act, 'hash) codec \<Rightarrow> 'hash msig_action \<Rightarrow> 'act msig_state \<Rightarrow> 'act msig_state result" where
  "msig_apply E C (Propose p n req trx) s = propose E C p n req trx s"
| "msig_apply E C (Approve p n l h) s = approve E C p n l h s"
| "msig_apply E C (Unapprove p n l) s = unapprove E C p n l s"
| "msig_apply E C (Cancel p n c) s = cancel E C p n c s"
| "msig_apply E C (Exec p n x) s = exec E C p n x s"
| "msig_apply E C (Invalidate a) s = invalidate E a s"

text \<open>A run of the contract from a state at some time: the clock never goes back.\<close>

inductive msig_steps :: "('act, 'hash) codec \<Rightarrow> int \<Rightarrow> 'act msig_state \<Rightarrow> int \<Rightarrow> 'act msig_state \<Rightarrow> bool"
  for C t0 s0 where
  msig_start: "msig_steps C t0 s0 t0 s0"
| msig_step: "msig_steps C t0 s0 t s \<Longrightarrow> t \<le> current_time E \<Longrightarrow> msig_apply E C a s = Inr s' \<Longrightarrow>
    msig_steps C t0 s0 (current_time E) s'"

subsection \<open>What the helpers change\<close>

lemma erase_first_mset: "list_ex (\<lambda>x. f x = l) xs \<Longrightarrow>
    add_mset l (image_mset f (mset (erase_first (\<lambda>x. f x = l) xs))) = image_mset f (mset xs)"
  by (induction xs) auto

definition levels :: "proposal_key \<Rightarrow> 'act msig_state \<Rightarrow> permission_level multiset" where
  "levels k s =
     (case fmlookup (approvals s) k of
        Some a \<Rightarrow> mset (map alevel (requested_approvals a)) + mset (map alevel (provided_approvals a))
      | None \<Rightarrow> (case fmlookup (old_approvals s) k of
           Some a \<Rightarrow> mset (old_requested a) + mset (old_provided a) | None \<Rightarrow> {#}))"

definition msig_ok :: "'act msig_state \<Rightarrow> bool" where
  "msig_ok s \<longleftrightarrow>
     (\<forall>k. (fmlookup (proposals s) k = None) = (fmlookup (approvals s) k = None \<and> fmlookup (old_approvals s) k = None)) \<and>
     (\<forall>k. fmlookup (approvals s) k = None \<or> fmlookup (old_approvals s) k = None)"

lemma move_to_provided_frame:
  assumes "move_to_provided E k level s = Inr s1"
  shows "proposals s1 = proposals s" "fmdom (approvals s1) = fmdom (approvals s)"
    "fmdom (old_approvals s1) = fmdom (old_approvals s)" "invalidations s1 = invalidations s" "sent s1 = sent s"
    "levels k' s1 = levels k' s"
proof -
  show "proposals s1 = proposals s" "invalidations s1 = invalidations s" "sent s1 = sent s"
    "fmdom (approvals s1) = fmdom (approvals s)" "fmdom (old_approvals s1) = fmdom (old_approvals s)"
    using assms by (auto simp: move_to_provided_def result_simps fmlookup_dom_iff finsert_absorb split: option.splits)
  show "levels k' s1 = levels k' s"
    using assms
    by (cases "k' = k"; cases "fmlookup (approvals s) k")
      (auto simp: move_to_provided_def levels_def result_simps erase_first_mset cong: option.case_cong)
qed

lemma move_to_requested_frame:
  assumes "move_to_requested E k level s = Inr s1"
  shows "proposals s1 = proposals s" "fmdom (approvals s1) = fmdom (approvals s)"
    "fmdom (old_approvals s1) = fmdom (old_approvals s)" "invalidations s1 = invalidations s" "sent s1 = sent s"
    "levels k' s1 = levels k' s"
proof -
  show "proposals s1 = proposals s" "invalidations s1 = invalidations s" "sent s1 = sent s"
    "fmdom (approvals s1) = fmdom (approvals s)" "fmdom (old_approvals s1) = fmdom (old_approvals s)"
    using assms by (auto simp: move_to_requested_def result_simps fmlookup_dom_iff finsert_absorb split: option.splits)
  show "levels k' s1 = levels k' s"
    using assms
    by (cases "k' = k"; cases "fmlookup (approvals s) k")
      (auto simp: move_to_requested_def levels_def result_simps erase_first_mset cong: option.case_cong)
qed

text \<open>
  An approval or its withdrawal changes a single field outside the approval tables: the
  earliest execution time of its own proposal.
\<close>

lemma approve_cases:
  assumes "approve E C p n level h s = Inr s'"
  obtains s1 pr hd where "move_to_provided E (p, n) level s = Inr s1" "has_perm E level"
    "fmlookup (proposals s) (p, n) = Some pr" "get_trx_header C (packed_transaction pr) = Inr hd"
    "s' = s1 \<or> s' = s1\<lparr>proposals := fmupd (p, n)
        (pr\<lparr>earliest_exec_time := Some (Some (current_time E + delay_sec hd * 1000000))\<rparr>) (proposals s)\<rparr>"
proof -
  from assms obtain pr s1 hd where p: "has_perm E level" "fmlookup (proposals s) (p, n) = Some pr"
    and m: "move_to_provided E (p, n) level s = Inr s1" "get_trx_header C (packed_transaction pr) = Inr hd"
    by (auto simp: approve_def result_simps)
  have "s' = s1 \<or> s' = s1\<lparr>proposals := fmupd (p, n)
        (pr\<lparr>earliest_exec_time := Some (Some (current_time E + delay_sec hd * 1000000))\<rparr>) (proposals s)\<rparr>"
    using assms p m move_to_provided_frame(1) [OF m(1)]
    by (auto simp: approve_def result_simps split: option.splits if_splits sum.splits)
  with p m show ?thesis using that by blast
qed

lemma unapprove_cases:
  assumes "unapprove E C p n level s = Inr s'"
  obtains s1 pr where "move_to_requested E (p, n) level s = Inr s1" "has_perm E level"
    "fmlookup (proposals s) (p, n) = Some pr"
    "s' = s1 \<or> s' = s1\<lparr>proposals := fmupd (p, n) (pr\<lparr>earliest_exec_time := Some None\<rparr>) (proposals s)\<rparr>"
proof -
  from assms obtain pr s1 where p: "has_perm E level" "fmlookup (proposals s1) (p, n) = Some pr"
    and m: "move_to_requested E (p, n) level s = Inr s1"
    by (auto simp: unapprove_def result_simps)
  have "s' = s1 \<or> s' = s1\<lparr>proposals := fmupd (p, n) (pr\<lparr>earliest_exec_time := Some None\<rparr>) (proposals s)\<rparr>"
    using assms p m move_to_requested_frame(1) [OF m]
    by (auto simp: unapprove_def result_simps split: option.splits if_splits sum.splits)
  with p m show ?thesis using that move_to_requested_frame(1) [OF m] by simp
qed

lemma propose_Inr:
  "propose E C p n req trx s = Inr s' \<Longrightarrow>
     fmlookup (proposals s) (p, n) = None \<and> fmlookup (approvals s) (p, n) = None \<and>
     s' = s\<lparr>proposals := fmupd (p, n) \<lparr>packed_transaction = trx, earliest_exec_time = Some None\<rparr> (proposals s),
       approvals := fmupd (p, n) \<lparr>requested_approvals = map (\<lambda>l. \<lparr>alevel = l, atime = 0\<rparr>) req,
         provided_approvals = []\<rparr> (approvals s)\<rparr>"
  by (auto simp: propose_def result_simps)

lemma erase_approvals_frame [simp]:
  "sent (erase_approvals k s) = sent s" "proposals (erase_approvals k s) = proposals s"
  "invalidations (erase_approvals k s) = invalidations s"
  by (simp_all add: erase_approvals_def)

lemma cancel_Inr:
  "cancel E C p n c s = Inr s' \<Longrightarrow>
     fmlookup (proposals s) (p, n) \<noteq> None \<and>
     s' = erase_approvals (p, n) (s\<lparr>proposals := fmdrop (p, n) (proposals s)\<rparr>)"
  by (auto simp: cancel_def result_simps Let_def)

lemma exec_Inr:
  assumes "exec E C p n x s = Inr s'"
  obtains pr h acts apps where "fmlookup (proposals s) (p, n) = Some pr" "has_auth E x"
    "get_trx_header C (packed_transaction pr) = Inr h" "current_sec E \<le> expiration h"
    "get_context_free C (packed_transaction pr) = Inr []"
    "get_actions C (packed_transaction pr) = Inr acts" "get_approvals (p, n) s = Inr apps"
    "trx_is_authorized C apps (packed_transaction pr)"
    "(case earliest_exec_time pr of Some (Some t) \<Rightarrow> t \<le> current_time E | _ \<Rightarrow> delay_sec h = 0)"
    "s' = (erase_approvals (p, n) s)\<lparr>sent := sent s @ acts, proposals := fmdrop (p, n) (proposals s)\<rparr>"
  using assms that by (auto simp: exec_def result_simps Let_def split: option.splits)

subsection \<open>Invariants\<close>

lemma erase_approvals_ok:
  assumes "msig_ok s"
  shows "msig_ok ((erase_approvals k s)\<lparr>sent := x, proposals := fmdrop k (proposals s)\<rparr>)"
    and "msig_ok (erase_approvals k (s\<lparr>proposals := fmdrop k (proposals s)\<rparr>))"
  using assms by (auto simp: msig_ok_def erase_approvals_def) (metis option.distinct(1))+

lemma msig_ok_cong:
  "fmdom (proposals s') = fmdom (proposals s) \<Longrightarrow> fmdom (approvals s') = fmdom (approvals s) \<Longrightarrow>
   fmdom (old_approvals s') = fmdom (old_approvals s) \<Longrightarrow> msig_ok s \<Longrightarrow> msig_ok s'"
  unfolding msig_ok_def by (metis fmlookup_dom_iff option.exhaust option.distinct(1))

lemma fmdom_upd_same: "fmlookup m k = Some v \<Longrightarrow> fmdom (fmupd k w m) = fmdom m"
  by (simp add: finsert_absorb fmdomI)

lemma propose_ok:
  assumes "msig_ok s" and "propose E C p n req trx s = Inr s'"
  shows "msig_ok s'"
proof -
  note pr = propose_Inr [OF assms(2)]
  then have "fmlookup (old_approvals s) (p, n) = None" using assms(1) by (simp add: msig_ok_def)
  then show ?thesis using pr assms(1) by (simp add: msig_ok_def)
qed

lemma approve_ok:
  assumes ok: "msig_ok s" and r: "approve E C p n l h s = Inr s'"
  shows "msig_ok s'"
  using r
proof (rule approve_cases)
  fix s1 pr hd
  assume m: "move_to_provided E (p, n) l s = Inr s1" and l: "fmlookup (proposals s) (p, n) = Some pr"
    and s': "s' = s1 \<or> s' = s1\<lparr>proposals := fmupd (p, n)
      (pr\<lparr>earliest_exec_time := Some (Some (current_time E + delay_sec hd * 1000000))\<rparr>) (proposals s)\<rparr>"
  from s' fmdom_upd_same [OF l] show ?thesis
    by (intro msig_ok_cong [OF _ _ _ ok]; elim disjE; simp add: move_to_provided_frame(1-3) [OF m])
qed

lemma unapprove_ok:
  assumes ok: "msig_ok s" and r: "unapprove E C p n l s = Inr s'"
  shows "msig_ok s'"
  using r
proof (rule unapprove_cases)
  fix s1 pr
  assume m: "move_to_requested E (p, n) l s = Inr s1" and l: "fmlookup (proposals s) (p, n) = Some pr"
    and s': "s' = s1 \<or> s' = s1\<lparr>proposals := fmupd (p, n) (pr\<lparr>earliest_exec_time := Some None\<rparr>) (proposals s)\<rparr>"
  from s' fmdom_upd_same [OF l] show ?thesis
    by (intro msig_ok_cong [OF _ _ _ ok]; elim disjE; simp add: move_to_requested_frame(1-3) [OF m])
qed

lemma cancel_ok: "msig_ok s \<Longrightarrow> cancel E C p n c s = Inr s' \<Longrightarrow> msig_ok s'"
  using cancel_Inr erase_approvals_ok(2) by metis

lemma exec_ok: "msig_ok s \<Longrightarrow> exec E C p n x s = Inr s' \<Longrightarrow> msig_ok s'"
  by (erule exec_Inr) (simp add: erase_approvals_ok(1))

lemma invalidate_ok: "msig_ok s \<Longrightarrow> invalidate E x s = Inr s' \<Longrightarrow> msig_ok s'"
  by (rule msig_ok_cong [of s' s]) (auto simp: invalidate_def result_simps)

lemma msig_apply_ok:
  assumes "msig_ok s" and "msig_apply E C a s = Inr s'"
  shows "msig_ok s'"
  using assms
  by (cases a; simp)
    (erule (1) propose_ok, erule (1) approve_ok, erule (1) unapprove_ok, erule (1) cancel_ok,
     erule (1) exec_ok, erule (1) invalidate_ok)

lemma msig_steps_ok: "msig_steps C t0 s0 t s \<Longrightarrow> msig_ok s0 \<Longrightarrow> msig_ok s"
  by (induction rule: msig_steps.induct) (auto dest: msig_apply_ok)

text \<open>The requested and provided levels of a proposal that stays in the table.\<close>

lemma levels_cong: "approvals s' = approvals s \<Longrightarrow> old_approvals s' = old_approvals s \<Longrightarrow> levels k s' = levels k s"
  by (simp add: levels_def cong: option.case_cong)

lemma erase_approvals_levels: "k' \<noteq> k \<Longrightarrow> levels k' (erase_approvals k s) = levels k' s"
  by (simp add: erase_approvals_def levels_def cong: option.case_cong)

lemma msig_apply_levels:
  assumes r: "msig_apply E C a s = Inr s'"
    and k: "fmlookup (proposals s) k \<noteq> None" "fmlookup (proposals s') k \<noteq> None"
  shows "levels k s' = levels k s"
proof (cases a)
  case (Propose p n req trx)
  with r have pr: "propose E C p n req trx s = Inr s'" by simp
  have "k \<noteq> (p, n)" using propose_Inr [OF pr] k by auto
  with propose_Inr [OF pr] show ?thesis by (simp add: levels_def cong: option.case_cong)
next
  case (Approve p n l h)
  with r have "approve E C p n l h s = Inr s'" by simp
  then show ?thesis
  proof (rule approve_cases)
    fix s1 pr hd
    assume m: "move_to_provided E (p, n) l s = Inr s1"
      and "s' = s1 \<or> s' = s1\<lparr>proposals := fmupd (p, n)
        (pr\<lparr>earliest_exec_time := Some (Some (current_time E + delay_sec hd * 1000000))\<rparr>) (proposals s)\<rparr>"
    then have "levels k s' = levels k s1" by (intro levels_cong) auto
    then show ?thesis using move_to_provided_frame(6) [OF m] by simp
  qed
next
  case (Unapprove p n l)
  with r have "unapprove E C p n l s = Inr s'" by simp
  then show ?thesis
  proof (rule unapprove_cases)
    fix s1 pr
    assume m: "move_to_requested E (p, n) l s = Inr s1"
      and "s' = s1 \<or> s' = s1\<lparr>proposals := fmupd (p, n) (pr\<lparr>earliest_exec_time := Some None\<rparr>) (proposals s)\<rparr>"
    then have "levels k s' = levels k s1" by (intro levels_cong) auto
    then show ?thesis using move_to_requested_frame(6) [OF m] by simp
  qed
next
  case (Cancel p n c)
  with r have c: "cancel E C p n c s = Inr s'" by simp
  have "k \<noteq> (p, n)" using cancel_Inr [OF c] k by auto
  then have "levels k s' = levels k (s\<lparr>proposals := fmdrop (p, n) (proposals s)\<rparr>)"
    using cancel_Inr [OF c] erase_approvals_levels by simp
  moreover have "levels k (s\<lparr>proposals := fmdrop (p, n) (proposals s)\<rparr>) = levels k s" by (rule levels_cong) simp_all
  ultimately show ?thesis by simp
next
  case (Exec p n x)
  with r have "exec E C p n x s = Inr s'" by simp
  then show ?thesis
  proof (rule exec_Inr)
    fix acts assume s': "s' = (erase_approvals (p, n) s)\<lparr>sent := sent s @ acts, proposals := fmdrop (p, n) (proposals s)\<rparr>"
    then have "k \<noteq> (p, n)" using k by auto
    moreover have "levels k s' = levels k (erase_approvals (p, n) s)" by (rule levels_cong) (simp_all add: s')
    ultimately show ?thesis using erase_approvals_levels by simp
  qed
next
  case (Invalidate x)
  with r show ?thesis by (intro levels_cong) (auto simp: invalidate_def result_simps)
qed

subsection \<open>The time lock\<close>

text \<open>
  \<open>locked C t k s\<close>: if the proposal's earliest execution time is set, then it lies at least
  the transaction's own delay after \<open>t\<close>.
\<close>

definition locked :: "('act, 'hash) codec \<Rightarrow> int \<Rightarrow> proposal_key \<Rightarrow> 'act msig_state \<Rightarrow> bool" where
  "locked C t k s \<longleftrightarrow>
     (case fmlookup (proposals s) k of
        None \<Rightarrow> True
      | Some p \<Rightarrow> (case earliest_exec_time p of
           Some (Some e) \<Rightarrow> (case get_trx_header C (packed_transaction p) of
              Inl _ \<Rightarrow> False | Inr h \<Rightarrow> t + delay_sec h * 1000000 \<le> e)
         | _ \<Rightarrow> True))"

lemma locked_frame: "fmlookup (proposals s') k = fmlookup (proposals s) k \<Longrightarrow> locked C t k s' = locked C t k s"
  by (simp add: locked_def)

lemma approve_locked:
  assumes l: "locked C t0 k s" and t: "t0 \<le> current_time E" and r: "approve E C p n lv h s = Inr s'"
  shows "locked C t0 k s'"
  using r
proof (rule approve_cases)
  fix s1 pr hd
  assume m: "move_to_provided E (p, n) lv s = Inr s1"
    and h: "get_trx_header C (packed_transaction pr) = Inr hd"
    and s': "s' = s1 \<or> s' = s1\<lparr>proposals := fmupd (p, n)
      (pr\<lparr>earliest_exec_time := Some (Some (current_time E + delay_sec hd * 1000000))\<rparr>) (proposals s)\<rparr>"
  show ?thesis
  proof (cases "s' \<noteq> s1 \<and> k = (p, n)")
    case True
    then show ?thesis using s' h t by (auto simp: locked_def)
  next
    case False
    then have "fmlookup (proposals s') k = fmlookup (proposals s) k"
      using s' move_to_provided_frame(1) [OF m] by auto
    then show ?thesis using l locked_frame by metis
  qed
qed

lemma unapprove_locked:
  assumes l: "locked C t0 k s" and r: "unapprove E C p n lv s = Inr s'"
  shows "locked C t0 k s'"
  using r
proof (rule unapprove_cases)
  fix s1 pr
  assume m: "move_to_requested E (p, n) lv s = Inr s1"
    and s': "s' = s1 \<or> s' = s1\<lparr>proposals := fmupd (p, n) (pr\<lparr>earliest_exec_time := Some None\<rparr>) (proposals s)\<rparr>"
  then show ?thesis
    using l move_to_requested_frame(1) [OF m] by (auto simp: locked_def)
qed

lemma msig_apply_locked:
  assumes l: "locked C t0 k s" and t: "t0 \<le> current_time E" and r: "msig_apply E C a s = Inr s'"
  shows "locked C t0 k s'"
proof (cases a)
  case (Propose p n req trx)
  with r have "propose E C p n req trx s = Inr s'" by simp
  from propose_Inr [OF this] l show ?thesis by (auto simp: locked_def)
next
  case Approve
  with r approve_locked [OF l t] show ?thesis by simp
next
  case Unapprove
  with r unapprove_locked [OF l] show ?thesis by simp
next
  case (Cancel p n c)
  with r have "cancel E C p n c s = Inr s'" by simp
  from cancel_Inr [OF this] l show ?thesis by (auto simp: locked_def)
next
  case (Exec p n x)
  with r have "exec E C p n x s = Inr s'" by simp
  then show ?thesis by (rule exec_Inr) (use l in \<open>auto simp: locked_def\<close>)
next
  case (Invalidate x)
  with r l show ?thesis by (auto simp: invalidate_def result_simps locked_def)
qed

lemma msig_steps_locked:
  assumes "msig_steps C t0 s0 t s" and "locked C t0 k s0"
  shows "locked C t0 k s \<and> t0 \<le> t"
  using assms
proof (induction rule: msig_steps.induct)
  case msig_start
  then show ?case by simp
next
  case (msig_step t s E a s')
  then have "locked C t0 k s" "t0 \<le> current_time E" by auto
  with msig_apply_locked [OF _ _ msig_step.hyps(3)] show ?case by simp
qed

subsection \<open>Properties\<close>

text \<open>
  A small instance for concrete runs: a transaction is its expiration, its delay and its
  actions, one byte each, and two approvals authorise it.
\<close>

definition demo_codec :: "(int, unit) codec" where
  "demo_codec =
     \<lparr>get_trx_header = (\<lambda>b. (case b of e # d # as \<Rightarrow> Inr \<lparr>expiration = uint e, delay_sec = uint d\<rparr> | _ \<Rightarrow> Inl (Trap ''read''))),
      get_context_free = (\<lambda>b. Inr []),
      get_actions = (\<lambda>b. Inr (map uint (drop 2 b))),
      check_transaction_authorization = (\<lambda>b ls. if 2 \<le> length ls then 1 else 0),
      sha256_matches = (\<lambda>b h. True)\<rparr>"

definition msig_init :: "'act msig_state" where
  "msig_init = \<lparr>proposals = fmempty, approvals = fmempty, old_approvals = fmempty, invalidations = fmempty, sent = []\<rparr>"

lemma msig_init_ok: "msig_ok msig_init"
  by (simp add: msig_ok_def msig_init_def)

definition demo_msig :: "int msig_state" where
  "demo_msig =
     \<lparr>proposals = fmap_of_list [((5, 6), \<lparr>packed_transaction = [100, 3, 42], earliest_exec_time = Some (Some 5000000)\<rparr>)],
      approvals = fmap_of_list [((5, 6), \<lparr>requested_approvals = [],
        provided_approvals = [\<lparr>alevel = (7, 1), atime = 1000000\<rparr>, \<lparr>alevel = (8, 1), atime = 2000000\<rparr>]\<rparr>)],
      old_approvals = fmempty, invalidations = fmempty, sent = []\<rparr>"

lemma demo_msig_steps: "msig_steps demo_codec 0 msig_init 2000000 demo_msig"
proof -
  define s1 where "s1 = (case propose (sdk_env 1 0) demo_codec 5 6 [(7, 1), (8, 1)] [100, 3, 42] msig_init of Inr s \<Rightarrow> s | _ \<Rightarrow> msig_init)"
  define s2 where "s2 = (case approve (sdk_env 1 1) demo_codec 5 6 (7, 1) None s1 of Inr s \<Rightarrow> s | _ \<Rightarrow> msig_init)"
  have 1: "msig_apply (sdk_env 1 0) demo_codec (Propose 5 6 [(7, 1), (8, 1)] [100, 3, 42]) msig_init = Inr s1"
    and 2: "msig_apply (sdk_env 1 1) demo_codec (Approve 5 6 (7, 1) None) s1 = Inr s2"
    and 3: "msig_apply (sdk_env 1 2) demo_codec (Approve 5 6 (8, 1) None) s2 = Inr demo_msig"
    unfolding s1_def s2_def by code_simp+
  have t: "current_time (sdk_env 1 n) = n * 1000000" for n by (simp add: sdk_env_def)
  from msig_step [OF msig_step [OF msig_step [OF msig_start _ 1] _ 2] _ 3, of 0] show ?thesis by (simp add: t)
qed

text \<open>
  C13. Safety of \<open>exec\<close>: a proposal is executed only if its transaction has not expired and the
  node's authorisation check accepts it for the approvals on record, and an approval counts only if it
  was given after the last invalidation by its account.  The actions sent are exactly those of the
  stored transaction, and no later \<open>exec\<close> of the same proposal succeeds.
\<close>

theorem exec_safe:
  assumes "exec E C p n x s = Inr s'"
  shows "(\<exists>pr h acts apps. fmlookup (proposals s) (p, n) = Some pr \<and>
       get_trx_header C (packed_transaction pr) = Inr h \<and> current_sec E \<le> expiration h \<and>
       get_actions C (packed_transaction pr) = Inr acts \<and> sent s' = sent s @ acts \<and>
       get_approvals (p, n) s = Inr apps \<and> trx_is_authorized C apps (packed_transaction pr) \<and>
       (\<forall>l\<in>set apps. \<forall>t. fmlookup (invalidations s) (fst l) = Some t \<longrightarrow>
          (\<exists>a. fmlookup (approvals s) (p, n) = Some a \<and>
             (\<exists>v\<in>set (provided_approvals a). alevel v = l \<and> t < atime v)))) \<and>
     (\<forall>E2 y s2. exec E2 C p n y s' \<noteq> Inr s2)"
  using assms
proof (rule exec_Inr)
  fix pr h acts apps
  assume a: "fmlookup (proposals s) (p, n) = Some pr" "get_trx_header C (packed_transaction pr) = Inr h"
    "current_sec E \<le> expiration h" "get_actions C (packed_transaction pr) = Inr acts"
    "get_approvals (p, n) s = Inr apps" "trx_is_authorized C apps (packed_transaction pr)"
    and s': "s' = (erase_approvals (p, n) s)\<lparr>sent := sent s @ acts, proposals := fmdrop (p, n) (proposals s)\<rparr>"
  have "\<exists>b. fmlookup (approvals s) (p, n) = Some b \<and> (\<exists>v\<in>set (provided_approvals b). alevel v = l \<and> t < atime v)"
    if "l \<in> set apps" "fmlookup (invalidations s) (fst l) = Some t" for l t
    using a(5) that by (fastforce simp: get_approvals_def approval_valid_def split: option.splits)
  moreover have "exec E2 C p n y s' \<noteq> Inr s2" for E2 y s2
    by (simp add: s' exec_def)
  ultimately show ?thesis using a by (auto simp: s')
qed

theorem exec_safe_witness:
  "\<exists>s'. exec (sdk_env 1 5) demo_codec 5 6 9 demo_msig = Inr s' \<and> sent s' = [42] \<and>
     exec (sdk_env 1 6) demo_codec 5 6 9 s' \<noteq> Inr demo_msig"
proof -
  obtain s' where s': "exec (sdk_env 1 5) demo_codec 5 6 9 demo_msig = Inr s'" "sent s' = [42]"
  proof -
    have "(case exec (sdk_env 1 5) demo_codec 5 6 9 demo_msig of Inr s \<Rightarrow> sent s = [42] | Inl _ \<Rightarrow> False)" by code_simp
    then show ?thesis using that by (auto split: sum.splits)
  qed
  with exec_safe [OF s'(1)] show ?thesis by blast
qed

text \<open>
  C15. The time lock: if at time \<open>t0\<close> a proposal is absent or has no execution time yet, then
  whatever actions the contract processes afterwards, with a clock that never goes back, the
  proposal is executed no earlier than the delay of its own transaction after \<open>t0\<close>.
\<close>

theorem exec_time_lock:
  assumes "msig_steps C t0 s0 t s"
    and "\<forall>e. map_option earliest_exec_time (fmlookup (proposals s0) (p, n)) \<noteq> Some (Some (Some e))"
    and "t \<le> current_time E" and r: "exec E C p n x s = Inr s'"
  shows "\<exists>pr h. fmlookup (proposals s) (p, n) = Some pr \<and> get_trx_header C (packed_transaction pr) = Inr h \<and>
     t0 + delay_sec h * 1000000 \<le> current_time E"
proof -
  have "locked C t0 (p, n) s0" using assms(2) by (auto simp: locked_def split: option.splits)
  with assms(1) have "locked C t0 (p, n) s" "t0 \<le> t" by (auto dest: msig_steps_locked)
  then show ?thesis using r assms(3) by (elim exec_Inr) (auto simp: locked_def split: option.splits sum.splits)
qed

theorem exec_time_lock_witness:
  "(\<exists>pr h. fmlookup (proposals demo_msig) (5, 6) = Some pr \<and>
      get_trx_header demo_codec (packed_transaction pr) = Inr h \<and>
      0 + delay_sec h * 1000000 \<le> current_time (sdk_env 1 5))"
proof -
  have "\<not> isl (exec (sdk_env 1 5) demo_codec 5 6 9 demo_msig)" by code_simp
  then obtain s' where s': "exec (sdk_env 1 5) demo_codec 5 6 9 demo_msig = Inr s'"
    by (cases "exec (sdk_env 1 5) demo_codec 5 6 9 demo_msig") auto
  show ?thesis
    by (rule exec_time_lock [OF demo_msig_steps _ _ s']) (simp_all add: msig_init_def sdk_env_def)
qed

text \<open>
  C29. Every proposal has exactly one approvals record, in the new or in the old table, and no
  record is left without its proposal; and while a proposal lives, the levels asked to sign it
  never change: an action only moves them between the requested and the provided list.
\<close>

theorem msig_signatories:
  assumes "msig_steps C t0 s0 t s" and "msig_ok s0" and "msig_apply E C a s = Inr s'"
    and "fmlookup (proposals s) k \<noteq> None" and "fmlookup (proposals s') k \<noteq> None"
  shows "msig_ok s' \<and> levels k s' = levels k s"
  using msig_apply_ok [OF msig_steps_ok [OF assms(1,2)] assms(3)] msig_apply_levels [OF assms(3-5)] by blast

theorem msig_signatories_witness:
  "\<exists>s'. msig_apply (sdk_env 1 3) demo_codec (Unapprove 5 6 (7, 1)) demo_msig = Inr s' \<and>
     msig_ok s' \<and> levels (5, 6) s' = {#(8, 1), (7, 1)#}"
proof -
  have "(case msig_apply (sdk_env 1 3) demo_codec (Unapprove 5 6 (7, 1)) demo_msig of
      Inr s \<Rightarrow> fmlookup (proposals s) (5, 6) \<noteq> None | Inl _ \<Rightarrow> False)" by code_simp
  then obtain s' where s': "msig_apply (sdk_env 1 3) demo_codec (Unapprove 5 6 (7, 1)) demo_msig = Inr s'"
    "fmlookup (proposals s') (5, 6) \<noteq> None"
    by (auto split: sum.splits)
  have "fmlookup (proposals demo_msig) (5, 6) \<noteq> None" "levels (5, 6) demo_msig = {#(8, 1), (7, 1)#}"
    by (simp_all add: demo_msig_def levels_def)
  with msig_signatories [OF demo_msig_steps msig_init_ok s'(1) _ s'(2)] s'(1) show ?thesis by auto
qed

end
