(* ===== verification/Exchange.thy ===== *)
theory Exchange
  imports Chain_Env
begin

section \<open>The Bancor exchange behind the RAM market and REX\<close>

text \<open>
  Model of \<open>exchange_state.hpp\<close> and \<open>exchange_state.cpp\<close>.  All prices are computed on
  doubles; the operations round as IEEE 754 prescribes (theory \<open>IEEE_Double\<close>), and
  \<open>std::pow\<close> is a parameter.  The results bound what the rounding can do: an
  output never exceeds its reserve, and as long as the product of input and
  reserve is below \<open>2 ^ 53\<close> the output is the exact integer quotient, so that the
  product of the reserves never decreases.
\<close>

subsection \<open>State and operations\<close>

record connector =
  cbalance :: asset
  cweight :: double

record exchange_state =
  xsupply :: asset
  base :: connector
  quote :: connector

definition convert_to_exchange :: "env \<Rightarrow> connector \<Rightarrow> asset \<Rightarrow> asset \<Rightarrow> (connector \<times> asset \<times> asset) result" where
  "convert_to_exchange E reserve supply' payment =
     (let S0 = d_of_int (amount supply');
          R0 = d_of_int (amount (cbalance reserve));
          dR = d_of_int (amount payment);
          F = cweight reserve;
          dS = dmul S0 (dsub (std_pow E (dadd (Fin 1) (ddiv dR R0)) F) (Fin 1));
          dS = (if dlt dS (Fin 0) then Fin 0 else dS)
      in (case asset_add E (cbalance reserve) payment of Inl e \<Rightarrow> Inl e | Inr bal \<Rightarrow>
         (case d_to_i64 dS of Inl e \<Rightarrow> Inl e | Inr n \<Rightarrow>
         (case asset_new E n (sym supply') of Inl e \<Rightarrow> Inl e | Inr out \<Rightarrow>
         Inr (reserve\<lparr>cbalance := bal\<rparr>, supply'\<lparr>amount := i64 (amount supply' + n)\<rparr>, out)))))"

definition convert_from_exchange :: "env \<Rightarrow> connector \<Rightarrow> asset \<Rightarrow> asset \<Rightarrow> (connector \<times> asset \<times> asset) result" where
  "convert_from_exchange E reserve supply' tokens =
     (let R0 = d_of_int (amount (cbalance reserve));
          S0 = d_of_int (amount supply');
          dS = d_of_int (i64 (- amount tokens));
          Fi = ddiv (Fin 1) (cweight reserve);
          dR = dmul R0 (dsub (std_pow E (dadd (Fin 1) (ddiv dS S0)) Fi) (Fin 1));
          dR = (if dlt (Fin 0) dR then Fin 0 else dR)
      in (case d_to_i64 (dneg dR) of Inl e \<Rightarrow> Inl e | Inr n \<Rightarrow>
         (case asset_sub E supply' tokens of Inl e \<Rightarrow> Inl e | Inr rest \<Rightarrow>
         (case asset_new E n (sym (cbalance reserve)) of Inl e \<Rightarrow> Inl e | Inr out \<Rightarrow>
         Inr (reserve\<lparr>cbalance := (cbalance reserve)\<lparr>amount := i64 (amount (cbalance reserve) - n)\<rparr>\<rparr>, rest, out)))))"

definition convert :: "env \<Rightarrow> exchange_state \<Rightarrow> asset \<Rightarrow> symbol \<Rightarrow> (exchange_state \<times> asset) result" where
  "convert E x from to =
     (if sym from = to then Inl (Check ''cannot convert to the same symbol'') else
      (case asset_new E 0 to of Inl e \<Rightarrow> Inl e | Inr _ \<Rightarrow>
      if sym from = sym (cbalance (base x)) \<and> to = sym (cbalance (quote x)) then
        (case convert_to_exchange E (base x) (xsupply x) from of Inl e \<Rightarrow> Inl e | Inr (b, s1, tmp) \<Rightarrow>
         (case convert_from_exchange E (quote x) s1 tmp of Inl e \<Rightarrow> Inl e | Inr (q, s2, out) \<Rightarrow>
         Inr (x\<lparr>xsupply := s2, base := b, quote := q\<rparr>, out)))
      else if sym from = sym (cbalance (quote x)) \<and> to = sym (cbalance (base x)) then
        (case convert_to_exchange E (quote x) (xsupply x) from of Inl e \<Rightarrow> Inl e | Inr (q, s1, tmp) \<Rightarrow>
         (case convert_from_exchange E (base x) s1 tmp of Inl e \<Rightarrow> Inl e | Inr (b, s2, out) \<Rightarrow>
         Inr (x\<lparr>xsupply := s2, base := b, quote := q\<rparr>, out)))
      else Inl (Check ''invalid conversion'')))"

definition get_bancor_output :: "int \<Rightarrow> int \<Rightarrow> int \<Rightarrow> int result" where
  "get_bancor_output inp_reserve out_reserve inp =
     (let ib = d_of_int inp_reserve; ob = d_of_int out_reserve; inn = d_of_int inp
      in (case d_to_i64 (ddiv (dmul inn ob) (dadd ib inn)) of Inl e \<Rightarrow> Inl e | Inr out \<Rightarrow>
         Inr (if out < 0 then 0 else out)))"

definition get_bancor_input :: "int \<Rightarrow> int \<Rightarrow> int \<Rightarrow> int result" where
  "get_bancor_input out_reserve inp_reserve out =
     (let ob = d_of_int out_reserve; ib = d_of_int inp_reserve
      in (case d_to_i64 (ddiv (dmul ib (d_of_int out)) (dsub ob (d_of_int out))) of Inl e \<Rightarrow> Inl e | Inr inp \<Rightarrow>
         Inr (if inp < 0 then 0 else inp)))"

definition direct_convert :: "env \<Rightarrow> exchange_state \<Rightarrow> asset \<Rightarrow> symbol \<Rightarrow> (exchange_state \<times> asset) result" where
  "direct_convert E x from to =
     (if sym from = to then Inl (Check ''cannot convert to the same symbol'') else
      (case asset_new E 0 to of Inl e \<Rightarrow> Inl e | Inr out0 \<Rightarrow>
      if sym from = sym (cbalance (base x)) \<and> to = sym (cbalance (quote x)) then
        (case get_bancor_output (amount (cbalance (base x))) (amount (cbalance (quote x))) (amount from) of
           Inl e \<Rightarrow> Inl e | Inr n \<Rightarrow>
         (case asset_add E (cbalance (base x)) from of Inl e \<Rightarrow> Inl e | Inr b \<Rightarrow>
         (case asset_sub E (cbalance (quote x)) (out0\<lparr>amount := n\<rparr>) of Inl e \<Rightarrow> Inl e | Inr q \<Rightarrow>
         Inr (x\<lparr>base := (base x)\<lparr>cbalance := b\<rparr>, quote := (quote x)\<lparr>cbalance := q\<rparr>\<rparr>, out0\<lparr>amount := n\<rparr>))))
      else if sym from = sym (cbalance (quote x)) \<and> to = sym (cbalance (base x)) then
        (case get_bancor_output (amount (cbalance (quote x))) (amount (cbalance (base x))) (amount from) of
           Inl e \<Rightarrow> Inl e | Inr n \<Rightarrow>
         (case asset_add E (cbalance (quote x)) from of Inl e \<Rightarrow> Inl e | Inr q \<Rightarrow>
         (case asset_sub E (cbalance (base x)) (out0\<lparr>amount := n\<rparr>) of Inl e \<Rightarrow> Inl e | Inr b \<Rightarrow>
         Inr (x\<lparr>base := (base x)\<lparr>cbalance := b\<rparr>, quote := (quote x)\<lparr>cbalance := q\<rparr>\<rparr>, out0\<lparr>amount := n\<rparr>))))
      else Inl (Check ''invalid conversion'')))"

subsection \<open>Rounding of a quotient of integers\<close>

lemma of_int_le_pow: "n \<le> 2 ^ k \<Longrightarrow> (of_int n :: rat) \<le> 2 ^ k"
  by (metis of_int_le_iff of_int_numeral of_int_power)

lemma d_to_i64_floor:
  assumes "0 \<le> x" "\<lfloor>x\<rfloor> \<le> m" "m < 2 ^ 63"
  shows "d_to_i64 (Fin x) = Inr \<lfloor>x\<rfloor>"
proof -
  define k where "k = \<lfloor>x\<rfloor>"
  have "rtrunc x = k" "0 \<le> k" "k \<le> m" using assms rtrunc_nonneg [of x] by (simp_all add: k_def)
  then show ?thesis using assms(3) by (simp flip: k_def)
qed

lemma bancor_steps:
  assumes "0 < ib" "0 \<le> ob" "0 \<le> inn" "ob \<le> 2 ^ 53" "ib + inn \<le> 2 ^ 53"
  shows "ddiv (dmul (d_of_int inn) (d_of_int ob)) (dadd (d_of_int ib) (d_of_int inn)) =
    Fin (rv (rv (of_int (inn * ob)) / of_int (ib + inn)))" (is "_ = Fin (rv ?q)")
proof -
  have ex: "d_of_int inn = Fin (of_int inn)" "d_of_int ob = Fin (of_int ob)" "d_of_int ib = Fin (of_int ib)"
    using assms by (simp_all add: d_of_int_exact)
  have prod: "inn * ob \<le> 2 ^ 53 * 2 ^ 53" using assms by (intro mult_mono) auto
  have r: "(0::rat) \<le> of_int (inn * ob)" "(of_int (inn * ob) :: rat) \<le> 2 ^ 106"
    using assms prod of_int_le_pow [of "inn * ob" 106] by simp_all
  have p: "rnd (of_int inn * of_int ob) = Fin (rv (of_int (inn * ob)))" using r by (simp add: rnd_small)
  have "rv (of_int (inn * ob)) \<le> of_int 1 * 2 powi 106"
    using r rv_abs_le [of "of_int (inn * ob)" 1 106] by simp
  then have rp: "rv (of_int (inn * ob)) \<le> 2 ^ 106" "0 \<le> rv (of_int (inn * ob))"
    using r(1) by (simp_all add: rv_nonneg)
  have s: "dadd (d_of_int ib) (d_of_int inn) = Fin (of_int (ib + inn))"
    using assms of_int_le_pow [of "ib + inn" 53] rv_int [of "ib + inn"] ex by (simp add: rnd_small)
  have "1 \<le> ib + inn" using assms by linarith
  then have d1: "(1::rat) \<le> of_int (ib + inn)" by (metis of_int_1_le_iff)
  then have "?q \<le> rv (of_int (inn * ob)) / 1" using rp(2) by (intro divide_left_mono) auto
  then have "\<bar>?q\<bar> \<le> 2 ^ 200" using rp d1 by simp
  then show ?thesis using d1 p s ex by (simp add: rnd_small)
qed

lemma bancor_value:
  assumes "0 < ib" "0 \<le> ob" "0 \<le> inn" "ob < 2 ^ 52" "ib + inn \<le> 2 ^ 53"
  shows "get_bancor_output ib ob inn = Inr \<lfloor>rv (rv (of_int (inn * ob)) / of_int (ib + inn))\<rfloor>" (is "_ = Inr \<lfloor>rv ?q\<rfloor>")
    and "0 \<le> \<lfloor>rv (rv (of_int (inn * ob)) / of_int (ib + inn))\<rfloor>"
    and "\<lfloor>rv (rv (of_int (inn * ob)) / of_int (ib + inn))\<rfloor> \<le> ob"
proof -
  let ?p = "of_int (inn * ob) :: rat" and ?d = "of_int (ib + inn) :: rat"
  have d: "1 \<le> ib + inn" using assms by linarith
  then have d1: "1 \<le> ?d" by (metis of_int_1_le_iff)
  have p0: "0 \<le> ?p" using assms by simp
  have err: "rv ?p \<le> ?p + ?p / 2 ^ 53"
  proof (cases "inn * ob = 0")
    case False
    then have "1 \<le> inn * ob" using assms by (simp add: int_one_le_iff_zero_less zero_less_mult_iff)
    then have "1 \<le> ?p" by (metis of_int_1_le_iff)
    moreover have "(2::rat) powi (-1022) \<le> 1" by (simp add: power_int_le_one)
    ultimately have "2 powi (-1022) \<le> \<bar>?p\<bar>" by linarith
    from rv_rel_error [OF this] show ?thesis using p0 by linarith
  qed (simp only: of_int_0, simp)
  have q0: "0 \<le> ?q" using p0 d1 by (simp add: rv_nonneg)
  have "inn * ob \<le> ob * (ib + inn)" using assms by (simp add: distrib_left mult.commute)
  then have "?p \<le> of_int ob * ?d" by (metis of_int_le_iff of_int_mult)
  then have pd: "?p / ?d \<le> of_int ob" using d1 by (simp add: divide_le_eq)
  then have "(?p / ?d) / 2 ^ 53 \<le> of_int ob / 2 ^ 53" by (rule divide_right_mono) simp
  moreover have "of_int ob / 2 ^ 53 \<le> (1/2::rat)" using of_int_le_pow [of ob 52] assms by simp
  moreover have "?q \<le> (?p + ?p / 2 ^ 53) / ?d" using err by (rule divide_right_mono) (use d1 in linarith)
  moreover have "(?p + ?p / 2 ^ 53) / ?d = ?p / ?d + (?p / ?d) / 2 ^ 53"
    by (simp only: add_divide_distrib divide_divide_eq_left mult.commute)
  ultimately have q1: "?q \<le> of_int ob + 1/2" using pd by linarith
  have "\<bar>2 * ob + 1\<bar> \<le> 2 ^ 53" using assms by simp
  from rv_half [OF this] have "rv (of_int ob + 1/2) = of_int ob + 1/2" by (simp add: add_divide_distrib)
  with rv_mono [OF q1] have top: "rv ?q \<le> of_int ob + 1/2" by simp
  have bot: "0 \<le> rv ?q" using q0 by (rule rv_nonneg)
  show nn: "0 \<le> \<lfloor>rv ?q\<rfloor>" using bot by simp
  have "rv ?q < of_int (ob + 1)" using top by simp
  then have "\<lfloor>rv ?q\<rfloor> < ob + 1" by (simp only: floor_less_iff)
  then show le: "\<lfloor>rv ?q\<rfloor> \<le> ob" by simp
  have "d_to_i64 (Fin (rv ?q)) = Inr \<lfloor>rv ?q\<rfloor>" using bot le assms(4) by (intro d_to_i64_floor) auto
  then show "get_bancor_output ib ob inn = Inr \<lfloor>rv ?q\<rfloor>"
    using bancor_steps [of ib ob inn] assms nn by (simp add: get_bancor_output_def)
qed

lemma floor_rv_exact:
  assumes "0 \<le> n" "n < 2 ^ 53" "0 < d" "d \<le> 2 ^ 53"
  shows "\<lfloor>rv (of_int n / of_int d)\<rfloor> = n div d"
proof -
  let ?q = "of_int n / of_int d :: rat" and ?k = "n div d"
  have d1: "(1::rat) \<le> of_int d" using assms(3) by (metis int_one_le_iff_zero_less of_int_1_le_iff)
  have fl: "\<lfloor>?q\<rfloor> = ?k" by (rule floor_divide_of_int_eq)
  have k: "0 \<le> ?k" "?k \<le> n" using assms zdiv_mono2 [of n 1 d] by (simp_all add: pos_imp_zdiv_nonneg_iff)
  then have "of_int ?k = rv (of_int ?k)" using assms(2) by (simp add: rv_int)
  also have "\<dots> \<le> rv ?q" using fl by (intro rv_mono) (metis of_int_floor_le)
  finally have lo: "of_int ?k \<le> rv ?q" .
  have hi: "rv ?q < of_int ?k + 1"
  proof (cases "n = 0")
    case False
    have "n + 1 \<le> (?k + 1) * d" using pos_mod_bound [OF assms(3), of n] div_mult_mod_eq [of n d] by (simp only: distrib_right mult_1)
    then have "(of_int n + 1 :: rat) \<le> (of_int ?k + 1) * of_int d" using of_int_le_iff [of "n + 1" "(?k + 1) * d", where ?'a = rat] by (simp only: of_int_add of_int_mult of_int_1)
    then have gap: "?q + 1 / of_int d \<le> of_int ?k + 1" using d1 by (simp add: divide_le_eq add_divide_distrib [symmetric])
    have n1: "(1::rat) \<le> of_int n" using False assms(1) by simp
    have qpos: "0 < ?q" using n1 d1 by simp
    have "\<bar>rv ?q - ?q\<bar> < 1 / of_int d"
    proof -
      have "(2::rat) powi (-1022) \<le> 2 powi (-53)" by (simp only: powi2_le_iff)
      also have "\<dots> = 1 / 2 ^ 53" by (simp only: power_int_minus power_int_numeral divide_inverse mult_1)
      also have "\<dots> \<le> 1 / of_int d" using d1 of_int_le_pow [OF assms(4)] by (intro divide_left_mono) auto
      also have "\<dots> \<le> ?q" using n1 d1 by (simp add: divide_right_mono)
      finally have "2 powi (-1022) \<le> \<bar>?q\<bar>" using qpos by linarith
      then have "\<bar>rv ?q - ?q\<bar> \<le> \<bar>?q\<bar> / 2 ^ 53" by (rule rv_rel_error)
      moreover have "\<bar>?q\<bar> = ?q" using qpos by (simp only: abs_of_pos)
      moreover have "(of_int n :: rat) < 2 ^ 53" using assms(2) by (metis of_int_less_iff of_int_numeral of_int_power)
      then have "?q / 2 ^ 53 < 1 / of_int d" using d1 by (simp add: divide_less_eq less_divide_eq mult.commute)
      ultimately show ?thesis by linarith
    qed
    then show ?thesis using gap by linarith
  qed (simp add: lo)
  show ?thesis using lo hi by (simp add: floor_eq_iff)
qed

lemma bancor_exact:
  assumes "0 < ib" "0 \<le> ob" "0 \<le> inn" "ob < 2 ^ 52" "ib + inn \<le> 2 ^ 53" "inn * ob < 2 ^ 53"
  shows "get_bancor_output ib ob inn = Inr (inn * ob div (ib + inn))"
proof -
  have "rv (of_int (inn * ob)) = of_int (inn * ob)" using assms by (intro rv_int) simp
  then have "\<lfloor>rv (rv (of_int (inn * ob)) / of_int (ib + inn))\<rfloor> = inn * ob div (ib + inn)"
    using assms by (simp only:) (intro floor_rv_exact, auto)
  with bancor_value(1) [OF assms(1-5)] show ?thesis by simp
qed

text \<open>The constant-product rule, with the output rounded down.\<close>

lemma product_div:
  fixes ib ob inn :: int
  assumes "0 < ib" "0 \<le> inn"
  shows "ib * ob \<le> (ib + inn) * (ob - inn * ob div (ib + inn))"
proof -
  let ?d = "ib + inn" and ?k = "inn * ob div (ib + inn)"
  have "0 < ?d" using assms by simp
  then have "?d * ?k \<le> inn * ob" by (metis minus_mod_eq_mult_div diff_le_eq le_add_same_cancel1 pos_mod_sign)
  moreover have "?d * (ob - ?k) = ib * ob + inn * ob - ?d * ?k" by (simp add: algebra_simps)
  ultimately show ?thesis by simp
qed

subsection \<open>Direct conversion\<close>

definition reserves_ok :: "int \<Rightarrow> int \<Rightarrow> int \<Rightarrow> bool" where
  "reserves_ok ib ob inn \<longleftrightarrow> 0 < ib \<and> 0 \<le> ob \<and> 0 \<le> inn \<and> ob < 2 ^ 52 \<and> ib + inn \<le> 2 ^ 53"

lemma direct_convert_Inr:
  assumes E: "chain_laws E" and r: "direct_convert E x from to = Inr (x', out)"
  shows "sym out = to \<and> xsupply x' = xsupply x \<and>
    (sym from = sym (cbalance (base x)) \<and> to = sym (cbalance (quote x)) \<and>
      get_bancor_output (amount (cbalance (base x))) (amount (cbalance (quote x))) (amount from) = Inr (amount out) \<and>
      amount (cbalance (base x')) = amount (cbalance (base x)) + amount from \<and>
      amount (cbalance (quote x')) = amount (cbalance (quote x)) - amount out \<or>
     sym from = sym (cbalance (quote x)) \<and> to = sym (cbalance (base x)) \<and>
      get_bancor_output (amount (cbalance (quote x))) (amount (cbalance (base x))) (amount from) = Inr (amount out) \<and>
      amount (cbalance (quote x')) = amount (cbalance (quote x)) + amount from \<and>
      amount (cbalance (base x')) = amount (cbalance (base x)) - amount out)"
proof -
  from r obtain out0 where o: "asset_new E 0 to = Inr out0" by (auto simp: direct_convert_def result_simps)
  then have o': "out0 = \<lparr>amount = 0, sym = to\<rparr>" by (rule chain_laws.new_exact [OF E])
  show ?thesis
    using r o unfolding direct_convert_def o'
    by (auto simp: result_simps split: if_splits dest!: chain_laws.add_amount [OF E] chain_laws.sub_amount [OF E])
qed

lemma convert_base_quote:
  assumes E: "chain_laws E" and ne: "sym (cbalance (base x)) \<noteq> sym (cbalance (quote x))"
    and r: "direct_convert E x from (sym (cbalance (quote x))) = Inr (x', out)"
  shows "amount (cbalance (base x')) = amount (cbalance (base x)) + amount from \<and>
     amount (cbalance (quote x')) = amount (cbalance (quote x)) - amount out \<and>
     get_bancor_output (amount (cbalance (base x))) (amount (cbalance (quote x))) (amount from) = Inr (amount out)"
  using direct_convert_Inr [OF E r] ne by auto

lemma convert_quote_base:
  assumes E: "chain_laws E" and ne: "sym (cbalance (base x)) \<noteq> sym (cbalance (quote x))"
    and r: "direct_convert E x from (sym (cbalance (base x))) = Inr (x', out)"
  shows "amount (cbalance (quote x')) = amount (cbalance (quote x)) + amount from \<and>
     amount (cbalance (base x')) = amount (cbalance (base x)) - amount out \<and>
     get_bancor_output (amount (cbalance (quote x))) (amount (cbalance (base x))) (amount from) = Inr (amount out)"
  using direct_convert_Inr [OF E r] ne by auto

lemma direct_convert_syms:
  assumes E: "chain_laws E" and r: "direct_convert E x from to = Inr (x', out)"
  shows "sym (cbalance (base x')) = sym (cbalance (base x))" "sym (cbalance (quote x')) = sym (cbalance (quote x))"
  using r unfolding direct_convert_def
  by (auto simp: result_simps split: if_splits dest!: chain_laws.add_exact [OF E] chain_laws.sub_exact [OF E])

subsection \<open>Properties\<close>

text \<open>
  C16. The Bancor output on doubles: for a positive input reserve, a non-negative input and
  amounts within the precision of a double the computation does not trap and pays between zero
  and the whole output reserve; while the product of input and output reserve is below
  \<open>2 ^ 53\<close> it is exactly the integer quotient, so the rounding of the doubles is unobservable.
\<close>

theorem bancor_output_bounds:
  assumes "reserves_ok ib ob inn"
  shows "\<exists>out. get_bancor_output ib ob inn = Inr out \<and> 0 \<le> out \<and> out \<le> ob \<and>
     (inn * ob < 2 ^ 53 \<longrightarrow> out = inn * ob div (ib + inn))"
proof -
  have a: "0 < ib" "0 \<le> ob" "0 \<le> inn" "ob < 2 ^ 52" "ib + inn \<le> 2 ^ 53"
    using assms by (simp_all add: reserves_ok_def)
  show ?thesis
    by (rule exI, intro conjI impI, rule bancor_value(1) [OF a], rule bancor_value(2) [OF a], rule bancor_value(3) [OF a])
      (use bancor_exact [OF a] bancor_value(1) [OF a] in simp)
qed

theorem bancor_output_bounds_witness:
  "\<exists>out. get_bancor_output 10000000 4000000 123456 = Inr out \<and> out = 123456 * 4000000 div (10000000 + 123456)"
  using bancor_output_bounds [of 10000000 4000000 123456] by (simp add: reserves_ok_def)

text \<open>
  A sequence of trades, by any accounts and in both directions.  A trade is in the exact range when its input
  is not negative, the output reserve is below \<open>2 ^ 52\<close>, the input reserve after it at most \<open>2 ^ 53\<close>, and the product of input and
  output reserve, which the code computes on doubles, below \<open>2 ^ 53\<close>; then only the final quotient is rounded.
\<close>

fun trade_run :: "env \<Rightarrow> (asset \<times> symbol) list \<Rightarrow> exchange_state \<Rightarrow> (exchange_state \<times> asset list) result" where
  "trade_run E [] x = Inr (x, [])"
| "trade_run E ((from, to) # ts) x =
     (case direct_convert E x from to of Inl e \<Rightarrow> Inl e | Inr (x1, out) \<Rightarrow>
      (case trade_run E ts x1 of Inl e \<Rightarrow> Inl e | Inr (x', outs) \<Rightarrow> Inr (x', out # outs)))"

definition exact_trade :: "exchange_state \<Rightarrow> asset \<Rightarrow> bool" where
  "exact_trade x from \<longleftrightarrow>
     (let b = amount (cbalance (base x)); q = amount (cbalance (quote x));
          (i, out) = (if sym from = sym (cbalance (base x)) then (b, q) else (q, b))
      in reserves_ok i out (amount from) \<and> amount from * out < 2 ^ 53)"

fun exact_run :: "env \<Rightarrow> (asset \<times> symbol) list \<Rightarrow> exchange_state \<Rightarrow> bool" where
  "exact_run E [] x = True"
| "exact_run E ((from, to) # ts) x =
     (exact_trade x from \<and> (case direct_convert E x from to of Inl e \<Rightarrow> True | Inr (x1, out) \<Rightarrow> exact_run E ts x1))"

definition tokens_of :: "symbol \<Rightarrow> asset list \<Rightarrow> int" where
  "tokens_of y as = sum_list (map amount (filter (\<lambda>a. sym a = y) as))"

lemma tokens_of_simps [simp]:
  "tokens_of y [] = 0" "tokens_of y (a # as) = (if sym a = y then amount a else 0) + tokens_of y as"
  by (simp_all add: tokens_of_def)

text \<open>One trade in the exact range pays the rounded quotient, so the product of the reserves does not fall.\<close>

lemma exact_trade_step:
  assumes E: "chain_laws E" and ne: "sym (cbalance (base x)) \<noteq> sym (cbalance (quote x))"
    and r: "direct_convert E x from to = Inr (x', out)" and ex: "exact_trade x from"
    and pos: "0 < amount (cbalance (base x))" "0 < amount (cbalance (quote x))"
  shows "amount (cbalance (base x)) * amount (cbalance (quote x)) \<le> amount (cbalance (base x')) * amount (cbalance (quote x')) \<and>
    0 < amount (cbalance (base x')) \<and> 0 < amount (cbalance (quote x')) \<and>
    sym (cbalance (base x')) = sym (cbalance (base x)) \<and> sym (cbalance (quote x')) = sym (cbalance (quote x)) \<and>
    (\<forall>y \<in> {sym (cbalance (base x)), sym (cbalance (quote x))}.
       (if y = sym (cbalance (base x)) then amount (cbalance (base x')) - amount (cbalance (base x))
        else amount (cbalance (quote x')) - amount (cbalance (quote x))) = tokens_of y [from] - tokens_of y [out])"
proof -
  let ?b = "amount (cbalance (base x))" and ?q = "amount (cbalance (quote x))"
  have swap: "i * ob \<le> (i + n) * (ob - k) \<and> 0 < i + n \<and> 0 < ob - k"
    if "k = n * ob div (i + n)" "reserves_ok i ob n" "0 < i" "0 < ob" for i ob n k
  proof -
    have n: "0 \<le> n" using that by (simp add: reserves_ok_def)
    have le: "i * ob \<le> (i + n) * (ob - k)" using product_div [of i n ob] that n by simp
    have "0 < (i + n) * (ob - k)" using le mult_pos_pos [OF that(3,4)] by linarith
    then show ?thesis using le n that(3) by (simp add: zero_less_mult_iff)
  qed
  have out: "amount out = amount from * ob div (i + amount from)"
    if "get_bancor_output i ob (amount from) = Inr (amount out)" "reserves_ok i ob (amount from)" "amount from * ob < 2 ^ 53" for i ob
    using that bancor_exact [of i ob "amount from"] by (simp add: reserves_ok_def)
  note sy = direct_convert_syms [OF E r]
  from direct_convert_Inr [OF E r]
  consider
    (sell) "sym out = to" "sym from = sym (cbalance (base x))" "to = sym (cbalance (quote x))"
      "get_bancor_output ?b ?q (amount from) = Inr (amount out)"
      "amount (cbalance (base x')) = ?b + amount from" "amount (cbalance (quote x')) = ?q - amount out"
  | (buy) "sym out = to" "sym from = sym (cbalance (quote x))" "to = sym (cbalance (base x))"
      "get_bancor_output ?q ?b (amount from) = Inr (amount out)"
      "amount (cbalance (quote x')) = ?q + amount from" "amount (cbalance (base x')) = ?b - amount out"
    by blast
  then show ?thesis
  proof cases
    case sell
    have ok: "reserves_ok ?b ?q (amount from)" "amount from * ?q < 2 ^ 53" using ex sell(2) by (simp_all add: exact_trade_def Let_def)
    show ?thesis using swap [OF out [OF sell(4) ok] ok(1) pos] sell sy ne by auto
  next
    case buy
    have ok: "reserves_ok ?q ?b (amount from)" "amount from * ?b < 2 ^ 53" using ex buy(2) ne by (simp_all add: exact_trade_def Let_def)
    show ?thesis using swap [OF out [OF buy(4) ok] ok(1) pos(2,1)] buy sy ne by (auto simp: mult.commute)
  qed
qed

lemma exact_trades:
  assumes E: "chain_laws E" and ne: "sym (cbalance (base x)) \<noteq> sym (cbalance (quote x))"
    and r: "trade_run E ts x = Inr (x', outs)" and ex: "exact_run E ts x"
    and pos: "0 < amount (cbalance (base x))" "0 < amount (cbalance (quote x))"
  shows "amount (cbalance (base x)) * amount (cbalance (quote x)) \<le> amount (cbalance (base x')) * amount (cbalance (quote x')) \<and>
    0 < amount (cbalance (base x')) \<and> 0 < amount (cbalance (quote x')) \<and>
    amount (cbalance (base x')) = amount (cbalance (base x)) +
      tokens_of (sym (cbalance (base x))) (map fst ts) - tokens_of (sym (cbalance (base x))) outs \<and>
    amount (cbalance (quote x')) = amount (cbalance (quote x)) +
      tokens_of (sym (cbalance (quote x))) (map fst ts) - tokens_of (sym (cbalance (quote x))) outs"
  using ne r ex pos
proof (induction ts arbitrary: x outs)
  case (Cons t ts)
  obtain fr to where t: "t = (fr, to)" by (cases t)
  obtain x1 out outs1 where s: "direct_convert E x fr to = Inr (x1, out)" "trade_run E ts x1 = Inr (x', outs1)" "outs = out # outs1"
    using Cons.prems(2) by (auto simp: t result_simps)
  have ex: "exact_trade x fr" "exact_run E ts x1" using Cons.prems(3) s(1) by (simp_all add: t)
  note step = exact_trade_step [OF E Cons.prems(1) s(1) ex(1) Cons.prems(4,5)]
  have "sym (cbalance (base x1)) \<noteq> sym (cbalance (quote x1))" using step Cons.prems(1) by simp
  note IH = Cons.IH [OF this s(2) ex(2)]
  show ?case using step IH Cons.prems(1) unfolding s(3) t by auto
qed simp

text \<open>
  C18. No sequence of conversions makes a profit, whoever trades and in whatever direction, as long as every single conversion is in the exact range:
  the product of the two reserves never falls, and traders who as a whole received at least what they
  paid of one token paid at least what they received of the other.  In particular converting back and
  forth, starting on either side, returns at most the input.
\<close>

theorem direct_convert_no_profit:
  assumes "chain_laws E" and "sym (cbalance (base x)) \<noteq> sym (cbalance (quote x))"
    and "0 < amount (cbalance (base x))" "0 < amount (cbalance (quote x))"
    and "trade_run E ts x = Inr (x', outs)" and "exact_run E ts x"
  shows "amount (cbalance (base x)) * amount (cbalance (quote x)) \<le> amount (cbalance (base x')) * amount (cbalance (quote x')) \<and>
    (tokens_of (sym (cbalance (quote x))) (map fst ts) \<le> tokens_of (sym (cbalance (quote x))) outs \<longrightarrow>
       tokens_of (sym (cbalance (base x))) outs \<le> tokens_of (sym (cbalance (base x))) (map fst ts)) \<and>
    (tokens_of (sym (cbalance (base x))) (map fst ts) \<le> tokens_of (sym (cbalance (base x))) outs \<longrightarrow>
       tokens_of (sym (cbalance (quote x))) outs \<le> tokens_of (sym (cbalance (quote x))) (map fst ts))"
proof -
  note t = exact_trades [OF assms(1,2,5,6,3,4)]
  have grows: "b \<le> b'" if "b * q \<le> b' * q'" "q' \<le> q" "0 < q" "0 < b'" for b q b' q' :: int
  proof -
    have "b * q \<le> b' * q" using that mult_left_mono [of q' q b'] by linarith
    then show ?thesis using that(3) by simp
  qed
  let ?b = "amount (cbalance (base x))" and ?q = "amount (cbalance (quote x))"
  let ?b' = "amount (cbalance (base x'))" and ?q' = "amount (cbalance (quote x'))"
  have 1: "?b * ?q \<le> ?b' * ?q'" "0 < ?b'" "0 < ?q'" using t by blast+
  then have "?q' \<le> ?q \<longrightarrow> ?b \<le> ?b'" "?b' \<le> ?b \<longrightarrow> ?q \<le> ?q'"
    using grows [of ?b ?q ?b' ?q'] grows [of ?q ?b ?q' ?b'] assms(3,4) by (simp_all add: mult.commute)
  then show ?thesis using t 1(1) by linarith
qed

definition demo_market :: exchange_state where
  "demo_market = \<lparr>xsupply = \<lparr>amount = 100, sym = \<lparr>scode = 3, sprec = 4\<rparr>\<rparr>,
     base = \<lparr>cbalance = \<lparr>amount = 5000, sym = \<lparr>scode = 1, sprec = 0\<rparr>\<rparr>, cweight = Fin (1/2)\<rparr>,
     quote = \<lparr>cbalance = \<lparr>amount = 2000, sym = \<lparr>scode = 2, sprec = 4\<rparr>\<rparr>, cweight = Fin (1/2)\<rparr>\<rparr>"

theorem direct_convert_no_profit_witness:
  "\<exists>x' outs. trade_run (sdk_env 1 0) [(\<lparr>amount = 700, sym = sym (cbalance (base demo_market))\<rparr>, sym (cbalance (quote demo_market))),
       (\<lparr>amount = 245, sym = sym (cbalance (quote demo_market))\<rparr>, sym (cbalance (base demo_market)))] demo_market = Inr (x', outs) \<and>
     tokens_of (sym (cbalance (quote demo_market))) outs = 245 \<and> tokens_of (sym (cbalance (base demo_market))) outs \<le> 700"
proof -
  let ?ts = "[(\<lparr>amount = 700, sym = sym (cbalance (base demo_market))\<rparr>, sym (cbalance (quote demo_market))),
       (\<lparr>amount = 245, sym = sym (cbalance (quote demo_market))\<rparr>, sym (cbalance (base demo_market)))]"
  have "exact_run (sdk_env 1 0) ?ts demo_market \<and> (case trade_run (sdk_env 1 0) ?ts demo_market of Inl e \<Rightarrow> False
      | Inr (x', outs) \<Rightarrow> tokens_of (sym (cbalance (quote demo_market))) outs = 245)"
    by code_simp
  then obtain x' outs where t: "exact_run (sdk_env 1 0) ?ts demo_market" "trade_run (sdk_env 1 0) ?ts demo_market = Inr (x', outs)"
    "tokens_of (sym (cbalance (quote demo_market))) outs = 245"
    by (auto split: sum.splits)
  have m: "sym (cbalance (base demo_market)) \<noteq> sym (cbalance (quote demo_market))"
    "0 < amount (cbalance (base demo_market))" "0 < amount (cbalance (quote demo_market))" by (simp_all add: demo_market_def)
  from direct_convert_no_profit [OF sdk.chain_laws_axioms m t(2,1)] show ?thesis using t(2,3) m(1) by auto
qed

end
