(* ===== verification/Ledger.thy ===== *)
theory Ledger
  imports Chain_Env
begin

section \<open>The interface of a token ledger\<close>

text \<open>
  The other contracts move tokens only by sending \<open>transfer\<close> actions to the token
  contract.  The locale \<open>fungible_ledger\<close> states what they rely on: a transfer
  keeps the ledger's invariant, moves exactly its amount from the sender to the
  receiver and touches nothing else.  What follows for a whole batch of transfers
  is proved once here; the token contract interprets the locale.
\<close>

record transfer_data =
  t_from :: name
  t_to :: name
  t_quantity :: asset
  t_memo :: string

fun run_actions :: "('a \<Rightarrow> 's \<Rightarrow> 's result) \<Rightarrow> 'a list \<Rightarrow> 's \<Rightarrow> 's result" where
  "run_actions act [] s = Inr s"
| "run_actions act (a # as) s = (case act a s of Inl e \<Rightarrow> Inl e | Inr s' \<Rightarrow> run_actions act as s')"

definition flow :: "transfer_data \<Rightarrow> name \<Rightarrow> symcode \<Rightarrow> int" where
  "flow t x c =
     (if t_to t = x \<and> scode (sym (t_quantity t)) = c then amount (t_quantity t) else 0) -
     (if t_from t = x \<and> scode (sym (t_quantity t)) = c then amount (t_quantity t) else 0)"

definition net_flow :: "transfer_data list \<Rightarrow> name \<Rightarrow> symcode \<Rightarrow> int" where
  "net_flow ts x c = sum_list (map (\<lambda>t. flow t x c) ts)"

lemma net_flow_simps [simp]:
  "net_flow [] x c = 0"
  "net_flow (t # ts) x c = flow t x c + net_flow ts x c"
  "net_flow (ts @ us) x c = net_flow ts x c + net_flow us x c"
  by (simp_all add: net_flow_def)

lemma flow_closed: "t_from t \<in> A \<Longrightarrow> t_to t \<in> A \<Longrightarrow> finite A \<Longrightarrow> (\<Sum>x\<in>A. flow t x c) = 0"
  by (cases "scode (sym (t_quantity t)) = c") (simp_all add: flow_def sum_subtractf)

locale fungible_ledger =
  fixes lawful :: "'e \<Rightarrow> bool"
    and inv :: "'s \<Rightarrow> bool"
    and bal :: "'s \<Rightarrow> name \<Rightarrow> symcode \<Rightarrow> int"
    and move :: "'e \<Rightarrow> transfer_data \<Rightarrow> 's \<Rightarrow> 's result"
  assumes move_inv: "lawful e \<Longrightarrow> inv s \<Longrightarrow> move e t s = Inr s' \<Longrightarrow> inv s'"
    and move_bal: "lawful e \<Longrightarrow> inv s \<Longrightarrow> move e t s = Inr s' \<Longrightarrow> bal s' x c = bal s x c + flow t x c"
    and bal_nonneg: "inv s \<Longrightarrow> 0 \<le> bal s x c"
begin

lemma run_inv_bal:
  "lawful e \<Longrightarrow> inv s \<Longrightarrow> run_actions (move e) ts s = Inr s' \<Longrightarrow>
     inv s' \<and> bal s' x c = bal s x c + net_flow ts x c"
proof (induction ts arbitrary: s)
  case Nil
  then show ?case by simp
next
  case (Cons t ts)
  then obtain s1 where s1: "move e t s = Inr s1" "run_actions (move e) ts s1 = Inr s'"
    by (auto simp: result_simps)
  have "inv s1" "bal s1 x c = bal s x c + flow t x c"
    using move_inv [OF Cons.prems(1,2) s1(1)] move_bal [OF Cons.prems(1,2) s1(1)] by simp_all
  with Cons.IH [OF Cons.prems(1) _ s1(2)] show ?case by simp
qed

text \<open>No batch overdraws an account, and a closed group of accounts keeps its total.\<close>

lemma run_no_overdraft:
  assumes "lawful e" "inv s" "run_actions (move e) ts s = Inr s'"
  shows "- net_flow ts x c \<le> bal s x c"
  using run_inv_bal [OF assms, of x c] bal_nonneg [of s' x c] by simp

lemma run_closed_group:
  assumes run: "lawful e" "inv s" "run_actions (move e) ts s = Inr s'"
    and A: "finite A" "\<And>t. t \<in> set ts \<Longrightarrow> t_from t \<in> A \<and> t_to t \<in> A"
  shows "(\<Sum>x\<in>A. bal s' x c) = (\<Sum>x\<in>A. bal s x c)"
proof -
  have "(\<Sum>x\<in>A. net_flow us x c) = 0" if "set us \<subseteq> set ts" for us
    using that A by (induction us) (auto simp: sum.distrib flow_closed)
  from this [of ts] show ?thesis using run_inv_bal [OF run] by (simp add: sum.distrib)
qed

end

end
