(* ===== verification/System_State.thy ===== *)
theory System_State
  imports Exchange Ledger
begin

section \<open>The state of the system contract\<close>

text \<open>
  The tables and singletons of \<open>contracts/eosio.system\<close> (\<open>eosio.system.hpp\<close>) as one
  record \<open>sys\<close>.  A table scoped by an account is keyed by the pair of scope and
  primary key.  Resource limits belong to the chain and are kept in \<open>res_limits\<close>;
  inline actions, notifications and deferred transactions are appended to \<open>effects\<close>
  in the order in which they are sent.  Fields of the source that nothing reads (the
  version numbers, the reserved fields and the chain parameters) are left out.
\<close>

subsection \<open>Constants\<close>

definition eosio_account :: name where "eosio_account = 6138663577826885632" \<comment> \<open>\<open>eosio\<close>\<close>
definition active_permission :: name where "active_permission = 3617214756542218240" \<comment> \<open>\<open>active\<close>\<close>
definition token_account :: name where "token_account = 6138663591592764928" \<comment> \<open>\<open>eosio.token\<close>\<close>
definition ram_account :: name where "ram_account = 6138663590285017088" \<comment> \<open>\<open>eosio.ram\<close>\<close>
definition ramfee_account :: name where "ramfee_account = 6138663590285202592" \<comment> \<open>\<open>eosio.ramfee\<close>\<close>
definition stake_account :: name where "stake_account = 6138663591134630912" \<comment> \<open>\<open>eosio.stake\<close>\<close>
definition bpay_account :: name where "bpay_account = 6138663581940940800" \<comment> \<open>\<open>eosio.bpay\<close>\<close>
definition vpay_account :: name where "vpay_account = 6138663592678359040" \<comment> \<open>\<open>eosio.vpay\<close>\<close>
definition names_account :: name where "names_account = 6138663588137709568" \<comment> \<open>\<open>eosio.names\<close>\<close>
definition saving_account :: name where "saving_account = 6138663590826845888" \<comment> \<open>\<open>eosio.saving\<close>\<close>
definition rex_account :: name where "rex_account = 6138663590357893120" \<comment> \<open>\<open>eosio.rex\<close>\<close>
definition reserve_account :: name where "reserve_account = 6138663590355447728" \<comment> \<open>\<open>eosio.reserv\<close>\<close>
definition null_account :: name where "null_account = 6138663588472832000" \<comment> \<open>\<open>eosio.null\<close>\<close>
definition tedp_account :: name where "tedp_account = 6300408249868353536" \<comment> \<open>\<open>exrsrv.tf\<close>\<close>
definition decide_account :: name where "decide_account = 14601597984753029792" \<comment> \<open>\<open>telos.decide\<close>\<close>
definition works_account :: name where "works_account = 16514431557734470304" \<comment> \<open>\<open>works.decide\<close>\<close>
definition amend_account :: name where "amend_account = 3788992390866637472" \<comment> \<open>\<open>amend.decide\<close>\<close>
definition delphi_oracle_account :: name where "delphi_oracle_account = 5378237739411055264" \<comment> \<open>\<open>delphioracle\<close>\<close>
definition evm_account :: name where "evm_account = 6138663583658016768" \<comment> \<open>\<open>eosio.evm\<close>\<close>
definition b1_account :: name where "b1_account = 4053239664633446400" \<comment> \<open>\<open>b1\<close>\<close>

definition ramcore_symbol :: symbol where "ramcore_symbol = \<lparr>scode = 19512273778065746, sprec = 4\<rparr>"
definition ram_symbol :: symbol where "ram_symbol = \<lparr>scode = 5062994, sprec = 0\<rparr>"
definition rex_symbol :: symbol where "rex_symbol = \<lparr>scode = 5784914, sprec = 4\<rparr>"

definition seconds_per_day :: int where "seconds_per_day = 86400"
definition seconds_per_hour :: int where "seconds_per_hour = 3600"
definition useconds_per_day :: int where "useconds_per_day = 86400000000"
definition ram_gift_bytes :: int where "ram_gift_bytes = 1400"
definition refund_delay_sec :: int where "refund_delay_sec = 3 * 86400"
definition min_activated_stake :: int where "min_activated_stake = 1500000000000"
definition block_num_network_activation :: int where "block_num_network_activation = 1000"
definition max_time_sec :: int where "max_time_sec = 2 ^ 32 - 1" \<comment> \<open>\<open>time_point_sec::maximum()\<close>\<close>

lemmas const_defs =
  seconds_per_day_def seconds_per_hour_def useconds_per_day_def ram_gift_bytes_def refund_delay_sec_def
  min_activated_stake_def block_num_network_activation_def max_time_sec_def

subsection \<open>Rows\<close>

type_synonym public_key = "8 word list"

record authority =
  threshold :: int
  auth_keys :: "(public_key \<times> int) list"

record name_bid =
  high_bidder :: name
  high_bid :: int          \<comment> \<open>negative: closed auction waiting to be claimed\<close>
  last_bid_time :: int

record global_state =
  g_max_ram_size :: int
  g_total_ram_bytes_reserved :: int
  g_total_ram_stake :: int
  g_last_producer_schedule_update :: int
  g_last_proposed_schedule_update :: int
  g_last_pervote_bucket_fill :: int
  g_pervote_bucket :: int
  g_perblock_bucket :: int
  g_total_unpaid_blocks :: int
  g_total_activated_stake :: int
  g_thresh_activated_stake_time :: int
  g_last_producer_schedule_size :: int
  g_total_producer_vote_weight :: double
  g_last_name_close :: int
  g_block_num :: int
  g_last_claimrewards :: int
  g_next_payment :: int

record global_state2 =
  g2_new_ram_per_block :: int
  g2_last_ram_increase :: int
  g2_last_block_num :: int
  g2_total_producer_votepay_share :: double
  g2_revision :: int

record global_state3 =
  g3_last_vpay_state_update :: int
  g3_total_vpay_share_change_rate :: double

record global_state4 =
  g4_continuous_rate :: double
  g4_inflation_pay_factor :: int
  g4_votepay_factor :: int

record producer_info =
  p_owner :: name
  p_total_votes :: double
  p_key :: public_key
  p_is_active :: bool
  p_unreg_reason :: string
  p_url :: string
  p_unpaid_blocks :: int
  p_lifetime_produced_blocks :: int
  p_missed_blocks_per_rotation :: int
  p_lifetime_missed_blocks :: int
  p_last_claim_time :: int
  p_location :: int
  p_kick_reason_id :: int
  p_kick_reason :: string
  p_times_kicked :: int
  p_kick_penalty_hours :: int
  p_last_time_kicked :: int
  p_authority :: "authority option"

record producer_info2 =
  votepay_share :: double
  last_votepay_share_update :: int

record voter_info =
  v_owner :: name
  v_proxy :: name
  v_producers :: "name list"
  v_staked :: int
  v_last_stake :: int
  v_last_vote_weight :: double
  v_proxied_vote_weight :: double
  v_is_proxy :: bool
  v_flags1 :: "32 word"
  v_self_stake_boost :: "int option"

record voting_config =
  evm_voting_contract :: "8 word list"
  decay_start_epoch :: int
  decay_increase_yearly :: int
  self_stake_boost_multiplier :: int

record user_resources =
  u_net_weight :: asset
  u_cpu_weight :: asset
  u_ram_bytes :: int

record delegated_bandwidth =
  d_net_weight :: asset
  d_cpu_weight :: asset

record refund_request =
  request_time :: int
  net_amount :: asset
  cpu_amount :: asset

record rex_pool =
  total_lent :: asset
  total_unlent :: asset
  total_rent :: asset
  total_lendable :: asset
  total_rex :: asset
  namebid_proceeds :: asset
  loan_num :: int

record rex_return_pool =
  last_dist_time :: int
  pending_bucket_time :: int
  oldest_bucket_time :: int
  pending_bucket_proceeds :: int
  current_rate_of_increase :: int
  proceeds :: int

type_synonym buckets = "(int \<times> int) list"

record rex_balance =
  vote_stake :: asset
  rex_bal :: asset
  matured_rex :: int
  rex_maturities :: buckets

record rex_loan =
  loan_from :: name
  loan_receiver :: name
  loan_payment :: asset
  loan_balance :: asset
  loan_staked :: asset
  loan_expiration :: int

record rex_order =
  o_rex_requested :: asset
  o_proceeds :: asset
  o_stake_change :: asset
  o_time :: int
  o_is_open :: bool

record producer_metric =
  bp_name :: name
  missed_blocks_per_cycle :: int

record schedule_metrics_state =
  last_onblock_caller :: name
  block_counter_correction :: int
  producers_metric :: "producer_metric list"

record rotation_state =
  bp_currently_out :: name
  sbp_currently_in :: name
  bp_out_index :: int
  sbp_in_index :: int
  next_rotation_time :: int
  last_rotation_time :: int

record payrates =
  bpay_rate :: int
  worker_amount :: int

record powerup_state_resource =
  pr_weight :: int
  pr_weight_ratio :: int
  pr_assumed_stake_weight :: int
  pr_initial_weight_ratio :: int
  pr_target_weight_ratio :: int
  pr_initial_timestamp :: int
  pr_target_timestamp :: int
  pr_exponent :: double
  pr_decay_secs :: int
  pr_min_price :: asset
  pr_max_price :: asset
  pr_utilization :: int
  pr_adjusted_utilization :: int
  pr_utilization_timestamp :: int

record powerup_state =
  pw_net :: powerup_state_resource
  pw_cpu :: powerup_state_resource
  pw_days :: int
  pw_min_fee :: asset

record powerup_order =
  po_owner :: name
  po_net_weight :: int
  po_cpu_weight :: int
  po_expires :: int

record block_info_record =
  bi_version :: int
  bi_timestamp :: int

record limit_auth_change =
  allow_perms :: "name list"
  disallow_perms :: "name list"

subsection \<open>Effects and the whole state\<close>

datatype effect =
    Token_transfer transfer_data
  | Token_issue name asset string
  | Inline_result string "asset list"           \<comment> \<open>dummy actions that show results in the trace\<close>
  | Notify name                                 \<comment> \<open>\<open>require_recipient\<close>\<close>
  | Defer_refund name int                       \<comment> \<open>deferred \<open>refund\<close> of an account, with its delay\<close>
  | Cancel_deferred name
  | Defer_bidrefund name name                   \<comment> \<open>deferred \<open>bidrefund\<close>, replacing an earlier one\<close>
  | Token_open name symbol name
  | Set_privileged name int
  | Preactivate_feature "8 word list"
  | Set_wasm_parameters "int list"
  | Set_blockchain_parameters "int list"
  | Evm_raw "8 word list" "8 word list"         \<comment> \<open>\<open>raw\<close> action of the EVM contract: transaction and sender\<close>
  | Propose_schedule "(name \<times> authority) list"  \<comment> \<open>\<open>set_proposed_producers\<close>\<close>
  | Powup_result asset int int                  \<comment> \<open>\<open>powupresult\<close>: fee, NET and CPU amount\<close>
  | Inline_action name name                     \<comment> \<open>any other inline action: contract and action\<close>

record sys =
  voters :: "(name, voter_info) fmap"
  producers :: "(name, producer_info) fmap"
  producers2 :: "(name, producer_info2) fmap"
  gstate :: global_state
  gstate2 :: global_state2
  gstate3 :: global_state3
  gstate4 :: global_state4
  rammarket :: "exchange_state option"
  rexpool :: "rex_pool option"
  rexretpool :: "rex_return_pool option"
  rexretbuckets :: "buckets option"
  rexfunds :: "(name, asset) fmap"
  rexbalance :: "(name, rex_balance) fmap"
  rexorders :: "(name, rex_order) fmap"
  cpuloans :: "(int, rex_loan) fmap"
  netloans :: "(int, rex_loan) fmap"
  userres :: "(name, user_resources) fmap"
  delband :: "(name \<times> name, delegated_bandwidth) fmap"
  refunds :: "(name, refund_request) fmap"
  namebids :: "(name, name_bid) fmap"
  bidrefunds :: "(name \<times> name, asset) fmap"
  schedule_metrics :: schedule_metrics_state
  rotation :: rotation_state
  payrate :: payrates
  payments :: "(name, asset) fmap"
  evm_votes :: "(name, int) fmap"
  voting_cfg :: voting_config
  powup_state :: "powerup_state option"
  powup_orders :: "(int, powerup_order) fmap"
  blockinfo :: "(int, block_info_record) fmap"
  limitauthchg_tbl :: "(name, limit_auth_change) fmap"
  abihash :: "(name, 8 word list) fmap"
  res_limits :: "name \<Rightarrow> int \<times> int \<times> int"
  effects :: "effect list"

subsection \<open>Shared helpers\<close>

text \<open>\<open>a.amount += n\<close> and \<open>a.amount = n\<close> on the raw amount of an asset.\<close>

definition add_amt :: "asset \<Rightarrow> int \<Rightarrow> asset" where
  "add_amt a n = a\<lparr>amount := i64 (amount a + n)\<rparr>"

definition set_amt :: "asset \<Rightarrow> int \<Rightarrow> asset" where
  "set_amt a n = a\<lparr>amount := n\<rparr>"

lemma amt_simps [simp]:
  "sym (add_amt a n) = sym a" "amount (add_amt a n) = i64 (amount a + n)"
  "sym (set_amt a n) = sym a" "amount (set_amt a n) = n"
  by (simp_all add: add_amt_def set_amt_def)

definition send_transfer :: "name \<Rightarrow> name \<Rightarrow> asset \<Rightarrow> string \<Rightarrow> sys \<Rightarrow> sys" where
  "send_transfer from to q memo s =
     s\<lparr>effects := effects s @ [Token_transfer \<lparr>t_from = from, t_to = to, t_quantity = q, t_memo = memo\<rparr>]\<rparr>"

definition emit :: "effect \<Rightarrow> sys \<Rightarrow> sys" where
  "emit e s = s\<lparr>effects := effects s @ [e]\<rparr>"

fun transfers_of :: "effect list \<Rightarrow> transfer_data list" where
  "transfers_of [] = []"
| "transfers_of (Token_transfer t # es) = t # transfers_of es"
| "transfers_of (_ # es) = transfers_of es"

lemma transfers_of_append [simp]: "transfers_of (xs @ ys) = transfers_of xs @ transfers_of ys"
  by (induction xs rule: transfers_of.induct) simp_all

definition core_symbol :: "sys \<Rightarrow> symbol result" where
  "core_symbol s =
     (case rammarket s of
        None \<Rightarrow> Inl (Check ''system contract must first be initialized'')
      | Some m \<Rightarrow> Inr (sym (cbalance (quote m))))"

definition core_zero :: "env \<Rightarrow> sys \<Rightarrow> asset result" where
  "core_zero E s = (case core_symbol s of Inl e \<Rightarrow> Inl e | Inr y \<Rightarrow> asset_new E 0 y)"

definition core_asset :: "env \<Rightarrow> int \<Rightarrow> sys \<Rightarrow> asset result" where
  "core_asset E n s = (case core_symbol s of Inl e \<Rightarrow> Inl e | Inr y \<Rightarrow> asset_new E n y)"

definition rex_system_initialized :: "sys \<Rightarrow> bool" where
  "rex_system_initialized s = (rexpool s \<noteq> None)"

definition rex_available :: "sys \<Rightarrow> bool" where
  "rex_available s = (case rexpool s of None \<Rightarrow> False | Some rp \<Rightarrow> 0 < amount (total_rex rp))"

text \<open>\<open>flags1_fields\<close> of a voter: bits 0, 1 and 2.\<close>

definition ram_managed :: "sys \<Rightarrow> name \<Rightarrow> bool" where
  "ram_managed s x = (case fmlookup (voters s) x of None \<Rightarrow> False | Some v \<Rightarrow> bit (v_flags1 v) 0)"

definition net_managed :: "sys \<Rightarrow> name \<Rightarrow> bool" where
  "net_managed s x = (case fmlookup (voters s) x of None \<Rightarrow> False | Some v \<Rightarrow> bit (v_flags1 v) 1)"

definition cpu_managed :: "sys \<Rightarrow> name \<Rightarrow> bool" where
  "cpu_managed s x = (case fmlookup (voters s) x of None \<Rightarrow> False | Some v \<Rightarrow> bit (v_flags1 v) 2)"

definition set_resource_limits :: "name \<Rightarrow> int \<Rightarrow> int \<Rightarrow> int \<Rightarrow> sys \<Rightarrow> sys" where
  "set_resource_limits x ram net cpu s = s\<lparr>res_limits := (res_limits s)(x := (ram, net, cpu))\<rparr>"

subsection \<open>A fresh state\<close>

text \<open>
  The state right after \<open>init\<close> with a RAM market of the core token \<open>tlos\<close>; concrete runs start
  from it.
\<close>

definition core_sym :: symbol where "core_sym = \<lparr>scode = 1397705812, sprec = 4\<rparr>"

definition core :: "int \<Rightarrow> asset" where "core n = \<lparr>amount = n, sym = core_sym\<rparr>"

definition rex_asset :: "int \<Rightarrow> asset" where "rex_asset n = \<lparr>amount = n, sym = rex_symbol\<rparr>"

lemma core_simps [simp]: "amount (core n) = n" "sym (core n) = core_sym" "amount (rex_asset n) = n" "sym (rex_asset n) = rex_symbol"
  by (simp_all add: core_def rex_asset_def)

definition sys0 :: sys where
  "sys0 = \<lparr>voters = fmempty, producers = fmempty, producers2 = fmempty,
     gstate = \<lparr>g_max_ram_size = 12884901888, g_total_ram_bytes_reserved = 0, g_total_ram_stake = 0,
       g_last_producer_schedule_update = 0, g_last_proposed_schedule_update = 0, g_last_pervote_bucket_fill = 0,
       g_pervote_bucket = 0, g_perblock_bucket = 0, g_total_unpaid_blocks = 0, g_total_activated_stake = 0,
       g_thresh_activated_stake_time = 0, g_last_producer_schedule_size = 0, g_total_producer_vote_weight = Fin 0,
       g_last_name_close = 0, g_block_num = 12, g_last_claimrewards = 0, g_next_payment = 0\<rparr>,
     gstate2 = \<lparr>g2_new_ram_per_block = 0, g2_last_ram_increase = 0, g2_last_block_num = 0, g2_total_producer_votepay_share = Fin 0, g2_revision = 0\<rparr>,
     gstate3 = \<lparr>g3_last_vpay_state_update = 0, g3_total_vpay_share_change_rate = Fin 0\<rparr>,
     gstate4 = \<lparr>g4_continuous_rate = Fin 0, g4_inflation_pay_factor = 50000, g4_votepay_factor = 40000\<rparr>,
     rammarket = Some \<lparr>xsupply = \<lparr>amount = 100000000000000, sym = ramcore_symbol\<rparr>,
       base = \<lparr>cbalance = \<lparr>amount = 12884901888, sym = ram_symbol\<rparr>, cweight = Fin (1/2)\<rparr>,
       quote = \<lparr>cbalance = core 1000000, cweight = Fin (1/2)\<rparr>\<rparr>,
     rexpool = None, rexretpool = None, rexretbuckets = None, rexfunds = fmempty, rexbalance = fmempty,
     rexorders = fmempty, cpuloans = fmempty, netloans = fmempty, userres = fmempty, delband = fmempty,
     refunds = fmempty, namebids = fmempty, bidrefunds = fmempty,
     schedule_metrics = \<lparr>last_onblock_caller = 0, block_counter_correction = 0, producers_metric = []\<rparr>,
     rotation = \<lparr>bp_currently_out = 0, sbp_currently_in = 0, bp_out_index = 21, sbp_in_index = 75,
       next_rotation_time = 0, last_rotation_time = 0\<rparr>,
     payrate = \<lparr>bpay_rate = 6000, worker_amount = 10000000000\<rparr>, payments = fmempty,
     evm_votes = fmempty,
     voting_cfg = \<lparr>evm_voting_contract = replicate 20 0, decay_start_epoch = 0, decay_increase_yearly = 0, self_stake_boost_multiplier = 0\<rparr>,
     powup_state = None, powup_orders = fmempty, blockinfo = fmempty, limitauthchg_tbl = fmempty, abihash = fmempty,
     res_limits = (\<lambda>_. (0, 0, 0)), effects = []\<rparr>"

lemma core_symbol_sys0: "core_symbol sys0 = Inr core_sym"
  by (simp add: core_symbol_def sys0_def)

end
