(* ===== verification/Voting.thy ===== *)
theory Voting
  imports System_State
begin

section \<open>Producers and votes\<close>

text \<open>
  Model of \<open>voting.cpp\<close> without the schedule (theory \<open>Producer_Schedule\<close>): registration of
  producers, the weight of a vote, casting and withdrawing votes, proxies and the
  recalculation of all votes.  The map of producer deltas that \<open>update_votes\<close> builds is a
  finite map visited in key order.
\<close>

subsection \<open>Registration\<close>

definition convert_to_block_signing_authority :: "public_key \<Rightarrow> authority" where
  "convert_to_block_signing_authority k = \<lparr>threshold = 1, auth_keys = [(k, 1)]\<rparr>"

definition deactivate :: "producer_info \<Rightarrow> producer_info" where
  "deactivate p = p\<lparr>p_key := [], p_authority := None, p_is_active := False\<rparr>"

definition get_producer_authority :: "producer_info \<Rightarrow> authority" where
  "get_producer_authority p =
     (case p_authority p of
        Some a \<Rightarrow> if threshold a \<noteq> 0 then a else convert_to_block_signing_authority (p_key p)
      | None \<Rightarrow> convert_to_block_signing_authority (p_key p))"

definition update_total_votepay_share :: "int \<Rightarrow> double \<Rightarrow> double \<Rightarrow> sys \<Rightarrow> sys" where
  "update_total_votepay_share ct additional_shares_delta shares_rate_delta s =
     (let g2 = gstate2 s; g3 = gstate3 s;
          d0 = (if g3_last_vpay_state_update g3 < ct
                then dmul (g3_total_vpay_share_change_rate g3)
                       (ddiv (d_of_int (ct - g3_last_vpay_state_update g3)) (Fin 1000000))
                else Fin 0);
          d = dadd d0 additional_shares_delta;
          share = (if dlt d (Fin 0) \<and> dlt (g2_total_producer_votepay_share g2) (dneg d) then Fin 0
                   else dadd (g2_total_producer_votepay_share g2) d);
          rate = (if dlt shares_rate_delta (Fin 0) \<and> dlt (g3_total_vpay_share_change_rate g3) (dneg shares_rate_delta)
                  then Fin 0 else dadd (g3_total_vpay_share_change_rate g3) shares_rate_delta)
      in s\<lparr>gstate2 := g2\<lparr>g2_total_producer_votepay_share := share\<rparr>,
           gstate3 := \<lparr>g3_last_vpay_state_update = ct, g3_total_vpay_share_change_rate = rate\<rparr>\<rparr>)"

definition update_producer_votepay_share :: "name \<Rightarrow> int \<Rightarrow> double \<Rightarrow> bool \<Rightarrow> sys \<Rightarrow> (sys \<times> double) result" where
  "update_producer_votepay_share pn ct shares_rate reset_to_zero s =
     (case fmlookup (producers2 s) pn of None \<Rightarrow> Inl No_row | Some q \<Rightarrow>
      let delta = (if dlt (Fin 0) shares_rate \<and> last_votepay_share_update q < ct
                   then dmul shares_rate (ddiv (d_of_int (ct - last_votepay_share_update q)) (Fin 1000000)) else Fin 0);
          new_share = dadd (votepay_share q) delta
      in Inr (s\<lparr>producers2 := fmupd pn
                  (q\<lparr>votepay_share := (if reset_to_zero then Fin 0 else new_share), last_votepay_share_update := ct\<rparr>)
                  (producers2 s)\<rparr>, new_share))"

definition register_producer :: "env \<Rightarrow> name \<Rightarrow> authority \<Rightarrow> string \<Rightarrow> int \<Rightarrow> sys \<Rightarrow> sys" where
  "register_producer E producer auth url location s =
     (let ct = current_time E;
          key = (case auth_keys auth of [(k, w)] \<Rightarrow> k | _ \<Rightarrow> [])
      in (case fmlookup (producers s) producer of
           Some info \<Rightarrow>
             (let info' = info\<lparr>p_key := key, p_is_active := True, p_url := url, p_location := location,
                     p_authority := Some auth,
                     p_last_claim_time := (if p_last_claim_time info = 0 then ct else p_last_claim_time info)\<rparr>;
                  s1 = s\<lparr>producers := fmupd producer info' (producers s)\<rparr>
              in (case fmlookup (producers2 s1) producer of
                   Some _ \<Rightarrow> s1
                 | None \<Rightarrow> update_total_votepay_share ct (Fin 0) (p_total_votes info')
                     (s1\<lparr>producers2 := fmupd producer
                        \<lparr>votepay_share = Fin 0, last_votepay_share_update = ct\<rparr> (producers2 s1)\<rparr>)))
         | None \<Rightarrow>
             s\<lparr>producers := fmupd producer
                 \<lparr>p_owner = producer, p_total_votes = Fin 0, p_key = key, p_is_active = True,
                  p_unreg_reason = [], p_url = url, p_unpaid_blocks = 0, p_lifetime_produced_blocks = 0,
                  p_missed_blocks_per_rotation = 0, p_lifetime_missed_blocks = 0, p_last_claim_time = ct,
                  p_location = location, p_kick_reason_id = 0, p_kick_reason = [], p_times_kicked = 0,
                  p_kick_penalty_hours = 0, p_last_time_kicked = 0, p_authority = Some auth\<rparr> (producers s),
               producers2 := fmupd producer \<lparr>votepay_share = Fin 0, last_votepay_share_update = ct\<rparr> (producers2 s)\<rparr>))"

definition regproducer :: "env \<Rightarrow> name \<Rightarrow> public_key \<Rightarrow> string \<Rightarrow> int \<Rightarrow> sys \<Rightarrow> sys result" where
  "regproducer E producer producer_key url location s =
     (if \<not> has_auth E producer then Inl Missing_auth else
      if \<not> length url < 512 then Inl (Check ''url too long'') else
      Inr (register_producer E producer (convert_to_block_signing_authority producer_key) url location s))"

text \<open>\<open>block_signing_authority::is_valid\<close> belongs to the kit and is a parameter.\<close>

definition regproducer2 :: "env \<Rightarrow> (authority \<Rightarrow> bool) \<Rightarrow> name \<Rightarrow> authority \<Rightarrow> string \<Rightarrow> int \<Rightarrow> sys \<Rightarrow> sys result" where
  "regproducer2 E auth_valid producer auth url location s =
     (if \<not> has_auth E producer then Inl Missing_auth else
      if \<not> length url < 512 then Inl (Check ''url too long'') else
      if \<not> auth_valid auth then Inl (Check ''invalid producer authority'') else
      Inr (register_producer E producer auth url location s))"

definition unregprod :: "env \<Rightarrow> name \<Rightarrow> sys \<Rightarrow> sys result" where
  "unregprod E producer s =
     (if \<not> has_auth E producer then Inl Missing_auth else
      (case fmlookup (producers s) producer of
        None \<Rightarrow> Inl (Check ''producer not found'')
      | Some info \<Rightarrow> Inr (s\<lparr>producers := fmupd producer (deactivate info) (producers s)\<rparr>)))"

definition unregreason :: "env \<Rightarrow> name \<Rightarrow> string \<Rightarrow> sys \<Rightarrow> sys result" where
  "unregreason E producer reason s =
     (if \<not> length reason < 255
      then Inl (Check ''The reason is too long. Reason should not have more than 255 characters.'') else
      if \<not> has_auth E producer then Inl Missing_auth else
      (case fmlookup (producers s) producer of
        None \<Rightarrow> Inl (Check ''producer not found'')
      | Some info \<Rightarrow>
          Inr (s\<lparr>producers := fmupd producer ((deactivate info)\<lparr>p_unreg_reason := reason\<rparr>) (producers s)\<rparr>)))"

subsection \<open>The weight of a vote\<close>

definition M_PI :: double where "M_PI = Fin (884279719003555 / 281474976710656)"
definition M_PI_2 :: double where "M_PI_2 = Fin (884279719003555 / 562949953421312)"

definition inverse_vote_weight :: "env \<Rightarrow> double \<Rightarrow> double \<Rightarrow> double" where
  "inverse_vote_weight E staked amount_voted =
     (if amount_voted = Fin 0 then Fin 0
      else let percentVoted = ddiv amount_voted (Fin 30);
               voteWeight = ddiv (dadd (std_sin E (dsub (dmul M_PI percentVoted) M_PI_2)) (Fin 1)) (Fin 2)
           in dmul voteWeight staked)"

text \<open>\<open>uint256_to_double\<close>: four 64-bit words, the most significant first.\<close>

definition uint256_to_double :: "int \<Rightarrow> double" where
  "uint256_to_double x =
     fold (\<lambda>i d. dadd (dmul d (Fin 18446744073709551616)) (d_of_int ((x div 2 ^ (64 * i)) mod 2 ^ 64)))
       [3, 2, 1, 0::nat] (Fin 0)"

definition u256 :: "int \<Rightarrow> int" where "u256 x = x mod 2 ^ 256"

definition apply_decay_multiplier :: "double \<Rightarrow> int \<Rightarrow> int \<Rightarrow> int \<Rightarrow> double" where
  "apply_decay_multiplier weighted_vote sec_since_epoch decay_start pct =
     (if decay_start = 0 \<or> sec_since_epoch \<le> decay_start then weighted_vote
      else let seconds_of_decay = sec_since_epoch - decay_start;
               precision = 1000000000000000000;
               yearly_rate_scaled = u256 (pct * precision) div 100;
               increment_fp = u256 (yearly_rate_scaled * seconds_of_decay) div 31536000;
               multiplier_fp = u256 (precision + increment_fp)
           in dmul weighted_vote (ddiv (uint256_to_double multiplier_fp) (uint256_to_double precision)))"

definition decay_vote_weight_multiplier :: "env \<Rightarrow> sys \<Rightarrow> double \<Rightarrow> double" where
  "decay_vote_weight_multiplier E s weighted_vote =
     apply_decay_multiplier weighted_vote (current_sec E) (decay_start_epoch (voting_cfg s)) (decay_increase_yearly (voting_cfg s))"

subsection \<open>Casting votes\<close>

definition activate_stake :: "int \<Rightarrow> sys \<Rightarrow> sys" where
  "activate_stake n s =
     s\<lparr>gstate := (gstate s)\<lparr>g_total_activated_stake := i64 (g_total_activated_stake (gstate s) + n)\<rparr>\<rparr>"

definition voter_stake :: "voter_info \<Rightarrow> int result" where
  "voter_stake v =
     (if v_is_proxy v then d_to_i64 (dadd (d_of_int (v_staked v)) (v_proxied_vote_weight v)) else Inr (v_staked v))"

fun shift_votes :: "double \<Rightarrow> name list \<Rightarrow> sys \<Rightarrow> sys result" where
  "shift_votes delta [] s = Inr s"
| "shift_votes delta (p # ps) s =
     (case fmlookup (producers s) p of
        None \<Rightarrow> Inl (Check ''producer not found'')
      | Some info \<Rightarrow>
          shift_votes delta ps
            (s\<lparr>producers := fmupd p (info\<lparr>p_total_votes := dadd (p_total_votes info) delta\<rparr>) (producers s),
               gstate := (gstate s)\<lparr>g_total_producer_vote_weight := dadd (g_total_producer_vote_weight (gstate s)) delta\<rparr>\<rparr>))"

text \<open>
  The recursion follows the chain of proxies.  A chain without a cycle is at most as long as the
  voters table; on a cycle the code never returns and exhausts the call stack, which is
  the value at fuel zero.
\<close>

fun propagate_weight_change :: "nat \<Rightarrow> env \<Rightarrow> name \<Rightarrow> sys \<Rightarrow> sys result" where
  "propagate_weight_change 0 E x s = Inl (Trap ''call stack exhausted'')"
| "propagate_weight_change (Suc n) E x s =
     (case fmlookup (voters s) x of
        None \<Rightarrow> Inl No_row
      | Some v \<Rightarrow>
          if v_proxy v \<noteq> 0 \<and> v_is_proxy v
          then Inl (Check ''account registered as a proxy is not allowed to use a proxy'') else
          (case voter_stake v of Inl e \<Rightarrow> Inl e | Inr totalStake \<Rightarrow>
          let new_weight = inverse_vote_weight E (d_of_int totalStake) (d_of_int (int (length (v_producers v))));
              delta = dsub new_weight (v_last_vote_weight v)
          in (case (if v_proxy v \<noteq> 0 then
                     if v_last_stake v \<noteq> totalStake then
                       (case fmlookup (voters s) (v_proxy v) of
                          None \<Rightarrow> Inl (Check ''proxy not found'')
                        | Some pv \<Rightarrow>
                            propagate_weight_change n E (v_proxy v)
                              (s\<lparr>voters := fmupd (v_proxy v) (pv\<lparr>v_proxied_vote_weight :=
                                   dadd (v_proxied_vote_weight pv) (d_of_int (i64 (totalStake - v_last_stake v)))\<rparr>) (voters s)\<rparr>))
                     else Inr s
                   else shift_votes delta (v_producers v) s) of
               Inl e \<Rightarrow> Inl e
             | Inr s1 \<Rightarrow>
                 (case fmlookup (voters s1) x of
                    None \<Rightarrow> Inl No_row
                  | Some v1 \<Rightarrow>
                      Inr (s1\<lparr>voters := fmupd x (v1\<lparr>v_last_vote_weight := new_weight, v_last_stake := totalStake\<rparr>) (voters s1)\<rparr>)))))"

definition propagate :: "env \<Rightarrow> name \<Rightarrow> sys \<Rightarrow> sys result" where
  "propagate E x s = propagate_weight_change (fcard (fmdom (voters s)) + 1) E x s"

type_synonym deltas = "(name, double \<times> bool) fmap"

definition delta_of :: "deltas \<Rightarrow> name \<Rightarrow> double" where
  "delta_of m p = (case fmlookup m p of None \<Rightarrow> Fin 0 | Some d \<Rightarrow> fst d)"

fun undo_deltas :: "name \<Rightarrow> double \<Rightarrow> name list \<Rightarrow> deltas \<times> int \<Rightarrow> deltas \<times> int" where
  "undo_deltas voter w [] (m, boost) = (m, boost)"
| "undo_deltas voter w (p # ps) (m, boost) =
     (let d = dsub (delta_of m p) w in
      if p = voter
      then undo_deltas voter w ps
             (fmupd p (dsub d (dmul (ddiv (d_of_int boost) (Fin 100)) w), False) m, 0)
      else undo_deltas voter w ps (fmupd p (d, False) m, boost))"

fun cast_deltas :: "name \<Rightarrow> int \<Rightarrow> double \<Rightarrow> name list \<Rightarrow> deltas \<times> int \<Rightarrow> deltas \<times> int" where
  "cast_deltas voter mult w [] (m, boost) = (m, boost)"
| "cast_deltas voter mult w (p # ps) (m, boost) =
     (let d = dadd (delta_of m p) w in
      if p = voter
      then cast_deltas voter mult w ps
             (fmupd p (dadd d (dmul (ddiv (d_of_int (u32 mult)) (Fin 100)) w), True) m, u32 mult)
      else cast_deltas voter mult w ps (fmupd p (d, True) m, boost))"

fun apply_deltas :: "bool \<Rightarrow> (name \<times> double \<times> bool) list \<Rightarrow> sys \<Rightarrow> sys result" where
  "apply_deltas voting [] s = Inr s"
| "apply_deltas voting ((p, d, new) # ds) s =
     (case fmlookup (producers s) p of
        Some info \<Rightarrow>
          if voting \<and> \<not> p_is_active info \<and> new then Inl (Check ''producer is not currently registered'') else
          let v = dadd (p_total_votes info) d; v = (if dlt v (Fin 0) then Fin 0 else v)
          in apply_deltas voting ds
               (s\<lparr>producers := fmupd p (info\<lparr>p_total_votes := v\<rparr>) (producers s),
                  gstate := (gstate s)\<lparr>g_total_producer_vote_weight := dadd (g_total_producer_vote_weight (gstate s)) d\<rparr>\<rparr>)
      | None \<Rightarrow> if new then Inl (Check ''producer is not registered'') else apply_deltas voting ds s)"

definition delta_list :: "deltas \<Rightarrow> (name \<times> double \<times> bool) list" where
  "delta_list m = map (\<lambda>p. (p, the (fmlookup m p))) (sorted_list_of_fset (fmdom m))"

text \<open>Withdrawing the previous vote (the block guarded by \<open>voter->last_stake > 0\<close>).\<close>

definition undo_old_vote :: "env \<Rightarrow> name \<Rightarrow> name \<Rightarrow> int \<Rightarrow> voter_info \<Rightarrow> int \<Rightarrow> sys \<Rightarrow> (sys \<times> deltas \<times> int) result" where
  "undo_old_vote E voter_name proxy totalStaked v boost s =
     (if \<not> 0 < v_last_stake v then Inr (s, fmempty, boost) else
      if v_proxy v \<noteq> 0 then
        (case fmlookup (voters s) (v_proxy v) of
           None \<Rightarrow> Inl (Check ''old proxy not found'')
         | Some pv \<Rightarrow>
             let s1 = s\<lparr>voters := fmupd (v_proxy v)
                   (pv\<lparr>v_proxied_vote_weight := dsub (v_proxied_vote_weight pv) (d_of_int (v_last_stake v))\<rparr>) (voters s)\<rparr>
             in if proxy \<noteq> v_proxy v
                then (case propagate E (v_proxy v) (activate_stake (i64 (totalStaked - v_last_stake v)) s1) of
                       Inl e \<Rightarrow> Inl e | Inr s2 \<Rightarrow> Inr (s2, fmempty, boost))
                else Inr (s1, fmempty, boost))
      else let (m, b) = undo_deltas voter_name (v_last_vote_weight v) (v_producers v) (fmempty, boost)
           in Inr (s, m, b))"

text \<open>Casting the new vote, to a proxy or to producers.\<close>

definition cast_new_vote :: "env \<Rightarrow> name \<Rightarrow> name \<Rightarrow> name list \<Rightarrow> bool \<Rightarrow> int \<Rightarrow> double \<Rightarrow> deltas \<Rightarrow> int \<Rightarrow> sys
    \<Rightarrow> (sys \<times> deltas \<times> int) result" where
  "cast_new_vote E voter_name proxy prods voting totalStaked new_vote_weight m boost s =
     (if proxy \<noteq> 0 then
        (case fmlookup (voters s) proxy of
           None \<Rightarrow> Inl (Check ''invalid proxy specified'')
         | Some pv \<Rightarrow>
             if voting \<and> \<not> v_is_proxy pv then Inl (Check ''proxy not found'') else
             (case fmlookup (voters s) voter_name of None \<Rightarrow> Inl No_row | Some v \<Rightarrow>
             let pv' = pv\<lparr>v_proxied_vote_weight := dadd (v_proxied_vote_weight pv) (d_of_int (v_staked v))\<rparr>;
                 s1 = s\<lparr>voters := fmupd proxy pv' (voters s)\<rparr>
             in if dlt (Fin 0) (v_last_vote_weight pv')
                then (case propagate E proxy (activate_stake (i64 (totalStaked - v_last_stake v)) s1) of
                       Inl e \<Rightarrow> Inl e | Inr s2 \<Rightarrow> Inr (s2, m, boost))
                else Inr (s1, m, boost)))
      else if dle (Fin 0) new_vote_weight
      then let (m', b) = cast_deltas voter_name (self_stake_boost_multiplier (voting_cfg s)) new_vote_weight prods (m, boost)
           in Inr (s, m', b)
      else Inr (s, m, boost))"

definition update_votes :: "env \<Rightarrow> name \<Rightarrow> name \<Rightarrow> name list \<Rightarrow> bool \<Rightarrow> sys \<Rightarrow> sys result" where
  "update_votes E voter_name proxy prods voting s =
     (if proxy \<noteq> 0 \<and> prods \<noteq> [] then Inl (Check ''cannot vote for producers and proxy at same time'') else
      if proxy \<noteq> 0 \<and> voter_name = proxy then Inl (Check ''cannot proxy to self'') else
      if proxy = 0 \<and> \<not> length prods \<le> 30 then Inl (Check ''attempt to vote for too many producers'') else
      if proxy = 0 \<and> \<not> successively (<) prods then Inl (Check ''producer votes must be unique and sorted'') else
      (case fmlookup (voters s) voter_name of
        None \<Rightarrow> Inl (Check ''user must stake before they can vote'')
      | Some v \<Rightarrow>
      if proxy \<noteq> 0 \<and> v_is_proxy v
      then Inl (Check ''account registered as a proxy is not allowed to use a proxy'') else
      (case voter_stake v of Inl e \<Rightarrow> Inl e | Inr st \<Rightarrow>
      let totalStaked = (if voting \<and> proxy = 0 \<and> prods = [] then 0 else st);
          s1 = (if proxy = 0 \<and> v_proxy v = 0 then activate_stake (i64 (totalStaked - v_last_stake v)) s else s);
          new_vote_weight = decay_vote_weight_multiplier E s
            (inverse_vote_weight E (d_of_int totalStaked) (d_of_int (int (length prods))));
          boost0 = (case v_self_stake_boost v of Some b \<Rightarrow> u32 b | None \<Rightarrow> 0)
      in (case undo_old_vote E voter_name proxy totalStaked v boost0 s1 of Inl e \<Rightarrow> Inl e | Inr (s2, m, b) \<Rightarrow>
         (case cast_new_vote E voter_name proxy prods voting totalStaked new_vote_weight m b s2 of
           Inl e \<Rightarrow> Inl e | Inr (s3, m', b') \<Rightarrow>
         (case apply_deltas voting (delta_list m') s3 of Inl e \<Rightarrow> Inl e | Inr s4 \<Rightarrow>
         (case fmlookup (voters s4) voter_name of None \<Rightarrow> Inl No_row | Some v' \<Rightarrow>
         Inr (s4\<lparr>voters := fmupd voter_name
                (v'\<lparr>v_last_vote_weight := new_vote_weight, v_last_stake := totalStaked, v_producers := prods,
                    v_proxy := proxy, v_self_stake_boost := Some b'\<rparr>) (voters s4)\<rparr>))))))))"

definition blank_voter :: "name \<Rightarrow> voter_info" where
  "blank_voter x = \<lparr>v_owner = x, v_proxy = 0, v_producers = [], v_staked = 0, v_last_stake = 0,
     v_last_vote_weight = Fin 0, v_proxied_vote_weight = Fin 0, v_is_proxy = False, v_flags1 = 0,
     v_self_stake_boost = Some 0\<rparr>"

definition regproxy :: "env \<Rightarrow> name \<Rightarrow> bool \<Rightarrow> sys \<Rightarrow> sys result" where
  "regproxy E proxy isproxy s =
     (if isproxy then Inl (Check ''proxy voting is disabled'') else
      (case fmlookup (voters s) proxy of
        Some v \<Rightarrow>
          if isproxy = v_is_proxy v then Inl (Check ''action has no effect'') else
          if isproxy \<and> v_proxy v \<noteq> 0
          then Inl (Check ''account that uses a proxy is not allowed to become a proxy'') else
          update_votes E (v_owner v) (v_proxy v) (v_producers v) True
            (s\<lparr>voters := fmupd proxy (v\<lparr>v_is_proxy := isproxy\<rparr>) (voters s)\<rparr>)
      | None \<Rightarrow> Inr (s\<lparr>voters := fmupd proxy ((blank_voter proxy)\<lparr>v_is_proxy := isproxy\<rparr>) (voters s)\<rparr>)))"

definition update_voting_power :: "env \<Rightarrow> name \<Rightarrow> asset \<Rightarrow> sys \<Rightarrow> sys result" where
  "update_voting_power E voter total_update s =
     (let v = (case fmlookup (voters s) voter of
                 None \<Rightarrow> (blank_voter voter)\<lparr>v_staked := amount total_update\<rparr>
               | Some v \<Rightarrow> v\<lparr>v_staked := i64 (v_staked v + amount total_update)\<rparr>);
          s1 = s\<lparr>voters := fmupd voter v (voters s)\<rparr>
      in if \<not> 0 \<le> v_staked v then Inl (Check ''stake for voting cannot be negative'') else
         if v_producers v \<noteq> [] \<or> v_proxy v \<noteq> 0
         then update_votes E voter (v_proxy v) (v_producers v) False s1
         else Inr s1)"

subsection \<open>Recalculating all votes\<close>

definition reset_vote :: "voter_info \<Rightarrow> voter_info" where
  "reset_vote v = v\<lparr>v_last_vote_weight := Fin 0, v_last_stake := 0, v_proxied_vote_weight := Fin 0\<rparr>"

fun recalculate_loop :: "env \<Rightarrow> name list \<Rightarrow> name fset \<Rightarrow> sys \<Rightarrow> sys result" where
  "recalculate_loop E [] processed s = Inr s"
| "recalculate_loop E (x # xs) processed s =
     (case fmlookup (voters s) x of None \<Rightarrow> Inl No_row | Some v \<Rightarrow>
      (case (if v_proxy v \<noteq> 0 \<and> v_proxy v |\<notin>| processed
            then (case fmlookup (voters s) (v_proxy v) of
                   None \<Rightarrow> Inl No_row
                 | Some pv \<Rightarrow> Inr (s\<lparr>voters := fmupd (v_proxy v) (reset_vote pv) (voters s)\<rparr>, finsert (v_proxy v) processed))
            else Inr (s, processed)) of
        Inl e \<Rightarrow> Inl e
      | Inr (s1, pr1) \<Rightarrow>
      (case fmlookup (voters s1) x of None \<Rightarrow> Inl No_row | Some v1 \<Rightarrow>
      let upd = (\<not> v_is_proxy v1 \<or> v_owner v1 |\<notin>| pr1);
          s2 = (if upd then s1\<lparr>voters := fmupd x (reset_vote v1) (voters s1)\<rparr> else s1);
          pr2 = (if upd then finsert (v_owner v1) pr1 else pr1)
      in (case update_votes E (v_owner v1) (v_proxy v1) (v_producers v1) True s2 of Inl e \<Rightarrow> Inl e | Inr s3 \<Rightarrow>
         recalculate_loop E xs pr2 s3))))"

definition recalculate_votes :: "env \<Rightarrow> sys \<Rightarrow> sys result" where
  "recalculate_votes E s =
     (if \<not> dle (g_total_producer_vote_weight (gstate s)) (rnd (- 1 / 10)) then Inr s else
      let s1 = s\<lparr>gstate := (gstate s)\<lparr>g_total_producer_vote_weight := Fin 0, g_total_activated_stake := 0\<rparr>,
                 producers := fmmap (\<lambda>p. p\<lparr>p_total_votes := Fin 0\<rparr>) (producers s)\<rparr>
      in recalculate_loop E (sorted_list_of_fset (fmdom (voters s1))) {||} s1)"

subsection \<open>What voting leaves alone\<close>

definition novotes :: "sys \<Rightarrow> sys" where
  "novotes s = s\<lparr>voters := fmempty, producers := fmempty,
     gstate := (gstate s)\<lparr>g_total_activated_stake := 0, g_total_producer_vote_weight := Fin 0\<rparr>\<rparr>"

lemma novotes_upd [simp]:
  "novotes (s\<lparr>voters := x\<rparr>) = novotes s"
  "novotes (s\<lparr>producers := y\<rparr>) = novotes s"
  "novotes (s\<lparr>gstate := (gstate s)\<lparr>g_total_activated_stake := n\<rparr>\<rparr>) = novotes s"
  "novotes (s\<lparr>gstate := (gstate s)\<lparr>g_total_producer_vote_weight := w\<rparr>\<rparr>) = novotes s"
  "novotes (s\<lparr>producers := y, gstate := (gstate s)\<lparr>g_total_producer_vote_weight := w\<rparr>\<rparr>) = novotes s"
  "novotes (activate_stake n s) = novotes s"
  by (simp_all add: novotes_def activate_stake_def)

lemma novotes_fields:
  assumes "novotes s' = novotes s"
  shows "producers2 s' = producers2 s" "gstate2 s' = gstate2 s" "gstate3 s' = gstate3 s" "gstate4 s' = gstate4 s"
    "rammarket s' = rammarket s" "rexpool s' = rexpool s" "rexretpool s' = rexretpool s"
    "rexretbuckets s' = rexretbuckets s" "rexfunds s' = rexfunds s" "rexbalance s' = rexbalance s"
    "rexorders s' = rexorders s" "cpuloans s' = cpuloans s" "netloans s' = netloans s" "userres s' = userres s"
    "delband s' = delband s" "refunds s' = refunds s" "namebids s' = namebids s" "bidrefunds s' = bidrefunds s"
    "payments s' = payments s" "evm_votes s' = evm_votes s" "powup_state s' = powup_state s" "powup_orders s' = powup_orders s" "blockinfo s' = blockinfo s" "voting_cfg s' = voting_cfg s" "res_limits s' = res_limits s" "effects s' = effects s"
  using arg_cong [OF assms, of producers2] arg_cong [OF assms, of gstate2] arg_cong [OF assms, of gstate3] arg_cong [OF assms, of gstate4]
    arg_cong [OF assms, of rammarket] arg_cong [OF assms, of rexpool] arg_cong [OF assms, of rexretpool] arg_cong [OF assms, of rexretbuckets]
    arg_cong [OF assms, of rexfunds] arg_cong [OF assms, of rexbalance] arg_cong [OF assms, of rexorders] arg_cong [OF assms, of cpuloans]
    arg_cong [OF assms, of netloans] arg_cong [OF assms, of userres] arg_cong [OF assms, of delband] arg_cong [OF assms, of refunds]
    arg_cong [OF assms, of namebids] arg_cong [OF assms, of bidrefunds] arg_cong [OF assms, of payments] arg_cong [OF assms, of evm_votes] arg_cong [OF assms, of powup_state] arg_cong [OF assms, of powup_orders] arg_cong [OF assms, of blockinfo] arg_cong [OF assms, of voting_cfg]
    arg_cong [OF assms, of res_limits] arg_cong [OF assms, of effects]
  by (simp_all add: novotes_def)

lemma shift_votes_frame: "shift_votes d ps s = Inr s' \<Longrightarrow> novotes s' = novotes s \<and> voters s' = voters s"
  by (induction ps arbitrary: s) (auto simp: result_simps)

lemma propagate_frame: "propagate_weight_change n E x s = Inr s' \<Longrightarrow> novotes s' = novotes s"
proof (induction n arbitrary: x s s')
  case (Suc n)
  note IH = Suc.IH
  from Suc.prems show ?case
    by (auto simp: result_simps Let_def split: if_splits dest!: IH shift_votes_frame)
qed simp

lemma propagate_all_frame: "propagate E x s = Inr s' \<Longrightarrow> novotes s' = novotes s"
  unfolding propagate_def by (rule propagate_frame)

lemma apply_deltas_frame:
  "apply_deltas vt ds s = Inr s' \<Longrightarrow> novotes s' = novotes s \<and> voters s' = voters s \<and>
     g_total_activated_stake (gstate s') = g_total_activated_stake (gstate s)"
  by (induction ds arbitrary: s rule: list.induct)
    (auto simp: result_simps Let_def split: prod.splits option.splits if_splits)

lemma undo_old_vote_frame: "undo_old_vote E x pr t v b s = Inr (s', m, b') \<Longrightarrow> novotes s' = novotes s"
  by (auto simp: undo_old_vote_def result_simps Let_def split: if_splits prod.splits dest!: propagate_all_frame)

lemma cast_new_vote_frame: "cast_new_vote E x pr ps vt t w m b s = Inr (s', m', b') \<Longrightarrow> novotes s' = novotes s"
  by (auto simp: cast_new_vote_def result_simps Let_def split: if_splits prod.splits dest!: propagate_all_frame)

lemma update_votes_frame: "update_votes E x pr ps vt s = Inr s' \<Longrightarrow> novotes s' = novotes s"
  by (auto simp: update_votes_def result_simps Let_def
      dest!: undo_old_vote_frame cast_new_vote_frame apply_deltas_frame)

lemma update_voting_power_frame: "update_voting_power E x a s = Inr s' \<Longrightarrow> novotes s' = novotes s"
  by (auto simp: update_voting_power_def result_simps Let_def split: if_splits dest!: update_votes_frame)

subsection \<open>The accounting of votes\<close>

text \<open>
  Since proxy registration is disabled, a state without proxies stays without them; in such a
  state \<open>voting_inv\<close> says that the recorded votes are well formed, no producer has
  negative votes and the activated stake is the sum of the stakes that voted.
\<close>

definition vote_ok :: "voter_info \<Rightarrow> bool" where
  "vote_ok v \<longleftrightarrow> v_proxy v = 0 \<and> \<not> v_is_proxy v \<and> length (v_producers v) \<le> 30 \<and> sorted_wrt (<) (v_producers v)"

definition voting_inv :: "sys \<Rightarrow> bool" where
  "voting_inv s \<longleftrightarrow>
     (\<forall>x v. fmlookup (voters s) x = Some v \<longrightarrow> vote_ok v) \<and>
     (\<forall>p i. fmlookup (producers s) p = Some i \<longrightarrow> \<not> dlt (p_total_votes i) (Fin 0)) \<and>
     g_total_activated_stake (gstate s) = i64 (fmsum v_last_stake (voters s))"

lemma apply_deltas_nonneg:
  "apply_deltas vt ds s = Inr s' \<Longrightarrow> \<forall>p i. fmlookup (producers s) p = Some i \<longrightarrow> \<not> dlt (p_total_votes i) (Fin 0) \<Longrightarrow>
     \<forall>p i. fmlookup (producers s') p = Some i \<longrightarrow> \<not> dlt (p_total_votes i) (Fin 0)"
proof (induction ds arbitrary: s)
  case (Cons d ds)
  obtain p x nw where d: "d = (p, x, nw)" by (cases d)
  show ?case
  proof (cases "fmlookup (producers s) p")
    case None
    then have "apply_deltas vt ds s = Inr s'" using Cons.prems(1) by (simp add: d result_simps)
    then show ?thesis using Cons.prems(2) by (rule Cons.IH)
  next
    case (Some info)
    from Cons.prems(1) show ?thesis
      by (simp add: d Some result_simps Let_def, elim conjE, elim Cons.IH) (use Cons.prems(2) in \<open>auto split: if_splits\<close>)
  qed
qed simp

lemma successively_sorted: "successively (<) (ps :: name list) \<Longrightarrow> sorted_wrt (<) ps"
  by (simp add: successively_conv_sorted_wrt)

lemma undo_no_proxy: "undo_old_vote E x pr t v b s = Inr (s', m, b') \<Longrightarrow> v_proxy v = 0 \<Longrightarrow> s' = s"
  by (auto simp: undo_old_vote_def split: if_splits prod.splits)

lemma cast_no_proxy: "cast_new_vote E x 0 ps vt t w m b s = Inr (s', m', b') \<Longrightarrow> s' = s"
  by (auto simp: cast_new_vote_def split: if_splits prod.splits)

lemma update_votes_no_proxy:
  assumes v: "fmlookup (voters s) x = Some v" "v_proxy v = 0" "\<not> v_is_proxy v"
    and r: "update_votes E x 0 ps vt s = Inr s'"
  obtains t w b s4 ds where "length ps \<le> 30" "sorted_wrt (<) ps" "t = (if vt \<and> ps = [] then 0 else v_staked v)"
    "apply_deltas vt ds (activate_stake (i64 (t - v_last_stake v)) s) = Inr s4"
    "s' = s4\<lparr>voters := fmupd x (v\<lparr>v_last_vote_weight := w, v_last_stake := t, v_producers := ps,
        v_proxy := 0, v_self_stake_boost := Some b\<rparr>) (voters s)\<rparr>"
proof -
  define t where "t = (if vt \<and> ps = [] then 0 else v_staked v)"
  define s1 where "s1 = activate_stake (i64 (t - v_last_stake v)) s"
  define w where "w = decay_vote_weight_multiplier E s (inverse_vote_weight E (d_of_int t) (d_of_int (int (length ps))))"
  have st: "voter_stake v = Inr (v_staked v)" using v by (simp add: voter_stake_def)
  obtain s2 m b s3 m' b' s4 v' where ps: "length ps \<le> 30" "successively (<) ps"
    and 2: "undo_old_vote E x 0 t v (case v_self_stake_boost v of Some b \<Rightarrow> u32 b | None \<Rightarrow> 0) s1 = Inr (s2, m, b)"
    and 3: "cast_new_vote E x 0 ps vt t w m b s2 = Inr (s3, m', b')"
    and 4: "apply_deltas vt (delta_list m') s3 = Inr s4"
    and v': "fmlookup (voters s4) x = Some v'"
    and s': "s' = s4\<lparr>voters := fmupd x (v'\<lparr>v_last_vote_weight := w, v_last_stake := t, v_producers := ps,
        v_proxy := 0, v_self_stake_boost := Some b'\<rparr>) (voters s4)\<rparr>"
    using r v st unfolding update_votes_def
    by (simp add: result_simps Let_def t_def [symmetric] s1_def [symmetric] w_def [symmetric]) blast
  have "s3 = s1" using undo_no_proxy [OF 2 v(2)] cast_no_proxy [OF 3] by simp
  moreover from this have "voters s4 = voters s" using apply_deltas_frame [OF 4] by (simp add: s1_def activate_stake_def)
  ultimately show ?thesis using that [OF ps(1) successively_sorted [OF ps(2)] t_def] 4 v' s' v(1) by (simp add: s1_def)
qed

lemma update_votes_inv:
  assumes inv: "voting_inv s" and r: "update_votes E x 0 ps vt s = Inr s'"
  shows "voting_inv s'"
proof -
  obtain v where v: "fmlookup (voters s) x = Some v" using r by (auto simp: update_votes_def result_simps)
  then have ok: "v_proxy v = 0" "\<not> v_is_proxy v" using inv by (auto simp: voting_inv_def vote_ok_def)
  show ?thesis
  proof (rule update_votes_no_proxy [OF v ok r])
    fix t w b s4 ds
    assume ps: "length ps \<le> 30" "sorted_wrt (<) ps" and 4: "apply_deltas vt ds (activate_stake (i64 (t - v_last_stake v)) s) = Inr s4"
      and s': "s' = s4\<lparr>voters := fmupd x (v\<lparr>v_last_vote_weight := w, v_last_stake := t, v_producers := ps,
        v_proxy := 0, v_self_stake_boost := Some b\<rparr>) (voters s)\<rparr>"
    have "\<forall>p i. fmlookup (producers s4) p = Some i \<longrightarrow> \<not> dlt (p_total_votes i) (Fin 0)"
      using apply_deltas_nonneg [OF 4] inv by (simp add: voting_inv_def activate_stake_def)
    moreover have "g_total_activated_stake (gstate s4) = i64 (fmsum v_last_stake (voters s) + (t - v_last_stake v))"
      using apply_deltas_frame [OF 4] inv
      by (simp add: activate_stake_def voting_inv_def i64_add_left i64_add_right)
    ultimately show ?thesis
      using inv ps ok v by (auto simp: voting_inv_def s' vote_ok_def fmsum_upd algebra_simps)
  qed
qed

lemma update_votes_proxy_fails:
  assumes "voting_inv s" "pr \<noteq> 0"
  shows "update_votes E x pr ps True s \<noteq> Inr s'"
proof
  assume r: "update_votes E x pr ps True s = Inr s'"
  obtain v where v: "fmlookup (voters s) x = Some v" using r by (auto simp: update_votes_def result_simps)
  then have ok: "v_proxy v = 0" "\<not> v_is_proxy v" using assms by (auto simp: voting_inv_def vote_ok_def)
  obtain t b0 s2 m b w s3 m' b' where 2: "undo_old_vote E x pr t v b0 s = Inr (s2, m, b)"
    and 3: "cast_new_vote E x pr ps True t w m b s2 = Inr (s3, m', b')"
    using r v ok assms(2) by (auto simp: update_votes_def result_simps Let_def)
  have "s2 = s" using undo_no_proxy [OF 2 ok(1)] .
  with 3 obtain pv where "fmlookup (voters s) pr = Some pv" "v_is_proxy pv"
    using assms(2) by (auto simp: cast_new_vote_def result_simps Let_def split: if_splits)
  then show False using assms(1) by (auto simp: voting_inv_def vote_ok_def)
qed

lemma update_voting_power_inv:
  assumes inv: "voting_inv s" and r: "update_voting_power E x a s = Inr s'"
  shows "voting_inv s'"
proof -
  define v where "v = (case fmlookup (voters s) x of
      None \<Rightarrow> (blank_voter x)\<lparr>v_staked := amount a\<rparr>
    | Some v \<Rightarrow> v\<lparr>v_staked := i64 (v_staked v + amount a)\<rparr>)"
  define s1 where "s1 = s\<lparr>voters := fmupd x v (voters s)\<rparr>"
  have v: "vote_ok v" "v_last_stake v = fmval v_last_stake (fmlookup (voters s) x)"
    using inv by (auto simp: v_def voting_inv_def vote_ok_def blank_voter_def split: option.splits)
  then have inv1: "voting_inv s1" using inv by (auto simp: voting_inv_def s1_def fmsum_upd)
  have "v_proxy v = 0" using v by (simp add: vote_ok_def)
  then have "s' = s1 \<or> update_votes E x 0 (v_producers v) False s1 = Inr s'"
    using r unfolding update_voting_power_def v_def [symmetric] s1_def [symmetric] Let_def
    by (auto simp: result_simps split: if_splits)
  then show ?thesis using inv1 update_votes_inv by blast
qed

subsection \<open>Properties\<close>

text \<open>
  C14. The accounting of votes: starting from a state without proxies in which the activated stake is
  the sum of the stakes that voted and no producer has negative votes, casting a vote and changing the
  stake of a voter keep all of this, store only sorted lists of at most 30 distinct producers,
  and a vote through a proxy is rejected.
\<close>

theorem voting_accounting:
  assumes "voting_inv s"
  shows "(\<forall>s'. update_votes E x pr ps True s = Inr s' \<longrightarrow> pr = 0 \<and> voting_inv s' \<and> length ps \<le> 30 \<and> sorted_wrt (<) ps) \<and>
     (\<forall>s'. update_voting_power E x a s = Inr s' \<longrightarrow> voting_inv s')"
proof (intro conjI allI impI)
  fix s' assume r: "update_votes E x pr ps True s = Inr s'"
  show 0: "pr = 0" using update_votes_proxy_fails [OF assms] r by blast
  show "voting_inv s'" using update_votes_inv [OF assms] r 0 by blast
  show "length ps \<le> 30" "sorted_wrt (<) ps"
    using r 0 successively_sorted by (auto simp: update_votes_def result_simps)
next
  fix s' assume "update_voting_power E x a s = Inr s'"
  then show "voting_inv s'" by (rule update_voting_power_inv [OF assms])
qed

definition demo_votes :: sys where
  "demo_votes = register_producer (sdk_env 1 5) 20 \<lparr>threshold = 1, auth_keys = [([1], 1)]\<rparr> [] 0
     (sys0\<lparr>voters := fmupd 10 ((blank_voter 10)\<lparr>v_staked := 500\<rparr>) fmempty\<rparr>)"

lemma demo_votes_inv: "voting_inv demo_votes"
  by (simp add: voting_inv_def vote_ok_def demo_votes_def register_producer_def sys0_def blank_voter_def fmsum_upd
      i64_def Let_def)

theorem voting_accounting_witness:
  "\<exists>s'. update_votes (sdk_env 1 9) 10 0 [] True demo_votes = Inr s' \<and> voting_inv s' \<and>
     \<not> (\<exists>s2. update_votes (sdk_env 1 9) 10 20 [] True demo_votes = Inr s2)"
proof -
  have "\<not> isl (update_votes (sdk_env 1 9) 10 0 [] True demo_votes)" by code_simp
  then obtain s' where s': "update_votes (sdk_env 1 9) 10 0 [] True demo_votes = Inr s'"
    by (cases "update_votes (sdk_env 1 9) 10 0 [] True demo_votes") auto
  have "(20::name) \<noteq> 0" by simp
  with s' voting_accounting [OF demo_votes_inv, of "sdk_env 1 9" 10 0 "[]"]
    voting_accounting [OF demo_votes_inv, of "sdk_env 1 9" 10 20 "[]"]
  show ?thesis by blast
qed

end
