(* ===== verification/Producer_Schedule.thy ===== *)
theory Producer_Schedule
  imports Voting "HOL-Library.Multiset" "HOL-Library.Product_Lexorder"
begin

section \<open>The producer schedule\<close>

text \<open>
  Model of \<open>update_elected_producers\<close> (\<open>voting.cpp\<close>), of the rotation of standby producers
  (\<open>system_rotation.cpp\<close>) and of the bookkeeping of missed blocks (\<open>system_kick.cpp\<close>).
  Block times are slots.  \<open>std::sort\<close> leaves the order of equivalent elements open: the two
  sorts whose order is not total are functions of the record \<open>schedule_env\<close>, together with
  the two chain calls \<open>set_proposed_producers\<close> and \<open>get_active_producers\<close>.
\<close>

type_synonym producer_authority = "name \<times> authority"
type_synonym producer_location_pair = "producer_authority \<times> int"

record schedule_env =
  sort_location :: "producer_location_pair list \<Rightarrow> producer_location_pair list"
  sort_missed :: "producer_info list \<Rightarrow> producer_info list"
  set_proposed_producers :: "producer_authority list \<Rightarrow> int"
  get_active_producers :: "name list"

text \<open>The comparison of \<open>update_missed_blocks_per_rotation\<close>.\<close>

definition missed_before :: "producer_info \<Rightarrow> producer_info \<Rightarrow> bool" where
  "missed_before p1 p2 =
     (if p_missed_blocks_per_rotation p1 \<noteq> p_missed_blocks_per_rotation p2
      then p_missed_blocks_per_rotation p2 < p_missed_blocks_per_rotation p1
      else dlt (p_total_votes p1) (p_total_votes p2))"

text \<open>What \<open>std::sort\<close> guarantees: a permutation without an inversion.\<close>

locale schedule_laws =
  fixes X :: schedule_env
  assumes location_perm: "mset (sort_location X xs) = mset xs"
    and location_sorted: "sorted (map snd (sort_location X xs))"
    and missed_perm: "mset (sort_missed X ps) = mset ps"
    and missed_sorted: "sorted_wrt (\<lambda>p q. \<not> missed_before q p) (sort_missed X ps)"

subsection \<open>Constants and the rotation state\<close>

definition MAX_PRODUCERS :: nat where "MAX_PRODUCERS = 35"
definition TOP_PRODUCERS :: nat where "TOP_PRODUCERS = 21"
definition MAX_BLOCK_PER_CYCLE :: int where "MAX_BLOCK_PER_CYCLE = 12"
definition TWELVE_HOURS_US :: int where "TWELVE_HOURS_US = 43200000000"

definition set_bps_rotation :: "name \<Rightarrow> name \<Rightarrow> sys \<Rightarrow> sys" where
  "set_bps_rotation bpOut sbpIn s =
     s\<lparr>rotation := (rotation s)\<lparr>bp_currently_out := bpOut, sbp_currently_in := sbpIn\<rparr>\<rparr>"

definition update_rotation_time :: "env \<Rightarrow> int \<Rightarrow> sys \<Rightarrow> sys" where
  "update_rotation_time E block_time s =
     s\<lparr>rotation := (rotation s)\<lparr>last_rotation_time := block_time,
         next_rotation_time := time_to_slot E (slot_to_time E block_time + TWELVE_HOURS_US)\<rparr>\<rparr>"

definition set_indices :: "int \<Rightarrow> int \<Rightarrow> sys \<Rightarrow> sys" where
  "set_indices b i s = s\<lparr>rotation := (rotation s)\<lparr>bp_out_index := b, sbp_in_index := i\<rparr>\<rparr>"

subsection \<open>Missed blocks\<close>

datatype kick_type = REACHED_TRESHOLD | BPS_VOTING

definition kick :: "env \<Rightarrow> kick_type \<Rightarrow> int \<Rightarrow> producer_info \<Rightarrow> producer_info result" where
  "kick E kt penalty p =
     (let times = u32 (p_times_kicked p + 1) in
      (case (if penalty = 0 then d_to_u32 (std_pow E (Fin 2) (d_of_int times)) else Inr (p_kick_penalty_hours p)) of
        Inl e \<Rightarrow> Inl e
      | Inr hours \<Rightarrow>
          let p1 = p\<lparr>p_times_kicked := times, p_last_time_kicked := time_to_slot E (current_time E),
                     p_kick_penalty_hours := hours\<rparr>;
              p2 = (case kt of
                 REACHED_TRESHOLD \<Rightarrow> p1\<lparr>p_kick_reason_id := 1,
                   p_kick_reason := ''Producer account was deactivated because it reached the maximum missed blocks in this rotation timeframe.''\<rparr>
               | BPS_VOTING \<Rightarrow> p1\<lparr>p_kick_reason_id := 2,
                   p_kick_reason := ''Producer account was deactivated by vote.'', p_kick_penalty_hours := penalty\<rparr>)
          in Inr (deactivate (p2\<lparr>p_lifetime_missed_blocks :=
                     u32 (p_lifetime_missed_blocks p2 + p_missed_blocks_per_rotation p2),
                   p_missed_blocks_per_rotation := 0\<rparr>))))"

definition crossed_missed_blocks_threshold :: "env \<Rightarrow> rotation_state \<Rightarrow> int \<Rightarrow> int \<Rightarrow> bool" where
  "crossed_missed_blocks_threshold E r amountBlocksMissed schedule_size =
     (if schedule_size \<le> 1 then False else
      let timeframe = tdiv (slot_to_time E (next_rotation_time r) - slot_to_time E (last_rotation_time r)) 1000000;
          maxBlocksPerCycle = u32 ((schedule_size - 1) * MAX_BLOCK_PER_CYCLE);
          totalBlocksPerTimeframe = tdiv (i64 (maxBlocksPerCycle * timeframe)) (maxBlocksPerCycle div 2);
          maxBlocksPerProducer = tdiv (i64 (totalBlocksPerTimeframe * MAX_BLOCK_PER_CYCLE)) maxBlocksPerCycle;
          thresholdMissedBlocks = dmul (d_of_int maxBlocksPerProducer) (rnd (15 / 100))
      in dlt thresholdMissedBlocks (d_of_int amountBlocksMissed))"

definition set_metrics :: "producer_metric list \<Rightarrow> sys \<Rightarrow> sys" where
  "set_metrics ms s = s\<lparr>schedule_metrics := (schedule_metrics s)\<lparr>producers_metric := ms\<rparr>\<rparr>"

definition reset_schedule_metrics :: "name \<Rightarrow> sys \<Rightarrow> sys" where
  "reset_schedule_metrics producer s =
     set_metrics (map (\<lambda>pm. pm\<lparr>missed_blocks_per_cycle :=
         (if producer \<noteq> 0 \<and> bp_name pm = producer then MAX_BLOCK_PER_CYCLE - 1 else MAX_BLOCK_PER_CYCLE)\<rparr>)
       (producers_metric (schedule_metrics s))) s"

text \<open>A loop over the metrics that changes the first matching entry and stops.\<close>

fun modify_first :: "('a \<Rightarrow> bool) \<Rightarrow> ('a \<Rightarrow> 'a) \<Rightarrow> 'a list \<Rightarrow> 'a list" where
  "modify_first P f [] = []"
| "modify_first P f (x # xs) = (if P x then f x # xs else x # modify_first P f xs)"

definition update_producer_missed_blocks :: "name \<Rightarrow> sys \<Rightarrow> sys" where
  "update_producer_missed_blocks producer s =
     set_metrics (modify_first (\<lambda>pm. bp_name pm = producer \<and> 0 < missed_blocks_per_cycle pm)
         (\<lambda>pm. pm\<lparr>missed_blocks_per_cycle := missed_blocks_per_cycle pm - 1\<rparr>)
       (producers_metric (schedule_metrics s))) s"

text \<open>
  \<open>new_schedule[i]\<close> past the end is undefined behaviour, which is an error value here.
\<close>

fun agree :: "name list \<Rightarrow> name list \<Rightarrow> bool result" where
  "agree [] _ = Inr True"
| "agree (a # as) [] = Inl (Trap ''index out of range'')"
| "agree (a # as) (n # ns) = (if a \<noteq> n then Inr False else agree as ns)"

definition is_new_schedule_activated :: "name list \<Rightarrow> sys \<Rightarrow> bool result" where
  "is_new_schedule_activated active_schedule s =
     agree (sort active_schedule) (sort (map bp_name (producers_metric (schedule_metrics s))))"

subsection \<open>Kicking producers\<close>

definition add_missed :: "producer_metric \<Rightarrow> producer_info \<Rightarrow> producer_info" where
  "add_missed pm p =
     (if 0 < missed_blocks_per_cycle pm
      then p\<lparr>p_missed_blocks_per_rotation := u32 (p_missed_blocks_per_rotation p + missed_blocks_per_cycle pm)\<rparr> else p)"

fun collect_missed :: "producer_metric list \<Rightarrow> sys \<Rightarrow> sys \<times> producer_info list" where
  "collect_missed [] s = (s, [])"
| "collect_missed (pm # pms) s =
     (case fmlookup (producers s) (bp_name pm) of
        None \<Rightarrow> collect_missed pms s
      | Some p \<Rightarrow>
          if \<not> p_is_active p then collect_missed pms s
          else let p' = add_missed pm p;
                   (s', ps) = collect_missed pms (s\<lparr>producers := fmupd (bp_name pm) p' (producers s)\<rparr>)
               in (s', if 0 < p_missed_blocks_per_rotation p' then p' # ps else ps))"

definition kick_row :: "env \<Rightarrow> producer_info \<Rightarrow> producer_info result" where
  "kick_row E p = kick E REACHED_TRESHOLD 0
     (p\<lparr>p_lifetime_missed_blocks := u32 (p_lifetime_missed_blocks p + p_missed_blocks_per_rotation p)\<rparr>)"

fun kick_loop :: "env \<Rightarrow> int \<Rightarrow> nat \<Rightarrow> producer_info list \<Rightarrow> sys \<Rightarrow> sys result" where
  "kick_loop E sz max_kick_bps [] s = Inr s"
| "kick_loop E sz max_kick_bps (prd # ps) s =
     (case fmlookup (producers s) (p_owner prd) of None \<Rightarrow> Inl No_row | Some p \<Rightarrow>
      if crossed_missed_blocks_threshold E (rotation s) (p_missed_blocks_per_rotation p) sz \<and> 0 < max_kick_bps
      then (case kick_row E p of Inl e \<Rightarrow> Inl e | Inr p' \<Rightarrow>
            kick_loop E sz (max_kick_bps - 1) ps (s\<lparr>producers := fmupd (p_owner prd) p' (producers s)\<rparr>))
      else Inr s)"

definition update_missed_blocks_per_rotation :: "env \<Rightarrow> schedule_env \<Rightarrow> sys \<Rightarrow> sys result" where
  "update_missed_blocks_per_rotation E X s =
     (let pms = producers_metric (schedule_metrics s);
          sz = length pms;
          max_kick_bps = nat (u16 (int sz div 7));
          (s1, prods) = collect_missed pms s
      in kick_loop E (u32 (int sz)) max_kick_bps (sort_missed X prods) s1)"

definition restart_row :: "producer_info \<Rightarrow> producer_info" where
  "restart_row p =
     p\<lparr>p_times_kicked := (if 0 < p_times_kicked p \<and> p_missed_blocks_per_rotation p = 0
                          then p_times_kicked p - 1 else p_times_kicked p),
       p_lifetime_missed_blocks := u32 (p_lifetime_missed_blocks p + p_missed_blocks_per_rotation p),
       p_missed_blocks_per_rotation := 0\<rparr>"

fun restart_missed_blocks_per_rotation :: "producer_location_pair list \<Rightarrow> sys \<Rightarrow> sys" where
  "restart_missed_blocks_per_rotation [] s = s"
| "restart_missed_blocks_per_rotation (pl # pls) s =
     (let bp = fst (fst pl) in
      restart_missed_blocks_per_rotation pls
        (case fmlookup (producers s) bp of None \<Rightarrow> s
         | Some p \<Rightarrow> s\<lparr>producers := fmupd bp (restart_row p) (producers s)\<rparr>))"

subsection \<open>Rotation\<close>

definition is_in_range :: "int \<Rightarrow> int \<Rightarrow> int \<Rightarrow> bool" where
  "is_in_range index low_bound up_bound \<longleftrightarrow> low_bound \<le> index \<and> index < up_bound"

text \<open>An iterator into the list is its index, the end iterator is the length.\<close>

fun find_producer :: "name \<Rightarrow> producer_location_pair list \<Rightarrow> nat" where
  "find_producer n [] = 0"
| "find_producer n (p # ps) = (if fst (fst p) = n then 0 else Suc (find_producer n ps))"

text \<open>The branch of a due rotation: the next producer goes out, the next standby comes in.\<close>

definition next_rotation :: "env \<Rightarrow> producer_location_pair list \<Rightarrow> int \<Rightarrow> sys \<Rightarrow> (nat \<times> nat \<times> sys) result" where
  "next_rotation E prods block_time s =
     (let n = length prods; r = rotation s;
          bp = (if int TOP_PRODUCERS - 1 \<le> bp_out_index r then 0 else bp_out_index r + 1);
          sbp = (if int n - 1 \<le> sbp_in_index r then int TOP_PRODUCERS else sbp_in_index r + 1);
          turn = (if TOP_PRODUCERS < n then
                    if \<not> (nat bp < n \<and> nat sbp < n) then Inl (Trap ''index out of range'')
                    else Inr (nat bp, nat sbp,
                           set_bps_rotation (fst (fst (prods ! nat bp))) (fst (fst (prods ! nat sbp))) (set_indices bp sbp s))
                  else Inr (n, n, s))
      in (case turn of Inl e \<Rightarrow> Inl e | Inr (b, i, s1) \<Rightarrow>
         Inr (b, i, restart_missed_blocks_per_rotation prods (update_rotation_time E block_time s1))))"

text \<open>The branch between rotations: the current pair is looked up and dropped when it no longer fits.\<close>

definition keep_rotation :: "producer_location_pair list \<Rightarrow> sys \<Rightarrow> nat \<times> nat \<times> sys" where
  "keep_rotation prods s =
     (let n = length prods; r = rotation s in
      if bp_currently_out r \<noteq> 0 \<and> sbp_currently_in r \<noteq> 0 then
        let b = find_producer (bp_currently_out r) prods; i = find_producer (sbp_currently_in r) prods in
        if b = n \<or> i = n then
          (b, i, let s1 = set_bps_rotation 0 0 s in
                 if n < TOP_PRODUCERS then set_indices (int TOP_PRODUCERS) (int MAX_PRODUCERS + 1) s1 else s1)
        else if TOP_PRODUCERS < n \<and>
             (\<not> is_in_range (int b) 0 (int TOP_PRODUCERS) \<or> \<not> is_in_range (int i) (int TOP_PRODUCERS) (int MAX_PRODUCERS))
        then (n, n, set_bps_rotation 0 0 s)
        else (b, i, s)
      else (n, n, s))"

definition top_schedule :: "nat \<Rightarrow> nat \<Rightarrow> producer_location_pair list \<Rightarrow> producer_location_pair list" where
  "top_schedule b i prods =
     (if b \<noteq> length prods \<and> i \<noteq> length prods
      then map (\<lambda>p. if fst (fst p) = fst (fst (prods ! b)) then prods ! i else p) (take TOP_PRODUCERS prods)
      else take TOP_PRODUCERS prods)"

definition check_rotation_state :: "env \<Rightarrow> producer_location_pair list \<Rightarrow> int \<Rightarrow> sys \<Rightarrow> (producer_location_pair list \<times> sys) result" where
  "check_rotation_state E prods block_time s =
     (case (if next_rotation_time (rotation s) \<le> block_time then next_rotation E prods block_time s
            else Inr (keep_rotation prods s)) of
        Inl e \<Rightarrow> Inl e
      | Inr (b, i, s1) \<Rightarrow> Inr (top_schedule b i prods, s1))"

subsection \<open>Electing the schedule\<close>

definition by_votes :: "producer_info \<Rightarrow> double" where
  "by_votes p = (if p_is_active p then dneg (p_total_votes p) else p_total_votes p)"

definition producers_by_votes :: "sys \<Rightarrow> producer_info list" where
  "producers_by_votes s = sort_key by_votes (rows (producers s))"

definition eligible :: "producer_info \<Rightarrow> bool" where
  "eligible p \<longleftrightarrow> dlt (Fin 0) (p_total_votes p) \<and> p_is_active p"

definition location_pair :: "producer_info \<Rightarrow> producer_location_pair" where
  "location_pair p = ((p_owner p, get_producer_authority p), p_location p)"

definition active_voted :: "sys \<Rightarrow> producer_location_pair list" where
  "active_voted s =
     (let ps = producers_by_votes s; total = min (length ps) MAX_PRODUCERS
      in map location_pair (takeWhile eligible (take total ps)))"

definition adopt_schedule :: "int \<Rightarrow> producer_location_pair list \<Rightarrow> sys \<Rightarrow> sys" where
  "adopt_schedule block_time tops s =
     set_metrics (map (\<lambda>tp. \<lparr>bp_name = fst (fst tp), missed_blocks_per_cycle = 12\<rparr>) tops)
       (s\<lparr>gstate := (gstate s)\<lparr>g_last_proposed_schedule_update := block_time,
            g_last_producer_schedule_size := u16 (int (length tops))\<rparr>\<rparr>)"

definition update_elected_producers :: "env \<Rightarrow> schedule_env \<Rightarrow> int \<Rightarrow> sys \<Rightarrow> sys result" where
  "update_elected_producers E X block_time s0 =
     (let s = s0\<lparr>gstate := (gstate s0)\<lparr>g_last_producer_schedule_update := block_time\<rparr>\<rparr>;
          active = active_voted s
      in if active = [] \<or> int (length active) < g_last_producer_schedule_size (gstate s) then Inr s else
         (case check_rotation_state E active block_time s of Inl e \<Rightarrow> Inl e | Inr (tops0, s1) \<Rightarrow>
          let tops = sort_location X tops0; prods = map fst tops; s2 = emit (Propose_schedule prods) s1
          in if 0 \<le> set_proposed_producers X prods then Inr (adopt_schedule block_time tops s2) else Inr s2))"

subsection \<open>The check of every block\<close>

definition set_caller :: "name \<Rightarrow> sys \<Rightarrow> sys" where
  "set_caller p s = s\<lparr>schedule_metrics := (schedule_metrics s)\<lparr>last_onblock_caller := p\<rparr>\<rparr>"

definition set_correction :: "int \<Rightarrow> sys \<Rightarrow> sys" where
  "set_correction c s = s\<lparr>schedule_metrics := (schedule_metrics s)\<lparr>block_counter_correction := c\<rparr>\<rparr>"

abbreviation correction :: "sys \<Rightarrow> int" where "correction s \<equiv> block_counter_correction (schedule_metrics s)"
abbreviation caller :: "sys \<Rightarrow> name" where "caller s \<equiv> last_onblock_caller (schedule_metrics s)"
abbreviation metrics :: "sys \<Rightarrow> producer_metric list" where "metrics s \<equiv> producers_metric (schedule_metrics s)"

text \<open>The corrections after a new schedule became active.\<close>

definition first_correction :: "name \<Rightarrow> sys \<Rightarrow> sys" where
  "first_correction producer s =
     (if 0 < correction s then
        set_caller producer
          (if caller s = eosio_account
           then set_metrics (modify_first (\<lambda>pm. bp_name pm = producer)
                  (\<lambda>pm. pm\<lparr>missed_blocks_per_cycle := u32 (missed_blocks_per_cycle pm - u32 (correction s))\<rparr>) (metrics s)) s
           else set_correction (-3) (reset_schedule_metrics 0 s))
      else s)"

definition second_correction :: "name \<Rightarrow> sys \<Rightarrow> sys" where
  "second_correction producer s =
     (if correction s < 0
      then set_caller producer (if caller s \<noteq> producer then set_correction (correction s + 1) s else s)
      else s)"

definition returned_early :: "name \<Rightarrow> sys \<Rightarrow> bool" where
  "returned_early producer s \<longleftrightarrow>
     caller s \<noteq> producer \<and>
     (case find (\<lambda>pm. bp_name pm = producer) (metrics s) of
        None \<Rightarrow> False | Some pm \<Rightarrow> missed_blocks_per_cycle pm \<noteq> MAX_BLOCK_PER_CYCLE)"

text \<open>A new cycle starts when a producer that has already produced comes back.\<close>

definition count_block :: "env \<Rightarrow> schedule_env \<Rightarrow> int \<Rightarrow> name \<Rightarrow> sys \<Rightarrow> (bool \<times> sys) result" where
  "count_block E X timestamp producer s =
     (case fmlookup (producers s) producer of
        Some p \<Rightarrow> if \<not> p_is_active p
          then (case update_elected_producers E X timestamp (reset_schedule_metrics 0 s) of
                  Inl e \<Rightarrow> Inl e | Inr s' \<Rightarrow> Inr (False, s'))
          else if returned_early producer s then Inr (True, set_caller producer s)
          else Inr (False, set_caller producer (update_producer_missed_blocks producer s))
      | None \<Rightarrow> if returned_early producer s then Inr (True, set_caller producer s)
          else Inr (False, set_caller producer (update_producer_missed_blocks producer s)))"

definition check_missed_blocks :: "env \<Rightarrow> schedule_env \<Rightarrow> int \<Rightarrow> name \<Rightarrow> sys \<Rightarrow> (bool \<times> sys) result" where
  "check_missed_blocks E X timestamp producer s =
     (if producer = eosio_account
      then Inr (False, set_caller producer (set_correction (i32 (correction s + 1)) s)) else
      (case (if g_last_producer_schedule_size (gstate s) = int (length (get_active_producers X))
             then is_new_schedule_activated (get_active_producers X) s else Inr False) of
         Inl e \<Rightarrow> Inl e
       | Inr is_activated \<Rightarrow>
      if \<not> is_activated
      then Inr (False, set_caller producer
             (set_correction (if caller s \<noteq> producer then 1 else i32 (correction s + 1)) s))
      else let s2 = second_correction producer (first_correction producer s) in
           if correction s2 < 0 then Inr (False, s2) else count_block E X timestamp producer s2))"

subsection \<open>Names of a schedule\<close>

abbreviation pl_name :: "producer_location_pair \<Rightarrow> name" where "pl_name p \<equiv> fst (fst p)"

definition owners_ok :: "(name, producer_info) fmap \<Rightarrow> bool" where
  "owners_ok m \<longleftrightarrow> (\<forall>k p. fmlookup m k = Some p \<longrightarrow> p_owner p = k)"

lemma owners_okD: "owners_ok m \<Longrightarrow> fmlookup m k = Some p \<Longrightarrow> p_owner p = k"
  by (simp add: owners_ok_def)

lemma owners_ok_upd: "owners_ok m \<Longrightarrow> p_owner p = k \<Longrightarrow> owners_ok (fmupd k p m)"
  by (simp add: owners_ok_def)

lemma distinct_owners: "owners_ok m \<Longrightarrow> distinct (map p_owner (rows m))"
proof -
  assume ok: "owners_ok m"
  have "map p_owner (rows m) = sorted_list_of_fset (fmdom m)"
    unfolding rows_def map_map
    by (rule map_idI) (use ok in \<open>auto simp: owners_ok_def fmlookup_dom_iff\<close>)
  then show ?thesis by (simp add: sorted_list_of_fset.rep_eq)
qed

lemma active_voted_props:
  shows "length (active_voted s) \<le> MAX_PRODUCERS"
    and "owners_ok (producers s) \<Longrightarrow> distinct (map pl_name (active_voted s))"
    and "set (active_voted s) \<subseteq> location_pair ` {p \<in> set (rows (producers s)). eligible p}"
proof -
  let ?l = "take (min (length (producers_by_votes s)) MAX_PRODUCERS) (producers_by_votes s)"
  have av: "active_voted s = map location_pair (takeWhile eligible ?l)" by (simp add: active_voted_def Let_def)
  have "length (takeWhile eligible ?l) \<le> length ?l" by (rule length_takeWhile_le)
  then show "length (active_voted s) \<le> MAX_PRODUCERS" by (simp add: av)
  have names: "map pl_name (active_voted s) = map p_owner (takeWhile eligible ?l)"
    by (simp add: av location_pair_def comp_def)
  show "distinct (map pl_name (active_voted s))" if "owners_ok (producers s)"
  proof -
    have "mset (map p_owner (producers_by_votes s)) = mset (map p_owner (rows (producers s)))"
      by (simp add: producers_by_votes_def)
    then have "distinct (map p_owner (producers_by_votes s))"
      using distinct_owners [OF that] mset_eq_imp_distinct_iff by blast
    then have "distinct (map p_owner ?l)" by (simp add: take_map [symmetric] distinct_take)
    moreover have "takeWhile eligible ?l = take (length (takeWhile eligible ?l)) ?l" by (rule takeWhile_eq_take)
    ultimately have "distinct (map p_owner (takeWhile eligible ?l))" by (metis distinct_take take_map)
    then show ?thesis by (simp add: names)
  qed
  show "set (active_voted s) \<subseteq> location_pair ` {p \<in> set (rows (producers s)). eligible p}"
    unfolding av by (auto dest!: set_takeWhileD in_set_takeD simp: producers_by_votes_def)
qed

subsection \<open>The rotation keeps the schedule within bounds\<close>

definition rotation_ok :: "rotation_state \<Rightarrow> bool" where
  "rotation_ok r \<longleftrightarrow> 0 \<le> bp_out_index r \<and> bp_out_index r \<le> 21 \<and> 21 \<le> sbp_in_index r"

lemma find_producer_le: "find_producer n ps \<le> length ps"
  by (induction ps) auto

lemma find_producer_nth: "find_producer n ps < length ps \<Longrightarrow> pl_name (ps ! find_producer n ps) = n"
  by (induction ps) auto

lemma find_producer_mem: "n \<in> pl_name ` set ps \<Longrightarrow> find_producer n ps < length ps"
  by (induction ps) auto

lemma find_producer_unique:
  "distinct (map pl_name ps) \<Longrightarrow> j < length ps \<Longrightarrow> find_producer (pl_name (ps ! j)) ps = j"
proof (induction ps arbitrary: j)
  case (Cons p ps)
  then show ?case by (cases j) (auto simp: image_iff)
qed simp

definition noprods :: "sys \<Rightarrow> sys" where "noprods s = s\<lparr>producers := fmempty\<rparr>"

lemma noprods_fields:
  "noprods s' = noprods s \<Longrightarrow> gstate s' = gstate s \<and> schedule_metrics s' = schedule_metrics s \<and>
     rotation s' = rotation s \<and> effects s' = effects s"
  by (metis noprods_def sys.ext_inject sys.surjective sys.update_convs(2))

lemma restart_row_owner [simp]: "p_owner (restart_row p) = p_owner p"
  by (simp add: restart_row_def)

lemma restart_frame:
  "owners_ok (producers s) \<Longrightarrow>
     noprods (restart_missed_blocks_per_rotation pls s) = noprods s \<and>
     owners_ok (producers (restart_missed_blocks_per_rotation pls s))"
proof (induction pls arbitrary: s)
  case (Cons pl pls)
  let ?s1 = "case fmlookup (producers s) (pl_name pl) of None \<Rightarrow> s
         | Some p \<Rightarrow> s\<lparr>producers := fmupd (pl_name pl) (restart_row p) (producers s)\<rparr>"
  have "owners_ok (producers ?s1)" "noprods ?s1 = noprods s"
    using Cons.prems by (auto simp: noprods_def dest: owners_okD intro!: owners_ok_upd split: option.splits)
  then show ?case using Cons.IH [of ?s1] by (simp add: Let_def)
qed simp

text \<open>
  In every branch the outgoing and the incoming producer are either both absent or, with more
  than 21 candidates, below and above the line.
\<close>

definition turn_ok :: "producer_location_pair list \<Rightarrow> nat \<Rightarrow> nat \<Rightarrow> bool" where
  "turn_ok prods b i \<longleftrightarrow>
     b = length prods \<or> i = length prods \<or> b < TOP_PRODUCERS \<and> TOP_PRODUCERS \<le> i \<and> i < length prods"

lemma next_rotation_step:
  assumes ok: "rotation_ok (rotation s)" and len: "length prods \<le> MAX_PRODUCERS" and own: "owners_ok (producers s)"
  obtains b i s1 where "next_rotation E prods t s = Inr (b, i, s1)" "turn_ok prods b i" "rotation_ok (rotation s1)"
    "owners_ok (producers s1)" "gstate s1 = gstate s" "schedule_metrics s1 = schedule_metrics s" "effects s1 = effects s"
proof -
  define bp where "bp = (if int TOP_PRODUCERS - 1 \<le> bp_out_index (rotation s) then 0 else bp_out_index (rotation s) + 1)"
  define sbp where "sbp = (if int (length prods) - 1 \<le> sbp_in_index (rotation s) then int TOP_PRODUCERS else sbp_in_index (rotation s) + 1)"
  define b where "b = (if TOP_PRODUCERS < length prods then nat bp else length prods)"
  define i where "i = (if TOP_PRODUCERS < length prods then nat sbp else length prods)"
  define s1 where "s1 = (if TOP_PRODUCERS < length prods
    then set_bps_rotation (pl_name (prods ! nat bp)) (pl_name (prods ! nat sbp)) (set_indices bp sbp s) else s)"
  have bp: "0 \<le> bp" "bp < 21" and sbp: "21 \<le> sbp" "TOP_PRODUCERS < length prods \<Longrightarrow> sbp < int (length prods)"
    using ok by (auto simp: bp_def sbp_def rotation_ok_def TOP_PRODUCERS_def)
  let ?s2 = "update_rotation_time E t s1"
  have s1: "rotation_ok (rotation ?s2)" "producers ?s2 = producers s" "gstate ?s2 = gstate s"
    "schedule_metrics ?s2 = schedule_metrics s" "effects ?s2 = effects s"
    using ok bp sbp by (auto simp: s1_def set_bps_rotation_def set_indices_def update_rotation_time_def rotation_ok_def)
  have "next_rotation E prods t s = Inr (b, i, restart_missed_blocks_per_rotation prods ?s2)"
    using bp sbp unfolding next_rotation_def Let_def bp_def [symmetric] sbp_def [symmetric]
    by (auto simp: b_def i_def s1_def TOP_PRODUCERS_def)
  moreover have "turn_ok prods b i" using bp sbp by (auto simp: turn_ok_def b_def i_def TOP_PRODUCERS_def)
  ultimately show ?thesis
    using that restart_frame [of ?s2 prods] noprods_fields [of "restart_missed_blocks_per_rotation prods ?s2" ?s2] s1 own by simp
qed

lemma keep_rotation_state:
  "keep_rotation prods s = (b, i, s1) \<Longrightarrow>
     s1 = s \<or> s1 = set_bps_rotation 0 0 s \<or> s1 = set_indices (int TOP_PRODUCERS) (int MAX_PRODUCERS + 1) (set_bps_rotation 0 0 s)"
  unfolding keep_rotation_def Let_def by (simp split: if_splits)

lemma keep_rotation_step:
  assumes ok: "rotation_ok (rotation s)" and eq: "keep_rotation prods s = (b, i, s1)"
  shows "rotation_ok (rotation s1)" "producers s1 = producers s" "gstate s1 = gstate s"
    "schedule_metrics s1 = schedule_metrics s" "effects s1 = effects s"
  using keep_rotation_state [OF eq] ok
  by (auto simp: rotation_ok_def set_bps_rotation_def set_indices_def TOP_PRODUCERS_def MAX_PRODUCERS_def)

lemma keep_rotation_turn:
  assumes eq: "keep_rotation prods s = (b, i, s1)"
  shows "b \<le> length prods" "i \<le> length prods"
    and "TOP_PRODUCERS < length prods \<or> bp_currently_out (rotation s) = 0 \<or> sbp_currently_in (rotation s) = 0 \<Longrightarrow> turn_ok prods b i"
proof -
  note le = find_producer_le [of "bp_currently_out (rotation s)" prods] find_producer_le [of "sbp_currently_in (rotation s)" prods]
  show "b \<le> length prods" "i \<le> length prods"
    using eq le unfolding keep_rotation_def Let_def by (auto split: if_splits)
  assume "TOP_PRODUCERS < length prods \<or> bp_currently_out (rotation s) = 0 \<or> sbp_currently_in (rotation s) = 0"
  then show "turn_ok prods b i"
    using eq le unfolding keep_rotation_def Let_def turn_ok_def is_in_range_def by (auto split: if_splits)
qed

lemma top_schedule_basic:
  "length (top_schedule b i prods) = min (length prods) TOP_PRODUCERS"
  "b \<le> length prods \<Longrightarrow> i \<le> length prods \<Longrightarrow> set (top_schedule b i prods) \<subseteq> set prods"
  by (auto simp: top_schedule_def dest: in_set_takeD)

lemma distinct_subst: "distinct ns \<Longrightarrow> y \<notin> set ns \<Longrightarrow> distinct (map (\<lambda>n. if n = x then y else n) ns)"
  by (induction ns) auto

lemma top_schedule_distinct:
  assumes d: "distinct (map pl_name prods)" and t: "turn_ok prods b i" "b \<le> length prods" "i \<le> length prods"
  shows "distinct (map pl_name (top_schedule b i prods))"
proof (cases "b = length prods \<or> i = length prods")
  case True
  then show ?thesis using d by (auto simp: top_schedule_def take_map [symmetric] distinct_take)
next
  case False
  with t have r: "b < TOP_PRODUCERS" "TOP_PRODUCERS \<le> i" "i < length prods" by (auto simp: turn_ok_def)
  have new: "pl_name (prods ! i) \<notin> pl_name ` set (take TOP_PRODUCERS prods)"
  proof
    assume "pl_name (prods ! i) \<in> pl_name ` set (take TOP_PRODUCERS prods)"
    then obtain j where "j < TOP_PRODUCERS" "j < length prods" "pl_name (prods ! i) = pl_name (prods ! j)"
      by (auto simp: in_set_conv_nth)
    then have "i = j" using find_producer_unique [OF d] r by metis
    then show False using r \<open>j < TOP_PRODUCERS\<close> by simp
  qed
  have "distinct (map pl_name (take TOP_PRODUCERS prods))" using d by (simp add: take_map [symmetric] distinct_take)
  from distinct_subst [OF this, of "pl_name (prods ! i)" "pl_name (prods ! b)"] new False
  show ?thesis by (simp add: top_schedule_def comp_def if_distrib cong: if_cong)
qed

text \<open>A standby is exchanged for a producer although there is none outside the schedule.\<close>

definition rotation_due :: "int \<Rightarrow> sys \<Rightarrow> bool" where
  "rotation_due t s \<longleftrightarrow> next_rotation_time (rotation s) \<le> t"

definition rotation_in_force :: "sys \<Rightarrow> bool" where
  "rotation_in_force s \<longleftrightarrow> bp_currently_out (rotation s) \<noteq> 0 \<and> sbp_currently_in (rotation s) \<noteq> 0"

lemma check_rotation_step:
  assumes ok: "rotation_ok (rotation s)" and own: "owners_ok (producers s)" and len: "length prods \<le> MAX_PRODUCERS"
    and d: "distinct (map pl_name prods)"
  obtains tops s1 where "check_rotation_state E prods t s = Inr (tops, s1)" "rotation_ok (rotation s1)"
    "owners_ok (producers s1)" "gstate s1 = gstate s" "schedule_metrics s1 = schedule_metrics s" "effects s1 = effects s"
    "length tops = min (length prods) TOP_PRODUCERS" "set tops \<subseteq> set prods"
    "TOP_PRODUCERS < length prods \<or> \<not> rotation_in_force s \<or> rotation_due t s \<Longrightarrow> distinct (map pl_name tops)"
proof (cases "rotation_due t s")
  case True
  obtain b i s1 where r: "next_rotation E prods t s = Inr (b, i, s1)" "turn_ok prods b i"
    and f: "rotation_ok (rotation s1)" "owners_ok (producers s1)" "gstate s1 = gstate s"
      "schedule_metrics s1 = schedule_metrics s" "effects s1 = effects s"
    using next_rotation_step [OF ok len own] by metis
  have le: "b \<le> length prods" "i \<le> length prods"
    using r(1) by (auto simp: next_rotation_def Let_def split: if_splits)
  have "check_rotation_state E prods t s = Inr (top_schedule b i prods, s1)"
    using True r by (simp add: check_rotation_state_def rotation_due_def)
  from that [OF this f top_schedule_basic(1) top_schedule_basic(2) [OF le]] show ?thesis
    using top_schedule_distinct [OF d r(2) le] by blast
next
  case False
  obtain b i s1 where r: "keep_rotation prods s = (b, i, s1)" by (cases "keep_rotation prods s") auto
  note f = keep_rotation_step [OF ok r] and tn = keep_rotation_turn [OF r]
  have "check_rotation_state E prods t s = Inr (top_schedule b i prods, s1)"
    using False r by (simp add: check_rotation_state_def rotation_due_def)
  from that [OF this f(1) _ f(3,4,5) top_schedule_basic(1) top_schedule_basic(2) [OF tn(1,2)]] show ?thesis
    using top_schedule_distinct [OF d tn(3) tn(1,2)] f(2) own False by (auto simp: rotation_in_force_def)
qed

subsection \<open>The elected schedule\<close>

definition sched_inv :: "sys \<Rightarrow> bool" where
  "sched_inv s \<longleftrightarrow> rotation_ok (rotation s) \<and> owners_ok (producers s) \<and>
     int (length (metrics s)) = g_last_producer_schedule_size (gstate s) \<and> length (metrics s) \<le> 21"

lemma sched_inv_fields:
  assumes "sched_inv s" "rotation_ok (rotation s')" "owners_ok (producers s')"
    and "map bp_name (metrics s') = map bp_name (metrics s)"
    and "g_last_producer_schedule_size (gstate s') = g_last_producer_schedule_size (gstate s)"
  shows "sched_inv s'"
  using assms map_eq_imp_length_eq [OF assms(4)] by (simp add: sched_inv_def)

lemma active_voted_gstate: "active_voted (s\<lparr>gstate := g\<rparr>) = active_voted s"
  by (simp add: active_voted_def producers_by_votes_def)

lemma update_elected_cases:
  assumes X: "schedule_laws X" and ok: "sched_inv s"
  obtains (none) s' where "update_elected_producers E X t s = Inr s'" "sched_inv s'"
      "effects s' = effects s" "metrics s' = metrics s"
      "active_voted s = [] \<or> int (length (active_voted s)) < g_last_producer_schedule_size (gstate s)"
    | (proposed) s' ps where "update_elected_producers E X t s = Inr s'" "sched_inv s'"
      "effects s' = effects s @ [Propose_schedule ps]" "length ps = min (length (active_voted s)) 21"
      "set ps \<subseteq> fst ` set (active_voted s)" "active_voted s \<noteq> []"
      "g_last_producer_schedule_size (gstate s) \<le> int (length ps)"
      "21 < length (active_voted s) \<or> \<not> rotation_in_force s \<or> rotation_due t s \<Longrightarrow> distinct (map fst ps)"
      "metrics s' = (if 0 \<le> set_proposed_producers X ps then map (\<lambda>p. \<lparr>bp_name = fst p, missed_blocks_per_cycle = 12\<rparr>) ps
                     else metrics s)"
proof -
  let ?s = "s\<lparr>gstate := (gstate s)\<lparr>g_last_producer_schedule_update := t\<rparr>\<rparr>"
  let ?A = "active_voted s"
  have s: "rotation_ok (rotation ?s)" "owners_ok (producers ?s)" using ok by (simp_all add: sched_inv_def)
  have inv: "sched_inv ?s" using ok by (simp add: sched_inv_def)
  have A: "length ?A \<le> MAX_PRODUCERS" "distinct (map pl_name ?A)"
    using active_voted_props(1,2) ok by (simp_all add: sched_inv_def)
  show ?thesis
  proof (cases "?A = [] \<or> int (length ?A) < g_last_producer_schedule_size (gstate s)")
    case True
    then have "update_elected_producers E X t s = Inr ?s"
      by (auto simp: update_elected_producers_def Let_def active_voted_gstate)
    then show ?thesis using none [of ?s] inv True by simp
  next
    case False
    obtain tops s1 where c: "check_rotation_state E ?A t ?s = Inr (tops, s1)"
      and f: "rotation_ok (rotation s1)" "owners_ok (producers s1)" "gstate s1 = gstate ?s"
        "schedule_metrics s1 = schedule_metrics ?s" "effects s1 = effects ?s"
      and t: "length tops = min (length ?A) TOP_PRODUCERS" "set tops \<subseteq> set ?A"
        "TOP_PRODUCERS < length ?A \<or> \<not> rotation_in_force ?s \<or> rotation_due t ?s \<Longrightarrow> distinct (map pl_name tops)"
      using check_rotation_step [OF s A] by metis
    define ps where "ps = map fst (sort_location X tops)"
    have perm: "mset (sort_location X tops) = mset tops" by (rule schedule_laws.location_perm [OF X])
    have len: "length ps = min (length ?A) 21" using t(1) mset_eq_length [OF perm] by (simp add: ps_def TOP_PRODUCERS_def)
    have sub: "set ps \<subseteq> fst ` set ?A" using t(2) mset_eq_setD [OF perm] by (auto simp: ps_def)
    have "mset (map pl_name (sort_location X tops)) = mset (map pl_name tops)" using perm by simp
    then have dist: "distinct (map fst ps) = distinct (map pl_name tops)"
      unfolding ps_def map_map comp_def by (rule mset_eq_imp_distinct_iff)
    define s2 where "s2 = emit (Propose_schedule ps) s1"
    define s' where "s' = (if 0 \<le> set_proposed_producers X ps then adopt_schedule t (sort_location X tops) s2 else s2)"
    have step: "update_elected_producers E X t s = Inr s'"
      using False c by (simp add: update_elected_producers_def Let_def active_voted_gstate s'_def s2_def ps_def)
    have len': "length (sort_location X tops) = min (length ?A) 21" using len by (simp add: ps_def)
    have "g_last_producer_schedule_size (gstate s) \<le> 21" using ok by (simp add: sched_inv_def)
    then have ge: "g_last_producer_schedule_size (gstate s) \<le> int (length ps)" using False len by (auto simp: not_less min_def)
    have inv': "sched_inv s'"
      using f inv len' unfolding s'_def s2_def sched_inv_def
      by (auto simp: emit_def adopt_schedule_def set_metrics_def u16_id)
    show ?thesis
      by (rule proposed [OF step inv' _ len sub _ ge])
        (use False f t(3) dist in \<open>auto simp: s'_def s2_def emit_def adopt_schedule_def set_metrics_def ps_def
           rotation_in_force_def rotation_due_def TOP_PRODUCERS_def\<close>)
  qed
qed

subsection \<open>Kicking at most one seventh of the schedule\<close>

definition kicked :: "sys \<Rightarrow> sys \<Rightarrow> name set" where
  "kicked s s' = {k. \<exists>p p'. fmlookup (producers s) k = Some p \<and> p_is_active p \<and>
     fmlookup (producers s') k = Some p' \<and> \<not> p_is_active p'}"

lemma finite_kicked [simp]: "finite (kicked s s')"
  by (rule finite_subset [of _ "fset (fmdom (producers s))"]) (auto simp: kicked_def intro: fmdomI)

lemma kicked_refl [simp]: "kicked s s = {}"
  by (auto simp: kicked_def)

lemma kick_row_result:
  assumes "kick_row E p = Inr p'"
  shows "p_owner p' = p_owner p" "\<not> p_is_active p'" "p_missed_blocks_per_rotation p' = 0"
    "p_lifetime_missed_blocks p' = u32 (p_lifetime_missed_blocks p + 2 * p_missed_blocks_per_rotation p)"
  using assms
  by (auto simp: kick_row_def kick_def Let_def deactivate_def result_simps u32_def mod_simps algebra_simps)

text \<open>What the two loops do to a row.\<close>

definition same_but_missed :: "producer_info \<Rightarrow> producer_info \<Rightarrow> bool" where
  "same_but_missed p q \<longleftrightarrow> (\<exists>m. q = p\<lparr>p_missed_blocks_per_rotation := m\<rparr>)"

lemma same_but_missedI: "same_but_missed p (p\<lparr>p_missed_blocks_per_rotation := m\<rparr>)" "same_but_missed p p"
proof -
  show "same_but_missed p (p\<lparr>p_missed_blocks_per_rotation := m\<rparr>)" unfolding same_but_missed_def by blast
  have "p = p\<lparr>p_missed_blocks_per_rotation := p_missed_blocks_per_rotation p\<rparr>" by simp
  then show "same_but_missed p p" unfolding same_but_missed_def by blast
qed

definition rows_related :: "(producer_info \<Rightarrow> producer_info \<Rightarrow> bool) \<Rightarrow> sys \<Rightarrow> sys \<Rightarrow> bool" where
  "rows_related R s s' \<longleftrightarrow> noprods s' = noprods s \<and> (\<forall>k. rel_option R (fmlookup (producers s) k) (fmlookup (producers s') k))"

lemma rows_related_refl: "(\<And>p. R p p) \<Longrightarrow> rows_related R s s"
  by (simp add: rows_related_def option.rel_refl)

lemma rows_related_upd:
  assumes "(\<And>p. R p p)" "fmlookup (producers s) k = Some p" "R p p'"
  shows "rows_related R s (s\<lparr>producers := fmupd k p' (producers s)\<rparr>)"
  using assms by (auto simp: rows_related_def noprods_def option.rel_refl)

lemma rows_related_trans:
  assumes "rows_related R s1 s2" "rows_related Q s2 s3" "\<And>p q r. R p q \<Longrightarrow> Q q r \<Longrightarrow> S p r"
  shows "rows_related S s1 s3"
  unfolding rows_related_def
proof (intro conjI allI)
  show "noprods s3 = noprods s1" using assms(1,2) by (simp add: rows_related_def)
  fix k
  have "rel_option R (fmlookup (producers s1) k) (fmlookup (producers s2) k)"
    "rel_option Q (fmlookup (producers s2) k) (fmlookup (producers s3) k)"
    using assms(1,2) by (simp_all add: rows_related_def)
  then show "rel_option S (fmlookup (producers s1) k) (fmlookup (producers s3) k)"
    using assms(3) by (auto simp: option_rel_Some1 option_rel_Some2 elim!: option.rel_cases) 
qed

lemma collect_missed_rows:
  "collect_missed pms s = (s', ps) \<Longrightarrow> rows_related same_but_missed s s'"
proof (induction pms arbitrary: s s' ps)
  case (Cons pm pms)
  show ?case
  proof (cases "\<exists>p. fmlookup (producers s) (bp_name pm) = Some p \<and> p_is_active p")
    case True
    then obtain p where p: "fmlookup (producers s) (bp_name pm) = Some p" "p_is_active p" by blast
    let ?s1 = "s\<lparr>producers := fmupd (bp_name pm) (add_missed pm p) (producers s)\<rparr>"
    obtain ps' where "collect_missed pms ?s1 = (s', ps')"
      using Cons.prems p by (auto simp: Let_def split: prod.splits)
    from Cons.IH [OF this] have 2: "rows_related same_but_missed ?s1 s'" .
    have 1: "rows_related same_but_missed s ?s1"
      by (rule rows_related_upd [OF _ p(1)]) (simp_all add: add_missed_def same_but_missedI)
    show ?thesis
      by (rule rows_related_trans [OF 1 2]) (auto simp: same_but_missed_def)
  next
    case False
    then have "collect_missed pms s = (s', ps)" using Cons.prems by (auto split: option.splits if_splits)
    then show ?thesis by (rule Cons.IH)
  qed
qed (simp add: rows_related_refl same_but_missedI)

definition kick_outcome :: "env \<Rightarrow> rotation_state \<Rightarrow> int \<Rightarrow> producer_info \<Rightarrow> producer_info \<Rightarrow> bool" where
  "kick_outcome E r sz p p' \<longleftrightarrow> p' = p \<or>
     p_owner p' = p_owner p \<and> \<not> p_is_active p' \<and> p_missed_blocks_per_rotation p' = 0 \<and>
     crossed_missed_blocks_threshold E r (p_missed_blocks_per_rotation p) sz \<and>
     p_lifetime_missed_blocks p' = u32 (p_lifetime_missed_blocks p + 2 * p_missed_blocks_per_rotation p)"

lemma kick_outcome_trans: "kick_outcome E r sz p q \<Longrightarrow> kick_outcome E r sz q u \<Longrightarrow> kick_outcome E r sz p u"
  by (auto simp: kick_outcome_def u32_def)

lemma kick_loop_rows:
  "kick_loop E sz n ps s = Inr s' \<Longrightarrow> rows_related (kick_outcome E (rotation s) sz) s s' \<and> card (kicked s s') \<le> n"
proof (induction ps arbitrary: n s)
  case Nil
  then show ?case by (simp add: rows_related_refl kick_outcome_def)
next
  case (Cons prd ps)
  obtain p where p: "fmlookup (producers s) (p_owner prd) = Some p" using Cons.prems by (auto split: option.splits)
  show ?case
  proof (cases "crossed_missed_blocks_threshold E (rotation s) (p_missed_blocks_per_rotation p) sz \<and> 0 < n")
    case False
    then have "s' = s" using Cons.prems p by auto
    then show ?thesis by (simp add: rows_related_refl kick_outcome_def)
  next
    case True
    obtain p' where p': "kick_row E p = Inr p'" using Cons.prems p True by (auto split: sum.splits)
    let ?s1 = "s\<lparr>producers := fmupd (p_owner prd) p' (producers s)\<rparr>"
    have "kick_loop E sz (n - 1) ps ?s1 = Inr s'" using Cons.prems p True p' by simp
    from Cons.IH [OF this]
    have IH: "rows_related (kick_outcome E (rotation s) sz) ?s1 s'" "card (kicked ?s1 s') \<le> n - 1" by simp_all
    have 1: "rows_related (kick_outcome E (rotation s) sz) s ?s1"
      by (rule rows_related_upd [OF _ p]) (use kick_row_result [OF p'] True in \<open>auto simp: kick_outcome_def\<close>)
    have "kicked s s' \<subseteq> insert (p_owner prd) (kicked ?s1 s')" by (auto simp: kicked_def)
    from card_mono [OF _ this] have "card (kicked s s') \<le> Suc (card (kicked ?s1 s'))"
      by (simp add: card_insert_if split: if_splits)
    moreover have "rows_related (kick_outcome E (rotation s) sz) s s'"
      by (rule rows_related_trans [OF 1 IH(1) kick_outcome_trans])
    ultimately show ?thesis using IH(2) True by linarith
  qed
qed

lemma update_missed_rows:
  assumes "update_missed_blocks_per_rotation E X s = Inr s'"
  shows "card (kicked s s') \<le> length (metrics s) div 7"
    and "rows_related (\<lambda>p p'. \<exists>m. kick_outcome E (rotation s) (u32 (int (length (metrics s)))) (p\<lparr>p_missed_blocks_per_rotation := m\<rparr>) p') s s'"
proof -
  let ?n = "length (metrics s)"
  obtain s1 ps where c: "collect_missed (metrics s) s = (s1, ps)" by fastforce
  have k: "kick_loop E (u32 (int ?n)) (nat (u16 (int ?n div 7))) (sort_missed X ps) s1 = Inr s'"
    using assms c by (simp add: update_missed_blocks_per_rotation_def Let_def)
  note r1 = collect_missed_rows [OF c] and r2 = kick_loop_rows [OF k]
  have rot: "rotation s1 = rotation s" using noprods_fields [of s1 s] r1 unfolding rows_related_def by blast
  have "kicked s s' \<subseteq> kicked s1 s'"
  proof
    fix k assume "k \<in> kicked s s'"
    then obtain p p' where kk: "fmlookup (producers s) k = Some p" "p_is_active p"
      "fmlookup (producers s') k = Some p'" "\<not> p_is_active p'" by (auto simp: kicked_def)
    have "rel_option same_but_missed (fmlookup (producers s) k) (fmlookup (producers s1) k)"
      using r1 by (simp add: rows_related_def)
    then obtain q where "fmlookup (producers s1) k = Some q" "same_but_missed p q"
      by (auto simp: kk option_rel_Some1)
    moreover have "p_is_active q" using kk(2) \<open>same_but_missed p q\<close> by (auto simp: same_but_missed_def)
    ultimately show "k \<in> kicked s1 s'" using kk by (auto simp: kicked_def)
  qed
  then have "card (kicked s s') \<le> card (kicked s1 s')" by (rule card_mono [OF finite_kicked])
  also have "\<dots> \<le> nat (u16 (int ?n div 7))" using r2 by simp
  also have "\<dots> \<le> nat (int ?n div 7)" unfolding u16_def by (rule nat_mono, rule zmod_le_nonneg_dividend) simp
  also have "\<dots> = ?n div 7" by (simp add: nat_div_distrib)
  finally show "card (kicked s s') \<le> ?n div 7" .
  show "rows_related (\<lambda>p p'. \<exists>m. kick_outcome E (rotation s) (u32 (int ?n)) (p\<lparr>p_missed_blocks_per_rotation := m\<rparr>) p') s s'"
    by (rule rows_related_trans [OF r1 r2 [unfolded rot, THEN conjunct1]]) (auto simp: same_but_missed_def)
qed

lemma rows_related_owners:
  assumes "rows_related R s s'" "owners_ok (producers s)" "\<And>p q. R p q \<Longrightarrow> p_owner q = p_owner p"
  shows "owners_ok (producers s')"
  unfolding owners_ok_def
proof (intro allI impI)
  fix k q assume "fmlookup (producers s') k = Some q"
  moreover have "rel_option R (fmlookup (producers s) k) (fmlookup (producers s') k)"
    using assms(1) by (simp add: rows_related_def)
  ultimately obtain p where "fmlookup (producers s) k = Some p" "R p q" by (auto simp: option_rel_Some2)
  then show "p_owner q = k" using assms(2,3) by (simp add: owners_ok_def)
qed

lemma update_missed_inv:
  assumes "update_missed_blocks_per_rotation E X s = Inr s'" "sched_inv s"
  shows "sched_inv s'"
proof -
  note r = update_missed_rows(2) [OF assms(1)]
  have "noprods s' = noprods s" using r by (simp add: rows_related_def)
  note f = noprods_fields [OF this]
  have "owners_ok (producers s')"
    by (rule rows_related_owners [OF r]) (use assms(2) in \<open>auto simp: sched_inv_def kick_outcome_def\<close>)
  then show ?thesis using assms(2) f by (simp add: sched_inv_def)
qed

subsection \<open>Exactly who is deactivated\<close>

text \<open>
  The seconds between two rotations, the blocks a producer of the schedule is to produce in them, and the count of missed blocks of a producer
  after the cycle: its count so far plus what it missed in the cycle, as 32-bit numbers.
\<close>

definition rotation_seconds :: "env \<Rightarrow> sys \<Rightarrow> int" where
  "rotation_seconds E s =
     tdiv (slot_to_time E (next_rotation_time (rotation s)) - slot_to_time E (last_rotation_time (rotation s))) 1000000"

definition blocks_due :: "env \<Rightarrow> sys \<Rightarrow> int" where
  "blocks_due E s = 2 * rotation_seconds E s div (int (length (metrics s)) - 1)"

definition missed_in_cycle :: "producer_metric list \<Rightarrow> name \<Rightarrow> int" where
  "missed_in_cycle pms k = sum_list (map missed_blocks_per_cycle (filter (\<lambda>pm. bp_name pm = k) pms))"

definition missed_so_far :: "producer_metric list \<Rightarrow> name \<Rightarrow> producer_info \<Rightarrow> int" where
  "missed_so_far pms k p =
     (if p_is_active p \<and> missed_in_cycle pms k \<noteq> 0 then u32 (p_missed_blocks_per_rotation p + missed_in_cycle pms k)
      else p_missed_blocks_per_rotation p)"

definition schedule_names :: "sys \<Rightarrow> name set" where
  "schedule_names s = bp_name ` set (metrics s)"

lemma missed_in_cycle_simps:
  "missed_in_cycle [] k = 0"
  "missed_in_cycle (pm # pms) k = (if bp_name pm = k then missed_blocks_per_cycle pm else 0) + missed_in_cycle pms k"
  by (simp_all add: missed_in_cycle_def)

lemma missed_in_cycle_absent: "k \<notin> bp_name ` set pms \<Longrightarrow> missed_in_cycle pms k = 0"
  by (induction pms) (auto simp: missed_in_cycle_simps)

text \<open>The threshold is 15 percent of the blocks due, up to the rounding of a tie.\<close>

lemma threshold_value:
  assumes "0 \<le> n" "n < 2 ^ 32"
  shows "\<exists>c. dmul (d_of_int n) (rnd (15 / 100)) = Fin c \<and> \<bar>c - 15 / 100 * of_int n\<bar> < 1 / 40"
proof (cases "n = 0")
  case True
  have "dmul (d_of_int 0) (rnd (15 / 100)) = Fin 0" by code_simp
  then show ?thesis using True by simp
next
  case False
  have r: "rnd (15 / 100) = Fin (5404319552844595 / 36028797018963968)" by code_simp
  have n: "(1 :: rat) \<le> of_int n" "(of_int n :: rat) < 4294967296" using assms False by simp_all
  define x where "x = (of_int n :: rat) * (5404319552844595 / 36028797018963968)"
  have x: "1 / 10 \<le> x" "x < 4294967296" "\<bar>x - 15 / 100 * of_int n\<bar> < 1 / 80"
    using n by (simp_all add: x_def abs_if)
  have "d_of_int n = Fin (of_int n)" using assms by (intro d_of_int_exact) simp
  moreover have "\<bar>x\<bar> \<le> 2 ^ 200" using x by simp
  then have "rnd x = Fin (rv x)" by (rule rnd_small)
  ultimately have d: "dmul (d_of_int n) (rnd (15 / 100)) = Fin (rv x)" by (simp only: r dmul.simps x_def [symmetric])
  have "(2 :: rat) powi (-1022) \<le> 2 powi (-4)" by (simp only: powi2_le_iff)
  then have "(2 :: rat) powi (-1022) \<le> 1 / 16" by (simp add: power_int_minus)
  then have "\<bar>rv x - x\<bar> \<le> \<bar>x\<bar> / 2 ^ 53" using x by (intro rv_rel_error) linarith
  then have "\<bar>rv x - x\<bar> < 1 / 80" using x by (simp add: abs_if split: if_splits)
  then show ?thesis using x d by (intro exI [of _ "rv x"]) linarith
qed

lemma crossed_threshold:
  assumes "1 < length (metrics s)" "length (metrics s) \<le> 1000" "0 \<le> rotation_seconds E s" "rotation_seconds E s < 2 ^ 31" "0 \<le> m" "m < 2 ^ 32"
  shows "crossed_missed_blocks_threshold E (rotation s) m (u32 (int (length (metrics s)))) \<Longrightarrow> 3 * blocks_due E s \<le> 20 * m"
    and "3 * blocks_due E s < 20 * m \<Longrightarrow> crossed_missed_blocks_threshold E (rotation s) m (u32 (int (length (metrics s))))"
proof -
  define n t where nt: "n = int (length (metrics s))" "t = rotation_seconds E s"
  have n: "1 < n" "n \<le> 1000" "u32 n = n" and t: "0 \<le> t" "t < 2 ^ 31" using assms by (simp_all add: nt u32_id)
  have c: "u32 ((n - 1) * MAX_BLOCK_PER_CYCLE) = (n - 1) * 12" using n by (simp add: MAX_BLOCK_PER_CYCLE_def u32_id)
  have half: "(n - 1) * 12 div 2 = (n - 1) * 6" by simp
  have "(n - 1) * 12 * t \<le> 11988 * 2 ^ 31" "0 \<le> (n - 1) * 12 * t" using n t by (intro mult_mono; simp) (use n t in simp)
  then have "i64 ((n - 1) * 12 * t) = 2 * t * ((n - 1) * 6)" by (simp add: i64_id mult_ac)
  then have tot: "tdiv (i64 ((n - 1) * 12 * t)) ((n - 1) * 6) = 2 * t" using n t by (simp add: tdiv_nonneg)
  have "tdiv (i64 (2 * t * MAX_BLOCK_PER_CYCLE)) ((n - 1) * 12) = 2 * t * 12 div ((n - 1) * 12)"
    using n t by (simp add: MAX_BLOCK_PER_CYCLE_def i64_id tdiv_nonneg)
  also have "\<dots> = 2 * t div (n - 1)" by (rule div_mult_mult2) simp
  finally have per: "tdiv (i64 (2 * t * MAX_BLOCK_PER_CYCLE)) ((n - 1) * 12) = blocks_due E s" by (simp add: blocks_due_def nt)
  have "2 * t div (n - 1) \<le> 2 * t div 1" using n t by (intro zdiv_mono2) auto
  then have due: "0 \<le> blocks_due E s" "blocks_due E s < 2 ^ 32"
    using n t by (simp_all add: blocks_due_def flip: nt) (simp add: pos_imp_zdiv_nonneg_iff)
  obtain v where v: "dmul (d_of_int (blocks_due E s)) (rnd (15 / 100)) = Fin v" "\<bar>v - 15 / 100 * of_int (blocks_due E s)\<bar> < 1 / 40"
    using threshold_value [OF due] by blast
  have "crossed_missed_blocks_threshold E (rotation s) m (u32 n) \<longleftrightarrow> v < of_int m"
    using n assms(5,6) unfolding crossed_missed_blocks_threshold_def Let_def n(3) c half rotation_seconds_def [symmetric] nt(2) [symmetric] tot per v(1)
    by (simp add: d_of_int_exact)
  moreover have "3 * blocks_due E s \<le> 20 * m" if "v < of_int m"
  proof -
    have "3 * of_int (blocks_due E s) < 20 * of_int m + (1 :: rat)" using v(2) that by (simp add: abs_if split: if_splits)
    then have "(of_int (3 * blocks_due E s) :: rat) < of_int (20 * m + 1)" by simp
    then show ?thesis by (simp only: of_int_less_iff)
  qed
  moreover have "v < of_int m" if "3 * blocks_due E s < 20 * m"
  proof -
    have "(of_int (3 * blocks_due E s + 1) :: rat) \<le> of_int (20 * m)" using that by (simp only: of_int_le_iff)
    then show ?thesis using v(2) by (simp add: abs_if split: if_splits)
  qed
  ultimately show "crossed_missed_blocks_threshold E (rotation s) m (u32 (int (length (metrics s)))) \<Longrightarrow> 3 * blocks_due E s \<le> 20 * m"
    "3 * blocks_due E s < 20 * m \<Longrightarrow> crossed_missed_blocks_threshold E (rotation s) m (u32 (int (length (metrics s))))"
    unfolding nt(1) by blast+
qed

text \<open>The counting loop.\<close>

lemma collect_missed_exact:
  assumes "collect_missed pms s = (s1, ps)" "distinct (map bp_name pms)" "\<forall>pm \<in> set pms. 0 \<le> missed_blocks_per_cycle pm" "owners_ok (producers s)"
  shows "(\<forall>k. fmlookup (producers s1) k =
      map_option (\<lambda>p. p\<lparr>p_missed_blocks_per_rotation := missed_so_far pms k p\<rparr>) (fmlookup (producers s) k)) \<and>
    set ps = {q. \<exists>pm \<in> set pms. fmlookup (producers s1) (bp_name pm) = Some q \<and> p_is_active q \<and> 0 < p_missed_blocks_per_rotation q} \<and>
    distinct (map p_owner ps)"
  using assms
proof (induction pms arbitrary: s s1 ps)
  case Nil
  then show ?case by (auto simp: missed_so_far_def missed_in_cycle_simps option.map_ident)
next
  case (Cons pm pms)
  let ?k = "bp_name pm"
  have pms: "distinct (map bp_name pms)" "\<forall>pm \<in> set pms. 0 \<le> missed_blocks_per_cycle pm" "?k \<notin> bp_name ` set pms" "0 \<le> missed_blocks_per_cycle pm"
    using Cons.prems by auto
  have so: "missed_so_far (pm # pms) k p = missed_so_far pms k p" if "k \<noteq> ?k" for k p
    using that by (simp add: missed_so_far_def missed_in_cycle_simps)
  have off: "missed_so_far pms ?k p = p_missed_blocks_per_rotation p" for p
    using missed_in_cycle_absent [OF pms(3)] by (simp add: missed_so_far_def)
  have on: "missed_so_far (pm # pms) ?k p = p_missed_blocks_per_rotation (add_missed pm p)" if "p_is_active p" for p
    using that pms(4) missed_in_cycle_absent [OF pms(3)] by (auto simp: missed_so_far_def missed_in_cycle_simps add_missed_def)
  have same: "p\<lparr>p_missed_blocks_per_rotation := p_missed_blocks_per_rotation p\<rparr> = p" for p :: producer_info by simp
  have add: "add_missed pm p = p\<lparr>p_missed_blocks_per_rotation := p_missed_blocks_per_rotation (add_missed pm p)\<rparr>" for p
    by (simp add: add_missed_def)
  show ?case
  proof (cases "\<exists>p. fmlookup (producers s) ?k = Some p \<and> p_is_active p")
    case False
    then have c: "collect_missed pms s = (s1, ps)" using Cons.prems(1) by (auto split: option.splits if_splits)
    note IH = Cons.IH [OF c pms(1,2) Cons.prems(4)]
    have inact: "\<not> p_is_active p" if "fmlookup (producers s) ?k = Some p" for p using False that by blast
    have "fmlookup (producers s1) k = map_option (\<lambda>p. p\<lparr>p_missed_blocks_per_rotation := missed_so_far (pm # pms) k p\<rparr>) (fmlookup (producers s) k)" for k
      using IH inact so [of k] off by (cases "k = ?k"; cases "fmlookup (producers s) k") (auto simp: missed_so_far_def)
    moreover have "\<not> p_is_active q" if "fmlookup (producers s1) ?k = Some q" for q
      using IH that inact by (cases "fmlookup (producers s) ?k") auto
    ultimately show ?thesis using IH by auto
  next
    case True
    then obtain p where p: "fmlookup (producers s) ?k = Some p" "p_is_active p" by blast
    let ?s = "s\<lparr>producers := fmupd ?k (add_missed pm p) (producers s)\<rparr>"
    obtain ps1 where c: "collect_missed pms ?s = (s1, ps1)"
      and ps: "ps = (if 0 < p_missed_blocks_per_rotation (add_missed pm p) then add_missed pm p # ps1 else ps1)"
      using Cons.prems(1) p by (auto simp: Let_def split: prod.splits)
    have ow: "owners_ok (producers ?s)" using Cons.prems(4) p by (auto simp: owners_ok_def add_missed_def)
    note IH = Cons.IH [OF c pms(1,2) ow]
    have k: "fmlookup (producers s1) ?k = Some (add_missed pm p)"
      using IH off [of "add_missed pm p"] by simp
    have 1: "fmlookup (producers s1) k = map_option (\<lambda>p. p\<lparr>p_missed_blocks_per_rotation := missed_so_far (pm # pms) k p\<rparr>) (fmlookup (producers s) k)" for k
    proof (cases "k = ?k")
      case True
      then show ?thesis unfolding True k p(1) option.map(2) on [OF p(2)] by (subst add) (rule refl)
    next
      case False
      then show ?thesis using IH so [OF False] by simp
    qed
    have act: "p_is_active (add_missed pm p)" "p_owner (add_missed pm p) = ?k" using p Cons.prems(4) by (auto simp: add_missed_def owners_ok_def)
    have "p_owner q \<in> bp_name ` set pms" if "q \<in> set ps1" for q
    proof -
      have "q \<in> {q. \<exists>pm \<in> set pms. fmlookup (producers s1) (bp_name pm) = Some q \<and> p_is_active q \<and> 0 < p_missed_blocks_per_rotation q}"
        using that by (simp only: IH [THEN conjunct2, THEN conjunct1])
      then obtain pm' where pm': "pm' \<in> set pms" "fmlookup (producers s1) (bp_name pm') = Some q" by blast
      moreover have "owners_ok (producers s1)" unfolding owners_ok_def
      proof (intro allI impI)
        fix k q assume "fmlookup (producers s1) k = Some q"
        then obtain p where "fmlookup (producers ?s) k = Some p" "p_owner q = p_owner p" using IH [THEN conjunct1] by auto
        then show "p_owner q = k" using ow unfolding owners_ok_def by metis
      qed
      ultimately show ?thesis by (auto simp: owners_ok_def)
    qed
    then have "?k \<notin> p_owner ` set ps1" using pms(3) by auto
    then have "distinct (map p_owner ps)" using IH [THEN conjunct2, THEN conjunct2] act by (simp add: ps)
    moreover have "set ps = {q. \<exists>pm' \<in> set (pm # pms). fmlookup (producers s1) (bp_name pm') = Some q \<and> p_is_active q \<and> 0 < p_missed_blocks_per_rotation q}"
      using IH [THEN conjunct2, THEN conjunct1] k act(1) by (auto simp: ps)
    ultimately show ?thesis using 1 by blast
  qed
qed

text \<open>The kicking loop stops at the first producer below the threshold or when no more may be kicked.\<close>

lemma kick_row_fields:
  assumes "kick_row E p = Inr q"
  shows "\<not> p_is_active q \<and> p_missed_blocks_per_rotation q = 0 \<and> p_times_kicked q = u32 (p_times_kicked p + 1) \<and>
    p_lifetime_missed_blocks q = u32 (p_lifetime_missed_blocks p + 2 * p_missed_blocks_per_rotation p) \<and>
    p_owner q = p_owner p \<and> p_total_votes q = p_total_votes p \<and> p_unpaid_blocks q = p_unpaid_blocks p"
  using assms by (auto simp: kick_row_def kick_def Let_def deactivate_def result_simps u32_def mod_simps algebra_simps)

lemma kick_loop_exact:
  assumes "kick_loop E sz n ps s = Inr s'" "distinct (map p_owner ps)" "\<forall>q \<in> set ps. fmlookup (producers s) (p_owner q) = Some q"
  shows "\<exists>j \<le> n. j \<le> length ps \<and>
    (\<forall>q \<in> set (take j ps). crossed_missed_blocks_threshold E (rotation s) (p_missed_blocks_per_rotation q) sz \<and>
       (\<exists>q'. kick_row E q = Inr q' \<and> fmlookup (producers s') (p_owner q) = Some q')) \<and>
    (j < n \<and> j < length ps \<longrightarrow> \<not> crossed_missed_blocks_threshold E (rotation s) (p_missed_blocks_per_rotation (ps ! j)) sz) \<and>
    (\<forall>k. k \<notin> p_owner ` set (take j ps) \<longrightarrow> fmlookup (producers s') k = fmlookup (producers s) k)"
  using assms
proof (induction ps arbitrary: n s)
  case (Cons p ps)
  have p: "fmlookup (producers s) (p_owner p) = Some p" using Cons.prems(3) by simp
  show ?case
  proof (cases "crossed_missed_blocks_threshold E (rotation s) (p_missed_blocks_per_rotation p) sz \<and> 0 < n")
    case False
    then have "s' = s" using Cons.prems(1) p by auto
    then show ?thesis using False by (intro exI [of _ 0]) auto
  next
    case True
    then obtain q' where q': "kick_row E p = Inr q'" using Cons.prems(1) p by (auto split: sum.splits)
    let ?s = "s\<lparr>producers := fmupd (p_owner p) q' (producers s)\<rparr>"
    have k: "kick_loop E sz (n - 1) ps ?s = Inr s'" using Cons.prems(1) p True q' by simp
    have rows: "\<forall>q \<in> set ps. fmlookup (producers ?s) (p_owner q) = Some q" using Cons.prems(2,3) by auto
    obtain j where j: "j \<le> n - 1" "j \<le> length ps"
      "\<forall>q \<in> set (take j ps). crossed_missed_blocks_threshold E (rotation s) (p_missed_blocks_per_rotation q) sz \<and>
         (\<exists>q'. kick_row E q = Inr q' \<and> fmlookup (producers s') (p_owner q) = Some q')"
      "j < n - 1 \<and> j < length ps \<longrightarrow> \<not> crossed_missed_blocks_threshold E (rotation s) (p_missed_blocks_per_rotation (ps ! j)) sz"
      "\<forall>k. k \<notin> p_owner ` set (take j ps) \<longrightarrow> fmlookup (producers s') k = fmlookup (producers ?s) k"
      using Cons.IH [OF k _ rows] Cons.prems(2) by auto
    have "p_owner p \<notin> p_owner ` set (take j ps)" using Cons.prems(2) by (auto dest: in_set_takeD)
    then have "fmlookup (producers s') (p_owner p) = Some q'" using j(5) by simp
    then show ?thesis using True q' j by (intro exI [of _ "Suc j"]) auto
  qed
qed auto

text \<open>The whole step: the candidates in the order of the sort, of which a prefix is kicked.\<close>

lemma update_missed_exact:
  assumes "schedule_laws X" "distinct (map bp_name (metrics s))" "owners_ok (producers s)"
    "\<forall>pm \<in> set (metrics s). 0 \<le> missed_blocks_per_cycle pm" "length (metrics s) \<le> 1000"
    "update_missed_blocks_per_rotation E X s = Inr s'"
  obtains qs j where "distinct (map p_owner qs)"
    "set qs = {p\<lparr>p_missed_blocks_per_rotation := missed_so_far (metrics s) k p\<rparr> | k p. fmlookup (producers s) k = Some p \<and>
       k \<in> schedule_names s \<and> p_is_active p \<and> 0 < missed_so_far (metrics s) k p}"
    "sorted_wrt (\<lambda>p q. p_missed_blocks_per_rotation q \<le> p_missed_blocks_per_rotation p) qs"
    "j \<le> length (metrics s) div 7" "j \<le> length qs"
    "\<forall>q \<in> set (take j qs). crossed_missed_blocks_threshold E (rotation s) (p_missed_blocks_per_rotation q) (u32 (int (length (metrics s)))) \<and>
       (\<exists>q'. kick_row E q = Inr q' \<and> fmlookup (producers s') (p_owner q) = Some q')"
    "j < length (metrics s) div 7 \<and> j < length qs \<longrightarrow>
       \<not> crossed_missed_blocks_threshold E (rotation s) (p_missed_blocks_per_rotation (qs ! j)) (u32 (int (length (metrics s))))"
    "\<forall>k. k \<notin> p_owner ` set (take j qs) \<longrightarrow> fmlookup (producers s') k =
       map_option (\<lambda>p. p\<lparr>p_missed_blocks_per_rotation := missed_so_far (metrics s) k p\<rparr>) (fmlookup (producers s) k)"
proof -
  let ?n = "length (metrics s)"
  obtain s1 ps where c: "collect_missed (metrics s) s = (s1, ps)" by fastforce
  have "u16 (int ?n div 7) = int (?n div 7)" using assms(5) by (simp add: u16_def zdiv_int)
  then have k: "kick_loop E (u32 (int ?n)) (?n div 7) (sort_missed X ps) s1 = Inr s'"
    using assms(6) c by (simp add: update_missed_blocks_per_rotation_def Let_def)
  have rot: "rotation s1 = rotation s" using noprods_fields [of s1 s] collect_missed_rows [OF c] unfolding rows_related_def by blast
  note C = collect_missed_exact [OF c assms(2,4,3)]
  let ?qs = "sort_missed X ps"
  have perm: "mset ?qs = mset ps" by (rule schedule_laws.missed_perm [OF assms(1)])
  have set: "set ?qs = set ps" using perm by (rule mset_eq_setD)
  have "mset (map p_owner ?qs) = mset (map p_owner ps)" using perm by simp
  then have dist: "distinct (map p_owner ?qs)" using C [THEN conjunct2, THEN conjunct2] mset_eq_imp_distinct_iff by blast
  have sorted: "sorted_wrt (\<lambda>p q. p_missed_blocks_per_rotation q \<le> p_missed_blocks_per_rotation p) ?qs"
    by (rule sorted_wrt_mono_rel [OF _ schedule_laws.missed_sorted [OF assms(1)]]) (auto simp: missed_before_def split: if_splits)
  have rows: "fmlookup (producers s1) k =
      map_option (\<lambda>p. p\<lparr>p_missed_blocks_per_rotation := missed_so_far (metrics s) k p\<rparr>) (fmlookup (producers s) k)" for k
    using C [THEN conjunct1] by blast
  have own: "p_owner q = k" if "fmlookup (producers s1) k = Some q" for k q
    using that assms(3) unfolding rows owners_ok_def by auto
  have mem: "set ?qs = {p\<lparr>p_missed_blocks_per_rotation := missed_so_far (metrics s) k p\<rparr> | k p. fmlookup (producers s) k = Some p \<and>
       k \<in> schedule_names s \<and> p_is_active p \<and> 0 < missed_so_far (metrics s) k p}" (is "_ = ?R")
  proof -
    have "set ps = {q. \<exists>pm \<in> set (metrics s). fmlookup (producers s1) (bp_name pm) = Some q \<and> p_is_active q \<and> 0 < p_missed_blocks_per_rotation q}"
      using C by blast
    also have "\<dots> = {q. \<exists>k \<in> schedule_names s. fmlookup (producers s1) k = Some q \<and> p_is_active q \<and> 0 < p_missed_blocks_per_rotation q}"
      unfolding schedule_names_def by blast
    also have "\<dots> = ?R" unfolding rows by (auto, blast)
    finally show ?thesis using set by simp
  qed
  have "\<forall>q \<in> set ?qs. fmlookup (producers s1) (p_owner q) = Some q"
  proof
    fix q assume "q \<in> set ?qs"
    then have "q \<in> {q. \<exists>pm \<in> set (metrics s). fmlookup (producers s1) (bp_name pm) = Some q \<and> p_is_active q \<and> 0 < p_missed_blocks_per_rotation q}"
      by (simp only: set C [THEN conjunct2, THEN conjunct1])
    then obtain k where "fmlookup (producers s1) k = Some q" by blast
    then show "fmlookup (producers s1) (p_owner q) = Some q" using own by metis
  qed
  from kick_loop_exact [OF k dist this, unfolded rot rows]
  show thesis using that [OF dist mem sorted] by blast
qed

subsection \<open>The check of every block keeps the schedule state\<close>

lemma agree_eq: "length as = length ns \<Longrightarrow> agree as ns = Inr (as = ns)"
  by (induction as ns rule: agree.induct) auto

lemma sort_eq_iff_mset: "sort xs = sort ys \<longleftrightarrow> mset xs = mset ys"
  by (metis mset_sort properties_for_sort sorted_sort)

lemma activated_iff:
  assumes "length active = length (metrics s)"
  shows "is_new_schedule_activated active s = Inr (mset active = mset (map bp_name (metrics s)))"
  using assms agree_eq [of "sort active" "sort (map bp_name (metrics s))"]
  by (simp add: is_new_schedule_activated_def sort_eq_iff_mset)

lemma modify_first_names: "(\<And>x. bp_name (f x) = bp_name x) \<Longrightarrow> map bp_name (modify_first P f xs) = map bp_name xs"
  by (induction xs) auto

lemma sched_inv_upd [simp]:
  "sched_inv (set_caller p s) = sched_inv s" "sched_inv (set_correction c s) = sched_inv s"
  by (simp_all add: sched_inv_def set_caller_def set_correction_def)

lemma sched_inv_metrics:
  assumes "sched_inv s" "map bp_name ms = map bp_name (metrics s)"
  shows "sched_inv (set_metrics ms s)"
  using assms(1) map_eq_imp_length_eq [OF assms(2)] by (simp add: sched_inv_def set_metrics_def)

lemma sched_inv_reset: "sched_inv s \<Longrightarrow> sched_inv (reset_schedule_metrics p s)"
  unfolding reset_schedule_metrics_def by (rule sched_inv_metrics) (simp_all add: comp_def)

lemma sched_inv_missed: "sched_inv s \<Longrightarrow> sched_inv (update_producer_missed_blocks p s)"
  unfolding update_producer_missed_blocks_def by (rule sched_inv_metrics) (simp_all add: modify_first_names)

lemma sched_inv_corrections:
  assumes "sched_inv s"
  shows "sched_inv (first_correction p s)" "sched_inv (second_correction p s)"
proof -
  have "sched_inv (set_metrics (modify_first (\<lambda>pm. bp_name pm = p)
    (\<lambda>pm. pm\<lparr>missed_blocks_per_cycle := u32 (missed_blocks_per_cycle pm - u32 (correction s))\<rparr>) (metrics s)) s)"
    by (rule sched_inv_metrics [OF assms]) (simp add: modify_first_names)
  then show "sched_inv (first_correction p s)" using assms by (simp add: first_correction_def sched_inv_reset)
  show "sched_inv (second_correction p s)" using assms by (simp add: second_correction_def)
qed

lemma count_block_step:
  assumes "schedule_laws X" "sched_inv s"
  shows "\<exists>r s'. count_block E X t p s = Inr (r, s') \<and> sched_inv s'"
proof -
  obtain s' where "update_elected_producers E X t (reset_schedule_metrics 0 s) = Inr s'" "sched_inv s'"
    by (rule update_elected_cases [OF assms(1) sched_inv_reset [OF assms(2)], where E = E and t = t])
  then show ?thesis
    using assms(2) by (auto simp: count_block_def sched_inv_missed split: option.splits)
qed

lemma check_missed_blocks_step:
  assumes X: "schedule_laws X" and ok: "sched_inv s"
  shows "\<exists>r s'. check_missed_blocks E X t p s = Inr (r, s') \<and> sched_inv s'"
proof -
  let ?act = "if g_last_producer_schedule_size (gstate s) = int (length (get_active_producers X))
             then is_new_schedule_activated (get_active_producers X) s else Inr False"
  have "\<exists>b. ?act = Inr b"
    using ok by (cases "length (get_active_producers X) = length (metrics s)") (auto simp: sched_inv_def activated_iff)
  then obtain b where b: "?act = Inr b" ..
  let ?s2 = "second_correction p (first_correction p s)"
  have "sched_inv ?s2" by (intro sched_inv_corrections ok)
  from count_block_step [OF X this, of E t p] ok this show ?thesis
    unfolding check_missed_blocks_def b Let_def by auto
qed

subsection \<open>Concrete sorts\<close>

definition demo_schedule_env :: "name list \<Rightarrow> schedule_env" where
  "demo_schedule_env active = \<lparr>sort_location = sort_key snd,
     sort_missed = sort_key (\<lambda>p. (- p_missed_blocks_per_rotation p, p_total_votes p)),
     set_proposed_producers = (\<lambda>_. 1), get_active_producers = active\<rparr>"

lemma dlt_less: "dlt a b \<Longrightarrow> a < b"
  by (cases a; cases b) (simp_all add: less_double_def)

interpretation demo_sorts: schedule_laws "demo_schedule_env active"
proof
  fix xs :: "producer_location_pair list" and ps :: "producer_info list"
  show "mset (sort_location (demo_schedule_env active) xs) = mset xs"
    "sorted (map snd (sort_location (demo_schedule_env active) xs))"
    "mset (sort_missed (demo_schedule_env active) ps) = mset ps"
    by (simp_all add: demo_schedule_env_def)
  have "sorted_wrt (\<lambda>p q. (- p_missed_blocks_per_rotation p, p_total_votes p) \<le> (- p_missed_blocks_per_rotation q, p_total_votes q))
      (sort_key (\<lambda>p. (- p_missed_blocks_per_rotation p, p_total_votes p)) ps)"
    using sorted_sort_key [of "\<lambda>p. (- p_missed_blocks_per_rotation p, p_total_votes p)" ps] by (simp add: sorted_map)
  then show "sorted_wrt (\<lambda>p q. \<not> missed_before q p) (sort_missed (demo_schedule_env active) ps)"
    by (simp add: demo_schedule_env_def) (erule sorted_wrt_mono_rel [rotated],
      auto simp: missed_before_def less_eq_prod_simp dest!: dlt_less split: if_splits)
qed

definition demo_producer :: "name \<Rightarrow> int \<Rightarrow> producer_info" where
  "demo_producer n loc = \<lparr>p_owner = n, p_total_votes = Fin 5, p_key = [1], p_is_active = True,
     p_unreg_reason = [], p_url = [], p_unpaid_blocks = 0, p_lifetime_produced_blocks = 0,
     p_missed_blocks_per_rotation = 0, p_lifetime_missed_blocks = 0, p_last_claim_time = 0, p_location = loc,
     p_kick_reason_id = 0, p_kick_reason = [], p_times_kicked = 0, p_kick_penalty_hours = 0,
     p_last_time_kicked = 0, p_authority = None\<rparr>"

definition demo_rotation :: sys where
  "demo_rotation = sys0\<lparr>producers := fmap_of_list [(1, demo_producer 1 7), (2, demo_producer 2 3)],
     rotation := \<lparr>bp_currently_out = 1, sbp_currently_in = 2, bp_out_index = 0, sbp_in_index = 21,
       next_rotation_time = 1000, last_rotation_time = 0\<rparr>\<rparr>"

lemma demo_active_voted: "active_voted demo_rotation = [location_pair (demo_producer 1 7), location_pair (demo_producer 2 3)]"
  by code_simp

lemma demo_rotation_inv: "sched_inv demo_rotation"
  by (auto simp: sched_inv_def demo_rotation_def rotation_ok_def owners_ok_def sys0_def demo_producer_def fmlookup_of_list split: if_splits)

subsection \<open>Theorems\<close>

text \<open>
  C12. Electing a schedule never fails and keeps the schedule state consistent (one metric per producer
  of the last schedule, at most 21, rotation indices within their bounds).  Either nothing is
  proposed, because there is no eligible producer or fewer than the last schedule has, or the
  proposed schedule has the best 21 candidates' count, names only eligible producers, is
  never smaller than the last one and, unless an old rotation is in force with at most 21
  candidates, names every producer once; the metrics then mirror it when the chain accepts it.
\<close>

theorem schedule_elected:
  assumes "schedule_laws X" and "sched_inv s"
  shows "\<exists>s'. update_elected_producers E X t s = Inr s' \<and> sched_inv s' \<and>
    (effects s' = effects s \<and> metrics s' = metrics s \<and>
       (active_voted s = [] \<or> int (length (active_voted s)) < g_last_producer_schedule_size (gstate s)) \<or>
     (\<exists>ps. effects s' = effects s @ [Propose_schedule ps] \<and> length ps = min (length (active_voted s)) 21 \<and> ps \<noteq> [] \<and>
       g_last_producer_schedule_size (gstate s) \<le> int (length ps) \<and>
       (\<forall>(n, a) \<in> set ps. \<exists>p. fmlookup (producers s) n = Some p \<and> eligible p \<and> a = get_producer_authority p) \<and>
       (21 < length (active_voted s) \<or> \<not> rotation_in_force s \<or> rotation_due t s \<longrightarrow> distinct (map fst ps)) \<and>
       metrics s' = (if 0 \<le> set_proposed_producers X ps
                     then map (\<lambda>p. \<lparr>bp_name = fst p, missed_blocks_per_cycle = 12\<rparr>) ps else metrics s)))"
proof -
  have elig: "\<forall>(n, a) \<in> set ps. \<exists>p. fmlookup (producers s) n = Some p \<and> eligible p \<and> a = get_producer_authority p"
    if sub: "set ps \<subseteq> fst ` set (active_voted s)" for ps
  proof (clarify)
    fix n a assume "(n, a) \<in> set ps"
    then have "(n, a) \<in> fst ` location_pair ` {p \<in> set (rows (producers s)). eligible p}"
      using sub active_voted_props(3) [of s] by blast
    then obtain p k where "fmlookup (producers s) k = Some p" "eligible p" "n = p_owner p" "a = get_producer_authority p"
      by (auto simp: set_rows location_pair_def)
    moreover have "p_owner p = k" using calculation(1) assms(2) by (simp add: sched_inv_def owners_ok_def)
    ultimately show "\<exists>p. fmlookup (producers s) n = Some p \<and> eligible p \<and> a = get_producer_authority p" by blast
  qed
  show ?thesis
  proof (cases rule: update_elected_cases [OF assms, where E = E and t = t, case_names none proposed])
    case (none s')
    then show ?thesis by blast
  next
    case (proposed s' ps)
    have "ps \<noteq> []" using proposed(4,6) by (auto simp: min_def split: if_splits)
    then show ?thesis using proposed elig [OF proposed(5)] by blast
  qed
qed

theorem schedule_elected_witness:
  "\<exists>s' ps. update_elected_producers (sdk_env eosio_account 50) (demo_schedule_env []) 1000 demo_rotation = Inr s' \<and>
     effects s' = [Propose_schedule ps] \<and> distinct (map fst ps) \<and> length ps = 2"
proof -
  have "rotation_due 1000 demo_rotation" "effects demo_rotation = []" "g_last_producer_schedule_size (gstate demo_rotation) = 0"
    by (simp_all add: rotation_due_def demo_rotation_def sys0_def)
  then show ?thesis
    using schedule_elected [OF demo_sorts.schedule_laws_axioms demo_rotation_inv, of "sdk_env eosio_account 50" "[]" 1000]
    by (auto simp: demo_active_voted)
qed

text \<open>
  C40. Between two rotations with at most 21 candidates the position test of the current pair is
  skipped: when both the producer that rotated out and the standby that rotated in are
  candidates, the standby takes the place of the producer and keeps its own, so the proposed schedule
  names it twice.
\<close>

theorem rotation_duplicates:
  assumes X: "schedule_laws X" and ok: "sched_inv s" and force: "rotation_in_force s" and "\<not> rotation_due t s"
    and few: "length (active_voted s) \<le> 21" "g_last_producer_schedule_size (gstate s) \<le> int (length (active_voted s))"
    and neq: "bp_currently_out (rotation s) \<noteq> sbp_currently_in (rotation s)"
    and mem: "bp_currently_out (rotation s) \<in> pl_name ` set (active_voted s)"
      "sbp_currently_in (rotation s) \<in> pl_name ` set (active_voted s)"
  shows "\<exists>s' ps. update_elected_producers E X t s = Inr s' \<and> effects s' = effects s @ [Propose_schedule ps] \<and>
     \<not> distinct (map fst ps)"
proof -
  let ?A = "active_voted s" and ?s = "s\<lparr>gstate := (gstate s)\<lparr>g_last_producer_schedule_update := t\<rparr>\<rparr>"
  let ?b = "find_producer (bp_currently_out (rotation s)) ?A" and ?i = "find_producer (sbp_currently_in (rotation s)) ?A"
  note lt = find_producer_mem [OF mem(1)] find_producer_mem [OF mem(2)]
  note nth = find_producer_nth [OF lt(1)] find_producer_nth [OF lt(2)]
  have bi: "?b \<noteq> ?i" using nth neq by metis
  have "keep_rotation ?A ?s = (?b, ?i, ?s)"
    using force few(1) lt by (simp add: keep_rotation_def Let_def rotation_in_force_def TOP_PRODUCERS_def)
  then have c: "check_rotation_state E ?A t ?s = Inr (top_schedule ?b ?i ?A, ?s)"
    using assms(4) by (simp add: check_rotation_state_def rotation_due_def)
  have "map pl_name (top_schedule ?b ?i ?A) = map (\<lambda>n. if n = pl_name (?A ! ?b) then pl_name (?A ! ?i) else n) (map pl_name ?A)"
    using lt few(1) by (simp add: top_schedule_def TOP_PRODUCERS_def comp_def if_distrib cong: if_cong)
  then have "map pl_name (top_schedule ?b ?i ?A) ! ?b = map pl_name (top_schedule ?b ?i ?A) ! ?i"
    "length (top_schedule ?b ?i ?A) = length ?A" using lt nth by (simp_all add: map_equality_iff)
  then have dup: "\<not> distinct (map pl_name (top_schedule ?b ?i ?A))"
    using lt bi by (metis length_map nth_eq_iff_index_eq)
  define ps where "ps = map fst (sort_location X (top_schedule ?b ?i ?A))"
  have "mset (map pl_name (sort_location X (top_schedule ?b ?i ?A))) = mset (map pl_name (top_schedule ?b ?i ?A))"
    using schedule_laws.location_perm [OF X] by simp
  then have "\<not> distinct (map fst ps)" using dup mset_eq_imp_distinct_iff unfolding ps_def map_map comp_def by blast
  moreover have "?A \<noteq> []" using lt by auto
  ultimately show ?thesis
    using c few(2) by (auto simp: update_elected_producers_def Let_def active_voted_gstate ps_def emit_def adopt_schedule_def set_metrics_def)
qed

theorem rotation_duplicates_witness:
  "\<exists>s' ps. update_elected_producers (sdk_env eosio_account 50) (demo_schedule_env []) 100 demo_rotation = Inr s' \<and>
     effects s' = [Propose_schedule ps] \<and> \<not> distinct (map fst ps)"
proof -
  have r: "rotation_in_force demo_rotation" "\<not> rotation_due 100 demo_rotation" "effects demo_rotation = []"
    "g_last_producer_schedule_size (gstate demo_rotation) = 0"
    "bp_currently_out (rotation demo_rotation) = 1" "sbp_currently_in (rotation demo_rotation) = 2"
    by (simp_all add: rotation_in_force_def rotation_due_def demo_rotation_def sys0_def)
  show ?thesis
    using rotation_duplicates [OF demo_sorts.schedule_laws_axioms demo_rotation_inv r(1,2), of "sdk_env eosio_account 50" "[]"]
    by (simp add: demo_active_voted r location_pair_def demo_producer_def)
qed

text \<open>
  C30. Closing a cycle of blocks adds to every active producer of the schedule what it missed in the cycle and then
  deactivates at most one seventh of the schedule, worst first.  With \<open>m\<close> the missed blocks of a producer in
  the rotation and \<open>blocks_due\<close> the blocks it is to produce in one, a deactivated producer is an active one of the schedule
  that missed at least 15 percent of them; its count restarts at zero, its kicks rise by one, and its missed blocks are added to its
  lifetime count twice, once by the loop and once by \<open>kick\<close>.  Every producer above 15 percent is deactivated unless
  one seventh of the schedule already was, none is spared that missed more blocks than a deactivated one, and every row of a producer that is not
  deactivated keeps everything but the count.
\<close>

theorem kick_bounded:
  assumes "schedule_laws X" "distinct (map bp_name (metrics s))" "owners_ok (producers s)"
    "\<forall>pm \<in> set (metrics s). 0 \<le> missed_blocks_per_cycle pm" "length (metrics s) \<le> 1000"
    "0 \<le> rotation_seconds E s" "rotation_seconds E s < 2 ^ 31"
    "\<forall>k p. fmlookup (producers s) k = Some p \<longrightarrow> p_missed_blocks_per_rotation p < 2 ^ 32"
    "update_missed_blocks_per_rotation E X s = Inr s'"
  shows "card (kicked s s') \<le> length (metrics s) div 7 \<and>
    (fmlookup (producers s) k = None \<longrightarrow> fmlookup (producers s') k = None) \<and>
    (\<forall>p m. fmlookup (producers s) k = Some p \<and> m = missed_so_far (metrics s) k p \<longrightarrow>
       (k \<notin> kicked s s' \<longrightarrow> fmlookup (producers s') k = Some (p\<lparr>p_missed_blocks_per_rotation := m\<rparr>)) \<and>
       (k \<in> kicked s s' \<longrightarrow> k \<in> schedule_names s \<and> p_is_active p \<and> 3 * blocks_due E s \<le> 20 * m \<and>
          (\<exists>p'. fmlookup (producers s') k = Some p' \<and> \<not> p_is_active p' \<and> p_missed_blocks_per_rotation p' = 0 \<and>
             p_times_kicked p' = u32 (p_times_kicked p + 1) \<and>
             p_lifetime_missed_blocks p' = u32 (p_lifetime_missed_blocks p + 2 * m) \<and> p_total_votes p' = p_total_votes p) \<and>
          (\<forall>k2 p2. k2 \<in> schedule_names s - kicked s s' \<and> fmlookup (producers s) k2 = Some p2 \<and> p_is_active p2 \<longrightarrow>
             missed_so_far (metrics s) k2 p2 \<le> m)) \<and>
       (k \<in> schedule_names s \<and> p_is_active p \<and> 3 * blocks_due E s < 20 * m \<and> card (kicked s s') < length (metrics s) div 7 \<longrightarrow>
          k \<in> kicked s s'))"
proof -
  obtain qs j where d: "distinct (map p_owner qs)"
    and set: "set qs = {p\<lparr>p_missed_blocks_per_rotation := missed_so_far (metrics s) k p\<rparr> | k p. fmlookup (producers s) k = Some p \<and>
       k \<in> schedule_names s \<and> p_is_active p \<and> 0 < missed_so_far (metrics s) k p}"
    and sorted: "sorted_wrt (\<lambda>p q. p_missed_blocks_per_rotation q \<le> p_missed_blocks_per_rotation p) qs"
    and j: "j \<le> length (metrics s) div 7" "j \<le> length qs"
    and hit: "\<forall>q \<in> set (take j qs). crossed_missed_blocks_threshold E (rotation s) (p_missed_blocks_per_rotation q) (u32 (int (length (metrics s)))) \<and>
       (\<exists>q'. kick_row E q = Inr q' \<and> fmlookup (producers s') (p_owner q) = Some q')"
    and stop: "j < length (metrics s) div 7 \<and> j < length qs \<longrightarrow>
       \<not> crossed_missed_blocks_threshold E (rotation s) (p_missed_blocks_per_rotation (qs ! j)) (u32 (int (length (metrics s))))"
    and miss: "\<forall>k. k \<notin> p_owner ` set (take j qs) \<longrightarrow> fmlookup (producers s') k =
       map_option (\<lambda>p. p\<lparr>p_missed_blocks_per_rotation := missed_so_far (metrics s) k p\<rparr>) (fmlookup (producers s) k)"
    by (rule update_missed_exact [OF assms(1-5,9)])
  let ?m = "missed_so_far (metrics s)" and ?K = "p_owner ` set (take j qs)"
  have own: "p_owner p = k" if "fmlookup (producers s) k = Some p" for k p using that assms(3) by (simp add: owners_ok_def)
  have cand: "\<exists>p. fmlookup (producers s) (p_owner q) = Some p \<and> p_owner q \<in> schedule_names s \<and> p_is_active p \<and>
      0 < ?m (p_owner q) p \<and> q = p\<lparr>p_missed_blocks_per_rotation := ?m (p_owner q) p\<rparr>" if "q \<in> set qs" for q
    using that own unfolding set by fastforce
  have K: "kicked s s' = ?K"
  proof (intro equalityI subsetI)
    fix k assume "k \<in> kicked s s'"
    then show "k \<in> ?K" using miss unfolding kicked_def by fastforce
  next
    fix k assume "k \<in> ?K"
    then obtain q q' where q: "q \<in> set (take j qs)" "k = p_owner q" "kick_row E q = Inr q'" "fmlookup (producers s') k = Some q'"
      using hit by blast
    then show "k \<in> kicked s s'" using cand [of q] kick_row_result(2) [OF q(3)] unfolding kicked_def by (blast dest: in_set_takeD)
  qed
  have "?K = set (take j (map p_owner qs))" by (simp add: take_map)
  also have "card \<dots> = j" using distinct_card [OF distinct_take [OF d, of j]] j(2) by simp
  finally have card: "card (kicked s s') = j" by (simp add: K)
  have bound: "?m k p < 2 ^ 32" if "fmlookup (producers s) k = Some p" for k p
    using that assms(8) by (simp add: missed_so_far_def u32_def)
  have big: "1 < length (metrics s) \<and> 0 \<le> blocks_due E s" if "0 < length (metrics s) div 7"
    using that assms(6) by (auto simp: blocks_due_def pos_imp_zdiv_nonneg_iff)
  have kick: "k \<in> schedule_names s \<and> p_is_active p \<and> 3 * blocks_due E s \<le> 20 * ?m k p \<and> 0 < ?m k p \<and>
      p\<lparr>p_missed_blocks_per_rotation := ?m k p\<rparr> \<in> set (take j qs) \<and>
      (\<exists>p'. kick_row E (p\<lparr>p_missed_blocks_per_rotation := ?m k p\<rparr>) = Inr p' \<and> fmlookup (producers s') k = Some p')"
    if k: "k \<in> kicked s s'" and p: "fmlookup (producers s) k = Some p" for k p
  proof -
    obtain q q' where q: "q \<in> set (take j qs)" "k = p_owner q" "kick_row E q = Inr q'" "fmlookup (producers s') k = Some q'"
      "crossed_missed_blocks_threshold E (rotation s) (p_missed_blocks_per_rotation q) (u32 (int (length (metrics s))))"
      using hit k unfolding K by blast
    have c: "k \<in> schedule_names s" "p_is_active p" "0 < ?m k p" "q = p\<lparr>p_missed_blocks_per_rotation := ?m k p\<rparr>"
      using cand [of q] in_set_takeD [OF q(1)] p unfolding q(2) [symmetric] by simp_all
    have "0 < j" using q(1) by (cases j) auto
    then have "1 < length (metrics s)" using big j(1) by simp
    moreover have "p_missed_blocks_per_rotation q = ?m k p" by (subst c(4)) simp
    ultimately have "3 * blocks_due E s \<le> 20 * ?m k p"
      using crossed_threshold(1) [OF _ assms(5-7) order.strict_implies_order [OF c(3)] bound [OF p]] q(5) by (simp only:)
    then show ?thesis using c(1-3) q(1,3,4) unfolding c(4) by blast
  qed
  have spared: "k \<in> kicked s s' \<or> (j < length qs \<and> ?m k p \<le> p_missed_blocks_per_rotation (qs ! j))"
    if "k \<in> schedule_names s" "fmlookup (producers s) k = Some p" "p_is_active p" "0 < ?m k p" for k p
  proof -
    let ?q = "p\<lparr>p_missed_blocks_per_rotation := ?m k p\<rparr>"
    have "?q \<in> set qs" using that unfolding set by blast
    then obtain i where i: "i < length qs" "qs ! i = ?q" by (auto simp: in_set_conv_nth)
    show ?thesis
    proof (cases "i < j")
      case True
      then have "?q \<in> set (take j qs)" using i j(2) by (auto simp: in_set_conv_nth intro!: exI [of _ i])
      from imageI [OF this, of p_owner] show ?thesis using own [OF that(2)] unfolding K by simp
    next
      case False
      then show ?thesis using i sorted_wrt_nth_less [OF sorted, of j i] by (cases "i = j") auto
    qed
  qed
  have others: "k2 \<in> schedule_names s - kicked s s' \<and> fmlookup (producers s) k2 = Some p2 \<and> p_is_active p2 \<Longrightarrow> ?m k2 p2 \<le> ?m k p"
    if k: "k \<in> kicked s s'" and p: "fmlookup (producers s) k = Some p" for k p k2 p2
  proof (cases "0 < ?m k2 p2")
    case True
    assume "k2 \<in> schedule_names s - kicked s s' \<and> fmlookup (producers s) k2 = Some p2 \<and> p_is_active p2"
    then have s: "j < length qs" "?m k2 p2 \<le> p_missed_blocks_per_rotation (qs ! j)" using spared [of k2 p2] True by auto
    obtain i where "i < j" "qs ! i = p\<lparr>p_missed_blocks_per_rotation := ?m k p\<rparr>"
      using kick [OF k p] s(1) by (auto simp: in_set_conv_nth)
    then have "p_missed_blocks_per_rotation (qs ! j) \<le> ?m k p" using sorted_wrt_nth_less [OF sorted \<open>i < j\<close> s(1)] by simp
    then show ?thesis using s(2) by simp
  qed (use kick [OF k p] in simp)
  have above: "k \<in> kicked s s'"
    if "k \<in> schedule_names s" "fmlookup (producers s) k = Some p" "p_is_active p" "3 * blocks_due E s < 20 * ?m k p" "j < length (metrics s) div 7" for k p
  proof (rule ccontr)
    assume no: "k \<notin> kicked s s'"
    have b: "1 < length (metrics s)" "0 \<le> blocks_due E s" using big that(5) by auto
    then have "0 < ?m k p" using that(4) by simp
    then have s: "j < length qs" "?m k p \<le> p_missed_blocks_per_rotation (qs ! j)" using spared [OF that(1-3)] no by auto
    obtain k0 p0 where p0: "fmlookup (producers s) k0 = Some p0" "qs ! j = p0\<lparr>p_missed_blocks_per_rotation := ?m k0 p0\<rparr>"
      using nth_mem [OF s(1)] unfolding set by blast
    have "crossed_missed_blocks_threshold E (rotation s) (?m k0 p0) (u32 (int (length (metrics s))))"
      using s(2) \<open>0 < ?m k p\<close> that(4) p0(2) bound [OF p0(1)] by (intro crossed_threshold(2) [OF b(1) assms(5-7)]) auto
    then show False using stop s(1) that(5) p0(2) by simp
  qed
  have stay: "fmlookup (producers s') k = map_option (\<lambda>p. p\<lparr>p_missed_blocks_per_rotation := ?m k p\<rparr>) (fmlookup (producers s) k)"
    if "k \<notin> kicked s s'" for k using miss that unfolding K by blast
  have none: "fmlookup (producers s) k = None \<longrightarrow> fmlookup (producers s') k = None"
    using stay [of k] by (auto simp: kicked_def)
  have gone: "\<exists>p'. fmlookup (producers s') k = Some p' \<and> \<not> p_is_active p' \<and> p_missed_blocks_per_rotation p' = 0 \<and>
      p_times_kicked p' = u32 (p_times_kicked p + 1) \<and>
      p_lifetime_missed_blocks p' = u32 (p_lifetime_missed_blocks p + 2 * ?m k p) \<and> p_total_votes p' = p_total_votes p"
    if k: "k \<in> kicked s s'" and p: "fmlookup (producers s) k = Some p" for p
  proof -
    obtain p' where "kick_row E (p\<lparr>p_missed_blocks_per_rotation := ?m k p\<rparr>) = Inr p'" "fmlookup (producers s') k = Some p'"
      using kick [OF k p] by blast
    then show ?thesis using kick_row_fields by fastforce
  qed
  have max: "card (kicked s s') \<le> length (metrics s) div 7" using card j(1) by simp
  show ?thesis
  proof (rule conjI [OF max conjI [OF none]], intro allI impI, elim conjE, intro conjI)
    fix p m assume p: "fmlookup (producers s) k = Some p" and m: "m = ?m k p"
    show "k \<notin> kicked s s' \<longrightarrow> fmlookup (producers s') k = Some (p\<lparr>p_missed_blocks_per_rotation := m\<rparr>)"
      using stay [of k] p by (simp add: m)
    show "k \<in> kicked s s' \<longrightarrow> k \<in> schedule_names s \<and> p_is_active p \<and> 3 * blocks_due E s \<le> 20 * m \<and>
          (\<exists>p'. fmlookup (producers s') k = Some p' \<and> \<not> p_is_active p' \<and> p_missed_blocks_per_rotation p' = 0 \<and>
             p_times_kicked p' = u32 (p_times_kicked p + 1) \<and>
             p_lifetime_missed_blocks p' = u32 (p_lifetime_missed_blocks p + 2 * m) \<and> p_total_votes p' = p_total_votes p) \<and>
          (\<forall>k2 p2. k2 \<in> schedule_names s - kicked s s' \<and> fmlookup (producers s) k2 = Some p2 \<and> p_is_active p2 \<longrightarrow>
             missed_so_far (metrics s) k2 p2 \<le> m)"
      unfolding m using kick [OF _ p] gone [OF _ p] others [OF _ p] by blast
    show "k \<in> schedule_names s \<and> p_is_active p \<and> 3 * blocks_due E s < 20 * m \<and> card (kicked s s') < length (metrics s) div 7 \<longrightarrow>
          k \<in> kicked s s'"
      unfolding m card using above [OF _ p] by blast
  qed
qed

definition demo_missed :: sys where
  "demo_missed = demo_rotation\<lparr>schedule_metrics := \<lparr>last_onblock_caller = 1, block_counter_correction = 0,
     producers_metric = \<lparr>bp_name = 1, missed_blocks_per_cycle = 400\<rparr> #
       map (\<lambda>n. \<lparr>bp_name = n, missed_blocks_per_cycle = (if n = 2 then 3 else 0)\<rparr>) [2, 3, 4, 5, 6, 7]\<rparr>\<rparr>"

lemma demo_missed_values:
  "rotation_seconds (sdk_env eosio_account 50) demo_missed = 500" "blocks_due (sdk_env eosio_account 50) demo_missed = 166"
  "missed_so_far (metrics demo_missed) 1 (demo_producer 1 7) = 400" "missed_so_far (metrics demo_missed) 2 (demo_producer 2 3) = 3"
  by code_simp+

lemma demo_missed_run:
  "case update_missed_blocks_per_rotation (sdk_env eosio_account 50) (demo_schedule_env []) demo_missed of
     Inl _ \<Rightarrow> False
   | Inr s' \<Rightarrow> map_option (\<lambda>p. (p_is_active p, p_lifetime_missed_blocks p)) (fmlookup (producers s') 1) = Some (False, 800)"
  by code_simp

lemma demo_missed_hyps:
  "distinct (map bp_name (metrics demo_missed))" "owners_ok (producers demo_missed)"
  "\<forall>pm \<in> set (metrics demo_missed). 0 \<le> missed_blocks_per_cycle pm" "length (metrics demo_missed) = 7"
  "\<forall>k p. fmlookup (producers demo_missed) k = Some p \<longrightarrow> p_missed_blocks_per_rotation p < 2 ^ 32"
  "fmlookup (producers demo_missed) 1 = Some (demo_producer 1 7)" "fmlookup (producers demo_missed) 2 = Some (demo_producer 2 3)"
  by (auto simp: demo_missed_def demo_rotation_def demo_producer_def owners_ok_def fmlookup_of_list split: if_splits)

theorem kick_bounded_witness:
  "\<exists>s'. update_missed_blocks_per_rotation (sdk_env eosio_account 50) (demo_schedule_env []) demo_missed = Inr s' \<and>
     kicked demo_missed s' = {1} \<and> map_option p_missed_blocks_per_rotation (fmlookup (producers s') 2) = Some 3"
proof -
  obtain s' where s': "update_missed_blocks_per_rotation (sdk_env eosio_account 50) (demo_schedule_env []) demo_missed = Inr s'"
    "map_option (\<lambda>p. (p_is_active p, p_lifetime_missed_blocks p)) (fmlookup (producers s') 1) = Some (False, 800)"
    using demo_missed_run by (auto split: sum.splits)
  note kb = kick_bounded [OF demo_sorts.schedule_laws_axioms demo_missed_hyps(1-3) _ _ _ demo_missed_hyps(5) s'(1),
      unfolded demo_missed_values demo_missed_hyps(4)]
  have one: "1 \<in> kicked demo_missed s'" using s'(2) demo_missed_hyps(6) by (auto simp: kicked_def demo_producer_def)
  have "card (kicked demo_missed s') \<le> 1" using kb by simp
  then have K: "kicked demo_missed s' = {1}" using one by (auto simp: card_le_Suc0_iff_eq)
  have "fmlookup (producers s') 2 = Some ((demo_producer 2 3)\<lparr>p_missed_blocks_per_rotation := 3\<rparr>)"
    using kb [of 2] demo_missed_hyps(7) by (simp add: K demo_missed_values)
  then show ?thesis using s'(1) K by simp
qed

text \<open>
  C31. The check of every block never fails on a consistent schedule state, in particular it never reads
  past the recorded schedule, and it keeps the state consistent; a recorded schedule counts as activated exactly
  when the chain's active schedule is a permutation of it.
\<close>

theorem block_check_total:
  assumes "schedule_laws X" and "sched_inv s"
  shows "(\<exists>r s'. check_missed_blocks E X t p s = Inr (r, s') \<and> sched_inv s') \<and>
    (int (length active) = g_last_producer_schedule_size (gstate s) \<longrightarrow>
       is_new_schedule_activated active s = Inr (mset active = mset (map bp_name (metrics s))))"
  using check_missed_blocks_step [OF assms] activated_iff [of active s] assms(2)
  unfolding sched_inv_def by fastforce

theorem block_check_total_witness:
  "\<exists>r s'. check_missed_blocks (sdk_env eosio_account 50) (demo_schedule_env [1, 2]) 100 1 demo_rotation = Inr (r, s') \<and> sched_inv s'"
  using block_check_total [OF demo_sorts.schedule_laws_axioms demo_rotation_inv] by blast

text \<open>
  When the schedule becomes active right after blocks of the system account, the number of those blocks
  is taken off the 32-bit count of the first producer; more than its count wraps it around to
  about four billion missed blocks.
\<close>

theorem correction_wraps:
  assumes "caller s = eosio_account" and "metrics s = pm # pms" and "bp_name pm = producer"
    and "0 \<le> missed_blocks_per_cycle pm" "missed_blocks_per_cycle pm < correction s" "correction s < 2 ^ 31"
  shows "metrics (first_correction producer s) =
     pm\<lparr>missed_blocks_per_cycle := 2 ^ 32 + missed_blocks_per_cycle pm - correction s\<rparr> # pms"
proof -
  have "u32 (correction s) = correction s" using assms by (intro u32_id) auto
  moreover have "u32 (missed_blocks_per_cycle pm - correction s) = 2 ^ 32 + (missed_blocks_per_cycle pm - correction s)"
    unfolding u32_def using assms(4-6) by (subst mod_add_self1 [symmetric], intro mod_pos_pos_trivial) auto
  ultimately show ?thesis
    using assms by (simp add: first_correction_def set_caller_def set_metrics_def)
qed

theorem correction_wraps_witness:
  "metrics (first_correction 1 (set_caller eosio_account (set_correction 13
     (set_metrics [\<lparr>bp_name = 1, missed_blocks_per_cycle = 12\<rparr>] sys0)))) =
   [\<lparr>bp_name = 1, missed_blocks_per_cycle = 4294967295\<rparr>]"
  using correction_wraps [of "set_caller eosio_account (set_correction 13
     (set_metrics [\<lparr>bp_name = 1, missed_blocks_per_cycle = 12\<rparr>] sys0))" "\<lparr>bp_name = 1, missed_blocks_per_cycle = 12\<rparr>" "[]" 1]
  by (simp add: set_caller_def set_correction_def set_metrics_def)

end
