(* ===== verification/Rex_Balance.thy ===== *)
theory Rex_Balance
  imports System_State
begin

section \<open>Maturity buckets of a REX balance\<close>

text \<open>
  The operations of \<open>rex.cpp\<close> on one row of the \<open>rexbal\<close> table.  REX that is bought matures in
  daily buckets; the bucket with the maximal time holds the savings.  The state is the
  row itself.  The invariant \<open>rb_ok\<close> says that the matured REX and the buckets add up to
  the balance, that the buckets are sorted by time and that no amount is
  negative; every operation keeps it.
\<close>

subsection \<open>Operations\<close>

definition get_rex_maturity :: "env \<Rightarrow> int" where
  "get_rex_maturity E = (let now = current_sec E; r = now mod seconds_per_day
                         in u32 (now - r + 5 * seconds_per_day))"

fun mature :: "int \<Rightarrow> int \<Rightarrow> buckets \<Rightarrow> int \<times> buckets" where
  "mature now m [] = (m, [])"
| "mature now m ((t, n) # bs) = (if t \<le> now then mature now (i64 (m + n)) bs else (m, (t, n) # bs))"

definition process_rex_maturities :: "env \<Rightarrow> rex_balance \<Rightarrow> rex_balance" where
  "process_rex_maturities E rb =
     (let (m, bs) = mature (current_sec E) (matured_rex rb) (rex_maturities rb)
      in rb\<lparr>matured_rex := m, rex_maturities := bs\<rparr>)"

definition read_rex_savings :: "rex_balance \<Rightarrow> int \<times> rex_balance" where
  "read_rex_savings rb =
     (if rex_maturities rb \<noteq> [] \<and> fst (last (rex_maturities rb)) = max_time_sec
      then (snd (last (rex_maturities rb)), rb\<lparr>rex_maturities := butlast (rex_maturities rb)\<rparr>)
      else (0, rb))"

text \<open>Adding to the last bucket when it has the given time, else appending a bucket.\<close>

definition add_bucket :: "int \<Rightarrow> int \<Rightarrow> buckets \<Rightarrow> buckets" where
  "add_bucket t n bs =
     (if bs \<noteq> [] \<and> fst (last bs) = t then butlast bs @ [(t, i64 (snd (last bs) + n))] else bs @ [(t, n)])"

definition put_rex_savings :: "int \<Rightarrow> rex_balance \<Rightarrow> rex_balance" where
  "put_rex_savings n rb =
     (if n = 0 then rb else rb\<lparr>rex_maturities := add_bucket max_time_sec n (rex_maturities rb)\<rparr>)"

definition add_maturity :: "env \<Rightarrow> int \<Rightarrow> rex_balance \<Rightarrow> rex_balance" where
  "add_maturity E n rb = rb\<lparr>rex_maturities := add_bucket (get_rex_maturity E) n (rex_maturities rb)\<rparr>"

definition consolidate_rex_balance :: "env \<Rightarrow> asset \<Rightarrow> rex_balance \<Rightarrow> rex_balance" where
  "consolidate_rex_balance E rex_in_sell_order rb0 =
     (let (savings, rb) = read_rex_savings rb0;
          total = fold (\<lambda>b t. i64 (t + snd b)) (rex_maturities rb) (i64 (matured_rex rb - amount rex_in_sell_order));
          rb1 = rb\<lparr>matured_rex := amount rex_in_sell_order,
                   rex_maturities := (if 0 < total then [(get_rex_maturity E, total)] else [])\<rparr>
      in put_rex_savings savings rb1)"

text \<open>
  The loop of \<open>mvtosavings\<close>, on the reversed list of buckets.  When a bucket is left with a
  remainder the amount is reached and the loop ends (lemma \<open>drain_reached\<close>).
\<close>

fun drain :: "int \<Rightarrow> int \<Rightarrow> buckets \<Rightarrow> int \<times> buckets" where
  "drain rex moved [] = (moved, [])"
| "drain rex moved ((t, n) # bs) =
     (if \<not> moved < rex then (moved, (t, n) # bs)
      else let d = min (i64 (rex - moved)) n; n' = i64 (n - d); moved' = i64 (moved + d)
           in if n' = 0 then drain rex moved' bs else (moved', (t, n') # bs))"

lemma drain_reached:
  assumes "in_i64 rex" "in_i64 n" and "d = min (i64 (rex - moved)) n" and "i64 (n - d) \<noteq> 0"
  shows "i64 (moved + d) = rex"
proof -
  have "d \<noteq> n" using assms(4) by (auto simp: i64_def)
  then have "d = i64 (rex - moved)" using assms(3) by (simp add: min_def split: if_splits)
  then show ?thesis using assms(1) by (simp add: i64_add_right in_i64_def width_simps)
qed

definition move_to_savings :: "int \<Rightarrow> asset \<Rightarrow> rex_balance \<Rightarrow> rex_balance result" where
  "move_to_savings n rex_in_sell_order rb =
     (let (moved, rs) = drain n 0 (rev (rex_maturities rb));
          rb1 = rb\<lparr>rex_maturities := rev rs\<rparr>
      in if moved < n then
           (let d = i64 (n - moved); m = i64 (matured_rex rb1 - d); moved' = i64 (moved + d)
            in if \<not> amount rex_in_sell_order \<le> m then Inl (Check ''logic error in mvtosavings'') else
               if moved' \<noteq> n then Inl (Check ''programmer error in mvtosavings'') else
               Inr (rb1\<lparr>matured_rex := m\<rparr>))
         else if moved \<noteq> n then Inl (Check ''programmer error in mvtosavings'') else Inr rb1)"

subsection \<open>The invariant\<close>

definition bucket_sum :: "buckets \<Rightarrow> int" where
  "bucket_sum bs = sum_list (map snd bs)"

lemma bucket_sum_simps [simp]:
  "bucket_sum [] = 0" "bucket_sum (b # bs) = snd b + bucket_sum bs"
  "bucket_sum (xs @ ys) = bucket_sum xs + bucket_sum ys" "bucket_sum (rev xs) = bucket_sum xs"
  by (simp_all add: bucket_sum_def flip: rev_map)

definition buckets_nn :: "buckets \<Rightarrow> bool" where
  "buckets_nn bs \<longleftrightarrow> (\<forall>b\<in>set bs. 0 \<le> snd b)"

lemma buckets_nn_simps [simp]:
  "buckets_nn []" "buckets_nn (b # bs) \<longleftrightarrow> 0 \<le> snd b \<and> buckets_nn bs"
  "buckets_nn (xs @ ys) \<longleftrightarrow> buckets_nn xs \<and> buckets_nn ys" "buckets_nn (rev xs) \<longleftrightarrow> buckets_nn xs"
  by (auto simp: buckets_nn_def)

lemma bucket_sum_nonneg: "buckets_nn bs \<Longrightarrow> 0 \<le> bucket_sum bs"
  by (induction bs) auto

definition rex_total :: "rex_balance \<Rightarrow> int" where
  "rex_total rb = matured_rex rb + bucket_sum (rex_maturities rb)"

definition rb_wf :: "rex_balance \<Rightarrow> bool" where
  "rb_wf rb \<longleftrightarrow> 0 \<le> matured_rex rb \<and> buckets_nn (rex_maturities rb) \<and> rex_total rb \<le> max_amount"

definition rb_ok :: "rex_balance \<Rightarrow> bool" where
  "rb_ok rb \<longleftrightarrow> rb_wf rb \<and> rex_total rb = amount (rex_bal rb)"

lemma mature_sum:
  assumes "0 \<le> m" "buckets_nn bs" "m + bucket_sum bs \<le> max_amount" "mature now m bs = (m', bs')"
  shows "m' + bucket_sum bs' = m + bucket_sum bs \<and> m \<le> m' \<and> buckets_nn bs' \<and>
     (bs' = [] \<or> now < fst (hd bs')) \<and> (\<exists>pre. bs = pre @ bs')"
  using assms
proof (induction bs arbitrary: m)
  case (Cons b bs)
  obtain t n where b: "b = (t, n)" by (cases b)
  show ?case
  proof (cases "t \<le> now")
    case True
    have n: "0 \<le> n" "0 \<le> bucket_sum bs" "m + n \<le> max_amount"
      using Cons.prems b bucket_sum_nonneg [of bs] by auto
    then have eq: "i64 (m + n) = m + n" using Cons.prems(1) by (simp add: width_simps max_amount_def)
    have "mature now (m + n) bs = (m', bs')" using Cons.prems(4) True eq by (simp add: b)
    then have "m' + bucket_sum bs' = m + n + bucket_sum bs \<and> m + n \<le> m' \<and> buckets_nn bs' \<and>
        (bs' = [] \<or> now < fst (hd bs')) \<and> (\<exists>pre. bs = pre @ bs')"
      using Cons.prems n by (intro Cons.IH) (auto simp: b)
    then show ?thesis using n b by (metis append_Cons add.assoc add_increasing2 bucket_sum_simps(2) order_trans snd_conv le_add_same_cancel1)
  next
    case False
    then show ?thesis using Cons.prems by (auto simp: b)
  qed
qed simp

lemma process_wf:
  assumes "rb_wf rb"
  shows "rb_wf (process_rex_maturities E rb)" "rex_total (process_rex_maturities E rb) = rex_total rb"
    "rex_bal (process_rex_maturities E rb) = rex_bal rb" "vote_stake (process_rex_maturities E rb) = vote_stake rb"
    "matured_rex rb \<le> matured_rex (process_rex_maturities E rb)"
proof -
  obtain m bs where m: "mature (current_sec E) (matured_rex rb) (rex_maturities rb) = (m, bs)" by force
  have "m + bucket_sum bs = rex_total rb \<and> matured_rex rb \<le> m \<and> buckets_nn bs"
    using mature_sum [OF _ _ _ m] assms by (auto simp: rb_wf_def rex_total_def)
  then show "rb_wf (process_rex_maturities E rb)" "rex_total (process_rex_maturities E rb) = rex_total rb"
    "rex_bal (process_rex_maturities E rb) = rex_bal rb" "vote_stake (process_rex_maturities E rb) = vote_stake rb"
    "matured_rex rb \<le> matured_rex (process_rex_maturities E rb)"
    using assms m by (simp_all add: process_rex_maturities_def rb_wf_def rex_total_def)
qed

lemma read_wf:
  assumes "rb_wf rb" and r: "read_rex_savings rb = (n, rb')"
  shows "rb_wf rb'" "rex_total rb' + n = rex_total rb" "0 \<le> n" "rex_bal rb' = rex_bal rb" "vote_stake rb' = vote_stake rb"
    "matured_rex rb' = matured_rex rb"
proof -
  have "rb_wf rb' \<and> rex_total rb' + n = rex_total rb \<and> 0 \<le> n \<and> rex_bal rb' = rex_bal rb \<and> vote_stake rb' = vote_stake rb \<and> matured_rex rb' = matured_rex rb"
  proof (cases "rex_maturities rb \<noteq> [] \<and> fst (last (rex_maturities rb)) = max_time_sec")
    case True
    then obtain bs b where bs: "rex_maturities rb = bs @ [b]" by (metis append_butlast_last_id)
    then show ?thesis using assms True by (auto simp: read_rex_savings_def rb_wf_def rex_total_def)
  next
    case False
    then show ?thesis using assms by (simp only: read_rex_savings_def if_False) auto
  qed
  then show "rb_wf rb'" "rex_total rb' + n = rex_total rb" "0 \<le> n" "rex_bal rb' = rex_bal rb" "vote_stake rb' = vote_stake rb"
    "matured_rex rb' = matured_rex rb" by auto
qed

lemma add_bucket_sum:
  assumes "buckets_nn bs" "0 \<le> n" "bucket_sum bs + n \<le> max_amount"
  shows "bucket_sum (add_bucket t n bs) = bucket_sum bs + n" "buckets_nn (add_bucket t n bs)"
proof -
  have "bucket_sum (add_bucket t n bs) = bucket_sum bs + n \<and> buckets_nn (add_bucket t n bs)"
  proof (cases "bs \<noteq> [] \<and> fst (last bs) = t")
    case True
    then obtain cs b where bs: "bs = cs @ [b]" by (metis append_butlast_last_id)
    have "0 \<le> bucket_sum cs" using assms bs by (intro bucket_sum_nonneg) auto
    then have "i64 (snd b + n) = snd b + n" using assms bs by (simp add: width_simps max_amount_def)
    then show ?thesis using True assms bs by (simp add: add_bucket_def)
  next
    case False
    then show ?thesis using assms by (auto simp: add_bucket_def)
  qed
  then show "bucket_sum (add_bucket t n bs) = bucket_sum bs + n" "buckets_nn (add_bucket t n bs)" by auto
qed

lemma put_wf:
  assumes "rb_wf rb" "0 \<le> n" "rex_total rb + n \<le> max_amount"
  shows "rb_wf (put_rex_savings n rb)" "rex_total (put_rex_savings n rb) = rex_total rb + n"
    "rex_bal (put_rex_savings n rb) = rex_bal rb" "vote_stake (put_rex_savings n rb) = vote_stake rb"
    "matured_rex (put_rex_savings n rb) = matured_rex rb"
  using assms add_bucket_sum [of "rex_maturities rb" n max_time_sec]
  by (auto simp: put_rex_savings_def rb_wf_def rex_total_def)

lemma add_maturity_wf:
  assumes "rb_wf rb" "0 \<le> n" "rex_total rb + n \<le> max_amount"
  shows "rb_wf (add_maturity E n rb)" "rex_total (add_maturity E n rb) = rex_total rb + n"
    "rex_bal (add_maturity E n rb) = rex_bal rb" "vote_stake (add_maturity E n rb) = vote_stake rb"
    "matured_rex (add_maturity E n rb) = matured_rex rb"
  using assms add_bucket_sum [of "rex_maturities rb" n "get_rex_maturity E"]
  by (auto simp: add_maturity_def rb_wf_def rex_total_def)

lemma fold_bucket_sum:
  assumes "0 \<le> m" "buckets_nn bs" "m + bucket_sum bs \<le> max_amount"
  shows "fold (\<lambda>b t. i64 (t + snd b)) bs m = m + bucket_sum bs"
  using assms
proof (induction bs arbitrary: m)
  case (Cons b bs)
  have "0 \<le> bucket_sum bs" using Cons.prems by (intro bucket_sum_nonneg) auto
  then have "i64 (m + snd b) = m + snd b" using Cons.prems by (simp add: width_simps max_amount_def)
  then show ?case using Cons.prems by (simp add: Cons.IH)
qed simp

lemma consolidate_wf:
  assumes wf: "rb_wf rb" and o: "0 \<le> amount ord" "amount ord \<le> matured_rex rb"
  shows "rb_wf (consolidate_rex_balance E ord rb)" "rex_total (consolidate_rex_balance E ord rb) = rex_total rb"
    "rex_bal (consolidate_rex_balance E ord rb) = rex_bal rb"
proof -
  obtain n rb' where r: "read_rex_savings rb = (n, rb')" by force
  note rd = read_wf [OF wf r]
  define total where "total = matured_rex rb - amount ord + bucket_sum (rex_maturities rb')"
  have b: "0 \<le> bucket_sum (rex_maturities rb')" using rd(1) by (intro bucket_sum_nonneg) (simp add: rb_wf_def)
  have le: "rex_total rb \<le> max_amount" using wf by (simp add: rb_wf_def)
  have tot: "total + amount ord + n = rex_total rb" using rd(2,6) by (simp add: total_def rex_total_def)
  have "i64 (matured_rex rb' - amount ord) = matured_rex rb - amount ord"
    using o rd le b by (simp add: width_simps max_amount_def rex_total_def)
  then have f: "fold (\<lambda>b t. i64 (t + snd b)) (rex_maturities rb') (i64 (matured_rex rb' - amount ord)) = total"
    using o rd le by (simp only: fold_bucket_sum total_def rb_wf_def rex_total_def)
  define rb1 where "rb1 = rb'\<lparr>matured_rex := amount ord,
    rex_maturities := (if 0 < total then [(get_rex_maturity E, total)] else [])\<rparr>"
  have eq: "consolidate_rex_balance E ord rb = put_rex_savings n rb1"
    by (simp add: consolidate_rex_balance_def r f rb1_def Let_def)
  have "0 \<le> total" using o b by (simp add: total_def)
  then have 1: "rb_wf rb1" "rex_total rb1 + n = rex_total rb" "rex_bal rb1 = rex_bal rb"
    using tot le o rd by (auto simp: rb1_def rb_wf_def rex_total_def)
  show "rb_wf (consolidate_rex_balance E ord rb)" "rex_total (consolidate_rex_balance E ord rb) = rex_total rb"
    "rex_bal (consolidate_rex_balance E ord rb) = rex_bal rb"
    unfolding eq using put_wf [OF 1(1) rd(3)] 1 le by simp_all
qed

lemma drain_sum:
  assumes "buckets_nn bs" "0 \<le> moved" "moved \<le> rex" "rex < 2 ^ 63" "bucket_sum bs \<le> max_amount"
    and "drain rex moved bs = (m', bs')"
  shows "m' + bucket_sum bs' = moved + bucket_sum bs \<and> moved \<le> m' \<and> m' \<le> rex \<and> buckets_nn bs' \<and> (m' < rex \<longrightarrow> bs' = [])"
  using assms
proof (induction bs arbitrary: moved)
  case (Cons b bs)
  obtain t n where b: "b = (t, n)" by (cases b)
  show ?case
  proof (cases "moved < rex")
    case True
    define d where "d = min (rex - moved) n"
    have nn: "0 \<le> n" "0 \<le> bucket_sum bs" "n \<le> max_amount"
      using Cons.prems(1,5) b bucket_sum_nonneg [of bs] by auto
    have i: "i64 (rex - moved) = rex - moved" "i64 (n - d) = n - d" "i64 (moved + d) = moved + d"
      using Cons.prems True nn by (auto simp: d_def width_simps max_amount_def)
    have d: "0 \<le> d" "d \<le> n" "moved + d \<le> rex" using True nn by (auto simp: d_def)
    have step: "drain rex moved ((t, n) # bs) =
        (if n - d = 0 then drain rex (moved + d) bs else (moved + d, (t, n - d) # bs))"
      using True by (simp only: drain.simps Let_def i d_def [symmetric]) simp
    show ?thesis
    proof (cases "n - d = 0")
      case True': True
      then have "drain rex (moved + d) bs = (m', bs')"
        using Cons.prems(6) [unfolded b step] by simp
      then have "m' + bucket_sum bs' = moved + d + bucket_sum bs \<and> moved + d \<le> m' \<and> m' \<le> rex \<and> buckets_nn bs' \<and> (m' < rex \<longrightarrow> bs' = [])"
        using Cons.prems d nn by (intro Cons.IH) (auto simp: b)
      then show ?thesis using True' d by (auto simp: b)
    next
      case False
      then have "m' = moved + d" "bs' = (t, n - d) # bs" using Cons.prems(6) [unfolded b step] by auto
      moreover have "d = rex - moved" using False by (auto simp: d_def min_def split: if_splits)
      ultimately show ?thesis using Cons.prems(1) d by (auto simp: b)
    qed
  next
    case False
    then show ?thesis using Cons.prems by (auto simp: b)
  qed
qed auto

lemma move_to_savings_wf:
  assumes wf: "rb_wf rb" and n: "0 \<le> n" "n < 2 ^ 63" and o: "0 \<le> amount ord"
    and r: "move_to_savings n ord rb = Inr rb'"
  shows "rb_wf rb'" "rex_total rb' + n = rex_total rb" "rex_bal rb' = rex_bal rb" "vote_stake rb' = vote_stake rb"
    "amount ord \<le> matured_rex rb \<longrightarrow> amount ord \<le> matured_rex rb'"
proof -
  obtain moved rs where dr: "drain n 0 (rev (rex_maturities rb)) = (moved, rs)" by force
  have sums: "moved + bucket_sum rs = bucket_sum (rex_maturities rb)" "0 \<le> moved" "moved \<le> n" "buckets_nn rs"
    using drain_sum [OF _ _ n _ dr] wf bucket_sum_nonneg [of "rex_maturities rb"]
    by (auto simp: rb_wf_def rex_total_def)
  have bs: "0 \<le> bucket_sum rs" using sums(4) by (rule bucket_sum_nonneg)
  have m: "0 \<le> matured_rex rb" "matured_rex rb \<le> max_amount"
    using wf bucket_sum_nonneg [of "rex_maturities rb"] by (auto simp: rb_wf_def rex_total_def)
  have i: "i64 (n - moved) = n - moved" "i64 (matured_rex rb - (n - moved)) = matured_rex rb - (n - moved)"
    using n sums m by (simp_all add: width_simps max_amount_def)
  have "rb_wf rb' \<and> rex_total rb' + n = rex_total rb \<and> rex_bal rb' = rex_bal rb \<and> vote_stake rb' = vote_stake rb \<and>
     (amount ord \<le> matured_rex rb \<longrightarrow> amount ord \<le> matured_rex rb')"
    using r sums bs m wf o
    by (auto simp: move_to_savings_def dr i Let_def result_simps rb_wf_def rex_total_def split: if_splits)
  then show "rb_wf rb'" "rex_total rb' + n = rex_total rb" "rex_bal rb' = rex_bal rb" "vote_stake rb' = vote_stake rb"
    "amount ord \<le> matured_rex rb \<longrightarrow> amount ord \<le> matured_rex rb'" by blast+
qed

end
