(* ===== verification/Rex_Pool.thy ===== *)
theory Rex_Pool
  imports Rex_Balance Voting
begin

section \<open>The REX pool, its returns and the funds of its users\<close>

text \<open>
  The helper functions of \<open>rex.cpp\<close>: the pool's exchange of core tokens for REX shares, the pool
  of returns that flows into it at a constant rate per ten minutes, the funds from which users pay,
  and the settlement of filled sell orders.  The pool, the return pool and its
  buckets are tables with at most one row, here options; dereferencing a missing
  row fails.
\<close>

subsection \<open>Funds\<close>

definition transfer_from_fund :: "env \<Rightarrow> name \<Rightarrow> asset \<Rightarrow> sys \<Rightarrow> sys result" where
  "transfer_from_fund E owner a s =
     (case core_symbol s of Inl e \<Rightarrow> Inl e | Inr y \<Rightarrow>
      if \<not> (0 < amount a \<and> sym a = y) then Inl (Check ''must transfer positive amount from REX fund'') else
      (case fmlookup (rexfunds s) owner of
        None \<Rightarrow> Inl (Check ''must deposit to REX fund first'')
      | Some balance \<Rightarrow>
          (case asset_le E a balance of Inl e \<Rightarrow> Inl e | Inr le \<Rightarrow>
          if \<not> le then Inl (Check ''insufficient funds'') else
          Inr (s\<lparr>rexfunds := fmupd owner (add_amt balance (- amount a)) (rexfunds s)\<rparr>))))"

definition transfer_to_fund :: "name \<Rightarrow> asset \<Rightarrow> sys \<Rightarrow> sys result" where
  "transfer_to_fund owner a s =
     (case core_symbol s of Inl e \<Rightarrow> Inl e | Inr y \<Rightarrow>
      if \<not> (0 < amount a \<and> sym a = y) then Inl (Check ''must transfer positive amount to REX fund'') else
      (case fmlookup (rexfunds s) owner of
        None \<Rightarrow> Inr (s\<lparr>rexfunds := fmupd owner a (rexfunds s)\<rparr>)
      | Some balance \<Rightarrow> Inr (s\<lparr>rexfunds := fmupd owner (add_amt balance (amount a)) (rexfunds s)\<rparr>)))"

text \<open>
  \<open>update_rex_account\<close>: settle the owner's filled sell order, pay what is due into the fund and
  update the vote.  The result is the REX held in an order that is still open.
\<close>

definition settle_order :: "name \<Rightarrow> asset \<Rightarrow> asset \<Rightarrow> asset \<Rightarrow> sys \<Rightarrow> asset \<times> asset \<times> asset \<times> sys" where
  "settle_order owner proceeds0 delta_stake zero s =
     (case fmlookup (rexorders s) owner of
        None \<Rightarrow> (proceeds0, delta_stake, zero, s)
      | Some ord \<Rightarrow>
          if o_is_open ord then (proceeds0, delta_stake, set_amt zero (amount (o_rex_requested ord)), s)
          else (add_amt proceeds0 (amount (o_proceeds ord)), add_amt delta_stake (amount (o_stake_change ord)),
                zero, s\<lparr>rexorders := fmdrop owner (rexorders s)\<rparr>))"

definition update_rex_account :: "env \<Rightarrow> name \<Rightarrow> asset \<Rightarrow> asset \<Rightarrow> bool \<Rightarrow> sys \<Rightarrow> (sys \<times> asset) result" where
  "update_rex_account E owner proceeds0 delta_stake force s =
     (case asset_new E 0 rex_symbol of Inl e \<Rightarrow> Inl e | Inr zero \<Rightarrow>
      let (to_fund, to_stake, in_order, s1) = settle_order owner proceeds0 delta_stake zero s
      in (case (if 0 < amount to_fund then transfer_to_fund owner to_fund s1 else Inr s1) of Inl e \<Rightarrow> Inl e | Inr s2 \<Rightarrow>
         (case (if force \<or> amount to_stake \<noteq> 0 then update_voting_power E owner to_stake s2 else Inr s2) of
           Inl e \<Rightarrow> Inl e | Inr s3 \<Rightarrow> Inr (s3, in_order))))"

text \<open>The steps of a successful run.\<close>

lemma update_rex_account_steps:
  assumes "update_rex_account E x p d f s = Inr (s', a)"
  obtains zero fu st s1 s2 where "asset_new E 0 rex_symbol = Inr zero" "settle_order x p d zero s = (fu, st, a, s1)"
    "(if 0 < amount fu then transfer_to_fund x fu s1 else Inr s1) = Inr s2"
    "(if f \<or> amount st \<noteq> 0 then update_voting_power E x st s2 else Inr s2) = Inr s'"
proof -
  obtain zero where zero: "asset_new E 0 rex_symbol = Inr zero" using assms by (auto simp: update_rex_account_def result_simps)
  obtain fu st od s1 where so: "settle_order x p d zero s = (fu, st, od, s1)" by (cases "settle_order x p d zero s") auto
  show ?thesis using assms that [OF zero] so by (auto simp: update_rex_account_def zero so result_simps)
qed

subsection \<open>The return pool\<close>

definition dist_interval :: int where "dist_interval = 600"
definition total_intervals :: int where "total_intervals = 30 * 144"

definition elapsed_intervals :: "int \<Rightarrow> int \<Rightarrow> int" where
  "elapsed_intervals t1 t0 = u32 (t1 - t0) div dist_interval"

definition insert_bucket :: "int \<Rightarrow> int \<Rightarrow> buckets \<Rightarrow> buckets" where
  "insert_bucket t n bs =
     (let pre = takeWhile (\<lambda>b. fst b < t) bs; rest = dropWhile (\<lambda>b. fst b < t) bs
      in if rest \<noteq> [] \<and> fst (hd rest) = t then pre @ (t, n) # tl rest else pre @ (t, n) # rest)"

text \<open>Opening the pending bucket: its remainder is paid at once, the rest at a constant rate.\<close>

definition open_pending :: "int \<Rightarrow> rex_return_pool \<Rightarrow> buckets \<Rightarrow> int \<Rightarrow> rex_return_pool \<times> buckets \<times> int" where
  "open_pending eff rp bs change =
     (if pending_bucket_time rp \<le> eff then
        let remainder = tmod (pending_bucket_proceeds rp) total_intervals;
            rate = tdiv (i64 (pending_bucket_proceeds rp - remainder)) total_intervals;
            t = pending_bucket_time rp
        in (rp\<lparr>current_rate_of_increase := i64 (current_rate_of_increase rp + rate),
               pending_bucket_proceeds := 0, pending_bucket_time := max_time_sec,
               oldest_bucket_time := (if t < oldest_bucket_time rp then t else oldest_bucket_time rp)\<rparr>,
            insert_bucket t rate bs,
            i64 (change + i64 (remainder + i64 (rate * elapsed_intervals eff t))))
      else (rp, bs, change))"

text \<open>Closing the buckets older than thirty days and taking back what they overpaid.\<close>

definition close_expired :: "int \<Rightarrow> rex_return_pool \<Rightarrow> buckets \<Rightarrow> int \<Rightarrow> rex_return_pool \<times> buckets \<times> int" where
  "close_expired eff rp bs change =
     (let span = total_intervals * dist_interval; thr = u32 (eff - span) in
      if \<not> oldest_bucket_time rp \<le> thr then (rp, bs, change) else
      let gone = takeWhile (\<lambda>b. fst b \<le> thr) bs;
          rest = dropWhile (\<lambda>b. fst b \<le> thr) bs;
          surplus = fold (\<lambda>b x. i64 (x + i64 (snd b * elapsed_intervals eff (u32 (fst b + span))))) gone 0;
          expired_rate = fold (\<lambda>b x. i64 (x + snd b)) gone 0;
          rp1 = rp\<lparr>oldest_bucket_time := (if rest \<noteq> [] then fst (hd rest) else 0)\<rparr>;
          rp2 = (if 0 < expired_rate
                 then rp1\<lparr>current_rate_of_increase := i64 (current_rate_of_increase rp1 - expired_rate)\<rparr> else rp1)
      in if 0 < surplus
         then (rp2\<lparr>proceeds := i64 (proceeds rp2 + surplus)\<rparr>, rest, i64 (change - surplus))
         else (rp2, rest, change))"

definition update_rex_pool :: "env \<Rightarrow> sys \<Rightarrow> sys result" where
  "update_rex_pool E s =
     (let cts = current_sec E; eff = cts - cts mod dist_interval in
      (case rexretpool s of
        None \<Rightarrow> Inr s
      | Some rp \<Rightarrow>
      if eff \<le> last_dist_time rp then Inr s else
      if rexretbuckets s = None \<and>
         (pending_bucket_time rp \<le> eff \<or> oldest_bucket_time rp \<le> u32 (eff - total_intervals * dist_interval))
      then Inl No_row else
      let bs = (case rexretbuckets s of None \<Rightarrow> [] | Some b \<Rightarrow> b);
          change0 = i64 (current_rate_of_increase rp * elapsed_intervals eff (last_dist_time rp));
          (rp1, bs1, change1) = open_pending eff rp bs change0;
          rp2 = rp1\<lparr>proceeds := i64 (proceeds rp1 - change1), last_dist_time := eff\<rparr>;
          (rp3, bs3, change3) = close_expired eff rp2 bs1 change1;
          (rp4, change4) = (if 0 < change3 \<and> proceeds rp3 < 0
                            then (rp3\<lparr>proceeds := 0\<rparr>, i64 (change3 + proceeds rp3)) else (rp3, change3));
          s1 = s\<lparr>rexretpool := Some rp4, rexretbuckets := map_option (\<lambda>_. bs3) (rexretbuckets s)\<rparr>
      in if \<not> 0 < change4 then Inr s1 else
         (case rexpool s1 of
           None \<Rightarrow> Inl No_row
         | Some pool \<Rightarrow>
             let unlent = add_amt (total_unlent pool) change4
             in (case asset_add E unlent (total_lent pool) of Inl e \<Rightarrow> Inl e | Inr lendable \<Rightarrow>
                Inr (s1\<lparr>rexpool := Some (pool\<lparr>total_unlent := unlent, total_lendable := lendable\<rparr>)\<rparr>)))))"

definition add_to_rex_return_pool :: "env \<Rightarrow> asset \<Rightarrow> sys \<Rightarrow> sys result" where
  "add_to_rex_return_pool E fee s0 =
     (case update_rex_pool E s0 of Inl e \<Rightarrow> Inl e | Inr s \<Rightarrow>
      if amount fee \<le> 0 then Inr s else
      let cts = current_sec E; interval = 12 * seconds_per_hour;
          eff = u32 (cts - cts mod interval + interval)
      in (case rexretpool s of
           None \<Rightarrow>
             Inr (s\<lparr>rexretpool := Some \<lparr>last_dist_time = eff, pending_bucket_time = eff, oldest_bucket_time = 0,
                      pending_bucket_proceeds = amount fee, current_rate_of_increase = 0, proceeds = amount fee\<rparr>,
                    rexretbuckets := Some []\<rparr>)
         | Some rp \<Rightarrow>
             Inr (s\<lparr>rexretpool := Some (rp\<lparr>pending_bucket_proceeds := i64 (pending_bucket_proceeds rp + amount fee),
                      proceeds := i64 (proceeds rp + amount fee),
                      pending_bucket_time := (if pending_bucket_time rp = max_time_sec then eff
                                              else pending_bucket_time rp)\<rparr>)\<rparr>)))"

definition channel_to_rex :: "env \<Rightarrow> name \<Rightarrow> asset \<Rightarrow> bool \<Rightarrow> sys \<Rightarrow> sys result" where
  "channel_to_rex E from a required s =
     (if rex_available s then
        (case add_to_rex_return_pool E a s of Inl e \<Rightarrow> Inl e | Inr s1 \<Rightarrow>
        Inr (send_transfer from rex_account a (''transfer from '' @ to_string E from @ '' to eosio.rex'') s1))
      else if required then Inl (Check ''can't channel fees to rex'') else Inr s)"

definition channel_namebid_to_rex :: "int \<Rightarrow> sys \<Rightarrow> sys" where
  "channel_namebid_to_rex highest_bid s =
     (case rexpool s of
        None \<Rightarrow> s
      | Some rp \<Rightarrow>
          if 0 < amount (total_rex rp)
          then s\<lparr>rexpool := Some (rp\<lparr>namebid_proceeds := add_amt (namebid_proceeds rp) highest_bid\<rparr>)\<rparr> else s)"

subsection \<open>Buying and selling shares\<close>

definition rex_ratio :: int where "rex_ratio = 10000"

definition add_to_rex_pool :: "env \<Rightarrow> asset \<Rightarrow> sys \<Rightarrow> (sys \<times> asset) result" where
  "add_to_rex_pool E payment s =
     (case core_symbol s of Inl e \<Rightarrow> Inl e | Inr y \<Rightarrow>
      (case asset_new E 200000000 y of Inl e \<Rightarrow> Inl e | Inr init_total_rent \<Rightarrow>
      (case asset_new E 0 rex_symbol of Inl e \<Rightarrow> Inl e | Inr rex0 \<Rightarrow>
      (case rexpool s of
        None \<Rightarrow>
          (case asset_new E 0 y of Inl e \<Rightarrow> Inl e | Inr zero \<Rightarrow>
           (case asset_sub E payment zero of Inl e \<Rightarrow> Inl e | Inr unlent \<Rightarrow>
           let rex_received = set_amt rex0 (i64 (amount payment * rex_ratio))
           in Inr (s\<lparr>rexpool := Some \<lparr>total_lent = zero, total_unlent = unlent, total_rent = init_total_rent,
                      total_lendable = payment, total_rex = rex_received, namebid_proceeds = zero, loan_num = 0\<rparr>\<rparr>,
                   rex_received)))
      | Some rp \<Rightarrow>
          if \<not> 0 < amount (total_rex rp) then
            (let rex_received = set_amt rex0 (i64 (amount payment * rex_ratio))
             in Inr (s\<lparr>rexpool := Some (rp\<lparr>total_lendable := set_amt (total_lendable rp) (amount payment),
                        total_lent := set_amt (total_lent rp) 0,
                        total_unlent := set_amt (total_unlent rp) (i64 (amount payment - 0)),
                        total_rent := set_amt (total_rent rp) (amount init_total_rent),
                        total_rex := set_amt (total_rex rp) (amount rex_received)\<rparr>)\<rparr>, rex_received))
          else
            if \<not> 0 < amount (total_lendable rp) then Inl (Check ''lendable REX pool is empty'') else
            let S0 = amount (total_lendable rp); S1 = i64 (S0 + amount payment); R0 = amount (total_rex rp)
            in (case muldiv S1 R0 S0 of Inl e \<Rightarrow> Inl e | Inr R1 \<Rightarrow>
               let unlent = i64 (S1 - amount (total_lent rp))
               in if \<not> 0 \<le> unlent then Inl (Check ''programmer error, this should never go negative'') else
                  Inr (s\<lparr>rexpool := Some (rp\<lparr>total_lendable := set_amt (total_lendable rp) S1,
                           total_rex := set_amt (total_rex rp) R1,
                           total_unlent := set_amt (total_unlent rp) unlent\<rparr>)\<rparr>,
                       set_amt rex0 (i64 (R1 - R0))))))))"

definition add_to_rex_balance :: "env \<Rightarrow> name \<Rightarrow> asset \<Rightarrow> asset \<Rightarrow> sys \<Rightarrow> (sys \<times> asset) result" where
  "add_to_rex_balance E owner payment rex_received s =
     (case core_zero E s of Inl e \<Rightarrow> Inl e | Inr zero \<Rightarrow>
      (case (case fmlookup (rexbalance s) owner of
              None \<Rightarrow>
                Inr (\<lparr>vote_stake = payment, rex_bal = rex_received, matured_rex = 0, rex_maturities = []\<rparr>,
                     zero, set_amt zero (amount payment))
            | Some rb \<Rightarrow>
                (case rexpool s of None \<Rightarrow> Inl No_row | Some rp \<Rightarrow>
                 let bal = add_amt (rex_bal rb) (amount rex_received)
                 in (case muldiv (amount bal) (amount (total_lendable rp)) (amount (total_rex rp)) of
                      Inl e \<Rightarrow> Inl e
                    | Inr v \<Rightarrow> Inr (rb\<lparr>rex_bal := bal, vote_stake := set_amt (vote_stake rb) v\<rparr>,
                                    set_amt zero (amount (vote_stake rb)), set_amt zero v)))) of
        Inl e \<Rightarrow> Inl e
      | Inr (rb1, init_stake, current_stake) \<Rightarrow>
          let (savings, rb2) = read_rex_savings rb1;
              rb3 = put_rex_savings savings (add_maturity E (amount rex_received) (process_rex_maturities E rb2))
          in (case asset_sub E current_stake init_stake of Inl e \<Rightarrow> Inl e | Inr delta \<Rightarrow>
             Inr (s\<lparr>rexbalance := fmupd owner rb3 (rexbalance s)\<rparr>, delta))))"

text \<open>The outcome of a sell order: success, proceeds, change of the vote stake.\<close>

record rex_order_outcome =
  success :: bool
  oc_proceeds :: asset
  oc_stake_change :: asset

definition fill_rex_order :: "env \<Rightarrow> name \<Rightarrow> asset \<Rightarrow> sys \<Rightarrow> (sys \<times> rex_order_outcome) result" where
  "fill_rex_order E owner rex s =
     (case rexpool s of None \<Rightarrow> Inl No_row | Some rp \<Rightarrow>
      (case fmlookup (rexbalance s) owner of None \<Rightarrow> Inl No_row | Some rb \<Rightarrow>
      let S0 = amount (total_lendable rp); R0 = amount (total_rex rp)
      in (case muldiv (amount rex) S0 R0 of Inl e \<Rightarrow> Inl e | Inr p \<Rightarrow>
         let R1 = i64 (R0 - amount rex); S1 = i64 (S0 - p)
         in (case core_symbol s of Inl e \<Rightarrow> Inl e | Inr y \<Rightarrow>
            (case asset_new E p y of Inl e \<Rightarrow> Inl e | Inr pr \<Rightarrow>
            (case asset_new E 0 y of Inl e \<Rightarrow> Inl e | Inr zero \<Rightarrow>
            let available = i64 (amount (total_unlent rp) - tdiv (amount (total_lent rp)) 10)
            in if p \<le> available then
                 (case muldiv (amount (rex_bal rb)) S0 R0 of Inl e \<Rightarrow> Inl e | Inr value \<Rightarrow>
                  let stake' = i64 (value - p);
                      rb' = rb\<lparr>vote_stake := set_amt (vote_stake rb) stake',
                               rex_bal := add_amt (rex_bal rb) (- amount rex),
                               matured_rex := i64 (matured_rex rb - amount rex)\<rparr>;
                      rp' = rp\<lparr>total_rex := set_amt (total_rex rp) R1,
                               total_lendable := set_amt (total_lendable rp) S1,
                               total_unlent := set_amt (total_unlent rp) (i64 (S1 - amount (total_lent rp)))\<rparr>
                  in Inr (s\<lparr>rexpool := Some rp', rexbalance := fmupd owner rb' (rexbalance s)\<rparr>,
                          \<lparr>success = True, oc_proceeds = pr,
                           oc_stake_change = set_amt zero (i64 (stake' - amount (vote_stake rb)))\<rparr>))
               else Inr (s, \<lparr>success = False, oc_proceeds = set_amt pr 0, oc_stake_change = zero\<rparr>)))))))"

definition update_rex_stake :: "env \<Rightarrow> name \<Rightarrow> sys \<Rightarrow> sys result" where
  "update_rex_stake E voter s =
     (case fmlookup (rexbalance s) voter of
        None \<Rightarrow> Inr s
      | Some rb \<Rightarrow>
      (case rexpool s of
        None \<Rightarrow> Inr s
      | Some rp \<Rightarrow>
      if \<not> 0 < amount (total_rex rp) then Inr s else
      (case core_zero E s of Inl e \<Rightarrow> Inl e | Inr zero \<Rightarrow>
      (case muldiv (amount (rex_bal rb)) (amount (total_lendable rp)) (amount (total_rex rp)) of Inl e \<Rightarrow> Inl e | Inr v \<Rightarrow>
      let s1 = s\<lparr>rexbalance := fmupd voter (rb\<lparr>vote_stake := set_amt (vote_stake rb) v\<rparr>) (rexbalance s)\<rparr>;
          delta = i64 (v - amount (vote_stake rb))
      in (case fmlookup (voters s1) voter of
           None \<Rightarrow> Inr s1
         | Some vi \<Rightarrow>
             if delta = 0 then Inr s1
             else Inr (s1\<lparr>voters := fmupd voter (vi\<lparr>v_staked := i64 (v_staked vi + delta)\<rparr>) (voters s1)\<rparr>))))))"

subsection \<open>Loans\<close>

definition add_loan_to_rex_pool :: "env \<Rightarrow> asset \<Rightarrow> int \<Rightarrow> bool \<Rightarrow> sys \<Rightarrow> sys result" where
  "add_loan_to_rex_pool E payment rented_tokens new_loan s =
     (case add_to_rex_return_pool E payment s of Inl e \<Rightarrow> Inl e | Inr s1 \<Rightarrow>
      (case rexpool s1 of None \<Rightarrow> Inl No_row | Some rt \<Rightarrow>
      Inr (s1\<lparr>rexpool := Some (rt\<lparr>total_rent := add_amt (total_rent rt) (amount payment),
             total_unlent := add_amt (total_unlent rt) (- rented_tokens),
             total_lent := add_amt (total_lent rt) rented_tokens,
             loan_num := (if new_loan then u64 (loan_num rt + 1) else loan_num rt)\<rparr>)\<rparr>)))"

definition remove_loan_from_rex_pool :: "rex_loan \<Rightarrow> sys \<Rightarrow> sys result" where
  "remove_loan_from_rex_pool loan s =
     (case rexpool s of None \<Rightarrow> Inl No_row | Some rt \<Rightarrow>
      (case get_bancor_output (amount (total_unlent rt)) (amount (total_rent rt)) (amount (loan_staked loan)) of
        Inl e \<Rightarrow> Inl e
      | Inr delta_total_rent \<Rightarrow>
          let unlent = add_amt (total_unlent rt) (amount (loan_staked loan));
              lent = add_amt (total_lent rt) (- amount (loan_staked loan))
          in Inr (s\<lparr>rexpool := Some (rt\<lparr>total_rent := add_amt (total_rent rt) (- delta_total_rent),
                    total_unlent := unlent, total_lent := lent,
                    total_lendable := set_amt (total_lendable rt) (i64 (amount unlent + amount lent))\<rparr>)\<rparr>)))"

definition order_time_key :: "rex_order \<Rightarrow> int" where
  "order_time_key ord = (if o_is_open ord then u64 (o_time ord) else 2 ^ 64 - 1)"

text \<open>The rows of the order queue in the order of the index \<open>bytime\<close>, with their owners.\<close>

definition orders_by_time :: "sys \<Rightarrow> (name \<times> rex_order) list" where
  "orders_by_time s =
     sort_key (\<lambda>(x, ord). order_time_key ord)
       (map (\<lambda>x. (x, the (fmlookup (rexorders s) x))) (sorted_list_of_fset (fmdom (rexorders s))))"

definition rex_loans_available :: "sys \<Rightarrow> bool" where
  "rex_loans_available s =
     (rex_available s \<and> (case orders_by_time s of [] \<Rightarrow> True | (x, ord) # _ \<Rightarrow> \<not> o_is_open ord))"

subsection \<open>What the pool's bookkeeping leaves alone\<close>

definition nopool :: "sys \<Rightarrow> sys" where
  "nopool s = s\<lparr>rexpool := None, rexretpool := None, rexretbuckets := None\<rparr>"

lemma nopool_fields:
  assumes "nopool s' = nopool s"
  shows "voters s' = voters s" "producers s' = producers s" "gstate s' = gstate s" "gstate2 s' = gstate2 s" "gstate4 s' = gstate4 s"
    "rammarket s' = rammarket s" "rexfunds s' = rexfunds s" "rexbalance s' = rexbalance s"
    "rexorders s' = rexorders s" "cpuloans s' = cpuloans s" "netloans s' = netloans s" "userres s' = userres s"
    "delband s' = delband s" "refunds s' = refunds s" "namebids s' = namebids s" "bidrefunds s' = bidrefunds s"
    "payments s' = payments s" "powup_state s' = powup_state s" "powup_orders s' = powup_orders s"
    "res_limits s' = res_limits s" "effects s' = effects s"
  using arg_cong [OF assms, of voters] arg_cong [OF assms, of producers] arg_cong [OF assms, of gstate] arg_cong [OF assms, of gstate2]
    arg_cong [OF assms, of gstate4] arg_cong [OF assms, of rammarket] arg_cong [OF assms, of rexfunds] arg_cong [OF assms, of rexbalance]
    arg_cong [OF assms, of rexorders] arg_cong [OF assms, of cpuloans] arg_cong [OF assms, of netloans] arg_cong [OF assms, of userres]
    arg_cong [OF assms, of delband] arg_cong [OF assms, of refunds] arg_cong [OF assms, of namebids] arg_cong [OF assms, of bidrefunds]
    arg_cong [OF assms, of payments] arg_cong [OF assms, of powup_state] arg_cong [OF assms, of powup_orders]
    arg_cong [OF assms, of res_limits] arg_cong [OF assms, of effects]
  by (simp_all add: nopool_def)

lemma update_rex_pool_frame: "update_rex_pool E s = Inr s' \<Longrightarrow> nopool s' = nopool s"
  by (auto simp: update_rex_pool_def result_simps Let_def nopool_def split: option.splits if_splits prod.splits)

lemma add_to_rex_return_pool_frame: "add_to_rex_return_pool E fee s = Inr s' \<Longrightarrow> nopool s' = nopool s"
  by (auto simp: add_to_rex_return_pool_def result_simps Let_def split: option.splits if_splits
      dest!: update_rex_pool_frame) (auto simp: nopool_def)

lemma nopool_send: "nopool (send_transfer x y a memo s) = send_transfer x y a memo (nopool s)"
  by (simp add: nopool_def send_transfer_def)

text \<open>Channelling a fee adds at most one transfer, from the payer to the REX account.\<close>

lemma channel_to_rex_frame:
  assumes "channel_to_rex E from a req s = Inr s'"
  obtains "s' = s" | memo where "nopool s' = nopool (send_transfer from rex_account a memo s)"
proof (cases "rex_available s")
  case True
  then obtain s1 memo where "add_to_rex_return_pool E a s = Inr s1" "s' = send_transfer from rex_account a memo s1"
    using assms by (auto simp: channel_to_rex_def result_simps)
  moreover have "nopool (send_transfer from rex_account a memo s1) = nopool (send_transfer from rex_account a memo s)"
    if "nopool s1 = nopool s"
    using that by (simp add: nopool_send)
  ultimately show ?thesis using that(2) add_to_rex_return_pool_frame by blast
next
  case False
  then show ?thesis using assms that(1) by (simp add: channel_to_rex_def result_simps)
qed

end
