(* ===== verification/Rex.thy ===== *)
theory Rex
  imports Rex_Pool
begin

section \<open>The actions of the resource exchange\<close>

text \<open>
  The loan market, the maintenance run \<open>runrex\<close> and the actions of \<open>rex.cpp\<close>.  The CPU and the
  NET loan tables have the same row type; the flag \<open>cpu\<close> selects the table.
\<close>

subsection \<open>Resource limits\<close>

text \<open>The new row of the totals of an account.\<close>

definition bandwidth_row :: "env \<Rightarrow> name \<Rightarrow> int \<Rightarrow> int \<Rightarrow> sys \<Rightarrow> user_resources result" where
  "bandwidth_row E receiver delta_net delta_cpu s =
     (case fmlookup (userres s) receiver of
        None \<Rightarrow>
          if \<not> (0 \<le> delta_net \<and> 0 \<le> delta_cpu) then Inl (Check ''logic error, should not occur'') else
          (case core_symbol s of Inl e \<Rightarrow> Inl e | Inr y \<Rightarrow>
           (case asset_new E delta_net y of Inl e \<Rightarrow> Inl e | Inr n \<Rightarrow>
           (case asset_new E delta_cpu y of Inl e \<Rightarrow> Inl e | Inr c \<Rightarrow>
           Inr \<lparr>u_net_weight = n, u_cpu_weight = c, u_ram_bytes = 0\<rparr>)))
      | Some u \<Rightarrow> Inr (u\<lparr>u_net_weight := add_amt (u_net_weight u) delta_net,
                         u_cpu_weight := add_amt (u_cpu_weight u) delta_cpu\<rparr>))"

text \<open>Setting the limits that are not managed, and storing the row or erasing an empty one.\<close>

definition store_bandwidth :: "name \<Rightarrow> user_resources \<Rightarrow> sys \<Rightarrow> sys" where
  "store_bandwidth receiver u s =
     (let nm = net_managed s receiver; cm = cpu_managed s receiver;
          (ram, net, cpu) = res_limits s receiver;
          s1 = (if \<not> (nm \<and> cm)
                then set_resource_limits receiver ram (if nm then net else amount (u_net_weight u))
                       (if cm then cpu else amount (u_cpu_weight u)) s
                else s)
      in if amount (u_net_weight u) = 0 \<and> amount (u_cpu_weight u) = 0 \<and> u_ram_bytes u = 0
         then s1\<lparr>userres := fmdrop receiver (userres s1)\<rparr>
         else s1\<lparr>userres := fmupd receiver u (userres s1)\<rparr>)"

definition update_resource_limits :: "env \<Rightarrow> name \<Rightarrow> name \<Rightarrow> int \<Rightarrow> int \<Rightarrow> sys \<Rightarrow> sys result" where
  "update_resource_limits E from receiver delta_net delta_cpu s =
     (if delta_cpu = 0 \<and> delta_net = 0 then Inr s else
      (case bandwidth_row E receiver delta_net delta_cpu s of Inl e \<Rightarrow> Inl e | Inr u \<Rightarrow>
      if \<not> 0 \<le> amount (u_net_weight u) then Inl (Check ''insufficient staked total net bandwidth'') else
      if \<not> 0 \<le> amount (u_cpu_weight u) then Inl (Check ''insufficient staked total cpu bandwidth'') else
      Inr (store_bandwidth receiver u s)))"

subsection \<open>Loans\<close>

definition loans :: "bool \<Rightarrow> sys \<Rightarrow> (int, rex_loan) fmap" where
  "loans cpu s = (if cpu then cpuloans s else netloans s)"

definition set_loans :: "bool \<Rightarrow> (int, rex_loan) fmap \<Rightarrow> sys \<Rightarrow> sys" where
  "set_loans cpu m s = (if cpu then s\<lparr>cpuloans := m\<rparr> else s\<lparr>netloans := m\<rparr>)"

definition days30 :: int where "days30 = 30 * 86400 * 1000000"

text \<open>The first loan of the index \<open>byexpr\<close>.\<close>

definition first_expiring :: "bool \<Rightarrow> sys \<Rightarrow> (int \<times> rex_loan) option" where
  "first_expiring cpu s =
     (case sort_key (\<lambda>(k, l). u64 (loan_expiration l))
             (map (\<lambda>k. (k, the (fmlookup (loans cpu s) k))) (sorted_list_of_fset (fmdom (loans cpu s)))) of
        [] \<Rightarrow> None | x # _ \<Rightarrow> Some x)"

definition process_expired_loan :: "env \<Rightarrow> bool \<Rightarrow> int \<Rightarrow> rex_loan \<Rightarrow> sys \<Rightarrow> (sys \<times> bool \<times> int) result" where
  "process_expired_loan E cpu k loan s =
     (case remove_loan_from_rex_pool loan s of Inl e \<Rightarrow> Inl e | Inr s1 \<Rightarrow>
      (case rexpool s1 of None \<Rightarrow> Inl No_row | Some pool \<Rightarrow>
      (case get_bancor_output (amount (total_rent pool)) (amount (total_unlent pool)) (amount (loan_payment loan)) of
        Inl e \<Rightarrow> Inl e
      | Inr rented_tokens \<Rightarrow>
      (case asset_le E (loan_payment loan) (loan_balance loan) of Inl e \<Rightarrow> Inl e | Inr funded \<Rightarrow>
      if funded \<and> amount (loan_payment loan) < rented_tokens \<and> rex_loans_available s1 then
        (case add_loan_to_rex_pool E (loan_payment loan) rented_tokens False s1 of Inl e \<Rightarrow> Inl e | Inr s2 \<Rightarrow>
         let loan' = loan\<lparr>loan_staked := set_amt (loan_staked loan) rented_tokens,
                          loan_expiration := loan_expiration loan + days30,
                          loan_balance := add_amt (loan_balance loan) (- amount (loan_payment loan))\<rparr>
         in Inr (set_loans cpu (fmupd k loan' (loans cpu s2)) s2, False, i64 (rented_tokens - amount (loan_staked loan))))
      else
        (case (if 0 < amount (loan_balance loan) then transfer_to_fund (loan_from loan) (loan_balance loan) s1
               else Inr s1) of Inl e \<Rightarrow> Inl e | Inr s2 \<Rightarrow>
         Inr (s2, True, i64 (- amount (loan_staked loan))))))))"

fun loan_loop :: "env \<Rightarrow> bool \<Rightarrow> nat \<Rightarrow> sys \<Rightarrow> sys result" where
  "loan_loop E cpu 0 s = Inr s"
| "loan_loop E cpu (Suc n) s =
     (case first_expiring cpu s of
        None \<Rightarrow> Inr s
      | Some (k, loan) \<Rightarrow>
      if current_time E < loan_expiration loan then Inr s else
      (case process_expired_loan E cpu k loan s of Inl e \<Rightarrow> Inl e | Inr (s1, delete_loan, delta_stake) \<Rightarrow>
      (case (if delta_stake \<noteq> 0
            then (if cpu then update_resource_limits E (loan_from loan) (loan_receiver loan) 0 delta_stake s1
                  else update_resource_limits E (loan_from loan) (loan_receiver loan) delta_stake 0 s1)
            else Inr s1) of Inl e \<Rightarrow> Inl e | Inr s2 \<Rightarrow>
      loan_loop E cpu n (if delete_loan then set_loans cpu (fmdrop k (loans cpu s2)) s2 else s2))))"

text \<open>
  The sell orders, oldest first.  A filled order moves to the end of the index; the
  iterator was advanced before, so the loop follows the order the index had at the start.
\<close>

fun order_loop :: "env \<Rightarrow> nat \<Rightarrow> (name \<times> rex_order) list \<Rightarrow> sys \<Rightarrow> sys result" where
  "order_loop E 0 os s = Inr s"
| "order_loop E (Suc n) [] s = Inr s"
| "order_loop E (Suc n) ((owner, ord) # os) s =
     (if \<not> o_is_open ord then Inr s else
      if fmlookup (rexbalance s) owner = None then order_loop E n os s else
      (case fill_rex_order E owner (o_rex_requested ord) s of Inl e \<Rightarrow> Inl e | Inr (s1, r) \<Rightarrow>
      if success r then
        order_loop E n os
          (emit (Inline_result ''orderresult'' [oc_proceeds r])
            (s1\<lparr>rexorders := fmupd owner
                 (ord\<lparr>o_proceeds := set_amt (o_proceeds ord) (amount (oc_proceeds r)),
                      o_stake_change := set_amt (o_stake_change ord) (amount (oc_stake_change r)),
                      o_is_open := False\<rparr>) (rexorders s1)\<rparr>))
      else order_loop E n os s1))"

definition runrex :: "env \<Rightarrow> nat \<Rightarrow> sys \<Rightarrow> sys result" where
  "runrex E n_max s0 =
     (if \<not> rex_system_initialized s0 then Inl (Check ''rex system not initialized yet'') else
      (case update_rex_pool E s0 of Inl e \<Rightarrow> Inl e | Inr s \<Rightarrow>
      (case rexpool s of None \<Rightarrow> Inl No_row | Some pool \<Rightarrow>
      (case (if 0 < amount (namebid_proceeds pool)
            then (case channel_to_rex E names_account (namebid_proceeds pool) False s of Inl e \<Rightarrow> Inl e | Inr s1 \<Rightarrow>
                 Inr (s1\<lparr>rexpool := map_option (\<lambda>rt. rt\<lparr>namebid_proceeds := set_amt (namebid_proceeds rt) 0\<rparr>) (rexpool s1)\<rparr>))
            else Inr s) of Inl e \<Rightarrow> Inl e | Inr s2 \<Rightarrow>
      (case loan_loop E True n_max s2 of Inl e \<Rightarrow> Inl e | Inr s3 \<Rightarrow>
      (case loan_loop E False n_max s3 of Inl e \<Rightarrow> Inl e | Inr s4 \<Rightarrow>
      order_loop E n_max (orders_by_time s4) s4))))))"

definition rent_rex :: "env \<Rightarrow> bool \<Rightarrow> name \<Rightarrow> name \<Rightarrow> asset \<Rightarrow> asset \<Rightarrow> sys \<Rightarrow> (sys \<times> int) result" where
  "rent_rex E cpu from receiver payment fund s0 =
     (case runrex E 2 s0 of Inl e \<Rightarrow> Inl e | Inr s \<Rightarrow>
      if \<not> rex_loans_available s then Inl (Check ''rex loans are currently not available'') else
      (case core_symbol s of Inl e \<Rightarrow> Inl e | Inr y \<Rightarrow>
      if \<not> (sym payment = y \<and> sym fund = y) then Inl (Check ''must use core token'') else
      if \<not> (0 < amount payment \<and> 0 \<le> amount fund) then Inl (Check ''must use positive asset amount'') else
      (case asset_add E payment fund of Inl e \<Rightarrow> Inl e | Inr tot \<Rightarrow>
      (case transfer_from_fund E from tot s of Inl e \<Rightarrow> Inl e | Inr s1 \<Rightarrow>
      (case rexpool s1 of None \<Rightarrow> Inl No_row | Some pool \<Rightarrow>
      (case get_bancor_output (amount (total_rent pool)) (amount (total_unlent pool)) (amount payment) of
        Inl e \<Rightarrow> Inl e
      | Inr rented_tokens \<Rightarrow>
      if \<not> amount payment < rented_tokens then Inl (Check ''loan price does not favor renting'') else
      (case add_loan_to_rex_pool E payment rented_tokens True s1 of Inl e \<Rightarrow> Inl e | Inr s2 \<Rightarrow>
      (case rexpool s2 of None \<Rightarrow> Inl No_row | Some pool2 \<Rightarrow>
      (case asset_new E rented_tokens y of Inl e \<Rightarrow> Inl e | Inr staked \<Rightarrow>
      if fmlookup (loans cpu s2) (loan_num pool2) \<noteq> None then Inl (Trap ''duplicate primary key'') else
      let loan = \<lparr>loan_from = from, loan_receiver = receiver, loan_payment = payment, loan_balance = fund,
                  loan_staked = staked, loan_expiration = current_time E + days30\<rparr>
      in Inr (emit (Inline_result ''rentresult'' [staked])
                (set_loans cpu (fmupd (loan_num pool2) loan (loans cpu s2)) s2), rented_tokens))))))))))"

definition fund_rex_loan :: "env \<Rightarrow> bool \<Rightarrow> name \<Rightarrow> int \<Rightarrow> asset \<Rightarrow> sys \<Rightarrow> sys result" where
  "fund_rex_loan E cpu from k payment s =
     (case core_symbol s of Inl e \<Rightarrow> Inl e | Inr y \<Rightarrow>
      if sym payment \<noteq> y then Inl (Check ''must use core token'') else
      (case transfer_from_fund E from payment s of Inl e \<Rightarrow> Inl e | Inr s1 \<Rightarrow>
      (case fmlookup (loans cpu s1) k of None \<Rightarrow> Inl (Check ''loan not found'') | Some loan \<Rightarrow>
      if loan_from loan \<noteq> from then Inl (Check ''user must be loan creator'') else
      if \<not> current_time E < loan_expiration loan then Inl (Check ''loan has already expired'') else
      Inr (set_loans cpu (fmupd k (loan\<lparr>loan_balance := add_amt (loan_balance loan) (amount payment)\<rparr>) (loans cpu s1)) s1))))"

definition defund_rex_loan :: "env \<Rightarrow> bool \<Rightarrow> name \<Rightarrow> int \<Rightarrow> asset \<Rightarrow> sys \<Rightarrow> sys result" where
  "defund_rex_loan E cpu from k a s =
     (case core_symbol s of Inl e \<Rightarrow> Inl e | Inr y \<Rightarrow>
      if sym a \<noteq> y then Inl (Check ''must use core token'') else
      (case fmlookup (loans cpu s) k of None \<Rightarrow> Inl (Check ''loan not found'') | Some loan \<Rightarrow>
      if loan_from loan \<noteq> from then Inl (Check ''user must be loan creator'') else
      if \<not> current_time E < loan_expiration loan then Inl (Check ''loan has already expired'') else
      (case asset_le E a (loan_balance loan) of Inl e \<Rightarrow> Inl e | Inr le \<Rightarrow>
      if \<not> le then Inl (Check ''insufficent loan balance'') else
      transfer_to_fund from a
        (set_loans cpu (fmupd k (loan\<lparr>loan_balance := add_amt (loan_balance loan) (- amount a)\<rparr>) (loans cpu s)) s))))"

subsection \<open>Actions\<close>

definition deposit :: "env \<Rightarrow> name \<Rightarrow> asset \<Rightarrow> sys \<Rightarrow> sys result" where
  "deposit E owner a s =
     (if \<not> has_auth E owner then Inl Missing_auth else
      (case core_symbol s of Inl e \<Rightarrow> Inl e | Inr y \<Rightarrow>
      if sym a \<noteq> y then Inl (Check ''must deposit core token'') else
      if \<not> 0 < amount a then Inl (Check ''must deposit a positive amount'') else
      transfer_to_fund owner a (send_transfer owner rex_account a ''deposit to REX fund'' s)))"

definition withdraw :: "env \<Rightarrow> name \<Rightarrow> asset \<Rightarrow> sys \<Rightarrow> sys result" where
  "withdraw E owner a s =
     (if \<not> has_auth E owner then Inl Missing_auth else
      (case core_symbol s of Inl e \<Rightarrow> Inl e | Inr y \<Rightarrow>
      if sym a \<noteq> y then Inl (Check ''must withdraw core token'') else
      if \<not> 0 < amount a then Inl (Check ''must withdraw a positive amount'') else
      (case core_zero E s of Inl e \<Rightarrow> Inl e | Inr zero \<Rightarrow>
      (case update_rex_account E owner zero zero False s of Inl e \<Rightarrow> Inl e | Inr (s1, _) \<Rightarrow>
      (case transfer_from_fund E owner a s1 of Inl e \<Rightarrow> Inl e | Inr s2 \<Rightarrow>
      Inr (send_transfer rex_account owner a ''withdraw from REX fund'' s2))))))"

definition buyrex :: "env \<Rightarrow> name \<Rightarrow> asset \<Rightarrow> sys \<Rightarrow> sys result" where
  "buyrex E from a s =
     (if \<not> has_auth E from then Inl Missing_auth else
      (case core_symbol s of Inl e \<Rightarrow> Inl e | Inr y \<Rightarrow>
      if sym a \<noteq> y then Inl (Check ''asset must be core token'') else
      if \<not> 0 < amount a then Inl (Check ''must use positive amount'') else
      (case transfer_from_fund E from a s of Inl e \<Rightarrow> Inl e | Inr s1 \<Rightarrow>
      (case add_to_rex_pool E a s1 of Inl e \<Rightarrow> Inl e | Inr (s2, rex_received) \<Rightarrow>
      (case add_to_rex_balance E from a rex_received s2 of Inl e \<Rightarrow> Inl e | Inr (s3, delta) \<Rightarrow>
      (case runrex E 2 s3 of Inl e \<Rightarrow> Inl e | Inr s4 \<Rightarrow>
      (case core_zero E s4 of Inl e \<Rightarrow> Inl e | Inr zero \<Rightarrow>
      (case update_rex_account E from zero delta False s4 of Inl e \<Rightarrow> Inl e | Inr (s5, _) \<Rightarrow>
      Inr (emit (Inline_result ''buyresult'' [rex_received]) s5)))))))))"

text \<open>Taking the tokens out of the delegation.\<close>

definition undelegate_row :: "name \<Rightarrow> name \<Rightarrow> asset \<Rightarrow> asset \<Rightarrow> sys \<Rightarrow> sys result" where
  "undelegate_row owner receiver from_net from_cpu s =
     (case fmlookup (delband s) (owner, receiver) of
        None \<Rightarrow> Inl (Check ''delegated bandwidth record does not exist'')
      | Some d \<Rightarrow>
      if \<not> amount from_net \<le> amount (d_net_weight d) then Inl (Check ''amount exceeds tokens staked for net'') else
      if \<not> amount from_cpu \<le> amount (d_cpu_weight d) then Inl (Check ''amount exceeds tokens staked for cpu'') else
      let d' = d\<lparr>d_net_weight := add_amt (d_net_weight d) (- amount from_net),
                 d_cpu_weight := add_amt (d_cpu_weight d) (- amount from_cpu)\<rparr>
      in Inr (s\<lparr>delband := (if amount (d_net_weight d') = 0 \<and> amount (d_cpu_weight d') = 0
                            then fmdrop (owner, receiver) (delband s) else fmupd (owner, receiver) d' (delband s))\<rparr>))"

definition unstaketorex :: "env \<Rightarrow> name \<Rightarrow> name \<Rightarrow> asset \<Rightarrow> asset \<Rightarrow> sys \<Rightarrow> sys result" where
  "unstaketorex E owner receiver from_net from_cpu s =
     (if \<not> has_auth E owner then Inl Missing_auth else
      (case core_symbol s of Inl e \<Rightarrow> Inl e | Inr y \<Rightarrow>
      if \<not> (sym from_net = y \<and> sym from_cpu = y) then Inl (Check ''asset must be core token'') else
      if \<not> (0 \<le> amount from_net \<and> 0 \<le> amount from_cpu \<and> (0 < amount from_net \<or> 0 < amount from_cpu))
      then Inl (Check ''must unstake a positive amount to buy rex'') else
      (case undelegate_row owner receiver from_net from_cpu s of Inl e \<Rightarrow> Inl e | Inr s1 \<Rightarrow>
      (case update_resource_limits E 0 receiver (i64 (- amount from_net)) (i64 (- amount from_cpu)) s1 of
        Inl e \<Rightarrow> Inl e | Inr s2 \<Rightarrow>
      (case asset_add E from_net from_cpu of Inl e \<Rightarrow> Inl e | Inr payment \<Rightarrow>
      (case add_to_rex_pool E payment (send_transfer stake_account rex_account payment ''buy REX with staked tokens'' s2) of
        Inl e \<Rightarrow> Inl e | Inr (s4, rex_received) \<Rightarrow>
      (case add_to_rex_balance E owner payment rex_received s4 of Inl e \<Rightarrow> Inl e | Inr (s5, delta) \<Rightarrow>
      (case runrex E 2 s5 of Inl e \<Rightarrow> Inl e | Inr s6 \<Rightarrow>
      (case core_zero E s6 of Inl e \<Rightarrow> Inl e | Inr zero \<Rightarrow>
      (case asset_sub E delta payment of Inl e \<Rightarrow> Inl e | Inr delta' \<Rightarrow>
      (case update_rex_account E owner zero delta' True s6 of Inl e \<Rightarrow> Inl e | Inr (s7, _) \<Rightarrow>
      Inr (emit (Inline_result ''buyresult'' [rex_received]) s7))))))))))))"

definition sellrex :: "env \<Rightarrow> name \<Rightarrow> asset \<Rightarrow> sys \<Rightarrow> sys result" where
  "sellrex E from rex s0 =
     (if \<not> has_auth E from then Inl Missing_auth else
      (case runrex E 2 s0 of Inl e \<Rightarrow> Inl e | Inr s \<Rightarrow>
      (case fmlookup (rexbalance s) from of
        None \<Rightarrow> Inl (Check ''user must first buyrex'')
      | Some rb \<Rightarrow>
      if \<not> (0 < amount rex \<and> sym rex = sym (rex_bal rb))
      then Inl (Check ''asset must be a positive amount of (REX, 4)'') else
      let rb1 = process_rex_maturities E rb; s1 = s\<lparr>rexbalance := fmupd from rb1 (rexbalance s)\<rparr>
      in if \<not> amount rex \<le> matured_rex rb1 then Inl (Check ''insufficient available rex'') else
         (case fill_rex_order E from rex s1 of Inl e \<Rightarrow> Inl e | Inr (s2, r) \<Rightarrow>
         if success r \<and> amount (oc_proceeds r) = 0 then Inl (Check ''proceeds are negligible'') else
         (case update_rex_account E from (oc_proceeds r) (oc_stake_change r) False s2 of
           Inl e \<Rightarrow> Inl e | Inr (s3, pending) \<Rightarrow>
         (case (if success r then Inr (s3, amount pending) else
               if from = b1_account then Inl (Check ''b1 sellrex orders should not be queued'') else
               (case fmlookup (rexorders s3) from of
                 None \<Rightarrow>
                   (case core_zero E s3 of Inl e \<Rightarrow> Inl e | Inr zero \<Rightarrow>
                    Inr (s3\<lparr>rexorders := fmupd from
                           \<lparr>o_rex_requested = rex, o_proceeds = zero, o_stake_change = zero,
                            o_time = current_time E, o_is_open = True\<rparr> (rexorders s3)\<rparr>, amount rex))
               | Some ord \<Rightarrow>
                   let req = add_amt (o_rex_requested ord) (amount rex)
                   in Inr (s3\<lparr>rexorders := fmupd from (ord\<lparr>o_rex_requested := req\<rparr>) (rexorders s3)\<rparr>, amount req))) of
           Inl e \<Rightarrow> Inl e
         | Inr (s4, pending_amount) \<Rightarrow>
         (case fmlookup (rexbalance s4) from of None \<Rightarrow> Inl No_row | Some rb4 \<Rightarrow>
         if \<not> pending_amount \<le> matured_rex rb4
         then Inl (Check ''insufficient funds for current and scheduled orders'') else
         Inr (if success r then emit (Inline_result ''sellresult'' [oc_proceeds r]) s4 else s4))))))))"

definition cnclrexorder :: "env \<Rightarrow> name \<Rightarrow> sys \<Rightarrow> sys result" where
  "cnclrexorder E owner s =
     (if \<not> has_auth E owner then Inl Missing_auth else
      (case fmlookup (rexorders s) owner of
        None \<Rightarrow> Inl (Check ''no sellrex order is scheduled'')
      | Some ord \<Rightarrow>
          if \<not> o_is_open ord then Inl (Check ''sellrex order has been filled and cannot be canceled'') else
          Inr (s\<lparr>rexorders := fmdrop owner (rexorders s)\<rparr>)))"

definition rentcpu :: "env \<Rightarrow> name \<Rightarrow> name \<Rightarrow> asset \<Rightarrow> asset \<Rightarrow> sys \<Rightarrow> sys result" where
  "rentcpu E from receiver payment fund s =
     (if \<not> has_auth E from then Inl Missing_auth else
      (case rent_rex E True from receiver payment fund s of Inl e \<Rightarrow> Inl e | Inr (s1, n) \<Rightarrow>
      update_resource_limits E from receiver 0 n s1))"

definition rentnet :: "env \<Rightarrow> name \<Rightarrow> name \<Rightarrow> asset \<Rightarrow> asset \<Rightarrow> sys \<Rightarrow> sys result" where
  "rentnet E from receiver payment fund s =
     (if \<not> has_auth E from then Inl Missing_auth else
      (case rent_rex E False from receiver payment fund s of Inl e \<Rightarrow> Inl e | Inr (s1, n) \<Rightarrow>
      update_resource_limits E from receiver n 0 s1))"

definition fundcpuloan :: "env \<Rightarrow> name \<Rightarrow> int \<Rightarrow> asset \<Rightarrow> sys \<Rightarrow> sys result" where
  "fundcpuloan E from k payment s = (if \<not> has_auth E from then Inl Missing_auth else fund_rex_loan E True from k payment s)"

definition fundnetloan :: "env \<Rightarrow> name \<Rightarrow> int \<Rightarrow> asset \<Rightarrow> sys \<Rightarrow> sys result" where
  "fundnetloan E from k payment s = (if \<not> has_auth E from then Inl Missing_auth else fund_rex_loan E False from k payment s)"

definition defcpuloan :: "env \<Rightarrow> name \<Rightarrow> int \<Rightarrow> asset \<Rightarrow> sys \<Rightarrow> sys result" where
  "defcpuloan E from k a s = (if \<not> has_auth E from then Inl Missing_auth else defund_rex_loan E True from k a s)"

definition defnetloan :: "env \<Rightarrow> name \<Rightarrow> int \<Rightarrow> asset \<Rightarrow> sys \<Rightarrow> sys result" where
  "defnetloan E from k a s = (if \<not> has_auth E from then Inl Missing_auth else defund_rex_loan E False from k a s)"

definition updaterex :: "env \<Rightarrow> name \<Rightarrow> sys \<Rightarrow> sys result" where
  "updaterex E owner s0 =
     (if \<not> has_auth E owner then Inl Missing_auth else
      (case runrex E 2 s0 of Inl e \<Rightarrow> Inl e | Inr s \<Rightarrow>
      (case fmlookup (rexbalance s) owner of None \<Rightarrow> Inl (Check ''account has no REX balance'') | Some rb \<Rightarrow>
      (case rexpool s of None \<Rightarrow> Inl No_row | Some pool \<Rightarrow>
      (case core_zero E s of Inl e \<Rightarrow> Inl e | Inr zero \<Rightarrow>
      (case (if 0 < amount (total_rex pool)
            then muldiv (amount (rex_bal rb)) (amount (total_lendable pool)) (amount (total_rex pool)) else Inr 0) of
        Inl e \<Rightarrow> Inl e
      | Inr v \<Rightarrow>
      let current_stake = set_amt zero v;
          s1 = s\<lparr>rexbalance := fmupd owner (rb\<lparr>vote_stake := current_stake\<rparr>) (rexbalance s)\<rparr>
      in (case asset_sub E current_stake (vote_stake rb) of Inl e \<Rightarrow> Inl e | Inr delta \<Rightarrow>
         (case update_rex_account E owner zero delta True s1 of Inl e \<Rightarrow> Inl e | Inr (s2, _) \<Rightarrow>
         (case fmlookup (rexbalance s2) owner of None \<Rightarrow> Inl No_row | Some rb2 \<Rightarrow>
         Inr (s2\<lparr>rexbalance := fmupd owner (process_rex_maturities E rb2) (rexbalance s2)\<rparr>))))))))))"

definition setrex :: "env \<Rightarrow> asset \<Rightarrow> sys \<Rightarrow> sys result" where
  "setrex E balance s =
     (if \<not> has_auth E eosio_account then Inl Missing_auth else
      if \<not> 0 < amount balance then Inl (Check ''balance must be set to have a positive amount'') else
      (case core_symbol s of Inl e \<Rightarrow> Inl e | Inr y \<Rightarrow>
      if sym balance \<noteq> y then Inl (Check ''balance symbol must be core symbol'') else
      (case rexpool s of
        None \<Rightarrow> Inl (Check ''rex system is not initialized'')
      | Some pool \<Rightarrow> Inr (s\<lparr>rexpool := Some (pool\<lparr>total_rent := balance\<rparr>)\<rparr>))))"

definition rexexec :: "env \<Rightarrow> name \<Rightarrow> nat \<Rightarrow> sys \<Rightarrow> sys result" where
  "rexexec E user n_max s = (if \<not> has_auth E user then Inl Missing_auth else runrex E n_max s)"

definition consolidate :: "env \<Rightarrow> name \<Rightarrow> sys \<Rightarrow> sys result" where
  "consolidate E owner s0 =
     (if \<not> has_auth E owner then Inl Missing_auth else
      (case runrex E 2 s0 of Inl e \<Rightarrow> Inl e | Inr s \<Rightarrow>
      if fmlookup (rexbalance s) owner = None then Inl (Check ''account has no REX balance'') else
      (case core_zero E s of Inl e \<Rightarrow> Inl e | Inr zero \<Rightarrow>
      (case update_rex_account E owner zero zero False s of Inl e \<Rightarrow> Inl e | Inr (s1, in_order) \<Rightarrow>
      (case fmlookup (rexbalance s1) owner of None \<Rightarrow> Inl No_row | Some rb \<Rightarrow>
      Inr (s1\<lparr>rexbalance := fmupd owner (consolidate_rex_balance E in_order rb) (rexbalance s1)\<rparr>))))))"

definition mvtosavings :: "env \<Rightarrow> name \<Rightarrow> asset \<Rightarrow> sys \<Rightarrow> sys result" where
  "mvtosavings E owner rex s0 =
     (if \<not> has_auth E owner then Inl Missing_auth else
      (case runrex E 2 s0 of Inl e \<Rightarrow> Inl e | Inr s \<Rightarrow>
      (case fmlookup (rexbalance s) owner of None \<Rightarrow> Inl (Check ''account has no REX balance'') | Some rb0 \<Rightarrow>
      if \<not> (0 < amount rex \<and> sym rex = sym (rex_bal rb0))
      then Inl (Check ''asset must be a positive amount of (REX, 4)'') else
      (case core_zero E s of Inl e \<Rightarrow> Inl e | Inr zero \<Rightarrow>
      (case update_rex_account E owner zero zero False s of Inl e \<Rightarrow> Inl e | Inr (s1, in_order) \<Rightarrow>
      (case fmlookup (rexbalance s1) owner of None \<Rightarrow> Inl No_row | Some rb \<Rightarrow>
      let (savings, rb1) = read_rex_savings rb
      in if \<not> i64 (i64 (amount rex + amount in_order) + savings) \<le> amount (rex_bal rb1)
         then Inl (Check ''insufficient REX balance'') else
         (case move_to_savings (amount rex) in_order (process_rex_maturities E rb1) of Inl e \<Rightarrow> Inl e | Inr rb2 \<Rightarrow>
         Inr (s1\<lparr>rexbalance := fmupd owner (put_rex_savings (i64 (savings + amount rex)) rb2) (rexbalance s1)\<rparr>))))))))"

definition mvfrsavings :: "env \<Rightarrow> name \<Rightarrow> asset \<Rightarrow> sys \<Rightarrow> sys result" where
  "mvfrsavings E owner rex s0 =
     (if \<not> has_auth E owner then Inl Missing_auth else
      (case runrex E 2 s0 of Inl e \<Rightarrow> Inl e | Inr s \<Rightarrow>
      (case fmlookup (rexbalance s) owner of None \<Rightarrow> Inl (Check ''account has no REX balance'') | Some rb \<Rightarrow>
      if \<not> (0 < amount rex \<and> sym rex = sym (rex_bal rb))
      then Inl (Check ''asset must be a positive amount of (REX, 4)'') else
      let (savings, rb1) = read_rex_savings rb
      in if \<not> amount rex \<le> savings then Inl (Check ''insufficient REX in savings'') else
         let rb2 = add_maturity E (amount rex) (process_rex_maturities E rb1);
             s1 = s\<lparr>rexbalance := fmupd owner (put_rex_savings (i64 (savings - amount rex)) rb2) (rexbalance s)\<rparr>
         in (case core_zero E s1 of Inl e \<Rightarrow> Inl e | Inr zero \<Rightarrow>
            (case update_rex_account E owner zero zero False s1 of Inl e \<Rightarrow> Inl e | Inr (s2, _) \<Rightarrow> Inr s2)))))"

definition owns_loan :: "name \<Rightarrow> (int, rex_loan) fmap \<Rightarrow> bool" where
  "owns_loan owner m = list_ex (\<lambda>l. loan_from l = owner) (rows m)"

definition closerex :: "env \<Rightarrow> name \<Rightarrow> sys \<Rightarrow> sys result" where
  "closerex E owner s0 =
     (if \<not> has_auth E owner then Inl Missing_auth else
      (case (if rex_system_initialized s0 then runrex E 2 s0 else Inr s0) of Inl e \<Rightarrow> Inl e | Inr s \<Rightarrow>
      (case core_zero E s of Inl e \<Rightarrow> Inl e | Inr zero \<Rightarrow>
      (case update_rex_account E owner zero zero False s of Inl e \<Rightarrow> Inl e | Inr (s1, _) \<Rightarrow>
      let no_fund = (case fmlookup (rexfunds s1) owner of None \<Rightarrow> False | Some b \<Rightarrow> amount b = 0);
          s2 = (if \<not> owns_loan owner (cpuloans s1) \<and> \<not> owns_loan owner (netloans s1) \<and> no_fund
                then s1\<lparr>rexfunds := fmdrop owner (rexfunds s1)\<rparr> else s1)
      in (case fmlookup (rexbalance s2) owner of
           None \<Rightarrow> Inr s2
         | Some rb \<Rightarrow>
             if amount (rex_bal rb) \<noteq> 0 then Inl (Check ''account has remaining REX balance, must sell first'') else
             Inr (s2\<lparr>rexbalance := fmdrop owner (rexbalance s2)\<rparr>))))))"

end
