(* ===== verification/Ram_Market.thy ===== *)
theory Ram_Market
  imports Rex
begin

section \<open>Buying and selling RAM\<close>

text \<open>
  The RAM market of \<open>delegate_bandwidth.cpp\<close> and the actions of \<open>eosio.system.cpp\<close> that set the
  amount of RAM.  RAM is traded against the core token on the Bancor exchange.  The
  invariant \<open>ram_inv\<close> says that the RAM on the market and the RAM already sold make up the RAM of
  the chain, that the accounts own exactly the RAM that was sold, and that the RAM
  account holds the tokens that were paid for it; every operation keeps it.
\<close>

subsection \<open>Operations\<close>

text \<open>\<open>m.base.balance.amount += n\<close>.\<close>

definition add_ram :: "int \<Rightarrow> exchange_state \<Rightarrow> exchange_state" where
  "add_ram n m = m\<lparr>base := (base m)\<lparr>cbalance := add_amt (cbalance (base m)) n\<rparr>\<rparr>"

definition setram :: "env \<Rightarrow> int \<Rightarrow> sys \<Rightarrow> sys result" where
  "setram E max_ram_size s =
     (if \<not> has_auth E (get_self E) then Inl Missing_auth else
      if \<not> g_max_ram_size (gstate s) < max_ram_size then Inl (Check ''ram may only be increased'') else
      if \<not> max_ram_size < 1024 * 1024 * 1024 * 1024 * 1024 then Inl (Check ''ram size is unrealistic'') else
      if \<not> g_total_ram_bytes_reserved (gstate s) < max_ram_size then Inl (Check ''attempt to set max below reserved'') else
      let delta = i64 (i64 max_ram_size - i64 (g_max_ram_size (gstate s)))
      in (case rammarket s of None \<Rightarrow> Inl No_row | Some mk \<Rightarrow>
         Inr (s\<lparr>rammarket := Some (add_ram delta mk),
                gstate := (gstate s)\<lparr>g_max_ram_size := max_ram_size\<rparr>\<rparr>)))"

definition update_ram_supply :: "env \<Rightarrow> sys \<Rightarrow> sys result" where
  "update_ram_supply E s =
     (let cbt = current_slot E; last_inc = g2_last_ram_increase (gstate2 s) in
      if cbt \<le> last_inc then Inr s else
      let new_ram = u32 (u32 (cbt - last_inc) * g2_new_ram_per_block (gstate2 s))
      in (case rammarket s of None \<Rightarrow> Inl No_row | Some mk \<Rightarrow>
         Inr (s\<lparr>rammarket := Some (add_ram new_ram mk),
                gstate := (gstate s)\<lparr>g_max_ram_size := u64 (g_max_ram_size (gstate s) + new_ram)\<rparr>,
                gstate2 := (gstate2 s)\<lparr>g2_last_ram_increase := cbt\<rparr>\<rparr>)))"

definition setramrate :: "env \<Rightarrow> int \<Rightarrow> sys \<Rightarrow> sys result" where
  "setramrate E bytes_per_block s =
     (if \<not> has_auth E (get_self E) then Inl Missing_auth else
      (case update_ram_supply E s of Inl e \<Rightarrow> Inl e | Inr s1 \<Rightarrow>
      Inr (s1\<lparr>gstate2 := (gstate2 s1)\<lparr>g2_new_ram_per_block := bytes_per_block\<rparr>\<rparr>)))"

text \<open>The RAM limit of an account whose RAM is not managed follows its row.\<close>

definition apply_ram_limit :: "name \<Rightarrow> int \<Rightarrow> sys \<Rightarrow> sys" where
  "apply_ram_limit x ram s =
     (if ram_managed s x then s
      else let (_, net, cpu) = res_limits s x in set_resource_limits x (i64 (ram + ram_gift_bytes)) net cpu s)"

definition ram_fee :: "int \<Rightarrow> int" where
  "ram_fee n = tdiv (i64 (n + 199)) 200"

definition buyram :: "env \<Rightarrow> name \<Rightarrow> name \<Rightarrow> asset \<Rightarrow> sys \<Rightarrow> sys result" where
  "buyram E payer receiver quant s0 =
     (if \<not> has_auth E payer then Inl Missing_auth else
      (case update_ram_supply E s0 of Inl e \<Rightarrow> Inl e | Inr s \<Rightarrow>
      (case core_symbol s of Inl e \<Rightarrow> Inl e | Inr y \<Rightarrow>
      if sym quant \<noteq> y then Inl (Check ''must buy ram with core token'') else
      if \<not> 0 < amount quant then Inl (Check ''must purchase a positive amount'') else
      let fee = set_amt quant (ram_fee (amount quant));
          quant_after_fee = add_amt quant (- amount fee);
          s1 = send_transfer payer ram_account quant_after_fee ''buy ram'' s
      in (case (if 0 < amount fee
                then channel_to_rex E ramfee_account fee False (send_transfer payer ramfee_account fee ''ram fee'' s1)
                else Inr s1) of Inl e \<Rightarrow> Inl e | Inr s2 \<Rightarrow>
      (case rammarket s2 of None \<Rightarrow> Inl (Check ''ram market does not exist'') | Some mk \<Rightarrow>
      (case direct_convert E mk quant_after_fee ram_symbol of Inl e \<Rightarrow> Inl e | Inr (mk', out) \<Rightarrow>
      let bytes_out = amount out in
      if \<not> 0 < bytes_out then Inl (Check ''must reserve a positive amount'') else
      (case (case fmlookup (userres s2) receiver of
              None \<Rightarrow> (case asset_new E 0 y of Inl e \<Rightarrow> Inl e | Inr zero \<Rightarrow>
                       Inr \<lparr>u_net_weight = zero, u_cpu_weight = zero, u_ram_bytes = bytes_out\<rparr>)
            | Some u \<Rightarrow> Inr (u\<lparr>u_ram_bytes := i64 (u_ram_bytes u + bytes_out)\<rparr>)) of Inl e \<Rightarrow> Inl e | Inr u \<Rightarrow>
      Inr (apply_ram_limit receiver (u_ram_bytes u)
        (s2\<lparr>rammarket := Some mk',
            gstate := (gstate s2)\<lparr>g_total_ram_bytes_reserved := u64 (g_total_ram_bytes_reserved (gstate s2) + u64 bytes_out),
                                 g_total_ram_stake := i64 (g_total_ram_stake (gstate s2) + amount quant_after_fee)\<rparr>,
            userres := fmupd receiver u (userres s2)\<rparr>)))))))))"

definition double_0_995 :: double where "double_0_995 = rnd (995 / 1000)"

definition buyrambytes :: "env \<Rightarrow> name \<Rightarrow> name \<Rightarrow> int \<Rightarrow> sys \<Rightarrow> sys result" where
  "buyrambytes E payer receiver bytes s =
     (case rammarket s of None \<Rightarrow> Inl No_row | Some mk \<Rightarrow>
      (case get_bancor_input (amount (cbalance (base mk))) (amount (cbalance (quote mk))) bytes of Inl e \<Rightarrow> Inl e | Inr cost \<Rightarrow>
      (case d_to_i64 (ddiv (d_of_int cost) double_0_995) of Inl e \<Rightarrow> Inl e | Inr cost_plus_fee \<Rightarrow>
      (case core_symbol s of Inl e \<Rightarrow> Inl e | Inr y \<Rightarrow>
      (case asset_new E cost_plus_fee y of Inl e \<Rightarrow> Inl e | Inr quant \<Rightarrow>
      buyram E payer receiver quant s)))))"

text \<open>The payments of a sale: the proceeds to the seller, then the fee to REX.\<close>

definition sellram_pay :: "env \<Rightarrow> name \<Rightarrow> asset \<Rightarrow> symbol \<Rightarrow> sys \<Rightarrow> sys result" where
  "sellram_pay E account tokens_out y s1 =
     (let s2 = send_transfer ram_account account tokens_out ''sell ram'' s1;
          fee = ram_fee (amount tokens_out)
      in if 0 < fee
         then (case asset_new E fee y of Inl e \<Rightarrow> Inl e | Inr f \<Rightarrow>
              channel_to_rex E ramfee_account f False (send_transfer account ramfee_account f ''sell ram fee'' s2))
         else Inr s2)"

definition sellram :: "env \<Rightarrow> name \<Rightarrow> int \<Rightarrow> sys \<Rightarrow> sys result" where
  "sellram E account bytes s0 =
     (if \<not> has_auth E account then Inl Missing_auth else
      (case update_ram_supply E s0 of Inl e \<Rightarrow> Inl e | Inr s \<Rightarrow>
      if \<not> 0 < bytes then Inl (Check ''cannot sell negative byte'') else
      (case fmlookup (userres s) account of None \<Rightarrow> Inl (Check ''no resource row'') | Some u \<Rightarrow>
      if \<not> bytes \<le> u_ram_bytes u then Inl (Check ''insufficient quota'') else
      (case rammarket s of None \<Rightarrow> Inl No_row | Some mk \<Rightarrow>
      (case asset_new E bytes ram_symbol of Inl e \<Rightarrow> Inl e | Inr ram \<Rightarrow>
      (case core_symbol s of Inl e \<Rightarrow> Inl e | Inr y \<Rightarrow>
      (case direct_convert E mk ram y of Inl e \<Rightarrow> Inl e | Inr (mk', tokens_out) \<Rightarrow>
      if \<not> 1 < amount tokens_out then Inl (Check ''token amount received from selling ram is too low'') else
      let stake = i64 (g_total_ram_stake (gstate s) - amount tokens_out) in
      if \<not> 0 \<le> stake then Inl (Check ''error, attempt to unstake more tokens than previously staked'') else
      let u' = u\<lparr>u_ram_bytes := i64 (u_ram_bytes u - bytes)\<rparr>;
          s1 = apply_ram_limit account (u_ram_bytes u')
                 (s\<lparr>rammarket := Some mk',
                    gstate := (gstate s)\<lparr>g_total_ram_bytes_reserved := u64 (g_total_ram_bytes_reserved (gstate s) - u64 bytes),
                                        g_total_ram_stake := stake\<rparr>,
                    userres := fmupd account u' (userres s)\<rparr>)
      in sellram_pay E account tokens_out y s1)))))))"

subsection \<open>Actions in sequence\<close>

datatype ram_action =
    Setram int
  | Setramrate int
  | Buyram name name asset
  | Buyrambytes name name int
  | Sellram name int

fun ram_step :: "env \<times> ram_action \<Rightarrow> sys \<Rightarrow> sys result" where
  "ram_step (E, Setram n) s = setram E n s"
| "ram_step (E, Setramrate n) s = setramrate E n s"
| "ram_step (E, Buyram payer receiver q) s = buyram E payer receiver q s"
| "ram_step (E, Buyrambytes payer receiver n) s = buyrambytes E payer receiver n s"
| "ram_step (E, Sellram x n) s = sellram E x n s"

subsection \<open>The invariant\<close>

definition ram_inv :: "sys \<Rightarrow> bool" where
  "ram_inv s \<longleftrightarrow>
     (\<exists>mk. rammarket s = Some mk \<and>
        u64 (amount (cbalance (base mk)) + g_total_ram_bytes_reserved (gstate s)) = u64 (g_max_ram_size (gstate s)) \<and>
        g_total_ram_stake (gstate s) \<le> amount (cbalance (quote mk)) \<and> amount (cbalance (quote mk)) \<le> max_amount) \<and>
     u64 (fmsum u_ram_bytes (userres s)) = g_total_ram_bytes_reserved (gstate s) \<and>
     0 \<le> g_total_ram_stake (gstate s)"

definition ram_backing :: "symcode \<Rightarrow> sys \<Rightarrow> int" where
  "ram_backing c s = net_flow (transfers_of (effects s)) ram_account c - g_total_ram_stake (gstate s)"

lemma apply_ram_limit_frame [simp]:
  "rammarket (apply_ram_limit x n s) = rammarket s" "gstate (apply_ram_limit x n s) = gstate s"
  "gstate2 (apply_ram_limit x n s) = gstate2 s"
  "userres (apply_ram_limit x n s) = userres s" "effects (apply_ram_limit x n s) = effects s"
  "rexpool (apply_ram_limit x n s) = rexpool s"
  by (simp_all add: apply_ram_limit_def set_resource_limits_def split: prod.splits)

lemma accounts_distinct:
  "ram_account \<noteq> ramfee_account" "ram_account \<noteq> rex_account" "ramfee_account \<noteq> rex_account"
  by (simp_all add: ram_account_def ramfee_account_def rex_account_def)

text \<open>Channelling a fee to REX changes neither the RAM accounting nor the RAM account.\<close>

lemma channel_ram:
  assumes "channel_to_rex E ramfee_account a req s = Inr s'"
  shows "rammarket s' = rammarket s" "gstate s' = gstate s" "userres s' = userres s" "ram_backing c s' = ram_backing c s"
proof -
  have "rammarket s' = rammarket s \<and> gstate s' = gstate s \<and> userres s' = userres s \<and> ram_backing c s' = ram_backing c s"
    using assms
  proof (cases rule: channel_to_rex_frame)
    case (2 memo)
    show ?thesis using nopool_fields [OF 2] accounts_distinct by (simp add: send_transfer_def ram_backing_def flow_def)
  qed simp
  then show "rammarket s' = rammarket s" "gstate s' = gstate s" "userres s' = userres s" "ram_backing c s' = ram_backing c s"
    by auto
qed

lemma u64_cong_add: "u64 a = u64 b \<Longrightarrow> u64 (a + n) = u64 (b + n)"
  by (metis u64_add_left)

lemma add_ram_simps [simp]:
  "quote (add_ram n mk) = quote mk" "amount (cbalance (base (add_ram n mk))) = i64 (amount (cbalance (base mk)) + n)"
  by (simp_all add: add_ram_def)

lemma ram_inv_grow:
  assumes "ram_inv s" "rammarket s = Some mk" "u64 (i64 n) = u64 (m - g_max_ram_size (gstate s))"
  shows "ram_inv (s\<lparr>rammarket := Some (add_ram n mk), gstate := (gstate s)\<lparr>g_max_ram_size := m\<rparr>\<rparr>)"
proof -
  have "u64 (amount (cbalance (base mk)) + g_total_ram_bytes_reserved (gstate s)) = u64 (g_max_ram_size (gstate s))"
    using assms by (simp add: ram_inv_def)
  from u64_cong_add [OF this, of n]
  have "u64 (amount (cbalance (base mk)) + n + g_total_ram_bytes_reserved (gstate s)) = u64 (g_max_ram_size (gstate s) + n)"
    by (simp add: algebra_simps)
  also have "\<dots> = u64 (g_max_ram_size (gstate s) + u64 (i64 n))" by (simp add: u64_ring)
  also have "\<dots> = u64 (g_max_ram_size (gstate s) + u64 (m - g_max_ram_size (gstate s)))" by (simp only: assms(3))
  also have "\<dots> = u64 m" by (simp add: u64_add_right)
  finally show ?thesis using assms(1,2) by (simp add: ram_inv_def u64_ring)
qed

lemma update_ram_supply_inv:
  assumes inv: "ram_inv s" and r: "update_ram_supply E s = Inr s'"
  shows "ram_inv s'" "ram_backing c s' = ram_backing c s" "core_symbol s' = core_symbol s" "userres s' = userres s"
    "effects s' = effects s"
proof -
  obtain mk where mk: "rammarket s = Some mk" using inv by (auto simp: ram_inv_def)
  let ?n = "u32 (u32 (current_slot E - g2_last_ram_increase (gstate2 s)) * g2_new_ram_per_block (gstate2 s))"
  define s1 where "s1 = s\<lparr>rammarket := Some (add_ram ?n mk), gstate := (gstate s)\<lparr>g_max_ram_size := u64 (g_max_ram_size (gstate s) + ?n)\<rparr>\<rparr>"
  have *: "s' = s \<or> s' = s1\<lparr>gstate2 := (gstate2 s)\<lparr>g2_last_ram_increase := current_slot E\<rparr>\<rparr>"
    using r mk by (auto simp: update_ram_supply_def Let_def s1_def split: if_splits)
  have "ram_inv s1" unfolding s1_def by (rule ram_inv_grow [OF inv mk]) (use u64_add_left [of "g_max_ram_size (gstate s) + ?n" "- g_max_ram_size (gstate s)"] in \<open>simp add: u64_i64\<close>)
  moreover have "ram_inv (t\<lparr>gstate2 := x\<rparr>) = ram_inv t" for t x by (simp add: ram_inv_def)
  ultimately show "ram_inv s'" using * inv by auto
  show "ram_backing c s' = ram_backing c s" "core_symbol s' = core_symbol s" "userres s' = userres s" "effects s' = effects s"
    using * mk by (auto simp: s1_def ram_backing_def core_symbol_def)
qed

lemma setram_inv:
  assumes inv: "ram_inv s" and r: "setram E n s = Inr s'"
  shows "ram_inv s'" "ram_backing c s' = ram_backing c s" "core_symbol s' = core_symbol s"
proof -
  obtain mk where mk: "rammarket s = Some mk" using inv by (auto simp: ram_inv_def)
  let ?d = "i64 (i64 n - i64 (g_max_ram_size (gstate s)))"
  have s': "s' = s\<lparr>rammarket := Some (add_ram ?d mk), gstate := (gstate s)\<lparr>g_max_ram_size := n\<rparr>\<rparr>"
    using r mk by (simp add: setram_def result_simps Let_def)
  show "ram_inv s'" unfolding s' by (rule ram_inv_grow [OF inv mk]) (simp add: u64_ring)
  show "ram_backing c s' = ram_backing c s" "core_symbol s' = core_symbol s" using mk by (simp_all add: s' ram_backing_def core_symbol_def)
qed

lemma setramrate_inv:
  assumes inv: "ram_inv s" and r: "setramrate E n s = Inr s'"
  shows "ram_inv s'" "ram_backing c s' = ram_backing c s" "core_symbol s' = core_symbol s"
proof -
  obtain s1 where s1: "update_ram_supply E s = Inr s1" "s' = s1\<lparr>gstate2 := (gstate2 s1)\<lparr>g2_new_ram_per_block := n\<rparr>\<rparr>"
    using r by (auto simp: setramrate_def result_simps)
  show "ram_inv s'" "ram_backing c s' = ram_backing c s" "core_symbol s' = core_symbol s"
    using update_ram_supply_inv [OF inv s1(1)] by (simp_all add: s1(2) ram_inv_def ram_backing_def core_symbol_def)
qed

lemma direct_convert_range:
  assumes E: "chain_laws E" and r: "direct_convert E x from to = Inr (x', out)"
  shows "amount (cbalance (quote x')) \<le> max_amount" "- max_amount \<le> amount (cbalance (quote x'))" "0 \<le> amount out"
  using r unfolding direct_convert_def get_bancor_output_def
  by (auto simp: result_simps Let_def split: if_splits dest!: chain_laws.add_exact [OF E] chain_laws.sub_exact [OF E])

text \<open>Moving \<open>n\<close> bytes between the market and an account, against \<open>k\<close> tokens.\<close>

lemma ram_inv_trade:
  assumes inv: "ram_inv s" and mk: "rammarket s = Some mk"
    and b: "amount (cbalance (base mk')) = amount (cbalance (base mk)) - n"
    and q: "amount (cbalance (quote mk')) = amount (cbalance (quote mk)) + k" "amount (cbalance (quote mk')) \<le> max_amount"
    and k: "0 \<le> g_total_ram_stake (gstate s) + k"
    and u: "u64 (u_ram_bytes u) = u64 (fmval u_ram_bytes (fmlookup (userres s) x) + n)"
    and s': "rammarket s' = Some mk'" "userres s' = fmupd x u (userres s)" "g_max_ram_size (gstate s') = g_max_ram_size (gstate s)"
      "g_total_ram_bytes_reserved (gstate s') = u64 (g_total_ram_bytes_reserved (gstate s) + n)"
      "g_total_ram_stake (gstate s') = i64 (g_total_ram_stake (gstate s) + k)"
  shows "ram_inv s' \<and> g_total_ram_stake (gstate s') = g_total_ram_stake (gstate s) + k"
proof -
  let ?r = "g_total_ram_bytes_reserved (gstate s)" and ?st = "g_total_ram_stake (gstate s)"
  have st: "?st + k \<le> amount (cbalance (quote mk'))" and r: "?r = u64 (fmsum u_ram_bytes (userres s))"
    and m: "u64 (amount (cbalance (base mk)) + ?r) = u64 (g_max_ram_size (gstate s))"
    using inv mk q by (simp_all add: ram_inv_def)
  have i: "i64 (?st + k) = ?st + k" using st q(2) k by (simp add: width_simps max_amount_def)
  have "u64 (amount (cbalance (base mk')) + u64 (?r + n)) = u64 (g_max_ram_size (gstate s))"
    using m b by (simp add: u64_ring)
  moreover have "u64 (fmsum u_ram_bytes (userres s')) = u64 (fmsum u_ram_bytes (userres s) + n)"
  proof -
    let ?S = "fmsum u_ram_bytes (userres s)" and ?v = "fmval u_ram_bytes (fmlookup (userres s) x)"
    have "u64 (?S - ?v + u_ram_bytes u) = u64 (?S - ?v + u64 (u_ram_bytes u))" by (simp add: u64_add_right)
    also have "\<dots> = u64 (?S - ?v + (?v + n))" by (simp only: u u64_add_right)
    finally show ?thesis by (simp add: s'(2) fmsum_upd)
  qed
  ultimately show ?thesis using i st q(2) k s' r by (simp add: ram_inv_def u64_ring)
qed

lemma ram_fee_bounds:
  assumes "0 < n" "n \<le> max_amount"
  shows "0 < ram_fee n" "ram_fee n \<le> n" "ram_fee n = (n + 199) div 200"
proof -
  have "i64 (n + 199) = n + 199" using assms by (simp add: width_simps max_amount_def)
  then show eq: "ram_fee n = (n + 199) div 200" using assms by (simp add: ram_fee_def tdiv_nonneg)
  show "0 < ram_fee n" "ram_fee n \<le> n" unfolding eq using assms by (auto simp: pos_imp_zdiv_pos_iff) 
qed

lemma direct_convert_to_base:
  assumes E: "chain_laws E" and y: "sym a = sym (cbalance (quote x))"
    and r: "direct_convert E x a to = Inr (x', out)"
  shows "amount (cbalance (quote x')) = amount (cbalance (quote x)) + amount a"
    "amount (cbalance (base x')) = amount (cbalance (base x)) - amount out"
proof -
  have "to \<noteq> sym a" using r by (auto simp: direct_convert_def)
  then show "amount (cbalance (quote x')) = amount (cbalance (quote x)) + amount a"
    "amount (cbalance (base x')) = amount (cbalance (base x)) - amount out"
    using direct_convert_Inr [OF E r] y by auto
qed

lemma direct_convert_to_quote:
  assumes E: "chain_laws E" and r: "direct_convert E x a (sym (cbalance (quote x))) = Inr (x', out)"
  shows "amount (cbalance (quote x')) = amount (cbalance (quote x)) - amount out"
    "amount (cbalance (base x')) = amount (cbalance (base x)) + amount a"
proof -
  have "sym (cbalance (quote x)) \<noteq> sym a" using r by (auto simp: direct_convert_def)
  then show "amount (cbalance (quote x')) = amount (cbalance (quote x)) - amount out"
    "amount (cbalance (base x')) = amount (cbalance (base x)) + amount a"
    using direct_convert_Inr [OF E r] by auto
qed

lemma core_symbol_Inr: "core_symbol s = Inr y \<longleftrightarrow> (\<exists>mk. rammarket s = Some mk \<and> y = sym (cbalance (quote mk)))"
  by (auto simp: core_symbol_def split: option.splits)

text \<open>The payments of a purchase before the conversion.\<close>

lemma buyram_payments:
  assumes r: "(if 0 < amount fee
              then channel_to_rex E ramfee_account fee False (send_transfer payer ramfee_account fee ''ram fee'' s1)
              else Inr s1) = Inr s2"
    and s1: "s1 = send_transfer payer ram_account q ''buy ram'' s" and p: "payer \<noteq> ram_account"
  shows "rammarket s2 = rammarket s" "gstate s2 = gstate s" "userres s2 = userres s"
    "ram_backing c s2 = ram_backing c s + (if scode (sym q) = c then amount q else 0)"
proof -
  have "ram_backing c (send_transfer payer ramfee_account fee m s1) = ram_backing c s1" for m
    using p accounts_distinct by (simp add: ram_backing_def send_transfer_def flow_def)
  moreover have "ram_backing c s1 = ram_backing c s + (if scode (sym q) = c then amount q else 0)"
    using p by (simp add: s1 ram_backing_def send_transfer_def flow_def)
  ultimately show "rammarket s2 = rammarket s" "gstate s2 = gstate s" "userres s2 = userres s"
    "ram_backing c s2 = ram_backing c s + (if scode (sym q) = c then amount q else 0)"
    using r s1 by (auto simp: channel_ram send_transfer_def split: if_splits)
qed

lemma buyram_inv:
  assumes E: "chain_laws E" and inv: "ram_inv s0" and c: "core_symbol s0 = Inr y" and p: "payer \<noteq> ram_account"
    and le: "amount quant \<le> max_amount" and r: "buyram E payer receiver quant s0 = Inr s'"
  shows "ram_inv s'" "ram_backing (scode y) s' = ram_backing (scode y) s0" "core_symbol s' = Inr y"
proof -
  define fee where "fee = set_amt quant (ram_fee (amount quant))"
  define q where "q = add_amt quant (- amount fee)"
  obtain s s2 mk mk' out u where up: "update_ram_supply E s0 = Inr s"
    and cs: "core_symbol s = Inr (sym quant)"
    and pay: "(if 0 < amount fee
              then channel_to_rex E ramfee_account fee False
                     (send_transfer payer ramfee_account fee ''ram fee'' (send_transfer payer ram_account q ''buy ram'' s))
              else Inr (send_transfer payer ram_account q ''buy ram'' s)) = Inr s2"
    and mk: "rammarket s2 = Some mk" and cv: "direct_convert E mk q ram_symbol = Inr (mk', out)"
    and u0: "(case fmlookup (userres s2) receiver of
              None \<Rightarrow> (case asset_new E 0 (sym quant) of Inl e \<Rightarrow> Inl e | Inr zero \<Rightarrow>
                       Inr \<lparr>u_net_weight = zero, u_cpu_weight = zero, u_ram_bytes = amount out\<rparr>)
            | Some u \<Rightarrow> Inr (u\<lparr>u_ram_bytes := i64 (u_ram_bytes u + amount out)\<rparr>)) = Inr u" and pos: "0 < amount quant"
    and s': "s' = apply_ram_limit receiver (u_ram_bytes u)
        (s2\<lparr>rammarket := Some mk',
            gstate := (gstate s2)\<lparr>g_total_ram_bytes_reserved := u64 (g_total_ram_bytes_reserved (gstate s2) + u64 (amount out)),
                                 g_total_ram_stake := i64 (g_total_ram_stake (gstate s2) + amount q)\<rparr>,
            userres := fmupd receiver u (userres s2)\<rparr>)"
    using r unfolding buyram_def fee_def [symmetric] Let_def q_def [symmetric]
    by (simp add: result_simps) blast
  have u: "u64 (u_ram_bytes u) = u64 (fmval u_ram_bytes (fmlookup (userres s2) receiver) + amount out)"
    using u0 by (auto simp: result_simps u64_ring split: option.splits)
  note us = update_ram_supply_inv [OF inv up]
  note py = buyram_payments [OF pay refl p]
  have "core_symbol s = Inr y" using us(3) c by simp
  then have y: "sym q = y" "sym (cbalance (quote mk)) = y"
    using cs mk py(1) by (auto simp: q_def core_symbol_def)
  have inv2: "ram_inv s2" using us(1) py by (simp add: ram_inv_def)
  note dc = direct_convert_to_base [OF E _ cv] and dr = direct_convert_range [OF E cv]
  have "amount q = amount quant - ram_fee (amount quant)"
    using ram_fee_bounds [OF pos le] le by (simp add: q_def fee_def width_simps max_amount_def)
  then have "0 \<le> g_total_ram_stake (gstate s2) + amount q"
    using ram_fee_bounds [OF pos le] inv2 by (simp add: ram_inv_def)
  then have "ram_inv s' \<and> g_total_ram_stake (gstate s') = g_total_ram_stake (gstate s2) + amount q"
    using dc dr y u by (intro ram_inv_trade [OF inv2 mk, of mk' "amount out" "amount q" u receiver]) (auto simp: s' u64_ring)
  moreover have "ram_backing (scode y) s' = ram_backing (scode y) s2 - (g_total_ram_stake (gstate s') - g_total_ram_stake (gstate s2))"
    by (simp add: ram_backing_def s')
  ultimately show "ram_inv s'" "ram_backing (scode y) s' = ram_backing (scode y) s0" "core_symbol s' = Inr y"
    using py(4) us(2) y direct_convert_syms(2) [OF E cv] by (auto simp: s' core_symbol_Inr)
qed

lemma buyrambytes_inv:
  assumes E: "chain_laws E" and inv: "ram_inv s" and c: "core_symbol s = Inr y" and p: "payer \<noteq> ram_account"
    and r: "buyrambytes E payer receiver n s = Inr s'"
  shows "ram_inv s'" "ram_backing (scode y) s' = ram_backing (scode y) s" "core_symbol s' = Inr y"
proof -
  obtain k q where q: "asset_new E k y = Inr q" "buyram E payer receiver q s = Inr s'"
    using r c by (auto simp: buyrambytes_def result_simps)
  have "amount q \<le> max_amount" using chain_laws.new_exact [OF E q(1)] chain_laws.new_range [OF E q(1)] by simp
  from buyram_inv [OF E inv c p this q(2)]
  show "ram_inv s'" "ram_backing (scode y) s' = ram_backing (scode y) s" "core_symbol s' = Inr y" by auto
qed

lemma sellram_payments:
  assumes r: "sellram_pay E x q y s1 = Inr s'" and x: "x \<noteq> ram_account"
  shows "rammarket s' = rammarket s1" "gstate s' = gstate s1" "userres s' = userres s1"
    "ram_backing c s' = ram_backing c s1 - (if scode (sym q) = c then amount q else 0)"
proof -
  define s2 where "s2 = send_transfer ram_account x q ''sell ram'' s1"
  have "ram_backing c (send_transfer x ramfee_account f m s2) = ram_backing c s2" for f m
    using x accounts_distinct by (simp add: ram_backing_def send_transfer_def flow_def)
  moreover have "ram_backing c s2 = ram_backing c s1 - (if scode (sym q) = c then amount q else 0)"
    using x by (simp add: s2_def ram_backing_def send_transfer_def flow_def)
  ultimately show "rammarket s' = rammarket s1" "gstate s' = gstate s1" "userres s' = userres s1"
    "ram_backing c s' = ram_backing c s1 - (if scode (sym q) = c then amount q else 0)"
    using r unfolding sellram_pay_def s2_def [symmetric] Let_def
    by (auto simp: channel_ram send_transfer_def result_simps s2_def split: if_splits)
qed

lemma sellram_inv:
  assumes E: "chain_laws E" and inv: "ram_inv s0" and c: "core_symbol s0 = Inr y" and x: "x \<noteq> ram_account"
    and r: "sellram E x n s0 = Inr s'"
  shows "ram_inv s'" "ram_backing (scode y) s' = ram_backing (scode y) s0" "core_symbol s' = Inr y"
proof -
  obtain s u mk ram y' mk' out where up: "update_ram_supply E s0 = Inr s" and u: "fmlookup (userres s) x = Some u"
    and mk: "rammarket s = Some mk" and ram: "asset_new E n ram_symbol = Inr ram" and y': "core_symbol s = Inr y'"
    and cv: "direct_convert E mk ram y' = Inr (mk', out)"
    and st: "0 \<le> i64 (g_total_ram_stake (gstate s) - amount out)"
    and pay: "sellram_pay E x out y' (apply_ram_limit x (i64 (u_ram_bytes u - n))
                 (s\<lparr>rammarket := Some mk',
                    gstate := (gstate s)\<lparr>g_total_ram_bytes_reserved := u64 (g_total_ram_bytes_reserved (gstate s) - u64 n),
                                        g_total_ram_stake := i64 (g_total_ram_stake (gstate s) - amount out)\<rparr>,
                    userres := fmupd x (u\<lparr>u_ram_bytes := i64 (u_ram_bytes u - n)\<rparr>) (userres s)\<rparr>)) = Inr s'"
    using r unfolding sellram_def Let_def by (simp add: result_simps) blast
  note us = update_ram_supply_inv [OF inv up] and py = sellram_payments [OF pay x]
  have yy: "y' = y" "sym (cbalance (quote mk)) = y" using y' us(3) c mk by (auto simp: core_symbol_def)
  have n: "amount ram = n" using chain_laws.new_exact [OF E ram] by simp
  note cv' = cv [unfolded yy(1) yy(2) [symmetric]]
  note dc = direct_convert_to_quote [OF E cv'] and dr = direct_convert_range [OF E cv]
  have so: "sym out = y" using direct_convert_Inr [OF E cv] yy by simp
  let ?st = "g_total_ram_stake (gstate s)"
  have le: "0 \<le> ?st" "?st \<le> amount (cbalance (quote mk))" "amount (cbalance (quote mk)) \<le> max_amount"
    using us(1) mk by (auto simp: ram_inv_def)
  have ob: "amount out \<le> ?st"
  proof (rule ccontr)
    assume "\<not> amount out \<le> ?st"
    then have "i64 (?st - amount out) = ?st - amount out"
      using le dr dc by (simp add: width_simps max_amount_def)
    then show False using st \<open>\<not> amount out \<le> ?st\<close> by simp
  qed
  have "ram_inv s' \<and> g_total_ram_stake (gstate s') = ?st + - amount out"
    using dc dr u n ob
    by (intro ram_inv_trade [OF us(1) mk, of mk' "- n" "- amount out" "u\<lparr>u_ram_bytes := i64 (u_ram_bytes u - n)\<rparr>" x])
      (auto simp: py u64_ring)
  moreover have "ram_backing (scode y) s' = ram_backing (scode y) s"
    using py(4) [of "scode y"] so calculation le ob dr by (simp add: ram_backing_def width_simps max_amount_def)
  ultimately show "ram_inv s'" "ram_backing (scode y) s' = ram_backing (scode y) s0" "core_symbol s' = Inr y"
    using us(2) yy direct_convert_syms(2) [OF E cv] py(1) by (auto simp: core_symbol_Inr)
qed

fun ram_action_ok :: "ram_action \<Rightarrow> bool" where
  "ram_action_ok (Buyram payer _ q) \<longleftrightarrow> payer \<noteq> ram_account \<and> amount q \<le> max_amount"
| "ram_action_ok (Buyrambytes payer _ _) \<longleftrightarrow> payer \<noteq> ram_account"
| "ram_action_ok (Sellram x _) \<longleftrightarrow> x \<noteq> ram_account"
| "ram_action_ok _ \<longleftrightarrow> True"

lemma ram_step_inv:
  assumes "chain_laws E" "ram_action_ok a" "ram_inv s" "core_symbol s = Inr y" "ram_step (E, a) s = Inr s'"
  shows "ram_inv s' \<and> ram_backing (scode y) s' = ram_backing (scode y) s \<and> core_symbol s' = Inr y"
  using assms setram_inv [OF assms(3)] setramrate_inv [OF assms(3)] buyram_inv [OF assms(1,3,4)]
    buyrambytes_inv [OF assms(1,3,4)] sellram_inv [OF assms(1,3,4)]
  by (cases a) auto

lemma ram_run_inv:
  assumes "\<forall>(E, a)\<in>set as. chain_laws E \<and> ram_action_ok a" "ram_inv s" "core_symbol s = Inr y"
    "run_actions ram_step as s = Inr s'"
  shows "ram_inv s' \<and> ram_backing (scode y) s' = ram_backing (scode y) s"
  using assms
proof (induction as arbitrary: s)
  case (Cons ea as)
  obtain E a where ea: "ea = (E, a)" by (cases ea)
  obtain s1 where s1: "ram_step (E, a) s = Inr s1" "run_actions ram_step as s1 = Inr s'"
    using Cons.prems(4) by (auto simp: ea result_simps)
  have 1: "ram_inv s1 \<and> ram_backing (scode y) s1 = ram_backing (scode y) s \<and> core_symbol s1 = Inr y"
    using Cons.prems by (intro ram_step_inv [OF _ _ _ _ s1(1)]) (auto simp: ea)
  have "ram_inv s' \<and> ram_backing (scode y) s' = ram_backing (scode y) s1"
    using Cons.prems 1 by (intro Cons.IH [OF _ _ _ s1(2)]) auto
  then show ?case using 1 by simp
qed simp

subsection \<open>Properties\<close>

text \<open>
  C17. Conservation on the RAM market: after any sequence of purchases, sales and changes of the amount of
  RAM, the RAM on the market and the RAM sold make up the RAM of the chain, the accounts
  own exactly the RAM that was sold (both modulo \<open>2 ^ 64\<close>, the width of the counters), and the tokens that the RAM account received in
  between are exactly what the recorded RAM stake grew by.
\<close>

theorem ram_market_conserved:
  assumes "\<forall>(E, a)\<in>set as. chain_laws E \<and> ram_action_ok a" and "ram_inv s" and "core_symbol s = Inr y"
    and "run_actions ram_step as s = Inr s'"
  shows "ram_inv s' \<and>
    net_flow (transfers_of (effects s')) ram_account (scode y) - net_flow (transfers_of (effects s)) ram_account (scode y) =
    g_total_ram_stake (gstate s') - g_total_ram_stake (gstate s)"
  using ram_run_inv [OF assms] by (simp add: ram_backing_def)

definition demo_ram :: "(env \<times> ram_action) list" where
  "demo_ram = [(sdk_env eosio_account 3, Buyram 10 11 (core 10000)), (sdk_env eosio_account 4, Sellram 11 20000000),
     (sdk_env eosio_account 5, Setram 13000000000)]"

theorem ram_market_conserved_witness:
  "\<exists>s'. run_actions ram_step demo_ram sys0 = Inr s' \<and> ram_inv s' \<and> 0 < g_total_ram_stake (gstate s') \<and>
    net_flow (transfers_of (effects s')) ram_account (scode core_sym) = g_total_ram_stake (gstate s')"
proof -
  have ok: "\<forall>(E, a)\<in>set demo_ram. chain_laws E \<and> ram_action_ok a"
    using sdk.chain_laws_axioms by (simp add: demo_ram_def ram_account_def core_def max_amount_def)
  have inv: "ram_inv sys0" by (simp add: ram_inv_def sys0_def core_def u64_def max_amount_def)
  have "case run_actions ram_step demo_ram sys0 of Inl e \<Rightarrow> False | Inr s' \<Rightarrow> 0 < g_total_ram_stake (gstate s')"
    by code_simp
  then obtain s' where s': "run_actions ram_step demo_ram sys0 = Inr s'" "0 < g_total_ram_stake (gstate s')"
    by (auto split: sum.splits)
  show ?thesis using ram_market_conserved [OF ok inv core_symbol_sys0 s'(1)] s' by (auto simp: sys0_def)
qed

end
