(* ===== verification/Rex_Frame.thy ===== *)
theory Rex_Frame
  imports Rex
begin

section \<open>What the resource exchange leaves alone\<close>

text \<open>
  Other parts of the system contract run next to REX and are called by it.  The locale
  \<open>rex_observer\<close> describes a view of the state that does not look at the tables of REX and of
  voting; it is proved once that the maintenance run and the helpers of REX do not change such
  a view.  The staking, the name auction and the RAM market interpret it.
\<close>

definition fee_accounts :: "name set" where
  "fee_accounts = {names_account, ramfee_account}"

lemma fee_accounts_simps [simp]: "names_account \<in> fee_accounts" "ramfee_account \<in> fee_accounts"
  by (simp_all add: fee_accounts_def)

text \<open>Changing the limits touches one row of the totals and keeps its RAM.\<close>

lemma bandwidth_row_ram: "bandwidth_row E y n c s = Inr u \<Longrightarrow> u_ram_bytes u = fmval u_ram_bytes (fmlookup (userres s) y)"
  by (auto simp: bandwidth_row_def result_simps split: option.splits)

lemma store_bandwidth_shape:
  fixes t y u s
  defines "t \<equiv> store_bandwidth y u s"
  shows "t = s\<lparr>res_limits := res_limits t, userres := fmupd y u (userres s)\<rparr> \<or>
     u_ram_bytes u = 0 \<and> t = s\<lparr>res_limits := res_limits t, userres := fmdrop y (userres s)\<rparr>"
  by (cases "res_limits s y") (simp add: t_def store_bandwidth_def set_resource_limits_def Let_def)

lemma update_resource_limits_shape:
  assumes "update_resource_limits E x y n c s = Inr s'"
  obtains "s' = s" | u re where "u_ram_bytes u = fmval u_ram_bytes (fmlookup (userres s) y)"
    "s' = s\<lparr>res_limits := re, userres := fmupd y u (userres s)\<rparr> \<or>
     u_ram_bytes u = 0 \<and> s' = s\<lparr>res_limits := re, userres := fmdrop y (userres s)\<rparr>"
proof (cases "c = 0 \<and> n = 0")
  case True
  then have "s' = s" using assms by (simp add: update_resource_limits_def)
  then show ?thesis by (rule that(1))
next
  case False
  then obtain u where u: "bandwidth_row E y n c s = Inr u" and s': "store_bandwidth y u s = s'"
    using assms unfolding update_resource_limits_def by (simp only: if_False result_simps) blast
  show ?thesis by (rule that(2) [OF bandwidth_row_ram [OF u] store_bandwidth_shape [of y u s, unfolded s']])
qed

locale rex_observer =
  fixes obs :: "sys \<Rightarrow> 'a"
  assumes obs_votes: "novotes s' = novotes s \<Longrightarrow> obs s' = obs s"
    and obs_pool: "nopool s' = nopool s \<Longrightarrow> obs s' = obs s"
    and obs_tables [simp]:
      "obs (s\<lparr>rexfunds := fu\<rparr>) = obs s" "obs (s\<lparr>rexbalance := ba\<rparr>) = obs s" "obs (s\<lparr>rexorders := os\<rparr>) = obs s"
      "obs (s\<lparr>cpuloans := lo\<rparr>) = obs s" "obs (s\<lparr>netloans := lo\<rparr>) = obs s" "obs (s\<lparr>res_limits := re\<rparr>) = obs s"
    and obs_userres: "fmsum u_ram_bytes m = fmsum u_ram_bytes (userres s) \<Longrightarrow> obs (s\<lparr>userres := m\<rparr>) = obs s"
    and obs_result [simp]: "obs (emit (Inline_result r as) s) = obs s"
    and obs_fee: "x \<in> fee_accounts \<Longrightarrow> obs (send_transfer x rex_account a memo s) = obs s"
begin

lemma obs_update_rex_pool: "update_rex_pool E s = Inr s' \<Longrightarrow> obs s' = obs s"
  by (rule obs_pool) (rule update_rex_pool_frame)

lemma obs_rexpool [simp]: "obs (s\<lparr>rexpool := p\<rparr>) = obs s"
  by (rule obs_pool) (simp add: nopool_def)

lemma obs_voters [simp]: "obs (s\<lparr>voters := v\<rparr>) = obs s"
  by (rule obs_votes) simp

lemma obs_return_pool: "add_to_rex_return_pool E fee s = Inr s' \<Longrightarrow> obs s' = obs s"
  by (rule obs_pool) (rule add_to_rex_return_pool_frame)

lemma obs_channel: "channel_to_rex E x a req s = Inr s' \<Longrightarrow> x \<in> fee_accounts \<Longrightarrow> obs s' = obs s"
  by (auto simp: channel_to_rex_def result_simps obs_fee split: if_splits dest!: obs_return_pool)

lemma obs_to_fund: "transfer_to_fund x a s = Inr s' \<Longrightarrow> obs s' = obs s"
  by (auto simp: transfer_to_fund_def result_simps split: option.splits)

lemma obs_from_fund: "transfer_from_fund E x a s = Inr s' \<Longrightarrow> obs s' = obs s"
  by (auto simp: transfer_from_fund_def result_simps split: option.splits)

lemma obs_limits:
  assumes "update_resource_limits E x y n c s = Inr s'"
  shows "obs s' = obs s"
  using assms
proof (cases rule: update_resource_limits_shape)
  case (2 u re)
  have "obs (s\<lparr>res_limits := re, userres := m\<rparr>) = obs s" if "fmsum u_ram_bytes m = fmsum u_ram_bytes (userres s)" for m
    using obs_userres [of m "s\<lparr>res_limits := re\<rparr>"] that by simp
  then show ?thesis using 2 by (auto simp: fmsum_upd fmsum_drop)
qed simp

lemma obs_set_loans [simp]: "obs (set_loans cpu m s) = obs s"
  by (simp add: set_loans_def)

lemma obs_remove_loan: "remove_loan_from_rex_pool l s = Inr s' \<Longrightarrow> obs s' = obs s"
  by (auto simp: remove_loan_from_rex_pool_def result_simps Let_def)

lemma obs_add_loan: "add_loan_to_rex_pool E p n new s = Inr s' \<Longrightarrow> obs s' = obs s"
  by (auto simp: add_loan_to_rex_pool_def result_simps dest!: obs_return_pool)

lemma obs_expired: "process_expired_loan E cpu k l s = Inr (s', b, n) \<Longrightarrow> obs s' = obs s"
  by (auto simp: process_expired_loan_def result_simps Let_def split: if_splits
      dest!: obs_remove_loan obs_add_loan obs_to_fund)

lemma obs_loan_loop: "loan_loop E cpu n s = Inr s' \<Longrightarrow> obs s' = obs s"
proof (induction n arbitrary: s)
  case (Suc n)
  then show ?case
    by (auto simp: result_simps split: option.splits if_splits dest!: obs_expired obs_limits)
qed simp

lemma obs_fill_order: "fill_rex_order E x r s = Inr (s', oc) \<Longrightarrow> obs s' = obs s"
proof -
  have "obs (s\<lparr>rexpool := p, rexbalance := b\<rparr>) = obs s" for p b by simp
  then show "fill_rex_order E x r s = Inr (s', oc) \<Longrightarrow> obs s' = obs s"
    by (auto simp: fill_rex_order_def result_simps Let_def split: if_splits)
qed

lemma obs_order_loop: "order_loop E n os s = Inr s' \<Longrightarrow> obs s' = obs s"
proof (induction n arbitrary: os s)
  case (Suc n)
  show ?case
  proof (cases os)
    case (Cons od os')
    obtain x ord where od: "od = (x, ord)" by (cases od)
    show ?thesis
      using Suc.prems
      by (auto simp: Cons od result_simps split: if_splits dest!: obs_fill_order Suc.IH)
  qed (use Suc.prems in simp)
qed simp

lemma obs_runrex: "runrex E n s = Inr s' \<Longrightarrow> obs s' = obs s"
  by (auto simp: runrex_def result_simps split: if_splits
      dest!: obs_update_rex_pool obs_loan_loop obs_order_loop obs_channel)

lemma obs_voting_power: "update_voting_power E x a s = Inr s' \<Longrightarrow> obs s' = obs s"
  by (rule obs_votes) (rule update_voting_power_frame)

lemma obs_settle: "settle_order x p d zero s = (fu, st, a, s') \<Longrightarrow> obs s' = obs s"
  by (auto simp: settle_order_def split: option.splits if_splits)

lemma obs_rex_account:
  assumes "update_rex_account E x p d f s = Inr (s', a)"
  shows "obs s' = obs s"
  using assms
proof (cases rule: update_rex_account_steps)
  case (1 zero fu st s1 s2)
  have "obs s2 = obs s1" using 1(3) obs_to_fund by (auto split: if_splits)
  moreover have "obs s' = obs s2" using 1(4) obs_voting_power by (auto split: if_splits)
  ultimately show ?thesis using obs_settle [OF 1(2)] by simp
qed

lemma obs_add_to_pool: "add_to_rex_pool E p s = Inr (s', a) \<Longrightarrow> obs s' = obs s"
  by (auto simp: add_to_rex_pool_def result_simps Let_def split: option.splits if_splits)

lemma obs_add_to_balance: "add_to_rex_balance E x p r s = Inr (s', a) \<Longrightarrow> obs s' = obs s"
  by (auto simp: add_to_rex_balance_def result_simps Let_def case_prod_unfold)

lemma obs_rex_stake: "update_rex_stake E x s = Inr s' \<Longrightarrow> obs s' = obs s"
  by (auto simp: update_rex_stake_def result_simps Let_def split: option.splits if_splits)

end

end
