(* ===== verification/Delegate_Bandwidth.thy ===== *)
theory Delegate_Bandwidth
  imports Ram_Market Rex_Frame
begin

section \<open>Staking for bandwidth\<close>

text \<open>
  Delegating and undelegating bandwidth, the refund of unstaked tokens and the vote actions that
  depend on the stake (\<open>delegate_bandwidth.cpp\<close> and \<open>voting.cpp\<close>).  \<open>changebw\<close> is split along its blocks: the row of the
  delegation, the totals of the receiver, the refund request, the votes.  The
  main result is that the delegated tokens and the pending refunds are
  backed, token for token, by what the stake account received.
\<close>

subsection \<open>Operations\<close>

text \<open>The block \<open>update stake delegated from "from" to "receiver"\<close>.\<close>

definition delegation_row :: "env \<Rightarrow> asset \<Rightarrow> asset \<Rightarrow> delegated_bandwidth option \<Rightarrow> delegated_bandwidth result" where
  "delegation_row E net cpu row =
     (case row of
        None \<Rightarrow> Inr \<lparr>d_net_weight = net, d_cpu_weight = cpu\<rparr>
      | Some d \<Rightarrow>
          (case asset_add E (d_net_weight d) net of Inl e \<Rightarrow> Inl e | Inr n \<Rightarrow>
          (case asset_add E (d_cpu_weight d) cpu of Inl e \<Rightarrow> Inl e | Inr c \<Rightarrow>
          Inr \<lparr>d_net_weight = n, d_cpu_weight = c\<rparr>)))"

definition change_delegation :: "env \<Rightarrow> name \<Rightarrow> name \<Rightarrow> asset \<Rightarrow> asset \<Rightarrow> sys \<Rightarrow> sys result" where
  "change_delegation E from receiver net cpu s =
     (case delegation_row E net cpu (fmlookup (delband s) (from, receiver)) of Inl e \<Rightarrow> Inl e | Inr d \<Rightarrow>
      if \<not> 0 \<le> amount (d_net_weight d) then Inl (Check ''insufficient staked net bandwidth'') else
      if \<not> 0 \<le> amount (d_cpu_weight d) then Inl (Check ''insufficient staked cpu bandwidth'') else
      Inr (s\<lparr>delband := (if amount (d_net_weight d) = 0 \<and> amount (d_cpu_weight d) = 0
                         then fmdrop (from, receiver) (delband s) else fmupd (from, receiver) d (delband s))\<rparr>))"

text \<open>The block \<open>update totals of "receiver"\<close>.\<close>

definition totals_row :: "env \<Rightarrow> asset \<Rightarrow> asset \<Rightarrow> user_resources option \<Rightarrow> user_resources result" where
  "totals_row E net cpu row =
     (case row of
        None \<Rightarrow> Inr \<lparr>u_net_weight = net, u_cpu_weight = cpu, u_ram_bytes = 0\<rparr>
      | Some u \<Rightarrow>
          (case asset_add E (u_net_weight u) net of Inl e \<Rightarrow> Inl e | Inr n \<Rightarrow>
          (case asset_add E (u_cpu_weight u) cpu of Inl e \<Rightarrow> Inl e | Inr c \<Rightarrow>
          Inr (u\<lparr>u_net_weight := n, u_cpu_weight := c\<rparr>))))"

definition limits_after :: "name \<Rightarrow> user_resources \<Rightarrow> sys \<Rightarrow> sys" where
  "limits_after receiver u s =
     (let rm = ram_managed s receiver; nm = net_managed s receiver; cm = cpu_managed s receiver;
          (ram, n, c) = res_limits s receiver
      in if nm \<and> cm then s
         else set_resource_limits receiver
                (if rm then ram else max (i64 (u_ram_bytes u + ram_gift_bytes)) ram)
                (if nm then n else amount (u_net_weight u)) (if cm then c else amount (u_cpu_weight u)) s)"

definition change_totals :: "env \<Rightarrow> name \<Rightarrow> asset \<Rightarrow> asset \<Rightarrow> sys \<Rightarrow> sys result" where
  "change_totals E receiver net cpu s =
     (case totals_row E net cpu (fmlookup (userres s) receiver) of Inl e \<Rightarrow> Inl e | Inr u \<Rightarrow>
      if \<not> 0 \<le> amount (u_net_weight u) then Inl (Check ''insufficient staked total net bandwidth'') else
      if \<not> 0 \<le> amount (u_cpu_weight u) then Inl (Check ''insufficient staked total cpu bandwidth'') else
      Inr ((limits_after receiver u s)\<lparr>userres :=
             (if amount (u_net_weight u) = 0 \<and> amount (u_cpu_weight u) = 0 \<and> u_ram_bytes u = 0
              then fmdrop receiver (userres s) else fmupd receiver u (userres s))\<rparr>))"

text \<open>
  Taking \<open>delta\<close> out of a pending refund: the new refund and what is left of the delta.
\<close>

definition take_from_refund :: "env \<Rightarrow> asset \<Rightarrow> asset \<Rightarrow> (asset \<times> asset) result" where
  "take_from_refund E pending delta =
     (case asset_sub E pending delta of Inl e \<Rightarrow> Inl e | Inr p \<Rightarrow>
      if amount p < 0 then Inr (set_amt p 0, asset_neg E p) else Inr (p, set_amt delta 0))"

text \<open>Updating an existing refund request and creating a new one, each with the balances
  that are left to transfer.\<close>

definition update_refund :: "env \<Rightarrow> asset \<Rightarrow> asset \<Rightarrow> refund_request \<Rightarrow> (refund_request \<times> asset \<times> asset) result" where
  "update_refund E net cpu r =
     (let t = (if amount net < 0 \<or> amount cpu < 0 then current_sec E else request_time r)
      in (case take_from_refund E (net_amount r) net of Inl e \<Rightarrow> Inl e | Inr (rn, net') \<Rightarrow>
         (case take_from_refund E (cpu_amount r) cpu of Inl e \<Rightarrow> Inl e | Inr (rc, cpu') \<Rightarrow>
         Inr (\<lparr>request_time = t, net_amount = rn, cpu_amount = rc\<rparr>, net', cpu'))))"

definition new_refund :: "env \<Rightarrow> asset \<Rightarrow> asset \<Rightarrow> asset \<Rightarrow> refund_request \<times> asset \<times> asset" where
  "new_refund E zero net cpu =
     (let (rn, net') = (if amount net < 0 then (asset_neg E net, set_amt net 0) else (zero, net));
          (rc, cpu') = (if amount cpu < 0 then (asset_neg E cpu, set_amt cpu 0) else (zero, cpu))
      in (\<lparr>request_time = current_sec E, net_amount = rn, cpu_amount = rc\<rparr>, net', cpu'))"

text \<open>The block \<open>create/update/delete refund\<close>: the state, the balances left to transfer, and
  whether a deferred refund is needed.\<close>

definition change_refund :: "env \<Rightarrow> name \<Rightarrow> asset \<Rightarrow> asset \<Rightarrow> sys \<Rightarrow> (sys \<times> asset \<times> asset \<times> bool) result" where
  "change_refund E from net cpu s =
     (case fmlookup (refunds s) from of
        Some r0 \<Rightarrow>
          (case update_refund E net cpu r0 of Inl e \<Rightarrow> Inl e | Inr (r, net', cpu') \<Rightarrow>
          if \<not> 0 \<le> amount (net_amount r) then Inl (Check ''negative net refund amount'') else
          if \<not> 0 \<le> amount (cpu_amount r) then Inl (Check ''negative cpu refund amount'') else
          if amount (net_amount r) = 0 \<and> amount (cpu_amount r) = 0
          then Inr (s\<lparr>refunds := fmdrop from (refunds s)\<rparr>, net', cpu', False)
          else Inr (s\<lparr>refunds := fmupd from r (refunds s)\<rparr>, net', cpu', True))
      | None \<Rightarrow>
          if amount net < 0 \<or> amount cpu < 0 then
            (case core_zero E s of Inl e \<Rightarrow> Inl e | Inr zero \<Rightarrow>
             let (r, net', cpu') = new_refund E zero net cpu
             in Inr (s\<lparr>refunds := fmupd from r (refunds s)\<rparr>, net', cpu', True))
          else Inr (s, net, cpu, False))"

text \<open>The refund block with its deferred transaction and the transfer of what is newly staked.\<close>

definition settle_stake :: "env \<Rightarrow> name \<Rightarrow> name \<Rightarrow> name \<Rightarrow> asset \<Rightarrow> asset \<Rightarrow> bool \<Rightarrow> sys \<Rightarrow> sys result" where
  "settle_stake E source from receiver net cpu transfer s =
     (case (if (\<not> transfer \<and> from = receiver) \<or> i64 (amount net + amount cpu) < 0
            then change_refund E from net cpu s else Inr (s, net, cpu, False)) of
        Inl e \<Rightarrow> Inl e
      | Inr (s1, net', cpu', need_deferred) \<Rightarrow>
          let s2 = emit (Cancel_deferred from) s1;
              s3 = (if need_deferred then emit (Defer_refund from refund_delay_sec) s2 else s2)
          in (case asset_add E net' cpu' of Inl e \<Rightarrow> Inl e | Inr transfer_amount \<Rightarrow>
             Inr (if 0 < amount transfer_amount
                  then send_transfer source stake_account transfer_amount ''stake bandwidth'' s3 else s3)))"

definition changebw :: "env \<Rightarrow> name \<Rightarrow> name \<Rightarrow> asset \<Rightarrow> asset \<Rightarrow> bool \<Rightarrow> sys \<Rightarrow> sys result" where
  "changebw E source receiver net cpu transfer s =
     (if \<not> has_auth E source then Inl Missing_auth else
      if \<not> (amount net \<noteq> 0 \<or> amount cpu \<noteq> 0) then Inl (Check ''should stake non-zero amount'') else
      (case asset_add E net cpu of Inl e \<Rightarrow> Inl e | Inr total_delta \<Rightarrow>
      if \<not> max \<bar>amount net\<bar> \<bar>amount cpu\<bar> \<le> \<bar>amount total_delta\<bar>
      then Inl (Check ''net and cpu deltas cannot be opposite signs'') else
      let from = (if transfer then receiver else source) in
      (case change_delegation E from receiver net cpu s of Inl e \<Rightarrow> Inl e | Inr s1 \<Rightarrow>
      (case change_totals E receiver net cpu s1 of Inl e \<Rightarrow> Inl e | Inr s2 \<Rightarrow>
      (case (if stake_account \<noteq> source then settle_stake E source from receiver net cpu transfer s2 else Inr s2) of
        Inl e \<Rightarrow> Inl e | Inr s3 \<Rightarrow>
      (case update_rex_stake E from s3 of Inl e \<Rightarrow> Inl e | Inr s4 \<Rightarrow>
      update_voting_power E from total_delta s4))))))"

definition decide_notice :: "name \<Rightarrow> name \<Rightarrow> sys \<Rightarrow> sys" where
  "decide_notice from receiver s = (if from = receiver then emit (Notify decide_account) s else s)"

definition delegatebw :: "env \<Rightarrow> name \<Rightarrow> name \<Rightarrow> asset \<Rightarrow> asset \<Rightarrow> bool \<Rightarrow> sys \<Rightarrow> sys result" where
  "delegatebw E from receiver net cpu transfer s =
     (case core_zero E s of Inl e \<Rightarrow> Inl e | Inr zero \<Rightarrow>
      (case asset_le E zero cpu of Inl e \<Rightarrow> Inl e | Inr c \<Rightarrow>
      if \<not> c then Inl (Check ''must stake a positive amount'') else
      (case asset_le E zero net of Inl e \<Rightarrow> Inl e | Inr n \<Rightarrow>
      if \<not> n then Inl (Check ''must stake a positive amount'') else
      if \<not> 0 < i64 (amount net + amount cpu) then Inl (Check ''must stake a positive amount'') else
      if \<not> (\<not> transfer \<or> from \<noteq> receiver) then Inl (Check ''cannot use transfer flag if delegating to self'') else
      (case changebw E from receiver net cpu transfer s of Inl e \<Rightarrow> Inl e | Inr s1 \<Rightarrow>
      Inr (decide_notice from receiver s1)))))"

definition undelegatebw :: "env \<Rightarrow> name \<Rightarrow> name \<Rightarrow> asset \<Rightarrow> asset \<Rightarrow> sys \<Rightarrow> sys result" where
  "undelegatebw E from receiver net cpu s =
     (case core_zero E s of Inl e \<Rightarrow> Inl e | Inr zero \<Rightarrow>
      (case asset_le E zero cpu of Inl e \<Rightarrow> Inl e | Inr c \<Rightarrow>
      if \<not> c then Inl (Check ''must unstake a positive amount'') else
      (case asset_le E zero net of Inl e \<Rightarrow> Inl e | Inr n \<Rightarrow>
      if \<not> n then Inl (Check ''must unstake a positive amount'') else
      if \<not> 0 < i64 (amount cpu + amount net) then Inl (Check ''must unstake a positive amount'') else
      if \<not> (block_num_network_activation < g_block_num (gstate s) \<or> 0 < g_thresh_activated_stake_time (gstate s))
      then Inl (Check ''cannot undelegate bandwidth until the chain is activated (1,000,000 blocks produced)'') else
      (case changebw E from receiver (asset_neg E net) (asset_neg E cpu) False s of Inl e \<Rightarrow> Inl e | Inr s1 \<Rightarrow>
      Inr (decide_notice from receiver s1)))))"

definition refund :: "env \<Rightarrow> name \<Rightarrow> sys \<Rightarrow> sys result" where
  "refund E owner s =
     (if \<not> has_auth E owner then Inl Missing_auth else
      (case fmlookup (refunds s) owner of
        None \<Rightarrow> Inl (Check ''refund request not found'')
      | Some r \<Rightarrow>
          if \<not> (request_time r + refund_delay_sec) * 1000000 \<le> current_time E
          then Inl (Check ''refund is not available yet'') else
          (case asset_add E (net_amount r) (cpu_amount r) of Inl e \<Rightarrow> Inl e | Inr q \<Rightarrow>
          Inr ((send_transfer stake_account owner q ''unstake'' s)\<lparr>refunds := fmdrop owner (refunds s)\<rparr>))))"

subsection \<open>Votes that follow the stake\<close>

definition voteproducer :: "env \<Rightarrow> name \<Rightarrow> name \<Rightarrow> name list \<Rightarrow> sys \<Rightarrow> sys result" where
  "voteproducer E voter proxy prods s =
     (if \<not> has_auth E voter then Inl Missing_auth else
      (case update_rex_stake E voter s of Inl e \<Rightarrow> Inl e | Inr s1 \<Rightarrow>
      update_votes E voter proxy prods True s1))"

text \<open>The tokens a voter delegates, over all receivers.\<close>

definition delegated_by :: "name \<Rightarrow> sys \<Rightarrow> int \<Rightarrow> int" where
  "delegated_by x s start =
     fold (\<lambda>to t. (case fmlookup (delband s) (x, to) of None \<Rightarrow> t
             | Some d \<Rightarrow> i64 (t + i64 (amount (d_net_weight d) + amount (d_cpu_weight d)))))
       (sorted_list_of_fset (snd |`| ffilter (\<lambda>k. fst k = x) (fmdom (delband s)))) start"

definition voteupdate :: "env \<Rightarrow> name \<Rightarrow> sys \<Rightarrow> sys result" where
  "voteupdate E voter s0 =
     (if fmlookup (voters s0) voter = None then Inl (Check ''no voter found'') else
      (case updaterex E voter s0 of Inl e \<Rightarrow> Inl e | Inr s \<Rightarrow>
      let rex_stake = (case fmlookup (rexbalance s) voter of None \<Rightarrow> 0
                       | Some rb \<Rightarrow> if 0 < amount (rex_bal rb) then amount (vote_stake rb) else 0);
          new_staked = delegated_by voter s rex_stake
      in (case fmlookup (voters s) voter of None \<Rightarrow> Inl No_row | Some v \<Rightarrow>
         let s1 = (if v_staked v \<noteq> new_staked
                   then s\<lparr>voters := fmupd voter (v\<lparr>v_staked := new_staked\<rparr>) (voters s)\<rparr> else s)
         in update_votes E voter (v_proxy v) (v_producers v) True s1)))"

subsection \<open>The invariant\<close>

definition pair_ok :: "symbol \<Rightarrow> asset \<Rightarrow> asset \<Rightarrow> bool" where
  "pair_ok y a b \<longleftrightarrow> sym a = y \<and> sym b = y \<and> 0 \<le> amount a \<and> amount a \<le> max_amount \<and> 0 \<le> amount b \<and> amount b \<le> max_amount"

definition stake_rows_ok :: "symbol \<Rightarrow> sys \<Rightarrow> bool" where
  "stake_rows_ok y s \<longleftrightarrow>
     (\<forall>k d. fmlookup (delband s) k = Some d \<longrightarrow> pair_ok y (d_net_weight d) (d_cpu_weight d)) \<and>
     (\<forall>k r. fmlookup (refunds s) k = Some r \<longrightarrow> pair_ok y (net_amount r) (cpu_amount r))"

definition delegated_tokens :: "sys \<Rightarrow> int" where
  "delegated_tokens s = fmsum (\<lambda>d. amount (d_net_weight d) + amount (d_cpu_weight d)) (delband s)"

definition refunding_tokens :: "sys \<Rightarrow> int" where
  "refunding_tokens s = fmsum (\<lambda>r. amount (net_amount r) + amount (cpu_amount r)) (refunds s)"

definition staked_tokens :: "sys \<Rightarrow> int" where
  "staked_tokens s = delegated_tokens s + refunding_tokens s"

text \<open>The view of the state that backs the stake; REX does not change it.\<close>

definition stake_view :: "sys \<Rightarrow> (name \<times> name, delegated_bandwidth) fmap \<times> (name, refund_request) fmap \<times> symbol result \<times> (symcode \<Rightarrow> int)" where
  "stake_view s = (delband s, refunds s, core_symbol s, \<lambda>c. net_flow (transfers_of (effects s)) stake_account c)"

lemma stake_not_fee: "stake_account \<notin> fee_accounts" "stake_account \<noteq> rex_account"
  by (simp_all add: fee_accounts_def stake_account_def names_account_def ramfee_account_def rex_account_def)

interpretation stake: rex_observer stake_view
proof
  fix s s' :: sys
  assume v: "novotes s' = novotes s"
  show "stake_view s' = stake_view s" using novotes_fields [OF v] by (simp add: stake_view_def core_symbol_def)
next
  fix s s' :: sys
  assume p: "nopool s' = nopool s"
  show "stake_view s' = stake_view s" using nopool_fields [OF p] by (simp add: stake_view_def core_symbol_def)
next
  fix x a memo s assume "x \<in> fee_accounts"
  then show "stake_view (send_transfer x rex_account a memo s) = stake_view s"
    using stake_not_fee by (auto simp: stake_view_def send_transfer_def core_symbol_def flow_def)
qed (simp_all add: stake_view_def core_symbol_def emit_def)

definition stake_backing :: "symcode \<Rightarrow> sys \<Rightarrow> int" where
  "stake_backing c s = net_flow (transfers_of (effects s)) stake_account c - staked_tokens s"

lemma stake_view_keeps:
  assumes "stake_view s' = stake_view s"
  shows "stake_rows_ok y s' = stake_rows_ok y s" "stake_backing c s' = stake_backing c s" "core_symbol s' = core_symbol s"
    "staked_tokens s' = staked_tokens s"
  using assms fun_cong [of "\<lambda>c. net_flow (transfers_of (effects s')) stake_account c" _ c]
  by (auto simp: stake_view_def stake_rows_ok_def stake_backing_def staked_tokens_def delegated_tokens_def refunding_tokens_def)

subsection \<open>The blocks of changebw\<close>

lemma change_delegation_ok:
  assumes E: "chain_laws E" and ok: "stake_rows_ok y s" and sy: "sym net = y" "sym cpu = y"
    and le: "amount net \<le> max_amount" "amount cpu \<le> max_amount"
    and r: "change_delegation E from receiver net cpu s = Inr s'"
  shows "stake_rows_ok y s' \<and> delegated_tokens s' = delegated_tokens s + amount net + amount cpu \<and>
     refunds s' = refunds s \<and> effects s' = effects s \<and> core_symbol s' = core_symbol s"
proof -
  let ?row = "fmlookup (delband s) (from, receiver)"
  obtain d where row: "delegation_row E net cpu ?row = Inr d"
    and nn: "0 \<le> amount (d_net_weight d)" "0 \<le> amount (d_cpu_weight d)"
    and s': "s' = s\<lparr>delband := (if amount (d_net_weight d) = 0 \<and> amount (d_cpu_weight d) = 0
                         then fmdrop (from, receiver) (delband s) else fmupd (from, receiver) d (delband s))\<rparr>"
    using r unfolding change_delegation_def by (simp only: result_simps sum.inject) auto
  have "sym (d_net_weight d) = y \<and> sym (d_cpu_weight d) = y \<and> amount (d_net_weight d) \<le> max_amount \<and> amount (d_cpu_weight d) \<le> max_amount \<and>
      amount (d_net_weight d) + amount (d_cpu_weight d) =
      fmval (\<lambda>d. amount (d_net_weight d) + amount (d_cpu_weight d)) ?row + amount net + amount cpu"
    using row sy le by (auto simp: delegation_row_def result_simps split: option.splits dest!: chain_laws.add_exact [OF E])
  moreover have "stake_rows_ok y s'" if "sym (d_net_weight d) = y \<and> sym (d_cpu_weight d) = y \<and> amount (d_net_weight d) \<le> max_amount \<and> amount (d_cpu_weight d) \<le> max_amount"
    using that nn ok by (auto simp: s' stake_rows_ok_def pair_ok_def split: if_splits)
  ultimately show ?thesis
    by (auto simp: s' delegated_tokens_def fmsum_upd fmsum_drop core_symbol_def)
qed

lemma limits_after_frame [simp]:
  "delband (limits_after x u s) = delband s" "refunds (limits_after x u s) = refunds s" "effects (limits_after x u s) = effects s"
  "rammarket (limits_after x u s) = rammarket s" "gstate (limits_after x u s) = gstate s"
  by (simp_all add: limits_after_def set_resource_limits_def case_prod_unfold Let_def)

lemma change_totals_ok:
  assumes "change_totals E receiver net cpu s = Inr s'"
  shows "delband s' = delband s \<and> refunds s' = refunds s \<and> effects s' = effects s \<and> core_symbol s' = core_symbol s"
proof -
  obtain u m where "s' = (limits_after receiver u s)\<lparr>userres := m\<rparr>"
    using assms unfolding change_totals_def by (simp only: result_simps sum.inject) auto
  then show ?thesis by (simp add: core_symbol_def)
qed

text \<open>Both parts of a change have the same sign.\<close>

definition same_sign :: "int \<Rightarrow> int \<Rightarrow> bool" where
  "same_sign a b \<longleftrightarrow> 0 \<le> a \<and> 0 \<le> b \<or> a \<le> 0 \<and> b \<le> 0"

lemma same_signI: "max \<bar>a\<bar> \<bar>b\<bar> \<le> \<bar>a + b\<bar> \<Longrightarrow> same_sign a (b :: int)"
  by (auto simp: same_sign_def)

lemma take_from_refund_ok:
  assumes E: "chain_laws E" and r: "take_from_refund E p delta = Inr (p', rest)" and sy: "sym p = y" "sym delta = y"
    and nn: "0 \<le> amount p"
  shows "sym p' = y \<and> sym rest = y \<and> 0 \<le> amount p' \<and> amount rest - amount delta = amount p' - amount p \<and>
     0 \<le> amount rest \<and> amount p' \<le> max_amount \<and> amount rest \<le> max_amount"
proof -
  obtain q where q: "asset_sub E p delta = Inr q" "(p', rest) = (if amount q < 0 then (set_amt q 0, asset_neg E q) else (q, set_amt delta 0))"
    using r by (auto simp: take_from_refund_def result_simps split: if_splits)
  show ?thesis using q(2) chain_laws.sub_exact [OF E q(1)] sy nn chain_laws.neg_exact [OF E, of q]
    by (cases "amount q < 0") (auto simp: max_amount_def)
qed

text \<open>What a new or updated request \<open>r\<close> means, against the amounts \<open>old\<close> requested before.\<close>

definition refund_step :: "symbol \<Rightarrow> int \<Rightarrow> asset \<Rightarrow> asset \<Rightarrow> refund_request \<Rightarrow> asset \<Rightarrow> asset \<Rightarrow> bool" where
  "refund_step y old net cpu r net' cpu' \<longleftrightarrow>
     pair_ok y (net_amount r) (cpu_amount r) \<and> pair_ok y net' cpu' \<and>
     amount net' + amount cpu' - (amount net + amount cpu) = amount (net_amount r) + amount (cpu_amount r) - old"

lemma update_refund_ok:
  assumes E: "chain_laws E" and r: "update_refund E net cpu r0 = Inr (r, net', cpu')"
    and ok: "pair_ok y (net_amount r0) (cpu_amount r0)" and sy: "sym net = y" "sym cpu = y"
  shows "refund_step y (amount (net_amount r0) + amount (cpu_amount r0)) net cpu r net' cpu'"
proof -
  obtain rn rc t where 1: "take_from_refund E (net_amount r0) net = Inr (rn, net')"
      "take_from_refund E (cpu_amount r0) cpu = Inr (rc, cpu')" "r = \<lparr>request_time = t, net_amount = rn, cpu_amount = rc\<rparr>"
    using r by (auto simp: update_refund_def result_simps Let_def)
  show ?thesis
    using take_from_refund_ok [OF E 1(1), of y] take_from_refund_ok [OF E 1(2), of y] ok sy
    by (auto simp: refund_step_def pair_ok_def 1(3))
qed

lemma new_refund_ok:
  assumes E: "chain_laws E" and n: "new_refund E \<lparr>amount = 0, sym = y\<rparr> net cpu = (r, net', cpu')"
    and sy: "sym net = y" "sym cpu = y" and neg: "amount net < 0 \<or> amount cpu < 0" and sg: "same_sign (amount net) (amount cpu)"
    and le: "\<bar>amount net + amount cpu\<bar> \<le> max_amount"
  shows "refund_step y 0 net cpu r net' cpu'"
  using n sy neg sg le
  by (auto simp: new_refund_def refund_step_def pair_ok_def chain_laws.neg_exact [OF E] same_sign_def max_amount_def split: if_splits)

lemma change_refund_ok:
  assumes E: "chain_laws E" and ok: "stake_rows_ok y s" and sy: "sym net = y" "sym cpu = y" and c: "core_symbol s = Inr y"
    and sg: "same_sign (amount net) (amount cpu)" and le: "\<bar>amount net + amount cpu\<bar> \<le> max_amount"
    and r: "change_refund E from net cpu s = Inr (s', net', cpu', b)"
  shows "stake_rows_ok y s' \<and> amount net' + amount cpu' - (amount net + amount cpu) = refunding_tokens s' - refunding_tokens s \<and>
    pair_ok y net' cpu' \<and> delband s' = delband s \<and> effects s' = effects s \<and> core_symbol s' = core_symbol s"
proof -
  let ?old = "fmval (\<lambda>r. amount (net_amount r) + amount (cpu_amount r)) (fmlookup (refunds s) from)"
  have *: ?thesis if "s' = s\<lparr>refunds := fmupd from rr (refunds s)\<rparr> \<or>
      s' = s\<lparr>refunds := fmdrop from (refunds s)\<rparr> \<and> amount (net_amount rr) + amount (cpu_amount rr) = 0"
    "refund_step y ?old net cpu rr net' cpu'" for rr
    using that ok
    by (auto simp: stake_rows_ok_def refunding_tokens_def fmsum_upd fmsum_drop refund_step_def core_symbol_def split: if_splits)
  show ?thesis
  proof (cases "fmlookup (refunds s) from")
    case (Some r0)
    then obtain rr where rr: "update_refund E net cpu r0 = Inr (rr, net', cpu')"
      "s' = s\<lparr>refunds := fmupd from rr (refunds s)\<rparr> \<or>
       s' = s\<lparr>refunds := fmdrop from (refunds s)\<rparr> \<and> amount (net_amount rr) + amount (cpu_amount rr) = 0"
      using r by (auto simp: change_refund_def result_simps split: if_splits)
    have "pair_ok y (net_amount r0) (cpu_amount r0)" using ok Some by (simp add: stake_rows_ok_def)
    from update_refund_ok [OF E rr(1) this sy] show ?thesis using * [OF rr(2)] Some by simp
  next
    case None
    show ?thesis
    proof (cases "amount net < 0 \<or> amount cpu < 0")
      case True
      then obtain zero where z: "asset_new E 0 y = Inr zero" using r c None by (auto simp: change_refund_def core_zero_def result_simps)
      obtain rr n' c' where nr: "new_refund E zero net cpu = (rr, n', c')" by (cases "new_refund E zero net cpu")
      have "s' = s\<lparr>refunds := fmupd from rr (refunds s)\<rparr>" "n' = net'" "c' = cpu'"
        using r True None c z nr by (auto simp: change_refund_def core_zero_def)
      moreover have "zero = \<lparr>amount = 0, sym = y\<rparr>" by (rule chain_laws.new_exact [OF E z])
      ultimately show ?thesis using new_refund_ok [OF E _ sy True sg le] nr None by (intro * [of rr]) auto
    next
      case False
      then show ?thesis using r sy ok None le by (auto simp: change_refund_def pair_ok_def)
    qed
  qed
qed

lemma settle_stake_ok:
  assumes E: "chain_laws E" and ok: "stake_rows_ok y s" and sy: "sym net = y" "sym cpu = y" and c: "core_symbol s = Inr y"
    and sg: "same_sign (amount net) (amount cpu)" and le: "\<bar>amount net + amount cpu\<bar> \<le> max_amount"
    and so: "source \<noteq> stake_account"
    and r: "settle_stake E source from receiver net cpu transfer s = Inr s'"
  shows "stake_rows_ok y s' \<and> stake_backing (scode y) s' = stake_backing (scode y) s + amount net + amount cpu \<and> core_symbol s' = core_symbol s"
proof -
  let ?c = "(\<not> transfer \<and> from = receiver) \<or> i64 (amount net + amount cpu) < 0"
  obtain s1 net' cpu' b q where cr: "(if ?c then change_refund E from net cpu s else Inr (s, net, cpu, False)) = Inr (s1, net', cpu', b)"
    and q: "asset_add E net' cpu' = Inr q"
    and s': "s' = (let s2 = emit (Cancel_deferred from) s1;
              s3 = (if b then emit (Defer_refund from refund_delay_sec) s2 else s2)
           in if 0 < amount q then send_transfer source stake_account q ''stake bandwidth'' s3 else s3)"
    using r by (auto simp: settle_stake_def result_simps Let_def)
  have i: "i64 (amount net + amount cpu) = amount net + amount cpu" using le by (simp add: width_simps max_amount_def)
  have 1: "stake_rows_ok y s1 \<and> amount net' + amount cpu' - (amount net + amount cpu) = refunding_tokens s1 - refunding_tokens s \<and>
    pair_ok y net' cpu' \<and> delband s1 = delband s \<and> effects s1 = effects s \<and> core_symbol s1 = core_symbol s"
  proof (cases ?c)
    case True
    then show ?thesis using cr change_refund_ok [OF E ok sy c sg le] by simp
  next
    case False
    then have "s1 = s" "net' = net" "cpu' = cpu" using cr by auto
    then show ?thesis using False sg sy ok i le by (auto simp: pair_ok_def same_sign_def)
  qed
  have qq: "amount q = amount net' + amount cpu'" "sym q = y" "0 \<le> amount q"
    using chain_laws.add_exact [OF E q] 1 by (auto simp: pair_ok_def)
  have f: "delband s' = delband s1" "refunds s' = refunds s1" "core_symbol s' = core_symbol s1"
    by (auto simp: s' Let_def emit_def send_transfer_def core_symbol_def)
  have "net_flow (transfers_of (effects s')) stake_account (scode y) = net_flow (transfers_of (effects s)) stake_account (scode y) + amount q"
    using so 1 qq by (auto simp: s' Let_def emit_def send_transfer_def flow_def)
  then show ?thesis using 1 f qq
    by (auto simp: stake_rows_ok_def stake_backing_def staked_tokens_def delegated_tokens_def refunding_tokens_def)
qed

lemma changebw_ok:
  assumes E: "chain_laws E" and ok: "stake_rows_ok y s" and sy: "sym net = y" "sym cpu = y" and c: "core_symbol s = Inr y"
    and so: "source \<noteq> stake_account" and r: "changebw E source receiver net cpu transfer s = Inr s'"
  shows "stake_rows_ok y s' \<and> stake_backing (scode y) s' = stake_backing (scode y) s \<and> core_symbol s' = Inr y"
proof -
  define fr where "fr = (if transfer then receiver else source)"
  obtain q s1 s2 s3 s4 where q: "asset_add E net cpu = Inr q" "max \<bar>amount net\<bar> \<bar>amount cpu\<bar> \<le> \<bar>amount q\<bar>"
    and 1: "change_delegation E fr receiver net cpu s = Inr s1" and 2: "change_totals E receiver net cpu s1 = Inr s2"
    and 3: "settle_stake E source fr receiver net cpu transfer s2 = Inr s3"
    and 4: "update_rex_stake E fr s3 = Inr s4" "update_voting_power E fr q s4 = Inr s'"
    using r so unfolding changebw_def Let_def fr_def [symmetric] by (auto simp: result_simps)
  have q': "amount q = amount net + amount cpu" "\<bar>amount net + amount cpu\<bar> \<le> max_amount"
    using chain_laws.add_exact [OF E q(1)] by auto
  have sg: "same_sign (amount net) (amount cpu)" using q(2) q' by (intro same_signI) simp
  have le: "amount net \<le> max_amount" "amount cpu \<le> max_amount"
    using sg q'(2) by (auto simp: same_sign_def max_amount_def)
  note d = change_delegation_ok [OF E ok sy le 1] and t = change_totals_ok [OF 2]
  have ok2: "stake_rows_ok y s2" "core_symbol s2 = Inr y" "stake_backing (scode y) s2 = stake_backing (scode y) s - (amount net + amount cpu)"
    using d t c by (auto simp: stake_rows_ok_def stake_backing_def staked_tokens_def delegated_tokens_def refunding_tokens_def)
  note st = settle_stake_ok [OF E ok2(1) sy ok2(2) sg q'(2) so 3]
  have "stake_view s' = stake_view s3" using stake.obs_rex_stake [OF 4(1)] stake.obs_voting_power [OF 4(2)] by simp
  from stake_view_keeps [OF this] show ?thesis using st ok2 by simp
qed

subsection \<open>Actions in sequence\<close>

datatype stake_action =
    Delegatebw name name asset asset bool
  | Undelegatebw name name asset asset
  | Refund name
  | Unstaketorex name name asset asset
  | Voteproducer name name "name list"
  | Rexexec name nat

fun stake_step :: "env \<times> stake_action \<Rightarrow> sys \<Rightarrow> sys result" where
  "stake_step (E, Delegatebw from receiver net cpu t) s = delegatebw E from receiver net cpu t s"
| "stake_step (E, Undelegatebw from receiver net cpu) s = undelegatebw E from receiver net cpu s"
| "stake_step (E, Refund owner) s = refund E owner s"
| "stake_step (E, Unstaketorex owner receiver net cpu) s = unstaketorex E owner receiver net cpu s"
| "stake_step (E, Voteproducer voter proxy ps) s = voteproducer E voter proxy ps s"
| "stake_step (E, Rexexec user n) s = rexexec E user n s"

fun stake_actor :: "stake_action \<Rightarrow> name" where
  "stake_actor (Delegatebw from _ _ _ _) = from"
| "stake_actor (Undelegatebw from _ _ _) = from"
| "stake_actor (Refund owner) = owner"
| "stake_actor (Unstaketorex owner _ _ _) = owner"
| "stake_actor (Voteproducer voter _ _) = voter"
| "stake_actor (Rexexec user _) = user"

definition stake_inv :: "symbol \<Rightarrow> sys \<Rightarrow> bool" where
  "stake_inv y s \<longleftrightarrow> stake_rows_ok y s \<and> core_symbol s = Inr y"

lemma decide_notice_view [simp]: "stake_view (decide_notice x y s) = stake_view s"
  by (simp add: decide_notice_def emit_def stake_view_def core_symbol_def)

lemma core_zero_sym:
  assumes "chain_laws E" "core_zero E s = Inr zero" "core_symbol s = Inr y"
  shows "zero = \<lparr>amount = 0, sym = y\<rparr>"
  using assms chain_laws.new_exact by (auto simp: core_zero_def)

lemma delegatebw_ok:
  assumes E: "chain_laws E" and inv: "stake_inv y s" and so: "from \<noteq> stake_account"
    and r: "delegatebw E from receiver net cpu t s = Inr s'"
  shows "stake_inv y s' \<and> stake_backing (scode y) s' = stake_backing (scode y) s"
proof -
  obtain zero c n s1 where z: "core_zero E s = Inr zero" "asset_le E zero cpu = Inr c" "asset_le E zero net = Inr n"
    and s1: "changebw E from receiver net cpu t s = Inr s1" "s' = decide_notice from receiver s1"
    using r by (auto simp: delegatebw_def result_simps)
  have sy: "sym net = y" "sym cpu = y"
    using core_zero_sym [OF E z(1)] inv chain_laws.le_exact [OF E z(2)] chain_laws.le_exact [OF E z(3)] by (auto simp: stake_inv_def)
  have "stake_rows_ok y s" "core_symbol s = Inr y" using inv by (auto simp: stake_inv_def)
  from changebw_ok [OF E this(1) sy this(2) so s1(1)] stake_view_keeps [of s' s1]
  show ?thesis by (simp add: s1(2) stake_inv_def)
qed

lemma undelegatebw_ok:
  assumes E: "chain_laws E" and inv: "stake_inv y s" and so: "from \<noteq> stake_account"
    and r: "undelegatebw E from receiver net cpu s = Inr s'"
  shows "stake_inv y s' \<and> stake_backing (scode y) s' = stake_backing (scode y) s"
proof -
  obtain zero c n s1 where z: "core_zero E s = Inr zero" "asset_le E zero cpu = Inr c" "asset_le E zero net = Inr n"
    and s1: "changebw E from receiver (asset_neg E net) (asset_neg E cpu) False s = Inr s1" "s' = decide_notice from receiver s1"
    using r by (auto simp: undelegatebw_def result_simps)
  have sy: "sym (asset_neg E net) = y" "sym (asset_neg E cpu) = y"
    using core_zero_sym [OF E z(1)] inv chain_laws.le_exact [OF E z(2)] chain_laws.le_exact [OF E z(3)] chain_laws.neg_exact [OF E]
    by (auto simp: stake_inv_def)
  have "stake_rows_ok y s" "core_symbol s = Inr y" using inv by (auto simp: stake_inv_def)
  from changebw_ok [OF E this(1) sy this(2) so s1(1)] stake_view_keeps [of s' s1]
  show ?thesis by (simp add: s1(2) stake_inv_def)
qed

lemma refund_ok:
  assumes E: "chain_laws E" and inv: "stake_inv y s" and so: "x \<noteq> stake_account" and r: "refund E x s = Inr s'"
  shows "stake_inv y s' \<and> stake_backing (scode y) s' = stake_backing (scode y) s"
proof -
  obtain rr q where rr: "fmlookup (refunds s) x = Some rr" "asset_add E (net_amount rr) (cpu_amount rr) = Inr q"
    and s': "s' = (send_transfer stake_account x q ''unstake'' s)\<lparr>refunds := fmdrop x (refunds s)\<rparr>"
    using r unfolding refund_def by (simp only: result_simps sum.inject) auto
  have ok: "pair_ok y (net_amount rr) (cpu_amount rr)" using inv rr(1) by (simp add: stake_inv_def stake_rows_ok_def)
  have q: "amount q = amount (net_amount rr) + amount (cpu_amount rr)" "sym q = y"
    using chain_laws.add_exact [OF E rr(2)] ok by (auto simp: pair_ok_def)
  have "stake_rows_ok y s'" "core_symbol s' = Inr y"
    using inv by (auto simp: s' stake_inv_def stake_rows_ok_def send_transfer_def core_symbol_def split: if_splits)
  moreover have "stake_backing (scode y) s' = stake_backing (scode y) s"
    using q so rr(1)
    by (simp add: s' stake_backing_def staked_tokens_def delegated_tokens_def refunding_tokens_def send_transfer_def fmsum_drop flow_def)
  ultimately show ?thesis by (simp add: stake_inv_def)
qed

lemma undelegate_row_ok:
  assumes inv: "stake_inv y s" and nn: "0 \<le> amount net" "0 \<le> amount cpu" and r: "undelegate_row x z net cpu s = Inr s'"
  shows "stake_inv y s' \<and> staked_tokens s' = staked_tokens s - amount net - amount cpu \<and> effects s' = effects s"
proof -
  obtain d where d: "fmlookup (delband s) (x, z) = Some d" "amount net \<le> amount (d_net_weight d)" "amount cpu \<le> amount (d_cpu_weight d)"
    using r by (auto simp: undelegate_row_def result_simps)
  define d' where "d' = d\<lparr>d_net_weight := add_amt (d_net_weight d) (- amount net), d_cpu_weight := add_amt (d_cpu_weight d) (- amount cpu)\<rparr>"
  have s': "s' = s\<lparr>delband := (if amount (d_net_weight d') = 0 \<and> amount (d_cpu_weight d') = 0
                            then fmdrop (x, z) (delband s) else fmupd (x, z) d' (delband s))\<rparr>"
    using r d by (auto simp: undelegate_row_def d'_def)
  have "pair_ok y (d_net_weight d) (d_cpu_weight d)" using inv d(1) by (simp add: stake_inv_def stake_rows_ok_def)
  then have d'': "pair_ok y (d_net_weight d') (d_cpu_weight d')" "amount (d_net_weight d') = amount (d_net_weight d) - amount net"
      "amount (d_cpu_weight d') = amount (d_cpu_weight d) - amount cpu"
    using d nn by (auto simp: d'_def pair_ok_def width_simps max_amount_def)
  have "stake_inv y s'" using inv d''(1) by (auto simp: s' stake_inv_def stake_rows_ok_def core_symbol_def split: if_splits)
  then show ?thesis
    using d'' d(1) by (simp add: s' staked_tokens_def delegated_tokens_def refunding_tokens_def fmsum_upd fmsum_drop)
qed

lemma unstaketorex_ok:
  assumes E: "chain_laws E" and inv: "stake_inv y s" and r: "unstaketorex E x z net cpu s = Inr s'"
  shows "stake_inv y s' \<and> stake_backing (scode y) s' = stake_backing (scode y) s"
proof -
  obtain s1 s2 q s4 rr s5 delta s6 zero delta' s7 io where sy: "sym net = y" "sym cpu = y" and nn: "0 \<le> amount net" "0 \<le> amount cpu"
    and 1: "undelegate_row x z net cpu s = Inr s1"
    and 2: "update_resource_limits E 0 z (i64 (- amount net)) (i64 (- amount cpu)) s1 = Inr s2"
    and q: "asset_add E net cpu = Inr q"
    and 4: "add_to_rex_pool E q (send_transfer stake_account rex_account q ''buy REX with staked tokens'' s2) = Inr (s4, rr)"
    and 5: "add_to_rex_balance E x q rr s4 = Inr (s5, delta)" and 6: "runrex E 2 s5 = Inr s6"
    and 7: "update_rex_account E x zero delta' True s6 = Inr (s7, io)"
    and s': "s' = emit (Inline_result ''buyresult'' [rr]) s7"
    using r inv unfolding unstaketorex_def stake_inv_def by (auto simp: result_simps)
  define s3 where "s3 = send_transfer stake_account rex_account q ''buy REX with staked tokens'' s2"
  have qq: "amount q = amount net + amount cpu" "sym q = y" using chain_laws.add_exact [OF E q] sy by auto
  note u = undelegate_row_ok [OF inv nn 1]
  have v2: "stake_view s2 = stake_view s1" by (rule stake.obs_limits [OF 2])
  have "stake_inv y s3" using u stake_view_keeps [OF v2] by (simp add: stake_inv_def stake_rows_ok_def s3_def send_transfer_def core_symbol_def)
  moreover have "stake_backing (scode y) s3 = stake_backing (scode y) s2 - amount q"
    using qq stake_not_fee
    by (simp add: s3_def stake_backing_def staked_tokens_def delegated_tokens_def refunding_tokens_def send_transfer_def flow_def)
  moreover have "stake_backing (scode y) s1 = stake_backing (scode y) s + amount q" using u qq by (simp add: stake_backing_def)
  moreover have "stake_view s' = stake_view s3"
    unfolding s' using stake.obs_add_to_pool [OF 4] stake.obs_add_to_balance [OF 5] stake.obs_runrex [OF 6] stake.obs_rex_account [OF 7]
    by (simp add: s3_def)
  ultimately show ?thesis using stake_view_keeps(2) [OF v2] stake_view_keeps(1-3) [of s' s3] by (simp add: stake_inv_def)
qed

lemma stake_step_ok:
  assumes E: "chain_laws E" and inv: "stake_inv y s" and so: "stake_actor a \<noteq> stake_account" and r: "stake_step (E, a) s = Inr s'"
  shows "stake_inv y s' \<and> stake_backing (scode y) s' = stake_backing (scode y) s"
proof -
  have view: "stake_inv y s' \<and> stake_backing (scode y) s' = stake_backing (scode y) s" if "stake_view s' = stake_view s"
    using stake_view_keeps [OF that] inv by (simp add: stake_inv_def)
  show ?thesis
  proof (cases a)
    case (Voteproducer voter proxy ps)
    then show ?thesis
      using r view by (auto simp: voteproducer_def result_simps dest!: stake.obs_rex_stake update_votes_frame stake.obs_votes)
  next
    case (Rexexec user n)
    then show ?thesis using r view stake.obs_runrex by (auto simp: rexexec_def result_simps)
  qed (use r so delegatebw_ok [OF E inv] undelegatebw_ok [OF E inv] refund_ok [OF E inv] unstaketorex_ok [OF E inv] in auto)
qed

lemma stake_run_ok:
  assumes "\<forall>(E, a)\<in>set as. chain_laws E \<and> stake_actor a \<noteq> stake_account" "stake_inv y s" "run_actions stake_step as s = Inr s'"
  shows "stake_inv y s' \<and> stake_backing (scode y) s' = stake_backing (scode y) s"
  using assms
proof (induction as arbitrary: s)
  case (Cons ea as)
  obtain E a where ea: "ea = (E, a)" by (cases ea)
  obtain s1 where s1: "stake_step (E, a) s = Inr s1" "run_actions stake_step as s1 = Inr s'"
    using Cons.prems(3) by (auto simp: ea result_simps)
  have 1: "stake_inv y s1 \<and> stake_backing (scode y) s1 = stake_backing (scode y) s"
    using Cons.prems by (intro stake_step_ok [OF _ _ _ s1(1)]) (auto simp: ea)
  have "stake_inv y s' \<and> stake_backing (scode y) s' = stake_backing (scode y) s1"
    using Cons.prems 1 by (intro Cons.IH [OF _ _ s1(2)]) auto
  then show ?case using 1 by simp
qed simp

subsection \<open>Properties\<close>

text \<open>
  C4. Staked tokens are backed: over any sequence of delegations, undelegations, refunds, moves of staked
  tokens into REX, votes and maintenance runs by accounts other than the stake account itself, the
  tokens that are delegated or waiting for a refund grow by exactly what the stake account receives
  from the transfers sent on the way, and no delegation or refund is ever negative.
\<close>

theorem stake_backed:
  assumes "\<forall>(E, a)\<in>set as. chain_laws E \<and> stake_actor a \<noteq> stake_account" and "stake_inv y s"
    and "run_actions stake_step as s = Inr s'"
  shows "stake_inv y s' \<and>
    net_flow (transfers_of (effects s')) stake_account (scode y) - net_flow (transfers_of (effects s)) stake_account (scode y) =
    staked_tokens s' - staked_tokens s"
  using stake_run_ok [OF assms] by (simp add: stake_backing_def)

definition demo_stake :: "(env \<times> stake_action) list" where
  "demo_stake = [(sdk_env eosio_account 10, Delegatebw 10 11 (core 500) (core 300) False),
     (sdk_env eosio_account 20, Undelegatebw 10 11 (core 200) (core 300)),
     (sdk_env eosio_account 30, Delegatebw 10 10 (core 50) (core 350) False),
     (sdk_env eosio_account 300000, Refund 10)]"

definition active_chain :: sys where
  "active_chain = sys0\<lparr>gstate := (gstate sys0)\<lparr>g_block_num := 5000\<rparr>\<rparr>"

theorem stake_backed_witness:
  "\<exists>s'. run_actions stake_step demo_stake active_chain = Inr s' \<and> stake_inv core_sym s' \<and>
    net_flow (transfers_of (effects s')) stake_account (scode core_sym) = staked_tokens s' \<and> staked_tokens s' = 700"
proof -
  have ok: "\<forall>(E, a)\<in>set demo_stake. chain_laws E \<and> stake_actor a \<noteq> stake_account"
    using sdk.chain_laws_axioms by (simp add: demo_stake_def stake_account_def)
  have inv: "stake_inv core_sym active_chain"
    by (simp add: stake_inv_def stake_rows_ok_def active_chain_def sys0_def core_symbol_def)
  have "case run_actions stake_step demo_stake active_chain of Inl e \<Rightarrow> False | Inr s' \<Rightarrow>
      net_flow (transfers_of (effects s')) stake_account (scode core_sym) = 700"
    by code_simp
  then obtain s' where s': "run_actions stake_step demo_stake active_chain = Inr s'"
     "net_flow (transfers_of (effects s')) stake_account (scode core_sym) = 700"
    by (auto split: sum.splits)
  show ?thesis using stake_backed [OF ok inv s'(1)] s'
    by (auto simp: active_chain_def sys0_def staked_tokens_def delegated_tokens_def refunding_tokens_def)
qed

text \<open>
  When the requests for a refund are dated.  After a change of the stake of \<open>x\<close> at time \<open>now\<close>, a request is dated \<open>now\<close> and belongs to
  \<open>x\<close>, or it was there before with the same date; the latter is impossible for \<open>x\<close> itself when the stake went \<open>down\<close>.
\<close>

definition dated :: "int \<Rightarrow> name \<Rightarrow> bool \<Rightarrow> sys \<Rightarrow> sys \<Rightarrow> bool" where
  "dated now x down s s' \<longleftrightarrow> (\<forall>k r. fmlookup (refunds s') k = Some r \<longrightarrow>
     k = x \<and> request_time r = now \<or>
     (k = x \<longrightarrow> \<not> down) \<and> (\<exists>r0. fmlookup (refunds s) k = Some r0 \<and> request_time r = request_time r0))"

lemma dated_cong: "refunds s1' = refunds s' \<Longrightarrow> refunds s1 = refunds s \<Longrightarrow> dated now x down s1 s1' = dated now x down s s'"
  by (simp add: dated_def)

lemma update_refund_dated:
  assumes "update_refund E net cpu r0 = Inr (r, net', cpu')"
  shows "request_time r = (if amount net < 0 \<or> amount cpu < 0 then current_sec E else request_time r0)"
  using assms by (auto simp: update_refund_def result_simps Let_def)

lemma change_refund_dated:
  assumes r: "change_refund E from net cpu s = Inr (s', net', cpu', b)"
  shows "dated (current_sec E) from (amount net < 0 \<or> amount cpu < 0) s s'"
proof (cases "fmlookup (refunds s) from")
  case (Some r0)
  then obtain rr where "update_refund E net cpu r0 = Inr (rr, net', cpu')"
    "s' = s\<lparr>refunds := fmupd from rr (refunds s)\<rparr> \<or> s' = s\<lparr>refunds := fmdrop from (refunds s)\<rparr>"
    using r by (auto simp: change_refund_def result_simps split: if_splits)
  then show ?thesis using Some update_refund_dated [of E net cpu r0 rr net' cpu'] by (auto simp: dated_def split: if_splits)
next
  case None
  show ?thesis
  proof (cases "amount net < 0 \<or> amount cpu < 0")
    case True
    then obtain zero where z: "core_zero E s = Inr zero" using r None by (auto simp: change_refund_def result_simps)
    obtain rr n' c' where nr: "new_refund E zero net cpu = (rr, n', c')" by (cases "new_refund E zero net cpu")
    then have "request_time rr = current_sec E" by (auto simp: new_refund_def Let_def split: prod.splits)
    moreover have "s' = s\<lparr>refunds := fmupd from rr (refunds s)\<rparr>" using r True None z nr by (auto simp: change_refund_def)
    ultimately show ?thesis by (auto simp: dated_def split: if_splits)
  next
    case False
    then have "s' = s" using r None by (auto simp: change_refund_def)
    then show ?thesis using False None by (auto simp: dated_def)
  qed
qed

lemma settle_stake_dated:
  assumes r: "settle_stake E source from receiver net cpu transfer s = Inr s'"
    and d: "down \<Longrightarrow> (amount net < 0 \<or> amount cpu < 0) \<and> i64 (amount net + amount cpu) < 0"
  shows "dated (current_sec E) from down s s'"
proof -
  let ?c = "(\<not> transfer \<and> from = receiver) \<or> i64 (amount net + amount cpu) < 0"
  obtain s1 net' cpu' b q where cr: "(if ?c then change_refund E from net cpu s else Inr (s, net, cpu, False)) = Inr (s1, net', cpu', b)"
    and s': "s' = (let s2 = emit (Cancel_deferred from) s1;
              s3 = (if b then emit (Defer_refund from refund_delay_sec) s2 else s2)
           in if 0 < amount q then send_transfer source stake_account q ''stake bandwidth'' s3 else s3)"
    using r by (auto simp: settle_stake_def result_simps Let_def)
  have "refunds s' = refunds s1" by (auto simp: s' Let_def emit_def send_transfer_def)
  moreover have "dated (current_sec E) from down s s1"
  proof (cases ?c)
    case True
    then have "dated (current_sec E) from (amount net < 0 \<or> amount cpu < 0) s s1" using cr change_refund_dated by simp
    then show ?thesis using d unfolding dated_def by blast
  next
    case False
    then have "s1 = s" "\<not> down" using cr d by auto
    then show ?thesis by (simp add: dated_def)
  qed
  ultimately show ?thesis using dated_cong by blast
qed

lemma changebw_dated:
  assumes E: "chain_laws E" and so: "source \<noteq> stake_account" and r: "changebw E source receiver net cpu transfer s = Inr s'"
    and d: "down \<Longrightarrow> amount net \<le> 0 \<and> amount cpu \<le> 0 \<and> amount net + amount cpu < 0"
  shows "dated (current_sec E) (if transfer then receiver else source) down s s'"
proof -
  define fr where "fr = (if transfer then receiver else source)"
  obtain q s1 s2 s3 s4 where q: "asset_add E net cpu = Inr q"
    and 1: "change_delegation E fr receiver net cpu s = Inr s1" and 2: "change_totals E receiver net cpu s1 = Inr s2"
    and 3: "settle_stake E source fr receiver net cpu transfer s2 = Inr s3"
    and 4: "update_rex_stake E fr s3 = Inr s4" "update_voting_power E fr q s4 = Inr s'"
    using r so unfolding changebw_def Let_def fr_def [symmetric] by (auto simp: result_simps)
  have "refunds s1 = refunds s" using 1 by (auto simp: change_delegation_def result_simps)
  then have f: "refunds s2 = refunds s" using change_totals_ok [OF 2] by simp
  have "\<bar>amount net + amount cpu\<bar> \<le> max_amount" using chain_laws.add_exact [OF E q] by auto
  then have "i64 (amount net + amount cpu) = amount net + amount cpu" by (simp add: width_simps max_amount_def)
  then have "dated (current_sec E) fr down s2 s3" using d by (intro settle_stake_dated [OF 3]) auto
  moreover have "stake_view s' = stake_view s3" using stake.obs_rex_stake [OF 4(1)] stake.obs_voting_power [OF 4(2)] by simp
  then have "refunds s' = refunds s3" by (simp add: stake_view_def)
  ultimately show ?thesis using dated_cong [of s' s3 s s2] f by (simp add: fr_def)
qed

lemma undelegatebw_dated:
  assumes E: "chain_laws E" and inv: "stake_inv y s" and so: "x \<noteq> stake_account" and r: "undelegatebw E x receiver net cpu s = Inr s'"
  shows "dated (current_sec E) x True s s'"
proof -
  obtain zero c n s1 where z: "core_zero E s = Inr zero" "asset_le E zero cpu = Inr c" "asset_le E zero net = Inr n" "c" "n" "0 < i64 (amount cpu + amount net)"
    and s1: "changebw E x receiver (asset_neg E net) (asset_neg E cpu) False s = Inr s1" "s' = decide_notice x receiver s1"
    using r by (auto simp: undelegatebw_def result_simps)
  have z0: "amount zero = 0" using core_zero_sym [OF E z(1), of y] inv by (simp add: stake_inv_def)
  have nn: "0 \<le> amount net" "0 \<le> amount cpu" using chain_laws.le_exact [OF E z(2)] chain_laws.le_exact [OF E z(3)] z(4,5) z0 by auto
  have "amount net \<noteq> 0 \<or> amount cpu \<noteq> 0" using z(6) by (auto simp: i64_def)
  then have "dated (current_sec E) (if False then receiver else x) True s s1"
    using nn chain_laws.neg_exact [OF E] by (intro changebw_dated [OF E so s1(1)]) auto
  then show ?thesis using dated_cong [of s' s1 s s] by (simp add: s1(2) decide_notice_def emit_def)
qed

text \<open>No step dates a request back.\<close>

definition dated_after :: "int \<Rightarrow> name \<Rightarrow> sys \<Rightarrow> bool" where
  "dated_after t x s \<longleftrightarrow> (\<forall>r. fmlookup (refunds s) x = Some r \<longrightarrow> t \<le> request_time r)"

lemma dated_after_step: "dated now k down s s' \<Longrightarrow> dated_after t x s \<Longrightarrow> t \<le> now \<Longrightarrow> dated_after t x s'"
  unfolding dated_def dated_after_def by fastforce

lemma stake_step_dated:
  assumes E: "chain_laws E" and so: "stake_actor a \<noteq> stake_account" and r: "stake_step (E, a) s = Inr s'"
    and d: "dated_after t x s" and t: "t \<le> current_sec E"
  shows "dated_after t x s'"
proof -
  have view: "dated_after t x s'" if "stake_view s' = stake_view s" using that d by (simp add: stake_view_def dated_after_def)
  show ?thesis
  proof (cases a)
    case (Delegatebw fr receiver net cpu tr)
    then obtain s1 where s1: "changebw E fr receiver net cpu tr s = Inr s1" "refunds s' = refunds s1"
      using r by (auto simp: delegatebw_def result_simps decide_notice_def emit_def)
    have "dated (current_sec E) (if tr then receiver else fr) False s s1" using so Delegatebw by (intro changebw_dated [OF E _ s1(1)]) auto
    then show ?thesis using dated_after_step [OF _ d t, of _ _ s1] s1(2) by (auto simp: dated_after_def)
  next
    case (Undelegatebw fr receiver net cpu)
    then obtain s1 where s1: "changebw E fr receiver (asset_neg E net) (asset_neg E cpu) False s = Inr s1" "refunds s' = refunds s1"
      using r by (auto simp: undelegatebw_def result_simps decide_notice_def emit_def)
    have "dated (current_sec E) (if False then receiver else fr) False s s1" using so Undelegatebw by (intro changebw_dated [OF E _ s1(1)]) auto
    then show ?thesis using dated_after_step [OF _ d t, of _ _ s1] s1(2) by (auto simp: dated_after_def)
  next
    case (Refund owner)
    then show ?thesis using r d by (auto simp: refund_def result_simps send_transfer_def dated_after_def split: if_splits)
  next
    case (Unstaketorex x1 z net cpu)
    then obtain s1 s2 q s4 rr s5 delta s6 zero delta' s7 io where 1: "undelegate_row x1 z net cpu s = Inr s1"
      and 2: "update_resource_limits E 0 z (i64 (- amount net)) (i64 (- amount cpu)) s1 = Inr s2"
      and 4: "add_to_rex_pool E q (send_transfer stake_account rex_account q ''buy REX with staked tokens'' s2) = Inr (s4, rr)"
      and 5: "add_to_rex_balance E x1 q rr s4 = Inr (s5, delta)" and 6: "runrex E 2 s5 = Inr s6"
      and 7: "update_rex_account E x1 zero delta' True s6 = Inr (s7, io)" and s': "s' = emit (Inline_result ''buyresult'' [rr]) s7"
      using r unfolding Unstaketorex by (auto simp: unstaketorex_def result_simps)
    have "stake_view s' = stake_view (send_transfer stake_account rex_account q ''buy REX with staked tokens'' s2)"
      unfolding s' using stake.obs_add_to_pool [OF 4] stake.obs_add_to_balance [OF 5] stake.obs_runrex [OF 6] stake.obs_rex_account [OF 7] by simp
    moreover have "stake_view s2 = stake_view s1" by (rule stake.obs_limits [OF 2])
    moreover have "refunds s1 = refunds s" using 1 by (auto simp: undelegate_row_def result_simps)
    ultimately have "refunds s' = refunds s" by (simp add: stake_view_def send_transfer_def)
    then show ?thesis using d by (simp add: dated_after_def)
  next
    case (Voteproducer voter proxy ps)
    then show ?thesis
      using r view by (auto simp: voteproducer_def result_simps dest!: stake.obs_rex_stake update_votes_frame stake.obs_votes)
  next
    case (Rexexec user n)
    then show ?thesis using r view stake.obs_runrex by (auto simp: rexexec_def result_simps)
  qed
qed

lemma stake_run_dated:
  assumes "\<forall>(F, a)\<in>set as. chain_laws F \<and> stake_actor a \<noteq> stake_account \<and> t \<le> current_sec F" "run_actions stake_step as s = Inr s'" "dated_after t x s"
  shows "dated_after t x s'"
  using assms
proof (induction as arbitrary: s)
  case (Cons ea as)
  obtain E a where ea: "ea = (E, a)" by (cases ea)
  obtain s1 where s1: "stake_step (E, a) s = Inr s1" "run_actions stake_step as s1 = Inr s'"
    using Cons.prems(2) by (auto simp: ea result_simps)
  have "dated_after t x s1" using Cons.prems(1,3) by (intro stake_step_dated [OF _ _ s1(1)]) (auto simp: ea)
  then show ?case using Cons.prems(1) by (intro Cons.IH [OF _ s1(2)]) auto
qed simp

text \<open>
  C27. The unstaking delay: once an account has unstaked tokens, no sequence of staking actions, votes and REX maintenance by any accounts lets it
  have a refund before three days have passed since then -- so since the last time it unstaked, as this holds for every time.  The refund pays the requested amounts in
  one transfer from the stake account, erases the request, and cannot be repeated.
\<close>

theorem refund_delay:
  assumes E: "chain_laws E" "chain_laws E1" and inv: "stake_inv y s" and x: "x \<noteq> stake_account"
    and unstake: "stake_step (E1, Undelegatebw x receiver net cpu) s = Inr s1"
    and run: "run_actions stake_step as s1 = Inr s2"
      "\<forall>(F, a)\<in>set as. chain_laws F \<and> stake_actor a \<noteq> stake_account \<and> current_sec E1 \<le> current_sec F"
    and pay: "stake_step (E, Refund x) s2 = Inr s3"
  shows "(current_sec E1 + 3 * 86400) * 1000000 \<le> current_time E \<and> has_auth E x \<and>
     (\<exists>r q. fmlookup (refunds s2) x = Some r \<and> amount q = amount (net_amount r) + amount (cpu_amount r) \<and>
       transfers_of (effects s3) = transfers_of (effects s2) @ [\<lparr>t_from = stake_account, t_to = x, t_quantity = q, t_memo = ''unstake''\<rparr>]) \<and>
     fmlookup (refunds s3) x = None \<and> (\<forall>F. \<exists>e. stake_step (F, Refund x) s3 = Inl e)"
proof -
  have "undelegatebw E1 x receiver net cpu s = Inr s1" using unstake by simp
  from undelegatebw_dated [OF E(2) inv x this] have "dated_after (current_sec E1) x s1"
    unfolding dated_def dated_after_def by (metis order_refl)
  then have d: "dated_after (current_sec E1) x s2" using stake_run_dated [OF run(2,1)] by blast
  obtain r q where r: "has_auth E x" "fmlookup (refunds s2) x = Some r" "(request_time r + refund_delay_sec) * 1000000 \<le> current_time E"
    "asset_add E (net_amount r) (cpu_amount r) = Inr q" "s3 = (send_transfer stake_account x q ''unstake'' s2)\<lparr>refunds := fmdrop x (refunds s2)\<rparr>"
    using pay by (auto simp: refund_def result_simps)
  have "current_sec E1 \<le> request_time r" using d r(2) by (simp add: dated_after_def)
  then have "(current_sec E1 + 3 * 86400) * 1000000 \<le> current_time E" using r(3) by (simp add: refund_delay_sec_def)
  moreover have "amount q = amount (net_amount r) + amount (cpu_amount r)" using chain_laws.add_exact [OF E(1) r(4)] by simp
  moreover have "fmlookup (refunds s3) x = None" by (simp add: r(5))
  moreover from this have "\<exists>e. stake_step (F, Refund x) s3 = Inl e" for F by (simp add: refund_def)
  ultimately show ?thesis using r(1,2) by (auto simp: r(5) send_transfer_def)
qed

definition demo_refund :: "(env \<times> stake_action) list" where
  "demo_refund = [(sdk_env eosio_account 30, Delegatebw 10 10 (core 50) (core 150) False),
     (sdk_env eosio_account 40, Undelegatebw 10 10 (core 10) (core 0))]"

lemma demo_refund_run:
  "case run_actions stake_step (take 1 demo_stake) active_chain of Inl e \<Rightarrow> False | Inr s \<Rightarrow>
    (case stake_step (sdk_env eosio_account 20, Undelegatebw 10 11 (core 200) (core 300)) s of Inl e \<Rightarrow> False | Inr s1 \<Rightarrow>
    (case run_actions stake_step demo_refund s1 of Inl e \<Rightarrow> False | Inr s2 \<Rightarrow>
    (case stake_step (sdk_env eosio_account 300000, Refund 10) s2 of Inl e \<Rightarrow> False | Inr s3 \<Rightarrow> True)))"
  by code_simp

theorem refund_delay_witness:
  "\<exists>s s1 s2 s3. run_actions stake_step (take 1 demo_stake) active_chain = Inr s \<and>
     stake_step (sdk_env eosio_account 20, Undelegatebw 10 11 (core 200) (core 300)) s = Inr s1 \<and>
     run_actions stake_step demo_refund s1 = Inr s2 \<and> stake_step (sdk_env eosio_account 300000, Refund 10) s2 = Inr s3 \<and>
     (20 + 3 * 86400) * 1000000 \<le> current_time (sdk_env eosio_account 300000) \<and> fmlookup (refunds s3) 10 = None"
proof -
  let ?E = "sdk_env eosio_account 300000" and ?E1 = "sdk_env eosio_account 20"
  obtain s s1 s2 s3 where s: "run_actions stake_step (take 1 demo_stake) active_chain = Inr s"
    "stake_step (?E1, Undelegatebw 10 11 (core 200) (core 300)) s = Inr s1" "run_actions stake_step demo_refund s1 = Inr s2"
    "stake_step (?E, Refund 10) s2 = Inr s3"
    using demo_refund_run by (simp only: split: sum.splits)
  have inv: "stake_inv core_sym active_chain"
    by (simp add: stake_inv_def stake_rows_ok_def active_chain_def sys0_def core_symbol_def)
  have "\<forall>(F, a)\<in>set (take 1 demo_stake). chain_laws F \<and> stake_actor a \<noteq> stake_account"
    using sdk.chain_laws_axioms by (simp add: demo_stake_def stake_account_def)
  from stake_run_ok [OF this inv s(1)] have inv1: "stake_inv core_sym s" ..
  have later: "\<forall>(F, a)\<in>set demo_refund. chain_laws F \<and> stake_actor a \<noteq> stake_account \<and> current_sec ?E1 \<le> current_sec F"
    using sdk.chain_laws_axioms by (simp add: demo_refund_def stake_account_def) (simp add: sdk_env_def)
  have x: "10 \<noteq> stake_account" and t: "current_sec ?E1 = 20" by (simp_all add: sdk_env_def stake_account_def)
  note d = refund_delay [OF sdk.chain_laws_axioms sdk.chain_laws_axioms inv1 x s(2,3) later s(4), unfolded t]
  then have "(20 + 3 * 86400) * 1000000 \<le> current_time ?E" "fmlookup (refunds s3) 10 = None" by blast+
  then show ?thesis using s by blast
qed

end
