(* ===== verification/Eosio_Token.thy ===== *)
theory Eosio_Token
  imports Ledger
begin

section \<open>The token contract\<close>

text \<open>
  Model of \<open>contracts/eosio.token\<close>.  The \<open>stat\<close> table is keyed by the symbol code
  (its scope and its primary key are the same), the \<open>accounts\<close> table by the owner
  (its scope) and the symbol code.  \<open>recipients\<close> logs \<open>require_recipient\<close>.
  Who pays for the RAM of a row is kept as an argument where the code passes it
  and has no further effect here.

  The main results: every action keeps the invariant that the supply of a token
  is the sum of its balances, lies between zero and the maximum supply and no
  balance is negative; a transfer succeeds exactly under its documented checks;
  and the contract refines an abstract ledger.
\<close>

subsection \<open>State\<close>

record currency_stats =
  csupply :: asset
  max_supply :: asset
  issuer :: name

record token_state =
  stat :: "(symcode, currency_stats) fmap"
  accounts :: "(name \<times> symcode, asset) fmap"
  recipients :: "name list"

definition token_init :: token_state where
  "token_init = \<lparr>stat = fmempty, accounts = fmempty, recipients = []\<rparr>"

subsection \<open>Balances\<close>

definition sub_balance :: "env \<Rightarrow> name \<Rightarrow> asset \<Rightarrow> token_state \<Rightarrow> token_state result" where
  "sub_balance E owner v s =
     (case fmlookup (accounts s) (owner, scode (sym v)) of
        None \<Rightarrow> Inl (Check ''no balance object found'')
      | Some balance \<Rightarrow>
          if \<not> amount v \<le> amount balance then Inl (Check ''overdrawn balance'') else
          (case asset_sub E balance v of Inl e \<Rightarrow> Inl e | Inr balance' \<Rightarrow>
          Inr (s\<lparr>accounts := fmupd (owner, scode (sym v)) balance' (accounts s)\<rparr>)))"

definition add_balance :: "env \<Rightarrow> name \<Rightarrow> asset \<Rightarrow> name \<Rightarrow> token_state \<Rightarrow> token_state result" where
  "add_balance E owner v ram_payer s =
     (case fmlookup (accounts s) (owner, scode (sym v)) of
        None \<Rightarrow> Inr (s\<lparr>accounts := fmupd (owner, scode (sym v)) v (accounts s)\<rparr>)
      | Some balance \<Rightarrow>
          (case asset_add E balance v of Inl e \<Rightarrow> Inl e | Inr balance' \<Rightarrow>
          Inr (s\<lparr>accounts := fmupd (owner, scode (sym v)) balance' (accounts s)\<rparr>)))"

subsection \<open>Actions\<close>

definition create :: "env \<Rightarrow> name \<Rightarrow> asset \<Rightarrow> token_state \<Rightarrow> token_state result" where
  "create E issuer' maximum_supply s =
     (if \<not> has_auth E (get_self E) then Inl Missing_auth else
      if \<not> asset_valid E maximum_supply then Inl (Check ''invalid supply'') else
      if \<not> 0 < amount maximum_supply then Inl (Check ''max-supply must be positive'') else
      if fmlookup (stat s) (scode (sym maximum_supply)) \<noteq> None
      then Inl (Check ''token with symbol already exists'') else
      Inr (s\<lparr>stat := fmupd (scode (sym maximum_supply))
               \<lparr>csupply = \<lparr>amount = 0, sym = sym maximum_supply\<rparr>,
                max_supply = maximum_supply, issuer = issuer'\<rparr> (stat s)\<rparr>))"

definition issue :: "env \<Rightarrow> name \<Rightarrow> asset \<Rightarrow> string \<Rightarrow> token_state \<Rightarrow> token_state result" where
  "issue E to quantity memo s =
     (if \<not> symbol_valid E (sym quantity) then Inl (Check ''invalid symbol name'') else
      if \<not> length memo \<le> 256 then Inl (Check ''memo has more than 256 bytes'') else
      (case fmlookup (stat s) (scode (sym quantity)) of
        None \<Rightarrow> Inl (Check ''token with symbol does not exist, create token before issue'')
      | Some st \<Rightarrow>
          if to \<noteq> issuer st then Inl (Check ''tokens can only be issued to issuer account'') else
          if \<not> has_auth E (issuer st) then Inl Missing_auth else
          if \<not> asset_valid E quantity then Inl (Check ''invalid quantity'') else
          if \<not> 0 < amount quantity then Inl (Check ''must issue positive quantity'') else
          if sym quantity \<noteq> sym (csupply st) then Inl (Check ''symbol precision mismatch'') else
          if \<not> amount quantity \<le> i64 (amount (max_supply st) - amount (csupply st))
          then Inl (Check ''quantity exceeds available supply'') else
          (case asset_add E (csupply st) quantity of Inl e \<Rightarrow> Inl e | Inr supply' \<Rightarrow>
          add_balance E (issuer st) quantity (issuer st)
            (s\<lparr>stat := fmupd (scode (sym quantity)) (st\<lparr>csupply := supply'\<rparr>) (stat s)\<rparr>))))"

definition retire :: "env \<Rightarrow> asset \<Rightarrow> string \<Rightarrow> token_state \<Rightarrow> token_state result" where
  "retire E quantity memo s =
     (if \<not> symbol_valid E (sym quantity) then Inl (Check ''invalid symbol name'') else
      if \<not> length memo \<le> 256 then Inl (Check ''memo has more than 256 bytes'') else
      (case fmlookup (stat s) (scode (sym quantity)) of
        None \<Rightarrow> Inl (Check ''token with symbol does not exist'')
      | Some st \<Rightarrow>
          if \<not> has_auth E (issuer st) then Inl Missing_auth else
          if \<not> asset_valid E quantity then Inl (Check ''invalid quantity'') else
          if \<not> 0 < amount quantity then Inl (Check ''must retire positive quantity'') else
          if sym quantity \<noteq> sym (csupply st) then Inl (Check ''symbol precision mismatch'') else
          (case asset_sub E (csupply st) quantity of Inl e \<Rightarrow> Inl e | Inr supply' \<Rightarrow>
          sub_balance E (issuer st) quantity
            (s\<lparr>stat := fmupd (scode (sym quantity)) (st\<lparr>csupply := supply'\<rparr>) (stat s)\<rparr>))))"

definition transfer :: "env \<Rightarrow> name \<Rightarrow> name \<Rightarrow> asset \<Rightarrow> string \<Rightarrow> token_state \<Rightarrow> token_state result" where
  "transfer E from to quantity memo s =
     (if from = to then Inl (Check ''cannot transfer to self'') else
      if \<not> has_auth E from then Inl Missing_auth else
      if \<not> is_account E to then Inl (Check ''to account does not exist'') else
      (case fmlookup (stat s) (scode (sym quantity)) of
        None \<Rightarrow> Inl (Check ''unable to find key'')
      | Some st \<Rightarrow>
          let s = s\<lparr>recipients := recipients s @ [from, to]\<rparr> in
          if \<not> asset_valid E quantity then Inl (Check ''invalid quantity'') else
          if \<not> 0 < amount quantity then Inl (Check ''must transfer positive quantity'') else
          if sym quantity \<noteq> sym (csupply st) then Inl (Check ''symbol precision mismatch'') else
          if \<not> length memo \<le> 256 then Inl (Check ''memo has more than 256 bytes'') else
          let payer = (if has_auth E to then to else from) in
          (case sub_balance E from quantity s of Inl e \<Rightarrow> Inl e | Inr s1 \<Rightarrow>
          add_balance E to quantity payer s1)))"

definition open_action :: "env \<Rightarrow> name \<Rightarrow> symbol \<Rightarrow> name \<Rightarrow> token_state \<Rightarrow> token_state result" where
  "open_action E owner y ram_payer s =
     (if \<not> has_auth E ram_payer then Inl Missing_auth else
      if \<not> is_account E owner then Inl (Check ''owner account does not exist'') else
      (case fmlookup (stat s) (scode y) of
        None \<Rightarrow> Inl (Check ''symbol does not exist'')
      | Some st \<Rightarrow>
          if sym (csupply st) \<noteq> y then Inl (Check ''symbol precision mismatch'') else
          if fmlookup (accounts s) (owner, scode y) = None
          then (case asset_new E 0 y of Inl e \<Rightarrow> Inl e | Inr zero \<Rightarrow>
               Inr (s\<lparr>accounts := fmupd (owner, scode y) zero (accounts s)\<rparr>))
          else Inr s))"

definition close_action :: "env \<Rightarrow> name \<Rightarrow> symbol \<Rightarrow> token_state \<Rightarrow> token_state result" where
  "close_action E owner y s =
     (if \<not> has_auth E owner then Inl Missing_auth else
      (case fmlookup (accounts s) (owner, scode y) of
        None \<Rightarrow> Inl (Check ''Balance row already deleted or never existed. Action won't have any effect.'')
      | Some balance \<Rightarrow>
          if amount balance \<noteq> 0 then Inl (Check ''Cannot close because the balance is not zero.'') else
          Inr (s\<lparr>accounts := fmdrop (owner, scode y) (accounts s)\<rparr>)))"

definition get_supply :: "symcode \<Rightarrow> token_state \<Rightarrow> asset result" where
  "get_supply c s =
     (case fmlookup (stat s) c of
        None \<Rightarrow> Inl (Check ''invalid supply symbol code'')
      | Some st \<Rightarrow> Inr (csupply st))"

definition get_balance :: "name \<Rightarrow> symcode \<Rightarrow> token_state \<Rightarrow> asset result" where
  "get_balance owner c s =
     (case fmlookup (accounts s) (owner, c) of
        None \<Rightarrow> Inl (Check ''no balance with specified symbol'')
      | Some balance \<Rightarrow> Inr balance)"

datatype token_action =
    Create name asset
  | Issue name asset string
  | Retire asset string
  | Transfer name name asset string
  | Open name symbol name
  | Close name symbol

fun token_apply :: "env \<Rightarrow> token_action \<Rightarrow> token_state \<Rightarrow> token_state result" where
  "token_apply E (Create i m) s = create E i m s"
| "token_apply E (Issue to q memo) s = issue E to q memo s"
| "token_apply E (Retire q memo) s = retire E q memo s"
| "token_apply E (Transfer from to q memo) s = transfer E from to q memo s"
| "token_apply E (Open owner y payer) s = open_action E owner y payer s"
| "token_apply E (Close owner y) s = close_action E owner y s"

text \<open>Every history of the contract: actions pushed in any lawful environment.\<close>

inductive token_reach :: "token_state \<Rightarrow> bool" where
  token_reach_init: "token_reach token_init"
| token_reach_step:
    "token_reach s \<Longrightarrow> chain_laws E \<Longrightarrow> token_apply E a s = Inr s' \<Longrightarrow> token_reach s'"

subsection \<open>The ledger invariant\<close>

definition balance_of :: "token_state \<Rightarrow> name \<Rightarrow> symcode \<Rightarrow> int" where
  "balance_of s owner c = fmval amount (fmlookup (accounts s) (owner, c))"

definition supply_of :: "token_state \<Rightarrow> symcode \<Rightarrow> int" where
  "supply_of s c = fmval (\<lambda>st. amount (csupply st)) (fmlookup (stat s) c)"

definition in_code :: "symcode \<Rightarrow> asset \<Rightarrow> int" where
  "in_code c b = (if scode (sym b) = c then amount b else 0)"

definition total_balance :: "token_state \<Rightarrow> symcode \<Rightarrow> int" where
  "total_balance s c = fmsum (in_code c) (accounts s)"

definition stats_ok :: "symcode \<Rightarrow> currency_stats \<Rightarrow> bool" where
  "stats_ok c st \<longleftrightarrow> scode (sym (csupply st)) = c \<and> sym (max_supply st) = sym (csupply st) \<and>
     0 \<le> amount (csupply st) \<and> amount (csupply st) \<le> amount (max_supply st) \<and>
     amount (max_supply st) \<le> max_amount"

definition token_inv :: "token_state \<Rightarrow> bool" where
  "token_inv s \<longleftrightarrow>
     (\<forall>c st. fmlookup (stat s) c = Some st \<longrightarrow> stats_ok c st) \<and>
     (\<forall>owner c b. fmlookup (accounts s) (owner, c) = Some b \<longrightarrow>
        (\<exists>st. fmlookup (stat s) c = Some st \<and> sym b = sym (csupply st)) \<and> 0 \<le> amount b) \<and>
     (\<forall>c. supply_of s c = total_balance s c)"


subsection \<open>Every action keeps the invariant\<close>

definition acc_ok :: "token_state \<Rightarrow> bool" where
  "acc_ok s \<longleftrightarrow> (\<forall>owner c b. fmlookup (accounts s) (owner, c) = Some b \<longrightarrow>
     (\<exists>st. fmlookup (stat s) c = Some st \<and> scode (sym (csupply st)) = c \<and> sym b = sym (csupply st)) \<and> 0 \<le> amount b)"

lemma token_inv_iff:
  "token_inv s \<longleftrightarrow> (\<forall>c st. fmlookup (stat s) c = Some st \<longrightarrow> stats_ok c st) \<and> acc_ok s \<and>
     (\<forall>c. supply_of s c = total_balance s c)"
  by (auto simp: token_inv_def acc_ok_def stats_ok_def) blast+

lemma acc_okD:
  "acc_ok s \<Longrightarrow> fmlookup (accounts s) (owner, c) = Some b \<Longrightarrow> 0 \<le> amount b \<and> scode (sym b) = c"
  unfolding acc_ok_def by metis

lemma acc_ok_sym:
  "acc_ok s \<Longrightarrow> fmlookup (accounts s) (owner, c) = Some b \<Longrightarrow> fmlookup (stat s) c = Some st \<Longrightarrow>
     sym b = sym (csupply st)"
  unfolding acc_ok_def by (metis option.inject)

lemma sub_balance_Inr:
  assumes E: "chain_laws E" and ok: "acc_ok s" and r: "sub_balance E owner v s = Inr s'"
  shows "\<exists>b. fmlookup (accounts s) (owner, scode (sym v)) = Some b \<and> amount v \<le> amount b \<and> sym v = sym b \<and>
    s' = s\<lparr>accounts := fmupd (owner, scode (sym v)) \<lparr>amount = amount b - amount v, sym = sym b\<rparr> (accounts s)\<rparr>"
  using r chain_laws.sub_exact [OF E] unfolding sub_balance_def
  by (fastforce simp: result_simps not_le)

lemma sub_balance_facts:
  assumes E: "chain_laws E" and ok: "acc_ok s" and r: "sub_balance E owner v s = Inr s'"
  shows "acc_ok s'" "stat s' = stat s" "total_balance s' c = total_balance s c - in_code c v"
proof -
  from sub_balance_Inr [OF assms] obtain b where
    b: "fmlookup (accounts s) (owner, scode (sym v)) = Some b" "amount v \<le> amount b" "sym v = sym b"
      "s' = s\<lparr>accounts := fmupd (owner, scode (sym v)) \<lparr>amount = amount b - amount v, sym = sym b\<rparr> (accounts s)\<rparr>"
    by blast
  show "stat s' = stat s" using b(4) by simp
  show "acc_ok s'" using ok b by (auto simp: acc_ok_def)
  show "total_balance s' c = total_balance s c - in_code c v"
    using b by (simp add: total_balance_def fmsum_upd in_code_def)
qed

lemma add_balance_facts:
  assumes E: "chain_laws E" and ok: "acc_ok s" and r: "add_balance E owner v payer s = Inr s'"
    and st: "fmlookup (stat s) (scode (sym v)) = Some st" "sym v = sym (csupply st)" and v: "0 \<le> amount v"
  shows "acc_ok s'" "stat s' = stat s" "total_balance s' c = total_balance s c + in_code c v"
proof -
  obtain b' where s': "s' = s\<lparr>accounts := fmupd (owner, scode (sym v)) b' (accounts s)\<rparr>"
    and b': "sym b' = sym v" "amount b' = fmval amount (fmlookup (accounts s) (owner, scode (sym v))) + amount v"
    using r chain_laws.add_exact [OF E] ok st unfolding add_balance_def
    by (fastforce simp: result_simps acc_ok_def split: option.splits)
  have old: "fmlookup (accounts s) (owner, scode (sym v)) = Some b \<Longrightarrow> 0 \<le> amount b \<and> scode (sym b) = scode (sym v)" for b
    using ok by (rule acc_okD)
  show "stat s' = stat s" using s' by simp
  show "acc_ok s'"
    using ok s' b' st v old by (auto simp: acc_ok_def fmval_def split: option.splits)
  show "total_balance s' c = total_balance s c + in_code c v"
    using s' b' old
    by (cases "fmlookup (accounts s) (owner, scode (sym v))")
       (auto simp: total_balance_def fmsum_upd in_code_def)
qed

lemma add_balance_ok:
  assumes E: "chain_laws E" and ok: "acc_ok s"
    and st: "fmlookup (stat s) (scode (sym v)) = Some st" "sym v = sym (csupply st)"
    and le: "\<bar>balance_of s owner (scode (sym v)) + amount v\<bar> \<le> max_amount"
  shows "\<exists>s'. add_balance E owner v payer s = Inr s'"
proof (cases "fmlookup (accounts s) (owner, scode (sym v))")
  case None
  then show ?thesis by (simp add: add_balance_def)
next
  case (Some b)
  then have "sym b = sym v" using acc_ok_sym [OF ok _ st(1)] st(2) by simp
  with Some le show ?thesis
    using chain_laws.add_ok [OF E, of b v] by (simp add: add_balance_def balance_of_def)
qed

lemma create_inv:
  assumes E: "chain_laws E" and inv: "token_inv s" and r: "create E i m s = Inr s'"
  shows "token_inv s'"
proof -
  define c0 where "c0 = scode (sym m)"
  from r have none: "fmlookup (stat s) c0 = None" and m: "asset_valid E m" "0 < amount m"
    and s': "s' = s\<lparr>stat := fmupd c0 \<lparr>csupply = \<lparr>amount = 0, sym = sym m\<rparr>, max_supply = m, issuer = i\<rparr> (stat s)\<rparr>"
    by (simp_all add: create_def result_simps c0_def)
  have le: "amount m \<le> max_amount" using m(1) chain_laws.valid_iff [OF E] by (simp add: abs_le_iff)
  have sup: "supply_of s' c = supply_of s c" for c
    using none by (cases "c = c0") (simp_all add: s' supply_of_def)
  have bal: "total_balance s' c = total_balance s c" for c by (simp add: s' total_balance_def)
  show ?thesis unfolding token_inv_iff
  proof (intro conjI allI impI)
    fix c st assume "fmlookup (stat s') c = Some st"
    then show "stats_ok c st"
      using inv le m(2) unfolding token_inv_iff s' by (auto simp: stats_ok_def c0_def split: if_splits)
  next
    show "acc_ok s'" using inv none unfolding token_inv_iff s' acc_ok_def by fastforce
  next
    fix c show "supply_of s' c = total_balance s' c" using inv sup bal unfolding token_inv_iff by simp
  qed
qed


lemma token_inv_update:
  assumes inv: "token_inv s" and st: "fmlookup (stat s) c0 = Some st"
    and acc: "acc_ok s'" and stat': "stat s' = fmupd c0 (st\<lparr>csupply := \<lparr>amount = n, sym = sym (csupply st)\<rparr>\<rparr>) (stat s)"
    and n: "0 \<le> n" "n \<le> amount (max_supply st)"
    and tot: "\<And>c. total_balance s' c = total_balance s c + (if c = c0 then n - amount (csupply st) else 0)"
  shows "token_inv s'"
  unfolding token_inv_iff
proof (intro conjI allI impI)
  fix c st' assume "fmlookup (stat s') c = Some st'"
  then show "stats_ok c st'"
    using inv st n unfolding token_inv_iff stat' by (auto simp: stats_ok_def split: if_splits)
next
  fix c
  have "supply_of s c = total_balance s c" using inv by (simp add: token_inv_iff)
  then show "supply_of s' c = total_balance s' c"
    using st tot [of c] unfolding supply_of_def stat' by (cases "c = c0") simp_all
qed (fact acc)

lemma acc_ok_stat_update:
  assumes "acc_ok s" and "fmlookup (stat s) c = Some st" and "sym (csupply st') = sym (csupply st)"
  shows "acc_ok (s\<lparr>stat := fmupd c st' (stat s)\<rparr>)"
  using assms unfolding acc_ok_def by fastforce

lemma issue_inv:
  assumes E: "chain_laws E" and inv: "token_inv s" and r: "issue E to q memo s = Inr s'"
  shows "token_inv s'"
proof -
  define c0 where "c0 = scode (sym q)"
  from r obtain st sup where st: "fmlookup (stat s) c0 = Some st" and q: "0 < amount q" "sym q = sym (csupply st)"
    and le: "amount q \<le> i64 (amount (max_supply st) - amount (csupply st))"
    and sup: "asset_add E (csupply st) q = Inr sup"
    and add: "add_balance E (issuer st) q (issuer st) (s\<lparr>stat := fmupd c0 (st\<lparr>csupply := sup\<rparr>) (stat s)\<rparr>) = Inr s'"
    by (auto simp: issue_def result_simps c0_def)
  have so: "stats_ok c0 st" and acc: "acc_ok s" using inv st by (auto simp: token_inv_iff)
  then have le': "amount (csupply st) + amount q \<le> amount (max_supply st)"
    using le by (simp add: stats_ok_def width_simps max_amount_def)
  have sup': "sup = \<lparr>amount = amount (csupply st) + amount q, sym = sym (csupply st)\<rparr>"
    using chain_laws.add_exact [OF E sup] by simp
  define s1 where "s1 = s\<lparr>stat := fmupd c0 (st\<lparr>csupply := sup\<rparr>) (stat s)\<rparr>"
  have acc1: "acc_ok s1" unfolding s1_def using acc st by (rule acc_ok_stat_update) (simp add: sup')
  have f: "fmlookup (stat s1) (scode (sym q)) = Some (st\<lparr>csupply := sup\<rparr>)" "sym q = sym (csupply (st\<lparr>csupply := sup\<rparr>))" "0 \<le> amount q"
    using q by (simp_all add: s1_def c0_def sup')
  note facts = add_balance_facts [OF E acc1 add [folded s1_def] f]
  show ?thesis
  proof (rule token_inv_update [OF inv st facts(1)])
    show "stat s' = fmupd c0 (st\<lparr>csupply := \<lparr>amount = amount (csupply st) + amount q, sym = sym (csupply st)\<rparr>\<rparr>) (stat s)"
      using facts(2) by (simp add: s1_def sup')
    show "total_balance s' c = total_balance s c + (if c = c0 then amount (csupply st) + amount q - amount (csupply st) else 0)" for c
      using facts(3) [of c] by (simp add: s1_def total_balance_def in_code_def c0_def)
  qed (use so q le' in \<open>auto simp: stats_ok_def\<close>)
qed

lemma retire_inv:
  assumes E: "chain_laws E" and inv: "token_inv s" and r: "retire E q memo s = Inr s'"
  shows "token_inv s'"
proof -
  define c0 where "c0 = scode (sym q)"
  from r obtain st sup where st: "fmlookup (stat s) c0 = Some st" and q: "0 < amount q" "sym q = sym (csupply st)"
    and sup: "asset_sub E (csupply st) q = Inr sup"
    and sub: "sub_balance E (issuer st) q (s\<lparr>stat := fmupd c0 (st\<lparr>csupply := sup\<rparr>) (stat s)\<rparr>) = Inr s'"
    by (auto simp: retire_def result_simps c0_def)
  have so: "stats_ok c0 st" and acc: "acc_ok s" using inv st by (auto simp: token_inv_iff)
  have sup': "sup = \<lparr>amount = amount (csupply st) - amount q, sym = sym (csupply st)\<rparr>"
    using chain_laws.sub_exact [OF E sup] by simp
  define s1 where "s1 = s\<lparr>stat := fmupd c0 (st\<lparr>csupply := sup\<rparr>) (stat s)\<rparr>"
  have acc1: "acc_ok s1" unfolding s1_def using acc st by (rule acc_ok_stat_update) (simp add: sup')
  note facts = sub_balance_facts [OF E acc1 sub [folded s1_def]]
  have tot: "total_balance s' c = total_balance s c + (if c = c0 then amount (csupply st) - amount q - amount (csupply st) else 0)" for c
    using facts(3) [of c] by (simp add: s1_def total_balance_def in_code_def c0_def)
  have "0 \<le> total_balance s' c0"
    unfolding total_balance_def
    by (rule fmsum_nonneg) (use acc_okD [OF facts(1)] in \<open>auto simp: in_code_def\<close>)
  moreover have "supply_of s c0 = total_balance s c0" using inv by (simp add: token_inv_iff)
  ultimately have "0 \<le> amount (csupply st) - amount q" using tot [of c0] st by (simp add: supply_of_def)
  then show ?thesis
    using so q facts(2)
    by (intro token_inv_update [OF inv st facts(1) _ _ _ tot]) (auto simp: stats_ok_def s1_def sup')
qed

lemma transfer_inv:
  assumes E: "chain_laws E" and inv: "token_inv s" and r: "transfer E from to q memo s = Inr s'"
  shows "token_inv s'"
proof -
  define s0 where "s0 = s\<lparr>recipients := recipients s @ [from, to]\<rparr>"
  from r obtain st s1 payer where st: "fmlookup (stat s) (scode (sym q)) = Some st"
    and q: "0 < amount q" "sym q = sym (csupply st)"
    and sub: "sub_balance E from q s0 = Inr s1" and add: "add_balance E to q payer s1 = Inr s'"
    by (auto simp: transfer_def result_simps Let_def s0_def)
  have acc0: "acc_ok s0" using inv by (simp add: token_inv_iff acc_ok_def s0_def)
  note f1 = sub_balance_facts [OF E acc0 sub]
  have st1: "fmlookup (stat s1) (scode (sym q)) = Some st" using f1(2) st by (simp add: s0_def)
  note f2 = add_balance_facts [OF E f1(1) add st1 q(2)]
  have "total_balance s' c = total_balance s c" for c
    using f1(3) [of c] f2(3) [of c] q by (simp add: total_balance_def s0_def)
  moreover have "stat s' = stat s" using f1(2) f2(2) q by (simp add: s0_def)
  ultimately show ?thesis using inv f2(1) q by (simp add: token_inv_iff supply_of_def)
qed

lemma open_inv:
  assumes E: "chain_laws E" and inv: "token_inv s" and r: "open_action E owner y payer s = Inr s'"
  shows "token_inv s'"
proof (cases "fmlookup (accounts s) (owner, scode y)")
  case Some
  then show ?thesis using r inv by (auto simp: open_action_def result_simps)
next
  case None
  with r obtain st z where st: "fmlookup (stat s) (scode y) = Some st" "sym (csupply st) = y"
    and z: "asset_new E 0 y = Inr z" and s': "s' = s\<lparr>accounts := fmupd (owner, scode y) z (accounts s)\<rparr>"
    by (auto simp: open_action_def result_simps)
  have z': "z = \<lparr>amount = 0, sym = y\<rparr>" using chain_laws.new_exact [OF E z] .
  have "acc_ok s'" using inv st by (auto simp: token_inv_iff acc_ok_def s' z')
  moreover have "total_balance s' c = total_balance s c" for c
    using None by (simp add: s' z' total_balance_def fmsum_upd in_code_def)
  ultimately show ?thesis using inv by (simp add: token_inv_iff supply_of_def s')
qed

lemma close_inv:
  assumes E: "chain_laws E" and inv: "token_inv s" and r: "close_action E owner y s = Inr s'"
  shows "token_inv s'"
proof -
  from r obtain b where b: "fmlookup (accounts s) (owner, scode y) = Some b" "amount b = 0"
    and s': "s' = s\<lparr>accounts := fmdrop (owner, scode y) (accounts s)\<rparr>"
    by (auto simp: close_action_def result_simps)
  have "acc_ok s'" using inv by (auto simp: token_inv_iff acc_ok_def s' split: if_splits)
  moreover have "total_balance s' c = total_balance s c" for c
    using b by (simp add: s' total_balance_def fmsum_drop in_code_def)
  ultimately show ?thesis using inv by (simp add: token_inv_iff supply_of_def s')
qed

lemma token_apply_inv:
  assumes "chain_laws E" and "token_inv s" and "token_apply E a s = Inr s'"
  shows "token_inv s'"
  using assms
  by (cases a; simp)
    (erule (2) create_inv, erule (2) issue_inv, erule (2) retire_inv, erule (2) transfer_inv,
     erule (2) open_inv, erule (2) close_inv)

lemma token_init_inv: "token_inv token_init"
  by (simp add: token_inv_def token_init_def supply_of_def total_balance_def)

lemma token_reach_inv: "token_reach s \<Longrightarrow> token_inv s"
proof (induction rule: token_reach.induct)
  case token_reach_init
  show ?case by (rule token_init_inv)
next
  case (token_reach_step s E a s')
  from token_apply_inv [OF token_reach_step.hyps(2) token_reach_step.IH token_reach_step.hyps(3)]
  show ?case .
qed


subsection \<open>Transfers\<close>

lemma sub_balance_of:
  assumes "chain_laws E" "acc_ok s" "sub_balance E owner v s = Inr s'"
  shows "balance_of s' x c = balance_of s x c - (if x = owner \<and> c = scode (sym v) then amount v else 0)"
  using sub_balance_Inr [OF assms] by (auto simp: balance_of_def)

lemma add_balance_of:
  assumes "chain_laws E" "add_balance E owner v payer s = Inr s'"
  shows "balance_of s' x c = balance_of s x c + (if x = owner \<and> c = scode (sym v) then amount v else 0)"
  using assms(2) chain_laws.add_exact [OF assms(1)]
  by (fastforce simp: add_balance_def balance_of_def result_simps split: option.splits)

lemma transfer_parts:
  assumes "transfer E from to q memo s = Inr s'"
  obtains st s1 payer where "from \<noteq> to" "has_auth E from" "is_account E to"
    "fmlookup (stat s) (scode (sym q)) = Some st" "asset_valid E q" "0 < amount q" "sym q = sym (csupply st)"
    "length memo \<le> 256" "sub_balance E from q (s\<lparr>recipients := recipients s @ [from, to]\<rparr>) = Inr s1"
    "add_balance E to q payer s1 = Inr s'"
  using assms by (auto simp: transfer_def result_simps Let_def)

lemma balance_of_recipients [simp]: "balance_of (s\<lparr>recipients := r\<rparr>) = balance_of s"
  by (simp add: balance_of_def fun_eq_iff)

lemma acc_ok_recipients [simp]: "acc_ok (s\<lparr>recipients := r\<rparr>) \<longleftrightarrow> acc_ok s"
  by (simp add: acc_ok_def)

lemma transfer_moves:
  assumes E: "chain_laws E" and inv: "token_inv s" and r: "transfer E from to q memo s = Inr s'"
  shows "balance_of s' x c = balance_of s x c
           + (if x = to \<and> c = scode (sym q) then amount q else 0)
           - (if x = from \<and> c = scode (sym q) then amount q else 0)"
proof -
  from r obtain s1 payer where
    sub: "sub_balance E from q (s\<lparr>recipients := recipients s @ [from, to]\<rparr>) = Inr s1"
    and add: "add_balance E to q payer s1 = Inr s'"
    by (rule transfer_parts)
  have "acc_ok (s\<lparr>recipients := recipients s @ [from, to]\<rparr>)" using inv by (simp add: token_inv_iff)
  from add_balance_of [OF E add] sub_balance_of [OF E this sub] show ?thesis by simp
qed

lemma balance_le_total:
  assumes acc: "acc_ok s"
  shows "0 \<le> balance_of s x c" and "balance_of s x c \<le> total_balance s c"
proof -
  have nn: "fmlookup (accounts s) k = Some b \<Longrightarrow> 0 \<le> in_code c b" for k b
    using acc_okD [OF acc, of "fst k" "snd k"] by (simp add: in_code_def)
  show "0 \<le> balance_of s x c"
    using acc_okD [OF acc] by (auto simp: balance_of_def fmval_def split: option.splits)
  show "balance_of s x c \<le> total_balance s c"
  proof (cases "fmlookup (accounts s) (x, c)")
    case None
    then show ?thesis using fmsum_nonneg [of "accounts s" "in_code c"] nn by (simp add: balance_of_def total_balance_def)
  next
    case (Some b)
    have "in_code c b \<le> fmsum (in_code c) (accounts s)" using nn Some by (rule fmsum_ge_row)
    with Some show ?thesis
      using acc_okD [OF acc Some] by (simp add: balance_of_def total_balance_def in_code_def)
  qed
qed

lemma balance_of_bounds:
  assumes "token_inv s"
  shows "0 \<le> balance_of s x c" and "balance_of s x c \<le> supply_of s c" and "supply_of s c \<le> max_amount"
proof -
  show "0 \<le> balance_of s x c" "balance_of s x c \<le> supply_of s c"
    using assms balance_le_total by (auto simp: token_inv_iff)
  have "fmlookup (stat s) c = Some st \<Longrightarrow> stats_ok c st" for st using assms by (simp add: token_inv_iff)
  then show "supply_of s c \<le> max_amount"
    by (cases "fmlookup (stat s) c") (force simp: supply_of_def stats_ok_def max_amount_def)+
qed

definition transfer_allowed :: "env \<Rightarrow> name \<Rightarrow> name \<Rightarrow> asset \<Rightarrow> string \<Rightarrow> token_state \<Rightarrow> bool" where
  "transfer_allowed E from to q memo s \<longleftrightarrow>
     from \<noteq> to \<and> has_auth E from \<and> is_account E to \<and> asset_valid E q \<and> 0 < amount q \<and>
     map_option (\<lambda>st. sym (csupply st)) (fmlookup (stat s) (scode (sym q))) = Some (sym q) \<and>
     length memo \<le> 256 \<and> amount q \<le> balance_of s from (scode (sym q))"

lemma transfer_succeeds:
  assumes E: "chain_laws E" and inv: "token_inv s" and ok: "transfer_allowed E from to q memo s"
  shows "\<exists>s'. transfer E from to q memo s = Inr s'"
proof -
  define s0 where "s0 = s\<lparr>recipients := recipients s @ [from, to]\<rparr>"
  define c where "c = scode (sym q)"
  from ok obtain st where st: "fmlookup (stat s) c = Some st" "sym (csupply st) = sym q"
    by (auto simp: transfer_allowed_def c_def)
  have acc: "acc_ok s0" using inv by (simp add: token_inv_iff s0_def)
  have q: "0 < amount q" "amount q \<le> balance_of s from c" using ok by (simp_all add: transfer_allowed_def c_def)
  then obtain b where b: "fmlookup (accounts s0) (from, c) = Some b" "amount q \<le> amount b"
    by (cases "fmlookup (accounts s) (from, c)") (auto simp: balance_of_def s0_def)
  have "sym b = sym q" using acc_ok_sym [OF acc b(1), of st] st by (simp add: s0_def)
  moreover have "amount b \<le> max_amount"
    using balance_of_bounds(2) [OF inv, of "from" c] balance_of_bounds(3) [OF inv, of c] b(1) by (simp add: balance_of_def s0_def)
  ultimately have "\<exists>s1. sub_balance E from q s0 = Inr s1"
    using b q chain_laws.sub_ok [OF E, of b q] by (simp add: sub_balance_def c_def)
  then obtain s1 where sub: "sub_balance E from q s0 = Inr s1" ..
  note f = sub_balance_facts [OF E acc sub]
  have st1: "fmlookup (stat s1) (scode (sym q)) = Some st" using f(2) st by (simp add: s0_def c_def)
  have "balance_of s1 to c \<le> supply_of s c - amount q"
  proof -
    have "balance_of s1 to c \<le> total_balance s1 c" using f(1) by (rule balance_le_total)
    then show ?thesis using f(3) [of c] inv by (simp add: token_inv_iff total_balance_def s0_def in_code_def c_def)
  qed
  moreover have "0 \<le> balance_of s1 to c" using f(1) by (rule balance_le_total)
  ultimately have "\<bar>balance_of s1 to c + amount q\<bar> \<le> max_amount"
    using balance_of_bounds(3) [OF inv, of c] q by simp
  from add_balance_ok [OF E f(1) st1 st(2) [symmetric] this [unfolded c_def]]
  have "\<exists>s'. add_balance E to q (if has_auth E to then to else from) s1 = Inr s'" .
  then show ?thesis using ok st(1) st(2) [symmetric] sub
    by (simp add: transfer_def transfer_allowed_def c_def s0_def)
qed

lemma transfer_needs:
  assumes E: "chain_laws E" and inv: "token_inv s" and r: "transfer E from to q memo s = Inr s'"
  shows "transfer_allowed E from to q memo s"
proof -
  from r obtain st s1 payer where p: "from \<noteq> to" "has_auth E from" "is_account E to"
    "fmlookup (stat s) (scode (sym q)) = Some st" "asset_valid E q" "0 < amount q" "sym q = sym (csupply st)"
    "length memo \<le> 256" "sub_balance E from q (s\<lparr>recipients := recipients s @ [from, to]\<rparr>) = Inr s1"
    by (rule transfer_parts)
  have "acc_ok (s\<lparr>recipients := recipients s @ [from, to]\<rparr>)" using inv by (simp add: token_inv_iff)
  from sub_balance_Inr [OF E this p(9)] have "amount q \<le> balance_of s from (scode (sym q))"
    by (auto simp: balance_of_def)
  with p show ?thesis by (simp add: transfer_allowed_def)
qed


subsection \<open>The token contract is a ledger\<close>

definition transfer_act :: "env \<Rightarrow> transfer_data \<Rightarrow> token_state \<Rightarrow> token_state result" where
  "transfer_act E t s = transfer E (t_from t) (t_to t) (t_quantity t) (t_memo t) s"

interpretation tok: fungible_ledger chain_laws token_inv balance_of transfer_act
proof
  fix e t s s' x c
  assume a: "chain_laws e" "token_inv s" "transfer_act e t s = Inr s'"
  from transfer_inv [OF a [unfolded transfer_act_def]] show "token_inv s'" .
  from transfer_moves [OF a [unfolded transfer_act_def], of x c]
  show "balance_of s' x c = balance_of s x c + flow t x c" by (auto simp: flow_def)
next
  fix s x c assume "token_inv s"
  then show "0 \<le> balance_of s x c" by (rule balance_of_bounds)
qed

text \<open>
  The abstract ledger: an issuer and a supply per token and a balance per account,
  with total functions for minting, burning and moving.  Reading the tables
  through \<open>ledger_of\<close> maps each action of the contract to one of them.
\<close>

record ledger =
  l_issuer :: "symcode \<Rightarrow> name option"
  l_supply :: "symcode \<Rightarrow> int"
  l_balance :: "name \<Rightarrow> symcode \<Rightarrow> int"

definition ledger_of :: "token_state \<Rightarrow> ledger" where
  "ledger_of s = \<lparr>l_issuer = (\<lambda>c. map_option issuer (fmlookup (stat s) c)),
     l_supply = supply_of s, l_balance = balance_of s\<rparr>"

definition mint :: "name \<Rightarrow> symcode \<Rightarrow> int \<Rightarrow> ledger \<Rightarrow> ledger" where
  "mint x c n l = l\<lparr>l_supply := (\<lambda>d. l_supply l d + (if d = c then n else 0)),
     l_balance := (\<lambda>z d. l_balance l z d + (if z = x \<and> d = c then n else 0))\<rparr>"

definition shift :: "name \<Rightarrow> name \<Rightarrow> symcode \<Rightarrow> int \<Rightarrow> ledger \<Rightarrow> ledger" where
  "shift x y c n l = l\<lparr>l_balance := (\<lambda>z d. l_balance l z d + (if z = y \<and> d = c then n else 0)
                                                        - (if z = x \<and> d = c then n else 0))\<rparr>"

fun ledger_step :: "token_action \<Rightarrow> ledger \<Rightarrow> ledger" where
  "ledger_step (Create i m) l = l\<lparr>l_issuer := (l_issuer l)(scode (sym m) := Some i)\<rparr>"
| "ledger_step (Issue to q memo) l = mint to (scode (sym q)) (amount q) l"
| "ledger_step (Retire q memo) l =
     mint (the (l_issuer l (scode (sym q)))) (scode (sym q)) (- amount q) l"
| "ledger_step (Transfer from to q memo) l = shift from to (scode (sym q)) (amount q) l"
| "ledger_step (Open owner y payer) l = l"
| "ledger_step (Close owner y) l = l"

lemma balance_of_stat [simp]: "balance_of (s\<lparr>stat := t\<rparr>) = balance_of s"
  by (simp add: balance_of_def fun_eq_iff)

lemma acc_ok_stat_read: "token_inv s \<Longrightarrow> acc_ok s"
  by (simp add: token_inv_iff)

lemma create_refines:
  assumes "create E i m s = Inr s'"
  shows "ledger_of s' = ledger_step (Create i m) (ledger_of s)"
  using assms by (auto simp: create_def result_simps ledger_of_def fun_eq_iff supply_of_def)

lemma issue_refines:
  assumes E: "chain_laws E" and r: "issue E to q memo s = Inr s'"
  shows "ledger_of s' = ledger_step (Issue to q memo) (ledger_of s)"
proof -
  from r obtain st sup where st: "fmlookup (stat s) (scode (sym q)) = Some st" "to = issuer st"
    and sup: "asset_add E (csupply st) q = Inr sup"
    and add: "add_balance E to q to (s\<lparr>stat := fmupd (scode (sym q)) (st\<lparr>csupply := sup\<rparr>) (stat s)\<rparr>) = Inr s'"
    by (auto simp: issue_def result_simps)
  have stat': "stat s' = fmupd (scode (sym q)) (st\<lparr>csupply := sup\<rparr>) (stat s)"
    using add by (auto simp: add_balance_def result_simps split: option.splits)
  show ?thesis
    using add_balance_of [OF E add] chain_laws.add_amount [OF E sup] st
    by (auto simp: ledger_of_def mint_def fun_eq_iff supply_of_def stat')
qed

lemma retire_refines:
  assumes E: "chain_laws E" and inv: "token_inv s" and r: "retire E q memo s = Inr s'"
  shows "ledger_of s' = ledger_step (Retire q memo) (ledger_of s)"
proof -
  from r obtain st sup where st: "fmlookup (stat s) (scode (sym q)) = Some st"
    and sup: "asset_sub E (csupply st) q = Inr sup"
    and sub: "sub_balance E (issuer st) q (s\<lparr>stat := fmupd (scode (sym q)) (st\<lparr>csupply := sup\<rparr>) (stat s)\<rparr>) = Inr s'"
    by (auto simp: retire_def result_simps)
  have stat': "stat s' = fmupd (scode (sym q)) (st\<lparr>csupply := sup\<rparr>) (stat s)"
    using sub by (auto simp: sub_balance_def result_simps)
  have "acc_ok (s\<lparr>stat := fmupd (scode (sym q)) (st\<lparr>csupply := sup\<rparr>) (stat s)\<rparr>)"
    using acc_ok_stat_read [OF inv] st by (rule acc_ok_stat_update) (use chain_laws.sub_exact [OF E sup] in simp)
  from sub_balance_of [OF E this sub] show ?thesis
    using chain_laws.sub_amount [OF E sup] st
    by (auto simp: ledger_of_def mint_def fun_eq_iff supply_of_def stat')
qed

lemma transfer_stat: "transfer E from to q memo s = Inr s' \<Longrightarrow> stat s' = stat s"
  by (auto simp: transfer_def sub_balance_def add_balance_def result_simps Let_def split: option.splits)

lemma transfer_refines:
  assumes "chain_laws E" "token_inv s" and r: "transfer E from to q memo s = Inr s'"
  shows "ledger_of s' = ledger_step (Transfer from to q memo) (ledger_of s)"
  using transfer_moves [OF assms] transfer_stat [OF r]
  by (simp add: ledger_of_def shift_def fun_eq_iff supply_of_def)

lemma open_refines:
  assumes "chain_laws E" and "open_action E owner y payer s = Inr s'"
  shows "ledger_of s' = ledger_of s"
  using assms(2) chain_laws.new_exact [OF assms(1)]
  by (fastforce simp: open_action_def result_simps ledger_of_def fun_eq_iff supply_of_def balance_of_def
      split: if_splits)

lemma close_refines:
  assumes "close_action E owner y s = Inr s'"
  shows "ledger_of s' = ledger_of s"
  using assms
  by (auto simp: close_action_def result_simps ledger_of_def fun_eq_iff supply_of_def balance_of_def)

lemma token_apply_refines:
  assumes E: "chain_laws E" and inv: "token_inv s" and r: "token_apply E a s = Inr s'"
  shows "ledger_of s' = ledger_step a (ledger_of s)"
proof (cases a)
  case Create then show ?thesis using create_refines r by simp
next
  case Issue then show ?thesis using issue_refines [OF E] r by simp
next
  case Retire then show ?thesis using retire_refines [OF E inv] r by simp
next
  case Transfer then show ?thesis using transfer_refines [OF E inv] r by simp
next
  case Open then show ?thesis using open_refines [OF E] r by simp
next
  case Close then show ?thesis using close_refines r by simp
qed

subsection \<open>Properties\<close>

definition tlos :: symbol where
  "tlos = \<lparr>scode = 0x534F4C54, sprec = 4\<rparr>"

text \<open>A small history: a token is created and issued, and a part is moved on.\<close>

definition demo_actions :: "token_action list" where
  "demo_actions =
     [Create 7 \<lparr>amount = 10000, sym = tlos\<rparr>, Issue 7 \<lparr>amount = 1000, sym = tlos\<rparr> [],
      Transfer 7 8 \<lparr>amount = 300, sym = tlos\<rparr> []]"

definition demo_token :: token_state where
  "demo_token = \<lparr>stat = fmap_of_list [(scode tlos,
       \<lparr>csupply = \<lparr>amount = 1000, sym = tlos\<rparr>, max_supply = \<lparr>amount = 10000, sym = tlos\<rparr>, issuer = 7\<rparr>)],
     accounts = fmap_of_list [((7, scode tlos), \<lparr>amount = 700, sym = tlos\<rparr>), ((8, scode tlos), \<lparr>amount = 300, sym = tlos\<rparr>)],
     recipients = [7, 8]\<rparr>"

lemma run_token_reach:
  "token_reach s \<Longrightarrow> chain_laws E \<Longrightarrow> run_actions (token_apply E) as s = Inr s' \<Longrightarrow> token_reach s'"
  by (induction as arbitrary: s) (auto simp: result_simps intro: token_reach_step)

lemma demo_run: "run_actions (token_apply (sdk_env 1 0)) demo_actions token_init = Inr demo_token"
  by code_simp

lemma demo_reach: "token_reach demo_token"
  using run_token_reach [OF token_reach_init sdk.chain_laws_axioms demo_run] .

text \<open>
  C1. In every state the token contract can reach, the recorded supply of each token is exactly
  the sum of all balances of that token, the supply lies between zero and the maximum supply,
  and every balance lies between zero and the supply: no action creates or destroys
  tokens except \<open>issue\<close> and \<open>retire\<close>.
\<close>

theorem token_supply_sound:
  assumes "token_reach s"
  shows "supply_of s c = total_balance s c \<and> 0 \<le> balance_of s x c \<and> balance_of s x c \<le> supply_of s c \<and>
     (case fmlookup (stat s) c of
        None \<Rightarrow> supply_of s c = 0
      | Some st \<Rightarrow> 0 \<le> amount (csupply st) \<and> amount (csupply st) \<le> amount (max_supply st) \<and>
                   amount (max_supply st) \<le> max_amount)"
proof -
  have inv: "token_inv s" using assms by (rule token_reach_inv)
  then have "\<And>st. fmlookup (stat s) c = Some st \<Longrightarrow> stats_ok c st" and "supply_of s c = total_balance s c"
    by (simp_all add: token_inv_iff)
  then show ?thesis using balance_of_bounds(1,2) [OF inv, of x c]
    by (auto simp: stats_ok_def supply_of_def split: option.splits)
qed

theorem token_supply_sound_witness:
  "supply_of demo_token (scode tlos) = total_balance demo_token (scode tlos) \<and>
   supply_of demo_token (scode tlos) = 1000 \<and> 0 \<le> balance_of demo_token 8 (scode tlos) \<and> 
   balance_of demo_token 8 (scode tlos) = 300"
proof -
  have "supply_of demo_token (scode tlos) = 1000" "balance_of demo_token 8 (scode tlos) = 300"
    by code_simp+
  then show ?thesis using token_supply_sound [OF demo_reach, of "scode tlos" 8] by simp
qed

text \<open>
  C9. In a state that satisfies the ledger invariant a transfer succeeds exactly when its
  documented conditions hold: distinct accounts, the sender's authority, an existing receiver,
  a valid positive quantity of an existing token in its own precision, a memo of at most 256
  bytes and a sufficient balance.  In particular the receiver's addition never overflows.
\<close>

theorem transfer_iff:
  assumes "chain_laws E" and "token_inv s"
  shows "(\<exists>s'. transfer E from to q memo s = Inr s') \<longleftrightarrow> transfer_allowed E from to q memo s"
  using transfer_succeeds [OF assms] transfer_needs [OF assms] by blast

theorem transfer_iff_witness:
  "(\<exists>s'. transfer (sdk_env 1 0) 8 7 \<lparr>amount = 300, sym = tlos\<rparr> [] demo_token = Inr s') \<and>
   \<not> (\<exists>s'. transfer (sdk_env 1 0) 8 7 \<lparr>amount = 301, sym = tlos\<rparr> [] demo_token = Inr s')"
proof -
  have "transfer_allowed (sdk_env 1 0) 8 7 \<lparr>amount = 300, sym = tlos\<rparr> [] demo_token"
    "\<not> transfer_allowed (sdk_env 1 0) 8 7 \<lparr>amount = 301, sym = tlos\<rparr> [] demo_token"
    by code_simp+
  then show ?thesis
    using transfer_iff [OF sdk.chain_laws_axioms [of 1 0] token_reach_inv [OF demo_reach]] by blast
qed

text \<open>
  C2. Refinement: every successful action of the token contract acts on the tables as the
  corresponding total operation on the abstract ledger (register an issuer, mint to the issuer,
  burn from the issuer, shift between two accounts, or nothing for \<open>open\<close> and \<open>close\<close>), and it keeps
  the ledger invariant.
\<close>

theorem token_refines_ledger:
  assumes "chain_laws E" and "token_inv s" and "token_apply E a s = Inr s'"
  shows "ledger_of s' = ledger_step a (ledger_of s) \<and> token_inv s'"
  using token_apply_refines [OF assms] token_apply_inv [OF assms] by blast

theorem token_refines_ledger_witness:
  "l_supply (ledger_of demo_token) (scode tlos) = 1000 \<and>
   (\<exists>s'. token_apply (sdk_env 1 0) (Retire \<lparr>amount = 200, sym = tlos\<rparr> []) demo_token = Inr s' \<and>
      l_supply (ledger_of s') (scode tlos) = 800 \<and> l_balance (ledger_of s') 7 (scode tlos) = 500)"
proof -
  define a where "a = Retire \<lparr>amount = 200, sym = tlos\<rparr> []"
  have "\<not> isl (token_apply (sdk_env 1 0) (Retire \<lparr>amount = 200, sym = tlos\<rparr> []) demo_token)" by code_simp
  then obtain s' where s': "token_apply (sdk_env 1 0) a demo_token = Inr s'"
    unfolding a_def by (cases "token_apply (sdk_env 1 0) (Retire \<lparr>amount = 200, sym = tlos\<rparr> []) demo_token") auto
  have v: "l_supply (ledger_of demo_token) (scode tlos) = 1000"
    "l_supply (ledger_step (Retire \<lparr>amount = 200, sym = tlos\<rparr> []) (ledger_of demo_token)) (scode tlos) = 800"
    "l_balance (ledger_step (Retire \<lparr>amount = 200, sym = tlos\<rparr> []) (ledger_of demo_token)) 7 (scode tlos) = 500"
    by code_simp+
  show ?thesis
    using token_refines_ledger [OF sdk.chain_laws_axioms token_reach_inv [OF demo_reach] s'] s' v unfolding a_def by auto
qed

end
