(* ===== verification/System_Admin.thy ===== *)
theory System_Admin
  imports Producer_Schedule Delegate_Bandwidth Eosio_Token
begin

section \<open>Administration of the system contract\<close>

text \<open>
  Model of the actions of \<open>eosio.system.cpp\<close> that set parameters and limits, create accounts and
  initialise the contract.  The chain parameters are the seventeen values \<open>setparams\<close> writes, in the
  order in which it writes them, and the optional eighteenth.  Hashes are computed by the chain:
  \<open>sha256\<close> is an argument.  The actions that talk to the EVM contract are in
  theory \<open>Evm_Voting\<close>, the RAM market has its own theory.
\<close>

subsection \<open>Chain parameters\<close>

record blockchain_parameters =
  max_block_net_usage :: int
  target_block_net_usage_pct :: int
  max_transaction_net_usage :: int
  base_per_transaction_net_usage :: int
  net_usage_leeway :: int
  context_free_discount_net_usage_num :: int
  context_free_discount_net_usage_den :: int
  max_block_cpu_usage :: int
  target_block_cpu_usage_pct :: int
  max_transaction_cpu_usage :: int
  min_transaction_cpu_usage :: int
  max_transaction_lifetime :: int
  deferred_trx_expiration_window :: int
  max_transaction_delay :: int
  max_inline_action_size :: int
  max_inline_action_depth :: int
  max_authority_depth :: int
  max_action_return_value_size :: "int option"

text \<open>The stream of \<open>setparams\<close>, one list element per item written: the count, then identifiers and values.\<close>

definition packed_parameters :: "blockchain_parameters \<Rightarrow> int list" where
  "packed_parameters p =
     (let pairs = [(0, max_block_net_usage p), (1, target_block_net_usage_pct p), (2, max_transaction_net_usage p),
            (3, base_per_transaction_net_usage p), (4, net_usage_leeway p),
            (5, context_free_discount_net_usage_num p), (6, context_free_discount_net_usage_den p),
            (7, max_block_cpu_usage p), (8, target_block_cpu_usage_pct p), (9, max_transaction_cpu_usage p),
            (10, min_transaction_cpu_usage p), (11, max_transaction_lifetime p), (12, deferred_trx_expiration_window p),
            (13, max_transaction_delay p), (14, max_inline_action_size p), (15, max_inline_action_depth p),
            (16, max_authority_depth p)] @
            (case max_action_return_value_size p of None \<Rightarrow> [] | Some v \<Rightarrow> [(17, v)])
      in int (length pairs) # concat (map (\<lambda>(i, v). [i, v]) pairs))"

definition setparams :: "env \<Rightarrow> blockchain_parameters \<Rightarrow> sys \<Rightarrow> sys result" where
  "setparams E params s =
     (if \<not> has_auth E (get_self E) then Inl Missing_auth else
      if \<not> 3 \<le> max_authority_depth params then Inl (Check ''max_authority_depth should be at least 3'') else
      Inr (emit (Set_blockchain_parameters (packed_parameters params)) s))"

record wasm_parameters =
  max_mutable_global_bytes :: int
  max_table_elements :: int
  max_section_elements :: int
  max_linear_memory_init :: int
  max_func_local_bytes :: int
  max_nested_structures :: int
  max_symbol_bytes :: int
  max_module_bytes :: int
  max_code_bytes :: int
  max_pages :: int
  max_call_depth :: int

definition default_limits :: wasm_parameters where
  "default_limits = \<lparr>max_mutable_global_bytes = 1024, max_table_elements = 1024, max_section_elements = 8192,
     max_linear_memory_init = 64 * 1024, max_func_local_bytes = 8192, max_nested_structures = 1024,
     max_symbol_bytes = 8192, max_module_bytes = 20 * 1024 * 1024, max_code_bytes = 20 * 1024 * 1024,
     max_pages = 528, max_call_depth = 251\<rparr>"

definition high_limits :: wasm_parameters where
  "high_limits = \<lparr>max_mutable_global_bytes = 8192, max_table_elements = 8192, max_section_elements = 8192,
     max_linear_memory_init = 16 * 64 * 1024, max_func_local_bytes = 8192, max_nested_structures = 1024,
     max_symbol_bytes = 8192, max_module_bytes = 20 * 1024 * 1024, max_code_bytes = 20 * 1024 * 1024,
     max_pages = 528, max_call_depth = 1024\<rparr>"

text \<open>The buffer starts with a zero word, the version.\<close>

definition set_wasm_parameters :: "wasm_parameters \<Rightarrow> sys \<Rightarrow> sys" where
  "set_wasm_parameters p s =
     emit (Set_wasm_parameters [0, max_mutable_global_bytes p, max_table_elements p, max_section_elements p,
       max_linear_memory_init p, max_func_local_bytes p, max_nested_structures p, max_symbol_bytes p,
       max_module_bytes p, max_code_bytes p, max_pages p, max_call_depth p]) s"

definition default_name :: name where "default_name = 5374603357560242176" \<comment> \<open>\<open>default\<close>\<close>
definition low_name :: name where "low_name = 10175883358043635712" \<comment> \<open>\<open>low\<close>\<close>
definition high_name :: name where "high_name = 7753175456936886272" \<comment> \<open>\<open>high\<close>\<close>

definition wasmcfg :: "env \<Rightarrow> name \<Rightarrow> sys \<Rightarrow> sys result" where
  "wasmcfg E settings s =
     (if \<not> has_auth E (get_self E) then Inl Missing_auth else
      if settings = default_name \<or> settings = low_name then Inr (set_wasm_parameters default_limits s)
      else if settings = high_name then Inr (set_wasm_parameters high_limits s)
      else Inl (Check ''Unkown configuration''))"

definition setpriv :: "env \<Rightarrow> name \<Rightarrow> int \<Rightarrow> sys \<Rightarrow> sys result" where
  "setpriv E account ispriv s =
     (if \<not> has_auth E (get_self E) then Inl Missing_auth else Inr (emit (Set_privileged account ispriv) s))"

definition activate :: "env \<Rightarrow> 8 word list \<Rightarrow> sys \<Rightarrow> sys result" where
  "activate E feature_digest s =
     (if \<not> has_auth E (get_self E) then Inl Missing_auth else Inr (emit (Preactivate_feature feature_digest) s))"

subsection \<open>Limits of an account\<close>

definition setalimits :: "env \<Rightarrow> name \<Rightarrow> int \<Rightarrow> int \<Rightarrow> int \<Rightarrow> sys \<Rightarrow> sys result" where
  "setalimits E account ram net cpu s =
     (if \<not> has_auth E (get_self E) then Inl Missing_auth else
      if fmlookup (userres s) account \<noteq> None then Inl (Check ''only supports unlimited accounts'') else
      if ram_managed s account \<or> net_managed s account \<or> cpu_managed s account
      then Inl (Check ''cannot use setalimits on an account with managed resources'') else
      Inr (set_resource_limits account ram net cpu s))"

text \<open>Marking a resource as managed creates the voter row when there is none.\<close>

definition set_flag :: "name \<Rightarrow> nat \<Rightarrow> bool \<Rightarrow> sys \<Rightarrow> sys" where
  "set_flag account i b s =
     (let v = (case fmlookup (voters s) account of None \<Rightarrow> blank_voter account | Some v \<Rightarrow> v)
      in s\<lparr>voters := fmupd account
            (v\<lparr>v_flags1 := (if b then set_bit i (v_flags1 v) else unset_bit i (v_flags1 v))\<rparr>) (voters s)\<rparr>)"

definition setacctram :: "env \<Rightarrow> name \<Rightarrow> int option \<Rightarrow> sys \<Rightarrow> sys result" where
  "setacctram E account ram_bytes s =
     (if \<not> has_auth E (get_self E) then Inl Missing_auth else
      let (current_ram, current_net, current_cpu) = res_limits s account in
      (case ram_bytes of
        None \<Rightarrow>
          if \<not> ram_managed s account then Inl (Check ''RAM of account is already unmanaged'') else
          let ram = (case fmlookup (userres s) account of
                       None \<Rightarrow> ram_gift_bytes | Some u \<Rightarrow> i64 (ram_gift_bytes + u_ram_bytes u))
          in Inr (set_resource_limits account ram current_net current_cpu (set_flag account 0 False s))
      | Some ram \<Rightarrow>
          if \<not> 0 \<le> ram then Inl (Check ''not allowed to set RAM limit to unlimited'') else
          Inr (set_resource_limits account ram current_net current_cpu (set_flag account 0 True s))))"

definition setacctnet :: "env \<Rightarrow> name \<Rightarrow> int option \<Rightarrow> sys \<Rightarrow> sys result" where
  "setacctnet E account net_weight s =
     (if \<not> has_auth E (get_self E) then Inl Missing_auth else
      let (current_ram, current_net, current_cpu) = res_limits s account in
      (case net_weight of
        None \<Rightarrow>
          if \<not> net_managed s account then Inl (Check ''Network bandwidth of account is already unmanaged'') else
          let net = (case fmlookup (userres s) account of None \<Rightarrow> 0 | Some u \<Rightarrow> amount (u_net_weight u))
          in Inr (set_resource_limits account current_ram net current_cpu (set_flag account 1 False s))
      | Some net \<Rightarrow>
          if \<not> -1 \<le> net then Inl (Check ''invalid value for net_weight'') else
          Inr (set_resource_limits account current_ram net current_cpu (set_flag account 1 True s))))"

definition setacctcpu :: "env \<Rightarrow> name \<Rightarrow> int option \<Rightarrow> sys \<Rightarrow> sys result" where
  "setacctcpu E account cpu_weight s =
     (if \<not> has_auth E (get_self E) then Inl Missing_auth else
      let (current_ram, current_net, current_cpu) = res_limits s account in
      (case cpu_weight of
        None \<Rightarrow>
          if \<not> cpu_managed s account then Inl (Check ''CPU bandwidth of account is already unmanaged'') else
          let cpu = (case fmlookup (userres s) account of None \<Rightarrow> 0 | Some u \<Rightarrow> amount (u_cpu_weight u))
          in Inr (set_resource_limits account current_ram current_net cpu (set_flag account 2 False s))
      | Some cpu \<Rightarrow>
          if \<not> -1 \<le> cpu then Inl (Check ''invalid value for cpu_weight'') else
          Inr (set_resource_limits account current_ram current_net cpu (set_flag account 2 True s))))"

subsection \<open>Producers, inflation and pay\<close>

definition rmvproducer :: "env \<Rightarrow> name \<Rightarrow> sys \<Rightarrow> sys result" where
  "rmvproducer E producer s =
     (if \<not> has_auth E (get_self E) then Inl Missing_auth else
      (case fmlookup (producers s) producer of None \<Rightarrow> Inl (Check ''producer not found'') | Some p \<Rightarrow>
      Inr (s\<lparr>producers := fmupd producer (deactivate p) (producers s)\<rparr>)))"

definition updtrevision :: "env \<Rightarrow> int \<Rightarrow> sys \<Rightarrow> sys result" where
  "updtrevision E revision s =
     (if \<not> has_auth E (get_self E) then Inl Missing_auth else
      if \<not> g2_revision (gstate2 s) < 255 then Inl (Check ''can not increment revision'') else
      if revision \<noteq> g2_revision (gstate2 s) + 1 then Inl (Check ''can only increment revision by one'') else
      if \<not> revision \<le> 1 then Inl (Check ''specified revision is not yet supported by the code'') else
      Inr (s\<lparr>gstate2 := (gstate2 s)\<lparr>g2_revision := revision\<rparr>\<rparr>))"

definition pay_factor_precision :: int where "pay_factor_precision = 10000"
definition inflation_precision :: int where "inflation_precision = 100"

definition get_continuous_rate :: "env \<Rightarrow> int \<Rightarrow> double" where
  "get_continuous_rate E annual_rate =
     std_log1p E (ddiv (d_of_int annual_rate) (d_of_int (100 * inflation_precision)))"

definition setinflation :: "env \<Rightarrow> int \<Rightarrow> int \<Rightarrow> int \<Rightarrow> sys \<Rightarrow> sys result" where
  "setinflation E annual_rate inflation_pay_factor votepay_factor s =
     (if \<not> has_auth E (get_self E) then Inl Missing_auth else
      if \<not> 0 \<le> annual_rate then Inl (Check ''annual_rate can't be negative'') else
      if inflation_pay_factor < pay_factor_precision
      then Inl (Check ''inflation_pay_factor must not be less than 10000'') else
      if votepay_factor < pay_factor_precision then Inl (Check ''votepay_factor must not be less than 10000'') else
      Inr (s\<lparr>gstate4 := \<lparr>g4_continuous_rate = get_continuous_rate E annual_rate,
             g4_inflation_pay_factor = inflation_pay_factor, g4_votepay_factor = votepay_factor\<rparr>\<rparr>))"

definition get_default_inflation_parameters :: "env \<Rightarrow> global_state4" where
  "get_default_inflation_parameters E =
     \<lparr>g4_continuous_rate = get_continuous_rate E 500, g4_inflation_pay_factor = 50000, g4_votepay_factor = 40000\<rparr>"

definition votebpout :: "env \<Rightarrow> name \<Rightarrow> int \<Rightarrow> sys \<Rightarrow> sys result" where
  "votebpout E bp penalty_hours s =
     (if \<not> has_auth E (get_self E) then Inl Missing_auth else
      if penalty_hours = 0 then Inl (Check ''The penalty should be greater than zero.'') else
      (case fmlookup (producers s) bp of None \<Rightarrow> Inl (Check ''Producer account was not found'') | Some p \<Rightarrow>
      (case kick E BPS_VOTING penalty_hours p of Inl e \<Rightarrow> Inl e | Inr p' \<Rightarrow>
      Inr (s\<lparr>producers := fmupd bp p' (producers s)\<rparr>))))"

definition max_bpay_rate :: int where "max_bpay_rate = 6000"
definition max_worker_monthly_amount :: int where "max_worker_monthly_amount = 10000000000"

definition setpayrates :: "env \<Rightarrow> int \<Rightarrow> int \<Rightarrow> sys \<Rightarrow> sys result" where
  "setpayrates E bpay worker s =
     (if \<not> has_auth E (get_self E) then Inl Missing_auth else
      if \<not> worker \<le> max_worker_monthly_amount then Inl (Check ''WPS rate exceeds the max'') else
      if \<not> bpay \<le> max_bpay_rate then Inl (Check ''BPAY rate exceeds the max'') else
      Inr (s\<lparr>payrate := \<lparr>bpay_rate = bpay, worker_amount = worker\<rparr>\<rparr>))"

definition distviarex :: "env \<Rightarrow> name \<Rightarrow> asset \<Rightarrow> sys \<Rightarrow> sys result" where
  "distviarex E from a s =
     (if from \<noteq> tedp_account then Inl (Check ''distviarex may only distribute TEDP funds'') else
      if \<not> has_auth E tedp_account then Inl Missing_auth else
      channel_to_rex E from a False s)"

definition setvotecontr :: "env \<Rightarrow> 8 word list \<Rightarrow> sys \<Rightarrow> sys result" where
  "setvotecontr E contract s =
     (if \<not> has_auth E (get_self E) then Inl Missing_auth else
      Inr (s\<lparr>voting_cfg := (voting_cfg s)\<lparr>evm_voting_contract := contract\<rparr>\<rparr>))"

definition setselfstake :: "env \<Rightarrow> int \<Rightarrow> sys \<Rightarrow> sys result" where
  "setselfstake E multiplier s =
     (if \<not> has_auth E (get_self E) then Inl Missing_auth else
      if \<not> multiplier \<le> 1000 then Inl (Check ''self_stake_boost_multiplier must be <= 1000'') else
      Inr (s\<lparr>voting_cfg := (voting_cfg s)\<lparr>self_stake_boost_multiplier := multiplier\<rparr>\<rparr>))"

subsection \<open>Accounts and initialisation\<close>

unbundle bit_operations_syntax

fun has_dot_loop :: "nat \<Rightarrow> 64 word \<Rightarrow> bool" where
  "has_dot_loop 0 tmp = False"
| "has_dot_loop (Suc n) tmp = (tmp AND 31 = 0 \<or> has_dot_loop n (drop_bit 5 tmp))"

definition has_dot :: "name \<Rightarrow> bool" where
  "has_dot n = has_dot_loop 12 (drop_bit 4 n)"

definition claim_name :: "env \<Rightarrow> name \<Rightarrow> name \<Rightarrow> sys \<Rightarrow> sys result" where
  "claim_name E creator new_account_name s =
     (if creator \<noteq> get_self E \<and> has_dot new_account_name then
        let suffix = name_suffix E new_account_name in
        if suffix = new_account_name then
          (case fmlookup (namebids s) new_account_name of
             None \<Rightarrow> Inl (Check ''no active bid for name'')
           | Some current \<Rightarrow>
               if high_bidder current \<noteq> creator then Inl (Check ''only highest bidder can claim'') else
               if \<not> high_bid current < 0 then Inl (Check ''auction for name is not closed yet'') else
               Inr (s\<lparr>namebids := fmdrop new_account_name (namebids s)\<rparr>))
        else if creator \<noteq> suffix then Inl (Check ''only suffix may create this account'') else Inr s
      else Inr s)"

text \<open>The chain refuses to store a second row under a key.\<close>

definition newaccount :: "env \<Rightarrow> name \<Rightarrow> name \<Rightarrow> sys \<Rightarrow> sys result" where
  "newaccount E creator new_account_name s0 =
     (case claim_name E creator new_account_name s0 of Inl e \<Rightarrow> Inl e | Inr s \<Rightarrow>
      if fmlookup (userres s) new_account_name \<noteq> None then Inl (Trap ''key already exists'') else
      (case core_zero E s of Inl e \<Rightarrow> Inl e | Inr zero \<Rightarrow>
      Inr (set_resource_limits new_account_name 0 0 0
        (s\<lparr>userres := fmupd new_account_name
             \<lparr>u_net_weight = zero, u_cpu_weight = zero, u_ram_bytes = 0\<rparr> (userres s)\<rparr>))))"

definition setabi :: "(8 word list \<Rightarrow> 8 word list) \<Rightarrow> name \<Rightarrow> 8 word list \<Rightarrow> sys \<Rightarrow> sys" where
  "setabi sha256 acnt abi s = s\<lparr>abihash := fmupd acnt (sha256 abi) (abihash s)\<rparr>"

definition free_ram :: "global_state \<Rightarrow> int" where
  "free_ram g = u64 (g_max_ram_size g - g_total_ram_bytes_reserved g)"

definition init_action :: "env \<Rightarrow> token_state \<Rightarrow> int \<Rightarrow> symbol \<Rightarrow> sys \<Rightarrow> sys result" where
  "init_action E tokens version y s =
     (if \<not> has_auth E (get_self E) then Inl Missing_auth else
      if version \<noteq> 0 then Inl (Check ''unsupported version for init action'') else
      if rammarket s \<noteq> None then Inl (Check ''system contract has already been initialized'') else
      (case get_supply (scode y) tokens of Inl e \<Rightarrow> Inl e | Inr token_supply \<Rightarrow>
      if sym token_supply \<noteq> y then Inl (Check ''specified core symbol does not exist (precision mismatch)'') else
      if \<not> 0 < amount token_supply then Inl (Check ''system token supply must be greater than 0'') else
      Inr (emit (Token_open rex_account y (get_self E))
        (s\<lparr>rammarket := Some
           \<lparr>xsupply = \<lparr>amount = 100000000000000, sym = ramcore_symbol\<rparr>,
            base = \<lparr>cbalance = \<lparr>amount = i64 (free_ram (gstate s)), sym = ram_symbol\<rparr>, cweight = Fin (1/2)\<rparr>,
            quote = \<lparr>cbalance = \<lparr>amount = tdiv (amount token_supply) 1000, sym = y\<rparr>, cweight = Fin (1/2)\<rparr>\<rparr>\<rparr>))))"

subsection \<open>Administrative actions as values\<close>

datatype admin_action =
    Setparams blockchain_parameters
  | Wasmcfg name
  | Setpriv name int
  | Activate "8 word list"
  | Setalimits name int int int
  | Setacctram name "int option"
  | Setacctnet name "int option"
  | Setacctcpu name "int option"
  | Rmvproducer name
  | Updtrevision int
  | Setinflation int int int
  | Votebpout name int
  | Setpayrates int int
  | Setvotecontr "8 word list"
  | Setselfstake int

fun admin_step :: "env \<times> admin_action \<Rightarrow> sys \<Rightarrow> sys result" where
  "admin_step (E, Setparams p) s = setparams E p s"
| "admin_step (E, Wasmcfg n) s = wasmcfg E n s"
| "admin_step (E, Setpriv a b) s = setpriv E a b s"
| "admin_step (E, Activate d) s = activate E d s"
| "admin_step (E, Setalimits a r n c) s = setalimits E a r n c s"
| "admin_step (E, Setacctram a r) s = setacctram E a r s"
| "admin_step (E, Setacctnet a n) s = setacctnet E a n s"
| "admin_step (E, Setacctcpu a c) s = setacctcpu E a c s"
| "admin_step (E, Rmvproducer p) s = rmvproducer E p s"
| "admin_step (E, Updtrevision n) s = updtrevision E n s"
| "admin_step (E, Setinflation a i v) s = setinflation E a i v s"
| "admin_step (E, Votebpout p h) s = votebpout E p h s"
| "admin_step (E, Setpayrates b w) s = setpayrates E b w s"
| "admin_step (E, Setvotecontr a) s = setvotecontr E a s"
| "admin_step (E, Setselfstake n) s = setselfstake E n s"

lemmas admin_defs = setparams_def wasmcfg_def setpriv_def activate_def setalimits_def setacctram_def setacctnet_def
  setacctcpu_def rmvproducer_def updtrevision_def setinflation_def votebpout_def setpayrates_def setvotecontr_def setselfstake_def

lemma admin_step_auth: "admin_step (E, a) s = Inr s' \<Longrightarrow> has_auth E (get_self E)"
  by (cases a) (simp_all add: admin_defs check_eq_Inr)

text \<open>The bounds the contract promises for its parameters.\<close>

definition config_ok :: "sys \<Rightarrow> bool" where
  "config_ok s \<longleftrightarrow>
     g2_revision (gstate2 s) \<le> 1 \<and>
     pay_factor_precision \<le> g4_inflation_pay_factor (gstate4 s) \<and> pay_factor_precision \<le> g4_votepay_factor (gstate4 s) \<and>
     bpay_rate (payrate s) \<le> max_bpay_rate \<and> worker_amount (payrate s) \<le> max_worker_monthly_amount \<and>
     self_stake_boost_multiplier (voting_cfg s) \<le> 1000"

lemma config_ok_frame:
  "gstate2 s' = gstate2 s \<Longrightarrow> gstate4 s' = gstate4 s \<Longrightarrow> payrate s' = payrate s \<Longrightarrow> voting_cfg s' = voting_cfg s \<Longrightarrow>
     config_ok s' = config_ok s"
  by (simp add: config_ok_def)

lemma config_ok_limits [simp]:
  "config_ok (set_resource_limits x r n c s) = config_ok s" "config_ok (set_flag x i b s) = config_ok s"
  "config_ok (emit e s) = config_ok s" "config_ok (s\<lparr>producers := p\<rparr>) = config_ok s"
  by (simp_all add: config_ok_def set_resource_limits_def set_flag_def emit_def Let_def)

lemma setacct_shape:
  "setacctram E x r s = Inr s' \<Longrightarrow> \<exists>a b c d. s' = set_resource_limits x a b c (set_flag x 0 d s)"
  "setacctnet E x r s = Inr s' \<Longrightarrow> \<exists>a b c d. s' = set_resource_limits x a b c (set_flag x 1 d s)"
  "setacctcpu E x r s = Inr s' \<Longrightarrow> \<exists>a b c d. s' = set_resource_limits x a b c (set_flag x 2 d s)"
  by (cases "res_limits s x"; cases r; auto simp: setacctram_def setacctnet_def setacctcpu_def result_simps Let_def)+

lemma admin_step_config:
  assumes "admin_step (E, a) s = Inr s'" "config_ok s"
  shows "config_ok s'"
proof (cases a)
  case (Updtrevision n)
  then show ?thesis using assms by (auto simp: updtrevision_def result_simps config_ok_def)
next
  case (Setinflation r i v)
  then show ?thesis using assms by (auto simp: setinflation_def result_simps config_ok_def)
next
  case (Setpayrates b w)
  then show ?thesis using assms by (auto simp: setpayrates_def result_simps config_ok_def)
next
  case (Setvotecontr c)
  then show ?thesis using assms by (auto simp: setvotecontr_def result_simps config_ok_def)
next
  case (Setselfstake n)
  then show ?thesis using assms by (auto simp: setselfstake_def result_simps config_ok_def)
next
  case (Setacctram x r)
  then show ?thesis using assms setacct_shape(1) [of E x r s s'] by auto
next
  case (Setacctnet x r)
  then show ?thesis using assms setacct_shape(2) [of E x r s s'] by auto
next
  case (Setacctcpu x r)
  then show ?thesis using assms setacct_shape(3) [of E x r s s'] by auto
next
  case (Wasmcfg n)
  then show ?thesis using assms by (auto simp: wasmcfg_def result_simps set_wasm_parameters_def split: if_splits)
qed (use assms in \<open>auto simp: setparams_def setpriv_def activate_def setalimits_def rmvproducer_def votebpout_def result_simps\<close>)

lemma run_admin:
  "run_actions admin_step as s = Inr s' \<Longrightarrow> config_ok s \<Longrightarrow>
     config_ok s' \<and> (\<forall>(E, a) \<in> set as. has_auth E (get_self E))"
proof (induction as arbitrary: s)
  case (Cons x as)
  obtain E a where x: "x = (E, a)" by (cases x)
  from Cons.prems obtain s1 where s1: "admin_step (E, a) s = Inr s1" "run_actions admin_step as s1 = Inr s'"
    by (auto simp: x result_simps)
  from Cons.IH [OF s1(2) admin_step_config [OF s1(1) Cons.prems(2)]] admin_step_auth [OF s1(1)]
  show ?case by (simp add: x)
qed simp

subsection \<open>Managed resources\<close>

datatype resource = RAM | NET | CPU

fun managed :: "resource \<Rightarrow> sys \<Rightarrow> name \<Rightarrow> bool" where
  "managed RAM = ram_managed" | "managed NET = net_managed" | "managed CPU = cpu_managed"

fun setacct :: "resource \<Rightarrow> env \<Rightarrow> name \<Rightarrow> int option \<Rightarrow> sys \<Rightarrow> sys result" where
  "setacct RAM = setacctram" | "setacct NET = setacctnet" | "setacct CPU = setacctcpu"

fun limit :: "resource \<Rightarrow> sys \<Rightarrow> name \<Rightarrow> int" where
  "limit RAM s x = fst (res_limits s x)"
| "limit NET s x = fst (snd (res_limits s x))"
| "limit CPU s x = snd (snd (res_limits s x))"

text \<open>What an account is entitled to when the resource is not managed.\<close>

fun entitled :: "resource \<Rightarrow> sys \<Rightarrow> name \<Rightarrow> int" where
  "entitled RAM s x = (case fmlookup (userres s) x of None \<Rightarrow> ram_gift_bytes | Some u \<Rightarrow> i64 (ram_gift_bytes + u_ram_bytes u))"
| "entitled NET s x = fmval (\<lambda>u. amount (u_net_weight u)) (fmlookup (userres s) x)"
| "entitled CPU s x = fmval (\<lambda>u. amount (u_cpu_weight u)) (fmlookup (userres s) x)"

fun flag_index :: "resource \<Rightarrow> nat" where
  "flag_index RAM = 0" | "flag_index NET = 1" | "flag_index CPU = 2"

lemma flag_index_inject: "flag_index r = flag_index r' \<longleftrightarrow> r = r'"
  by (cases r; cases r') simp_all

lemma managed_bit:
  "managed r s x = (case fmlookup (voters s) x of None \<Rightarrow> False | Some v \<Rightarrow> bit (v_flags1 v) (flag_index r))"
  by (cases r) (simp_all add: ram_managed_def net_managed_def cpu_managed_def split: option.splits)

lemma flag_index_32: "flag_index r < 32"
  by (cases r) simp_all

lemma managed_set_flag:
  "managed r (set_flag x (flag_index r') b s) y = (if y = x \<and> r = r' then b else managed r s y)"
  using flag_index_32 [of r]
  by (auto simp: managed_bit set_flag_def Let_def bit_set_bit_iff bit_unset_bit_iff flag_index_inject blank_voter_def split: option.splits)

lemma managed_set_limits [simp]: "managed r (set_resource_limits x a b c s) y = managed r s y"
  by (simp add: managed_bit set_resource_limits_def)

definition set_limit :: "resource \<Rightarrow> name \<Rightarrow> int \<Rightarrow> sys \<Rightarrow> sys" where
  "set_limit r x n s = s\<lparr>res_limits := (res_limits s)(x := (case (r, res_limits s x) of
     (RAM, (a, b, c)) \<Rightarrow> (n, b, c) | (NET, (a, b, c)) \<Rightarrow> (a, n, c) | (CPU, (a, b, c)) \<Rightarrow> (a, b, n)))\<rparr>"

lemma limit_set_limit: "limit r (set_limit r' x n s) y = (if y = x \<and> r = r' then n else limit r s y)"
  by (cases r; cases r'; cases "res_limits s x") (auto simp: set_limit_def)

lemma managed_set_limit [simp]: "managed r (set_limit r' x n s) y = managed r s y"
  by (simp add: managed_bit set_limit_def)

lemma setacct_Some:
  assumes "has_auth E (get_self E)" "if r = RAM then 0 \<le> n else -1 \<le> n"
  shows "setacct r E x (Some n) s = Inr (set_limit r x n (set_flag x (flag_index r) True s))"
  using assms by (cases r; cases "res_limits s x")
    (simp_all add: setacctram_def setacctnet_def setacctcpu_def set_limit_def set_resource_limits_def set_flag_def Let_def)

lemma setacct_None:
  assumes "has_auth E (get_self E)" "managed r s x"
  shows "setacct r E x None s = Inr (set_limit r x (entitled r s x) (set_flag x (flag_index r) False s))"
  using assms by (cases r; cases "res_limits s x")
    (simp_all add: setacctram_def setacctnet_def setacctcpu_def set_limit_def set_resource_limits_def set_flag_def Let_def fmval_def)

text \<open>A managed limit is out of reach of the staking and RAM trading code.\<close>

lemma managed_limit_kept:
  assumes "managed r s x"
  shows "limit r (limits_after y u s) x = limit r s x" "limit r (apply_ram_limit y n s) x = limit r s x"
    "limit r (store_bandwidth y u s) x = limit r s x"
proof -
  obtain a b c where y: "res_limits s y = (a, b, c)" by (cases "res_limits s y")
  show "limit r (limits_after y u s) x = limit r s x"
    using assms by (cases r) (auto simp: limits_after_def y Let_def set_resource_limits_def)
  show "limit r (apply_ram_limit y n s) x = limit r s x"
    using assms by (cases r) (auto simp: apply_ram_limit_def y set_resource_limits_def)
  show "limit r (store_bandwidth y u s) x = limit r s x"
    using assms by (cases r) (auto simp: store_bandwidth_def y Let_def set_resource_limits_def)
qed

subsection \<open>Names and the first market\<close>

lemma has_dot_loop_iff: "has_dot_loop n w \<longleftrightarrow> (\<exists>i<n. drop_bit (5 * i) w AND 31 = 0)"
proof (induction n arbitrary: w)
  case (Suc n)
  have "(\<exists>i<Suc n. drop_bit (5 * i) w AND 31 = 0) \<longleftrightarrow> w AND 31 = 0 \<or> (\<exists>i<n. drop_bit (5 * Suc i) w AND 31 = 0)"
    by (auto simp: less_Suc_eq_0_disj)
  then show ?case using Suc.IH [of "drop_bit 5 w"] by (simp add: drop_bit_drop_bit add.commute)
qed simp

lemma claim_name_frame:
  assumes "claim_name E creator n s = Inr s'"
  shows "userres s' = userres s" "rammarket s' = rammarket s" "gstate s' = gstate s" "effects s' = effects s"
    "fmlookup (namebids s') m = (if m = n \<and> namebids s' \<noteq> namebids s then None else fmlookup (namebids s) m)"
  using assms by (auto simp: claim_name_def result_simps Let_def split: if_splits)

lemma newaccount_steps:
  assumes "newaccount E creator n s = Inr s'"
  obtains s1 zero where "claim_name E creator n s = Inr s1" "fmlookup (userres s1) n = None" "core_zero E s1 = Inr zero"
    "s' = set_resource_limits n 0 0 0 (s1\<lparr>userres := fmupd n \<lparr>u_net_weight = zero, u_cpu_weight = zero, u_ram_bytes = 0\<rparr> (userres s1)\<rparr>)"
  using assms unfolding newaccount_def by (simp only: result_simps) blast

lemma newaccount_ram:
  assumes "newaccount E creator n s = Inr s'"
  shows "ram_inv s' = ram_inv s"
  using assms
proof (cases rule: newaccount_steps)
  case (1 s1 zero)
  then show ?thesis using claim_name_frame(1-3) [OF 1(1)]
    by (simp add: ram_inv_def set_resource_limits_def fmsum_upd)
qed

lemma init_ram_inv:
  assumes r: "init_action E tokens v y s = Inr s'" and tok: "token_inv tokens"
    and fresh: "userres s = fmempty" "g_total_ram_bytes_reserved (gstate s) = 0" "g_total_ram_stake (gstate s) = 0"
  shows "ram_inv s'" "core_symbol s' = Inr y"
proof -
  obtain q where q: "get_supply (scode y) tokens = Inr q" "sym q = y" "0 < amount q"
    and s': "s' = emit (Token_open rex_account y (get_self E)) (s\<lparr>rammarket := Some
           \<lparr>xsupply = \<lparr>amount = 100000000000000, sym = ramcore_symbol\<rparr>,
            base = \<lparr>cbalance = \<lparr>amount = i64 (free_ram (gstate s)), sym = ram_symbol\<rparr>, cweight = Fin (1/2)\<rparr>,
            quote = \<lparr>cbalance = \<lparr>amount = tdiv (amount q) 1000, sym = y\<rparr>, cweight = Fin (1/2)\<rparr>\<rparr>\<rparr>)"
    using r unfolding init_action_def by (auto simp: result_simps)
  obtain st where "fmlookup (stat tokens) (scode y) = Some st" "csupply st = q"
    using q(1) by (auto simp: get_supply_def split: option.splits)
  moreover have "stats_ok (scode y) st" using tok calculation(1) unfolding token_inv_def by blast
  ultimately have "amount q \<le> max_amount" by (simp add: stats_ok_def)
  moreover have "tdiv (amount q) 1000 = amount q div 1000" using q(3) by (intro tdiv_nonneg) simp_all
  ultimately have qa: "0 \<le> tdiv (amount q) 1000" "tdiv (amount q) 1000 \<le> max_amount"
    using q(3) by linarith+
  have "u64 (i64 (free_ram (gstate s))) = u64 (g_max_ram_size (gstate s))"
    unfolding free_ram_def fresh u64_i64 by (simp add: u64_def)
  then show "ram_inv s'" using qa by (simp add: s' ram_inv_def emit_def fresh u64_def)
  show "core_symbol s' = Inr y" by (simp add: s' core_symbol_def emit_def)
qed

subsection \<open>Theorems\<close>

text \<open>
  C33. Every administrative action needs the authority of the contract account itself, and over any
  sequence of them the configuration stays within the bounds the contract promises: revision at
  most 1, pay factors of at least 10000, producer and worker pay at most their maxima, a
  self-stake boost of at most 1000.
\<close>

theorem admin_guarded:
  assumes "run_actions admin_step as s = Inr s'" and "config_ok s"
  shows "config_ok s' \<and> (\<forall>(E, a) \<in> set as. has_auth E (get_self E))"
  by (rule run_admin [OF assms])

theorem admin_guarded_witness:
  "\<exists>s'. run_actions admin_step [(sdk_env eosio_account 1, Setpayrates 10 20), (sdk_env eosio_account 2, Updtrevision 1)] sys0 = Inr s' \<and>
     config_ok s' \<and> g2_revision (gstate2 s') = 1"
proof -
  let ?as = "[(sdk_env eosio_account 1, Setpayrates 10 20), (sdk_env eosio_account 2, Updtrevision 1)]"
  have "config_ok sys0" by (simp add: config_ok_def sys0_def pay_factor_precision_def max_bpay_rate_def max_worker_monthly_amount_def)
  moreover have r: "run_actions admin_step ?as sys0 =
      Inr (sys0\<lparr>payrate := \<lparr>bpay_rate = 10, worker_amount = 20\<rparr>, gstate2 := (gstate2 sys0)\<lparr>g2_revision := 1\<rparr>\<rparr>)"
    by (simp add: setpayrates_def updtrevision_def sdk_env_def max_bpay_rate_def max_worker_monthly_amount_def sys0_def)
  ultimately show ?thesis using admin_guarded [OF r] by auto
qed

text \<open>
  C26. Setting a limit of an account by hand marks the resource as managed and changes nothing else; from
  then on neither staking, nor trading RAM, nor REX loans move that limit, and releasing it gives the
  account exactly what its stake or purchases entitle it to.
\<close>

theorem managed_limits:
  assumes r: "setacct r E x (Some n) s = Inr s1"
  shows "managed r s1 x \<and> limit r s1 x = n \<and>
    (\<forall>r' y. (r', y) \<noteq> (r, x) \<longrightarrow> managed r' s1 y = managed r' s y \<and> limit r' s1 y = limit r' s y) \<and>
    (\<forall>y u m. limit r (limits_after y u s1) x = n \<and> limit r (apply_ram_limit y m s1) x = n \<and> limit r (store_bandwidth y u s1) x = n) \<and>
    (\<exists>s2. setacct r E x None s1 = Inr s2 \<and> \<not> managed r s2 x \<and> limit r s2 x = entitled r s x)"
proof -
  have a: "has_auth E (get_self E)" using r by (cases r) (auto simp: setacctram_def setacctnet_def setacctcpu_def split: if_splits)
  have g: "if r = RAM then 0 \<le> n else -1 \<le> n"
    using r a by (cases r; cases "res_limits s x") (auto simp: setacctram_def setacctnet_def setacctcpu_def split: if_splits)
  have s1: "s1 = set_limit r x n (set_flag x (flag_index r) True s)"
    using setacct_Some [OF a g, of x s] r by simp
  have lf: "limit r' (set_flag x i b t) y = limit r' t y" for r' i b t y
    by (cases r') (simp_all add: set_flag_def Let_def)
  have m: "managed r s1 x" "limit r s1 x = n" by (simp_all add: s1 managed_set_flag limit_set_limit)
  have other: "managed r' s1 y = managed r' s y \<and> limit r' s1 y = limit r' s y" if "(r', y) \<noteq> (r, x)" for r' y
    using that by (auto simp: s1 managed_set_flag limit_set_limit lf)
  have ent: "entitled r s1 x = entitled r s x"
    by (cases r) (simp_all add: s1 set_limit_def set_flag_def Let_def)
  have "setacct r E x None s1 = Inr (set_limit r x (entitled r s1 x) (set_flag x (flag_index r) False s1))"
    by (rule setacct_None [OF a m(1)])
  then have "\<exists>s2. setacct r E x None s1 = Inr s2 \<and> \<not> managed r s2 x \<and> limit r s2 x = entitled r s x"
    by (simp add: managed_set_flag limit_set_limit ent)
  with m other managed_limit_kept [OF m(1)] show ?thesis by simp
qed

theorem managed_limits_witness:
  "\<exists>s1. setacct CPU (sdk_env eosio_account 1) 5 (Some 77) sys0 = Inr s1 \<and> limit CPU s1 5 = 77 \<and> limit RAM s1 5 = 0"
proof -
  obtain s1 where s1: "setacct CPU (sdk_env eosio_account 1) 5 (Some 77) sys0 = Inr s1"
    by (simp add: setacctcpu_def sdk_env_def sys0_def)
  have "limit RAM sys0 5 = 0" "(RAM, 5 :: name) \<noteq> (CPU, 5)" by (simp_all add: sys0_def)
  then have "limit RAM s1 5 = 0" "limit CPU s1 5 = 77" using managed_limits [OF s1] by metis+
  then show ?thesis using s1 by blast
qed

text \<open>
  C23. Creating an account with a name that is short or has a dot, and whose suffix is the whole name, is only
  possible for the winner of its closed auction and consumes the auction; with another suffix only the
  owner of the suffix may create it.  The new account starts without resources, and the RAM accounting is
  unchanged.
\<close>

theorem premium_names:
  assumes "newaccount E creator n s = Inr s'" and "creator \<noteq> get_self E"
    and "\<exists>i<12. drop_bit (5 * i) (drop_bit 4 n) AND 31 = 0"
  shows "(if name_suffix E n = n
          then \<exists>bid. fmlookup (namebids s) n = Some bid \<and> high_bidder bid = creator \<and> high_bid bid < 0 \<and>
                 fmlookup (namebids s') n = None
          else creator = name_suffix E n \<and> namebids s' = namebids s) \<and>
    res_limits s' n = (0, 0, 0) \<and> (ram_inv s \<longrightarrow> ram_inv s')"
  using assms(1)
proof (cases rule: newaccount_steps)
  case (1 s1 zero)
  have "has_dot n" using assms(3) by (simp add: has_dot_def has_dot_loop_iff)
  with 1(1) assms(2) have "if name_suffix E n = n
      then \<exists>bid. fmlookup (namebids s) n = Some bid \<and> high_bidder bid = creator \<and> high_bid bid < 0 \<and> fmlookup (namebids s1) n = None
      else creator = name_suffix E n \<and> namebids s1 = namebids s"
    by (auto simp: claim_name_def result_simps Let_def split: if_splits)
  then show ?thesis using newaccount_ram [OF assms(1)] by (simp add: 1(4) set_resource_limits_def)
qed

theorem premium_names_witness:
  "\<exists>s'. newaccount (sdk_env eosio_account 1) 9 5
      (sys0\<lparr>namebids := fmupd 5 \<lparr>high_bidder = 9, high_bid = -100, last_bid_time = 0\<rparr> fmempty\<rparr>) = Inr s' \<and>
     fmlookup (namebids s') 5 = None \<and> res_limits s' 5 = (0, 0, 0)"
proof -
  let ?s = "sys0\<lparr>namebids := fmupd 5 \<lparr>high_bidder = 9, high_bid = -100, last_bid_time = 0\<rparr> fmempty\<rparr>"
  have d: "has_dot 5" by (simp add: has_dot_def has_dot_loop_iff) (rule exI [of _ 1], simp)
  have "\<exists>s'. newaccount (sdk_env eosio_account 1) 9 5 ?s = Inr s'"
    by (simp add: newaccount_def claim_name_def d core_zero_def core_symbol_def sys0_def sdk_env_def sdk_new_def in_amount_range_def
        max_amount_def sdk_symbol_valid_def core_def core_sym_def eosio_account_def)
  then obtain s' where s': "newaccount (sdk_env eosio_account 1) 9 5 ?s = Inr s'" ..
  have "\<exists>i<12. drop_bit (5 * i) (drop_bit 4 (5 :: name)) AND 31 = 0" using d by (simp add: has_dot_def has_dot_loop_iff)
  from premium_names [OF s' _ this] show ?thesis
    using s' by (auto simp: sdk_env_def eosio_account_def)
qed

text \<open>
  Initialising the contract against a token contract in a consistent state opens a RAM market whose
  accounting is consistent, fixes the core symbol, and can be done only once.
\<close>

theorem init_market:
  assumes "init_action E tokens v y s = Inr s'" and "token_inv tokens"
    and "userres s = fmempty" "g_total_ram_bytes_reserved (gstate s) = 0" "g_total_ram_stake (gstate s) = 0"
  shows "ram_inv s' \<and> core_symbol s' = Inr y \<and> (\<forall>E' tokens' v' y'. \<exists>e. init_action E' tokens' v' y' s' = Inl e)"
proof -
  have "\<exists>e. init_action E' tokens' v' y' s' = Inl e" for E' tokens' v' y'
  proof -
    have "rammarket s' \<noteq> None" using init_ram_inv(1) [OF assms] by (auto simp: ram_inv_def)
    then show ?thesis by (simp add: init_action_def)
  qed
  then show ?thesis using init_ram_inv [OF assms] by blast
qed

theorem init_market_witness:
  "\<exists>s'. init_action (sdk_env eosio_account 1) demo_token 0 tlos (sys0\<lparr>rammarket := None\<rparr>) = Inr s' \<and> ram_inv s' \<and> core_symbol s' = Inr tlos"
proof -
  have "fmlookup (stat demo_token) (scode tlos) \<noteq> None" "0 < supply_of demo_token (scode tlos)"
    by (code_simp)+
  moreover have "token_inv demo_token" by (rule token_reach_inv [OF demo_reach])
  ultimately obtain q where "get_supply (scode tlos) demo_token = Inr q" "sym q = tlos" "0 < amount q"
    by (auto simp: get_supply_def demo_token_def fmlookup_of_list)
  then obtain s' where s': "init_action (sdk_env eosio_account 1) demo_token 0 tlos (sys0\<lparr>rammarket := None\<rparr>) = Inr s'"
    by (simp add: init_action_def sdk_env_def)
  from init_market [OF this \<open>token_inv demo_token\<close>] show ?thesis using s' by (simp add: sys0_def)
qed

end
