(* ===== verification/Name_Bidding.thy ===== *)
theory Name_Bidding
  imports System_Admin
begin

section \<open>The auction of account names\<close>

text \<open>
  Model of \<open>name_bidding.cpp\<close> and of the part of \<open>onblock\<close> that closes the highest auction once a day.
  Bids are paid into \<open>eosio.names\<close>; an outbid account gets a refund row and a deferred refund.  The index
  \<open>highbid\<close> orders the rows by the negated bid as an unsigned number.
\<close>

definition add_bidrefund :: "env \<Rightarrow> name \<Rightarrow> name \<Rightarrow> int \<Rightarrow> sys \<Rightarrow> sys result" where
  "add_bidrefund E newname bidder n s =
     (case core_symbol s of Inl e \<Rightarrow> Inl e | Inr y \<Rightarrow>
      (case asset_new E n y of Inl e \<Rightarrow> Inl e | Inr a \<Rightarrow>
      (case (case fmlookup (bidrefunds s) (newname, bidder) of None \<Rightarrow> Inr a | Some r \<Rightarrow> asset_add E r a) of
        Inl e \<Rightarrow> Inl e
      | Inr a' \<Rightarrow> Inr (s\<lparr>bidrefunds := fmupd (newname, bidder) a' (bidrefunds s)\<rparr>))))"

definition place_bid :: "env \<Rightarrow> name \<Rightarrow> name \<Rightarrow> asset \<Rightarrow> sys \<Rightarrow> sys" where
  "place_bid E bidder newname bid s =
     s\<lparr>namebids := fmupd newname
        \<lparr>high_bidder = bidder, high_bid = amount bid, last_bid_time = current_time E\<rparr> (namebids s)\<rparr>"

definition outbid :: "env \<Rightarrow> name \<Rightarrow> name \<Rightarrow> asset \<Rightarrow> name_bid \<Rightarrow> sys \<Rightarrow> sys result" where
  "outbid E bidder newname bid current s =
     (if \<not> 0 < high_bid current then Inl (Check ''this auction has already closed'') else
      if \<not> tdiv (high_bid current) 10 < i64 (amount bid - high_bid current)
      then Inl (Check ''must increase bid by 10%'') else
      if high_bidder current = bidder then Inl (Check ''account is already highest bidder'') else
      (case add_bidrefund E newname (high_bidder current) (high_bid current) s of Inl e \<Rightarrow> Inl e | Inr s1 \<Rightarrow>
      Inr (place_bid E bidder newname bid (emit (Defer_bidrefund (high_bidder current) newname) s1))))"

unbundle bit_operations_syntax

definition bidname :: "env \<Rightarrow> name \<Rightarrow> name \<Rightarrow> asset \<Rightarrow> sys \<Rightarrow> sys result" where
  "bidname E bidder newname bid s =
     (if \<not> has_auth E bidder then Inl Missing_auth else
      if name_suffix E newname \<noteq> newname then Inl (Check ''you can only bid on top-level suffix'') else
      if newname = 0 then Inl (Check ''the empty name is not a valid account name to bid on'') else
      if newname AND 15 \<noteq> 0 then Inl (Check ''13 character names are not valid account names to bid on'') else
      if newname AND 496 \<noteq> 0
      then Inl (Check ''accounts with 12 character names and no dots can be created without bidding required'') else
      if is_account E newname then Inl (Check ''account already exists'') else
      (case core_symbol s of Inl e \<Rightarrow> Inl e | Inr y \<Rightarrow>
      if sym bid \<noteq> y then Inl (Check ''asset must be system token'') else
      if \<not> 0 < amount bid then Inl (Check ''insufficient bid'') else
      let s1 = send_transfer bidder names_account bid (''bid name '' @ to_string E newname) s in
      (case fmlookup (namebids s1) newname of
        None \<Rightarrow> Inr (place_bid E bidder newname bid s1)
      | Some current \<Rightarrow> outbid E bidder newname bid current s1)))"

definition bidrefund :: "env \<Rightarrow> name \<Rightarrow> name \<Rightarrow> sys \<Rightarrow> sys result" where
  "bidrefund E bidder newname s =
     (case fmlookup (bidrefunds s) (newname, bidder) of None \<Rightarrow> Inl (Check ''refund not found'') | Some r \<Rightarrow>
      Inr ((send_transfer names_account bidder r (''refund bid on name '' @ to_string E newname) s)
             \<lparr>bidrefunds := fmdrop (newname, bidder) (bidrefunds s)\<rparr>))"

subsection \<open>Closing an auction\<close>

definition by_high_bid :: "name_bid \<Rightarrow> int" where
  "by_high_bid b = u64 (- high_bid b)"

definition bid_rows :: "sys \<Rightarrow> (name \<times> name_bid) list" where
  "bid_rows s = map (\<lambda>n. (n, the (fmlookup (namebids s) n))) (sorted_list_of_fset (fmdom (namebids s)))"

definition highest_bid :: "sys \<Rightarrow> (name \<times> name_bid) option" where
  "highest_bid s =
     find (\<lambda>(n, b). (2 ^ 64 - 1) div 2 \<le> by_high_bid b) (sort_key (\<lambda>(n, b). by_high_bid b) (bid_rows s))"

definition blocks_per_day :: int where "blocks_per_day = 2 * 86400"

text \<open>The part of \<open>onblock\<close> that runs with every update of the schedule.\<close>

definition close_auction :: "env \<Rightarrow> int \<Rightarrow> sys \<Rightarrow> sys" where
  "close_auction E slot s =
     (if \<not> blocks_per_day < u32 (slot - g_last_name_close (gstate s)) then s else
      (case highest_bid s of None \<Rightarrow> s
      | Some (n, b) \<Rightarrow>
          if 0 < high_bid b \<and> useconds_per_day < current_time E - last_bid_time b \<and>
             0 < g_thresh_activated_stake_time (gstate s) \<and>
             14 * useconds_per_day < current_time E - g_thresh_activated_stake_time (gstate s)
          then (channel_namebid_to_rex (high_bid b) (s\<lparr>gstate := (gstate s)\<lparr>g_last_name_close := slot\<rparr>\<rparr>))
                 \<lparr>namebids := fmupd n (b\<lparr>high_bid := i64 (- high_bid b)\<rparr>) (namebids s)\<rparr>
          else s))"

subsection \<open>What the auction owes\<close>

definition open_bid :: "name_bid \<Rightarrow> int" where
  "open_bid b = max 0 (high_bid b)"

definition pending_proceeds :: "sys \<Rightarrow> int" where
  "pending_proceeds s = (case rexpool s of None \<Rightarrow> 0 | Some rp \<Rightarrow> amount (namebid_proceeds rp))"

definition names_owed :: "sys \<Rightarrow> int" where
  "names_owed s = fmsum open_bid (namebids s) + fmsum amount (bidrefunds s) + pending_proceeds s"

definition names_backing :: "symcode \<Rightarrow> sys \<Rightarrow> int" where
  "names_backing c s = net_flow (transfers_of (effects s)) names_account c - names_owed s"

definition auction_inv :: "symbol \<Rightarrow> sys \<Rightarrow> bool" where
  "auction_inv y s \<longleftrightarrow> core_symbol s = Inr y \<and> in_i64 (pending_proceeds s) \<and>
     (\<forall>k r. fmlookup (bidrefunds s) k = Some r \<longrightarrow> sym r = y \<and> 0 \<le> amount r) \<and>
     (\<forall>n b. fmlookup (namebids s) n = Some b \<longrightarrow> \<bar>high_bid b\<bar> < 2 ^ 63)"

lemma auction_invD:
  assumes "auction_inv y s"
  shows "core_symbol s = Inr y" "in_i64 (pending_proceeds s)"
    "fmlookup (bidrefunds s) k = Some r \<Longrightarrow> sym r = y" "fmlookup (bidrefunds s) k = Some r \<Longrightarrow> 0 \<le> amount r"
    "fmlookup (namebids s) n = Some b \<Longrightarrow> \<bar>high_bid b\<bar> < 2 ^ 63"
  using assms unfolding auction_inv_def by blast+

lemma core_symbol_frame: "rammarket s' = rammarket s \<Longrightarrow> core_symbol s' = core_symbol s"
  by (simp add: core_symbol_def)

lemma add_bidrefund_result:
  assumes E: "chain_laws E" and c: "core_symbol s = Inr y" and r: "add_bidrefund E newname x n s = Inr s'"
  obtains a where "s' = s\<lparr>bidrefunds := fmupd (newname, x) a (bidrefunds s)\<rparr>" "sym a = y"
    "amount a = n + fmval amount (fmlookup (bidrefunds s) (newname, x))"
proof -
  obtain q a where q: "asset_new E n y = Inr q"
    and a: "(case fmlookup (bidrefunds s) (newname, x) of None \<Rightarrow> Inr q | Some r \<Rightarrow> asset_add E r q) = Inr a"
    and s': "s' = s\<lparr>bidrefunds := fmupd (newname, x) a (bidrefunds s)\<rparr>"
    using r c unfolding add_bidrefund_def by (auto simp: result_simps)
  have qq: "q = \<lparr>amount = n, sym = y\<rparr>" by (rule chain_laws.new_exact [OF E q])
  show ?thesis
  proof (cases "fmlookup (bidrefunds s) (newname, x)")
    case None
    with a have "a = q" by simp
    with qq None show ?thesis by (intro that [OF s']) simp_all
  next
    case (Some b)
    then have "asset_add E b q = Inr a" using a by simp
    from chain_laws.add_exact [OF E this] show ?thesis using that [OF s'] qq Some by auto
  qed
qed

lemma send_transfer_tables [simp]:
  "namebids (send_transfer a b q memo s) = namebids s" "bidrefunds (send_transfer a b q memo s) = bidrefunds s"
  "rexpool (send_transfer a b q memo s) = rexpool s" "rammarket (send_transfer a b q memo s) = rammarket s"
  "gstate (send_transfer a b q memo s) = gstate s"
  by (simp_all add: send_transfer_def)

lemma row_or_new: "(case m of None \<Rightarrow> Inr a | Some b \<Rightarrow> f b) = Inr s' \<longleftrightarrow> (m = None \<and> s' = a) \<or> (\<exists>b. m = Some b \<and> f b = Inr s')"
  by (cases m) auto

lemma bidname_steps:
  assumes "bidname E x n bid s = Inr s'"
  obtains memo y where "core_symbol s = Inr y" "sym bid = y" "0 < amount bid" "has_auth E x"
    "(fmlookup (namebids s) n = None \<and> s' = place_bid E x n bid (send_transfer x names_account bid memo s)) \<or>
     (\<exists>b. fmlookup (namebids s) n = Some b \<and> outbid E x n bid b (send_transfer x names_account bid memo s) = Inr s')"
proof -
  let ?m = "''bid name '' @ to_string E n"
  obtain y where y: "core_symbol s = Inr y" "sym bid = y" "0 < amount bid" "has_auth E x"
    and o: "(case fmlookup (namebids (send_transfer x names_account bid ?m s)) n of
        None \<Rightarrow> Inr (place_bid E x n bid (send_transfer x names_account bid ?m s))
      | Some current \<Rightarrow> outbid E x n bid current (send_transfer x names_account bid ?m s)) = Inr s'"
    using assms unfolding bidname_def Let_def by (simp only: result_simps not_not) blast
  from that [OF y o [unfolded row_or_new send_transfer_tables]] show ?thesis .
qed

lemma names_flow:
  assumes "x \<noteq> names_account" "sym a = y"
  shows "net_flow (transfers_of (effects (send_transfer x names_account a memo s))) names_account (scode y) =
      net_flow (transfers_of (effects s)) names_account (scode y) + amount a"
    "net_flow (transfers_of (effects (send_transfer names_account x a memo s))) names_account (scode y) =
      net_flow (transfers_of (effects s)) names_account (scode y) - amount a"
  using assms by (simp_all add: send_transfer_def flow_def)

lemma outbid_steps:
  assumes E: "chain_laws E" and c: "core_symbol s = Inr y" and r: "outbid E x n bid b s = Inr s'"
  obtains a where "0 < high_bid b" "tdiv (high_bid b) 10 < i64 (amount bid - high_bid b)" "high_bidder b \<noteq> x"
    "sym a = y" "amount a = high_bid b + fmval amount (fmlookup (bidrefunds s) (n, high_bidder b))"
    "s' = place_bid E x n bid (emit (Defer_bidrefund (high_bidder b) n)
            (s\<lparr>bidrefunds := fmupd (n, high_bidder b) a (bidrefunds s)\<rparr>))"
proof -
  obtain s1 where g: "0 < high_bid b" "tdiv (high_bid b) 10 < i64 (amount bid - high_bid b)" "high_bidder b \<noteq> x"
    and s1: "add_bidrefund E n (high_bidder b) (high_bid b) s = Inr s1"
    and s': "s' = place_bid E x n bid (emit (Defer_bidrefund (high_bidder b) n) s1)"
    using r unfolding outbid_def by (auto simp: result_simps)
  from add_bidrefund_result [OF E c s1] show ?thesis
    using that g s' by metis
qed

lemma place_bid_simps:
  "bidrefunds (place_bid E x n bid s) = bidrefunds s" "rexpool (place_bid E x n bid s) = rexpool s"
  "rammarket (place_bid E x n bid s) = rammarket s" "effects (place_bid E x n bid s) = effects s"
  "namebids (place_bid E x n bid s) = fmupd n \<lparr>high_bidder = x, high_bid = amount bid, last_bid_time = current_time E\<rparr> (namebids s)"
  by (simp_all add: place_bid_def)

lemma bidname_backing:
  assumes E: "chain_laws E" and inv: "auction_inv y s" and x: "x \<noteq> names_account" and rng: "in_i64 (amount bid)"
    and r: "bidname E x n bid s = Inr s'"
  shows "auction_inv y s'" "names_backing (scode y) s' = names_backing (scode y) s"
proof -
  obtain memo where b: "sym bid = y" "0 < amount bid"
    and st: "(fmlookup (namebids s) n = None \<and> s' = place_bid E x n bid (send_transfer x names_account bid memo s)) \<or>
     (\<exists>b. fmlookup (namebids s) n = Some b \<and> outbid E x n bid b (send_transfer x names_account bid memo s) = Inr s')"
    using bidname_steps [OF r] auction_invD(1) [OF inv] by (metis sum.inject(2))
  let ?t = "send_transfer x names_account bid memo s"
  note fl = names_flow(1) [OF x b(1), of memo s]
  have "auction_inv y s' \<and> names_backing (scode y) s' = names_backing (scode y) s"
    using st
  proof
    assume "fmlookup (namebids s) n = None \<and> s' = place_bid E x n bid ?t"
    then show ?thesis
      using inv b(2) rng fl
      by (auto simp: auction_inv_def names_backing_def names_owed_def pending_proceeds_def place_bid_simps core_symbol_def
          fmsum_upd open_bid_def in_i64_def)
  next
    assume "\<exists>b. fmlookup (namebids s) n = Some b \<and> outbid E x n bid b ?t = Inr s'"
    then obtain cb where cb: "fmlookup (namebids s) n = Some cb" "outbid E x n bid cb ?t = Inr s'" by blast
    have ct: "core_symbol ?t = Inr y" using auction_invD(1) [OF inv] by (simp add: core_symbol_def)
    obtain a where a: "0 < high_bid cb" "sym a = y"
      "amount a = high_bid cb + fmval amount (fmlookup (bidrefunds s) (n, high_bidder cb))"
      "s' = place_bid E x n bid (emit (Defer_bidrefund (high_bidder cb) n)
            (?t\<lparr>bidrefunds := fmupd (n, high_bidder cb) a (bidrefunds s)\<rparr>))"
      using outbid_steps [OF E ct cb(2)] by (metis send_transfer_tables(2))
    have "0 \<le> fmval amount (fmlookup (bidrefunds s) (n, high_bidder cb))"
      using auction_invD(4) [OF inv] by (cases "fmlookup (bidrefunds s) (n, high_bidder cb)") auto
    then show ?thesis
      using inv b(2) rng fl a(1-3) cb(1)
      by (auto simp: a(4) auction_inv_def names_backing_def names_owed_def pending_proceeds_def place_bid_simps core_symbol_def emit_def
          fmsum_upd open_bid_def in_i64_def)
  qed
  then show "auction_inv y s'" "names_backing (scode y) s' = names_backing (scode y) s" by blast+
qed

lemma bidrefund_backing:
  assumes inv: "auction_inv y s" and x: "x \<noteq> names_account" and r: "bidrefund E x n s = Inr s'"
  shows "auction_inv y s'" "names_backing (scode y) s' = names_backing (scode y) s"
proof -
  obtain a memo where a: "fmlookup (bidrefunds s) (n, x) = Some a"
    and s': "s' = (send_transfer names_account x a memo s)\<lparr>bidrefunds := fmdrop (n, x) (bidrefunds s)\<rparr>"
    using r by (auto simp: bidrefund_def split: option.splits)
  have y: "sym a = y" using auction_invD(3) [OF inv a] .
  show "auction_inv y s'" using inv by (auto simp: s' auction_inv_def core_symbol_def pending_proceeds_def)
  show "names_backing (scode y) s' = names_backing (scode y) s"
    using names_flow(2) [OF x y, of memo s] a
    by (simp add: s' names_backing_def names_owed_def pending_proceeds_def fmsum_drop)
qed

subsection \<open>The highest bid\<close>

lemma set_bid_rows: "set (bid_rows s) = {(n, b). fmlookup (namebids s) n = Some b}"
  by (force simp: bid_rows_def fmlookup_dom_iff)

lemma by_high_bid_pos: "0 < high_bid b \<Longrightarrow> high_bid b < 2 ^ 63 \<Longrightarrow> by_high_bid b = 2 ^ 64 - high_bid b"
  unfolding by_high_bid_def u64_def by (subst mod_add_self1 [symmetric], subst mod_pos_pos_trivial) auto

text \<open>The first match in a list sorted by a key has the smallest key of all matches.\<close>

lemma find_sorted_min:
  "find (\<lambda>x. c \<le> f x) (sort_key f xs) = Some y \<Longrightarrow> z \<in> set xs \<Longrightarrow> c \<le> f z \<Longrightarrow> y \<in> set xs \<and> f y \<le> f z"
proof -
  have "find (\<lambda>x. c \<le> f x) ys = Some y \<Longrightarrow> sorted (map f ys) \<Longrightarrow> z \<in> set ys \<Longrightarrow> c \<le> f z \<Longrightarrow> y \<in> set ys \<and> f y \<le> f z" for ys
    by (induction ys) (auto split: if_splits)
  from this [of "sort_key f xs"]
  show "find (\<lambda>x. c \<le> f x) (sort_key f xs) = Some y \<Longrightarrow> z \<in> set xs \<Longrightarrow> c \<le> f z \<Longrightarrow> y \<in> set xs \<and> f y \<le> f z" by simp
qed

lemma highest_bid_eq: "highest_bid s = find (\<lambda>r. (2 ^ 64 - 1) div 2 \<le> by_high_bid (snd r)) (sort_key (\<lambda>r. by_high_bid (snd r)) (bid_rows s))"
  by (simp add: highest_bid_def case_prod_unfold)

lemma highest_bid_max:
  assumes "highest_bid s = Some (n, b)" "0 < high_bid b"
    and rng: "\<And>n b. fmlookup (namebids s) n = Some b \<Longrightarrow> \<bar>high_bid b\<bar> < 2 ^ 63"
  shows "fmlookup (namebids s) n = Some b" "fmlookup (namebids s) n' = Some b' \<Longrightarrow> high_bid b' \<le> high_bid b"
proof -
  have "(n, b) \<in> set (bid_rows s)"
    using find_Some_iff [THEN iffD1, OF assms(1) [unfolded highest_bid_eq]] by (metis nth_mem set_sort)
  then show row: "fmlookup (namebids s) n = Some b" by (simp add: set_bid_rows)
  assume row': "fmlookup (namebids s) n' = Some b'"
  show "high_bid b' \<le> high_bid b"
  proof (cases "0 < high_bid b'")
    case True
    have key: "by_high_bid b' = 2 ^ 64 - high_bid b'" "by_high_bid b = 2 ^ 64 - high_bid b"
      using by_high_bid_pos [OF True] by_high_bid_pos [OF assms(2)] rng [OF row] rng [OF row'] by auto
    have "(n', b') \<in> set (bid_rows s)" using row' by (simp add: set_bid_rows)
    from find_sorted_min [OF assms(1) [unfolded highest_bid_eq] this]
    have "by_high_bid b \<le> by_high_bid b'" using key(1) rng [OF row'] by simp
    then show ?thesis using key by simp
  next
    case False
    then show ?thesis using assms(2) by simp
  qed
qed

lemma close_auction_steps:
  obtains "close_auction E slot s = s"
  | n b s1 where "highest_bid s = Some (n, b)" "0 < high_bid b" "useconds_per_day < current_time E - last_bid_time b"
    "s1 = channel_namebid_to_rex (high_bid b) (s\<lparr>gstate := (gstate s)\<lparr>g_last_name_close := slot\<rparr>\<rparr>)"
    "close_auction E slot s = s1\<lparr>namebids := fmupd n (b\<lparr>high_bid := i64 (- high_bid b)\<rparr>) (namebids s)\<rparr>"
proof (cases "highest_bid s")
  case None
  then show ?thesis by (intro that(1)) (simp add: close_auction_def)
next
  case (Some r)
  obtain n b where r: "r = (n, b)" by (cases r)
  show ?thesis
  proof (cases "blocks_per_day < u32 (slot - g_last_name_close (gstate s)) \<and> 0 < high_bid b \<and> useconds_per_day < current_time E - last_bid_time b \<and>
      0 < g_thresh_activated_stake_time (gstate s) \<and> 14 * useconds_per_day < current_time E - g_thresh_activated_stake_time (gstate s)")
    case True
    then show ?thesis using Some r by (intro that(2) [OF _ _ _ refl]) (simp_all add: close_auction_def)
  next
    case False
    then show ?thesis using Some r by (intro that(1)) (auto simp: close_auction_def)
  qed
qed

lemma i64_le: "- (2 ^ 63) \<le> x \<Longrightarrow> i64 x \<le> x"
  using zmod_le_nonneg_dividend [of "x + 2 ^ 63" "2 ^ 64"] by (simp add: i64_def)

lemma channel_namebid:
  fixes s k
  defines "t \<equiv> channel_namebid_to_rex k s"
  assumes "in_i64 (pending_proceeds s)" "0 \<le> k"
  shows "namebids t = namebids s" "bidrefunds t = bidrefunds s" "effects t = effects s" "rammarket t = rammarket s"
    "in_i64 (pending_proceeds t)" "pending_proceeds t \<le> pending_proceeds s + k"
proof -
  show "namebids t = namebids s" "bidrefunds t = bidrefunds s" "effects t = effects s" "rammarket t = rammarket s"
    by (simp_all add: t_def channel_namebid_to_rex_def split: option.splits)
  have le: "i64 (pending_proceeds s + k) \<le> pending_proceeds s + k" using assms(2,3) by (intro i64_le) (simp add: in_i64_def)
  have "pending_proceeds t = pending_proceeds s \<or> pending_proceeds t = i64 (pending_proceeds s + k)"
    by (simp add: t_def channel_namebid_to_rex_def pending_proceeds_def split: option.splits)
  then show "in_i64 (pending_proceeds t)" "pending_proceeds t \<le> pending_proceeds s + k" using assms(2,3) le by auto
qed

lemma close_auction_backing:
  assumes inv: "auction_inv y s"
  shows "auction_inv y (close_auction E slot s) \<and> names_backing c s \<le> names_backing c (close_auction E slot s)"
proof (cases rule: close_auction_steps [where E = E and slot = slot and s = s])
  case 1
  then show ?thesis using inv by simp
next
  case (2 n b s1)
  have row: "fmlookup (namebids s) n = Some b" by (rule highest_bid_max(1) [OF 2(1,2)]) (rule auction_invD(5) [OF inv])
  have rng: "high_bid b < 2 ^ 63" using auction_invD(5) [OF inv row] by simp
  have neg: "i64 (- high_bid b) = - high_bid b" using rng 2(2) by (intro i64_id) auto
  let ?s0 = "s\<lparr>gstate := (gstate s)\<lparr>g_last_name_close := slot\<rparr>\<rparr>"
  have p0: "pending_proceeds ?s0 = pending_proceeds s" by (simp add: pending_proceeds_def)
  have ch: "namebids s1 = namebids s" "bidrefunds s1 = bidrefunds s" "effects s1 = effects s" "rammarket s1 = rammarket s"
    "in_i64 (pending_proceeds s1)" "pending_proceeds s1 \<le> pending_proceeds s + high_bid b"
    using channel_namebid [of ?s0 "high_bid b"] auction_invD(2) [OF inv] 2(2) by (simp_all add: 2(4) p0)
  have "pending_proceeds (s1\<lparr>namebids := m\<rparr>) = pending_proceeds s1" for m by (simp add: pending_proceeds_def)
  then show ?thesis
    using inv ch row rng 2(2) unfolding 2(5) neg
    by (auto simp: auction_inv_def core_symbol_def names_backing_def names_owed_def fmsum_upd open_bid_def)
qed

lemma newaccount_backing:
  assumes inv: "auction_inv y s" and r: "newaccount E x n s = Inr s'"
  shows "auction_inv y s' \<and> names_backing c s \<le> names_backing c s'"
  using r
proof (cases rule: newaccount_steps)
  case (1 s1 zero)
  have s1: "s1 = s \<or> (\<exists>b. fmlookup (namebids s) n = Some b \<and> high_bid b < 0 \<and> s1 = s\<lparr>namebids := fmdrop n (namebids s)\<rparr>)"
    using 1(1) by (auto simp: claim_name_def result_simps Let_def split: if_splits)
  have eq: "namebids s' = namebids s1" "bidrefunds s' = bidrefunds s1" "effects s' = effects s1" "rexpool s' = rexpool s1" "rammarket s' = rammarket s1"
    by (simp_all add: 1(4) set_resource_limits_def)
  show ?thesis
    using s1 inv eq
    by (auto simp: auction_inv_def core_symbol_def names_backing_def names_owed_def pending_proceeds_def fmsum_drop open_bid_def split: if_splits)
qed

subsection \<open>Actions in sequence\<close>

datatype auction_action =
    Bidname name name asset
  | Bidrefund name name
  | Close_auction int
  | Newaccount name name

fun auction_step :: "env \<times> auction_action \<Rightarrow> sys \<Rightarrow> sys result" where
  "auction_step (E, Bidname x n bid) s = bidname E x n bid s"
| "auction_step (E, Bidrefund x n) s = bidrefund E x n s"
| "auction_step (E, Close_auction slot) s = Inr (close_auction E slot s)"
| "auction_step (E, Newaccount x n) s = newaccount E x n s"

text \<open>
  A transfer from an account to itself is refused by the token contract, so the account that holds the bids
  does not bid; amounts are 64-bit numbers.
\<close>

fun auction_arg :: "env \<times> auction_action \<Rightarrow> bool" where
  "auction_arg (E, Bidname x n bid) \<longleftrightarrow> chain_laws E \<and> x \<noteq> names_account \<and> in_i64 (amount bid)"
| "auction_arg (E, Bidrefund x n) \<longleftrightarrow> chain_laws E \<and> x \<noteq> names_account"
| "auction_arg (E, _) \<longleftrightarrow> chain_laws E"

lemma auction_step_backing:
  assumes inv: "auction_inv y s" and arg: "auction_arg a" and r: "auction_step a s = Inr s'"
  shows "auction_inv y s' \<and> names_backing (scode y) s \<le> names_backing (scode y) s'"
proof -
  obtain E act where a: "a = (E, act)" by (cases a)
  show ?thesis
  proof (cases act)
    case (Bidname x n bid)
    then show ?thesis using bidname_backing [OF _ inv, of E x bid n s'] arg r by (simp add: a)
  next
    case (Bidrefund x n)
    then show ?thesis using bidrefund_backing [OF inv, of x E n s'] arg r by (simp add: a)
  next
    case (Close_auction slot)
    then show ?thesis using close_auction_backing [OF inv, of E slot "scode y"] r by (simp add: a)
  next
    case (Newaccount x n)
    then show ?thesis using newaccount_backing [OF inv, of E x n s' "scode y"] r by (simp add: a)
  qed
qed

lemma run_auction:
  "run_actions auction_step as s = Inr s' \<Longrightarrow> \<forall>a \<in> set as. auction_arg a \<Longrightarrow> auction_inv y s \<Longrightarrow>
     auction_inv y s' \<and> names_backing (scode y) s \<le> names_backing (scode y) s'"
proof (induction as arbitrary: s)
  case (Cons a as)
  obtain s1 where s1: "auction_step a s = Inr s1" "run_actions auction_step as s1 = Inr s'"
    using Cons.prems(1) by (auto simp: result_simps)
  have st: "auction_inv y s1 \<and> names_backing (scode y) s \<le> names_backing (scode y) s1"
    by (rule auction_step_backing [OF Cons.prems(3) _ s1(1)]) (use Cons.prems(2) in simp)
  then show ?case using Cons.IH [OF s1(2)] Cons.prems(2) by force
qed simp

subsection \<open>Theorems\<close>

text \<open>
  C10. Over any sequence of bids, refunds, closings and account creations the account \<open>eosio.names\<close> never
  falls behind what the auction owes: the open bids, the refunds of outbid accounts and the proceeds that wait for
  REX.  No refund row is ever negative or in another token than the core token.
\<close>

theorem auction_backed:
  assumes "run_actions auction_step as s = Inr s'" and "\<forall>a \<in> set as. auction_arg a" and "auction_inv y s"
  shows "auction_inv y s' \<and>
    names_owed s' - names_owed s \<le>
      net_flow (transfers_of (effects s')) names_account (scode y) - net_flow (transfers_of (effects s)) names_account (scode y)"
  using run_auction [OF assms] by (simp add: names_backing_def)

definition demo_bids :: "(env \<times> auction_action) list" where
  "demo_bids = [((sdk_env eosio_account 100)\<lparr>is_account := \<lambda>_. False\<rparr>, Bidname 7 1024 (core 1000)),
     ((sdk_env eosio_account 200)\<lparr>is_account := \<lambda>_. False\<rparr>, Bidname 8 1024 (core 1101)),
     (sdk_env eosio_account 300, Bidrefund 7 1024)]"

lemma chain_laws_more: "chain_laws ((sdk_env a b)\<lparr>is_account := f\<rparr>)"
  by unfold_locales
    (auto simp: sdk_env_def sdk_new_def sdk_add_def sdk_sub_def sdk_le_def in_amount_range_def
      sdk_symbol_valid_def abs_le_iff split: if_splits)

lemma sys0_auction: "auction_inv core_sym sys0"
  by (simp add: auction_inv_def core_symbol_def pending_proceeds_def sys0_def in_i64_def)

lemma demo_bids_run:
  "case run_actions auction_step demo_bids sys0 of Inl _ \<Rightarrow> False
   | Inr s' \<Rightarrow> names_owed s' = 1101 \<and> fmlookup (bidrefunds s') (1024, 7) = None"
  by code_simp

theorem auction_backed_witness:
  "\<exists>s'. run_actions auction_step demo_bids sys0 = Inr s' \<and> names_owed s' = 1101 \<and>
     1101 \<le> net_flow (transfers_of (effects s')) names_account (scode core_sym)"
proof -
  obtain s' where s': "run_actions auction_step demo_bids sys0 = Inr s'" "names_owed s' = 1101"
    using demo_bids_run by (auto split: sum.splits)
  have arg: "\<forall>a \<in> set demo_bids. auction_arg a"
    by (simp add: demo_bids_def chain_laws_more sdk.chain_laws_axioms names_account_def in_i64_def)
  have "names_owed sys0 = 0" by (simp add: names_owed_def pending_proceeds_def sys0_def)
  then show ?thesis
    using auction_backed [OF s'(1) arg sys0_auction] s' by (auto simp: sys0_def)
qed

text \<open>
  C24. A bid on an open auction succeeds only when it raises the highest bid by more than a tenth and comes from
  another account; the outbid account is owed exactly its bid on top of what it was owed, its refund is
  scheduled, and the new bid is recorded with the current time.
\<close>

theorem bid_raises:
  assumes E: "chain_laws E" and inv: "auction_inv y s" and r: "bidname E x n bid s = Inr s'"
    and old: "fmlookup (namebids s) n = Some b" and rng: "in_i64 (amount bid)"
  shows "0 < high_bid b \<and> high_bid b + high_bid b div 10 < amount bid \<and> high_bidder b \<noteq> x \<and> has_auth E x \<and>
    fmlookup (namebids s') n = Some \<lparr>high_bidder = x, high_bid = amount bid, last_bid_time = current_time E\<rparr> \<and>
    (\<exists>a. fmlookup (bidrefunds s') (n, high_bidder b) = Some a \<and>
       amount a = high_bid b + fmval amount (fmlookup (bidrefunds s) (n, high_bidder b))) \<and>
    Defer_bidrefund (high_bidder b) n \<in> set (effects s')"
proof -
  obtain memo where g: "0 < amount bid" "has_auth E x" and o: "outbid E x n bid b (send_transfer x names_account bid memo s) = Inr s'"
    using bidname_steps [OF r] old by (metis option.distinct(1) option.inject)
  have c: "core_symbol (send_transfer x names_account bid memo s) = Inr y"
    using auction_invD(1) [OF inv] by (simp add: core_symbol_def)
  obtain a where a: "0 < high_bid b" "tdiv (high_bid b) 10 < i64 (amount bid - high_bid b)" "high_bidder b \<noteq> x"
    "amount a = high_bid b + fmval amount (fmlookup (bidrefunds s) (n, high_bidder b))"
    "s' = place_bid E x n bid (emit (Defer_bidrefund (high_bidder b) n)
            ((send_transfer x names_account bid memo s)\<lparr>bidrefunds := fmupd (n, high_bidder b) a (bidrefunds s)\<rparr>))"
    using outbid_steps [OF E c o] by (metis send_transfer_tables(2))
  have "i64 (amount bid - high_bid b) = amount bid - high_bid b"
    using auction_invD(5) [OF inv old] rng g(1) a(1) by (intro i64_id) (auto simp: in_i64_def)
  then have "high_bid b + high_bid b div 10 < amount bid" using a(1,2) by (simp add: tdiv_nonneg)
  then show ?thesis using a g by (auto simp: place_bid_simps emit_def send_transfer_def)
qed

theorem bid_raises_witness:
  "\<exists>s'. bidname ((sdk_env eosio_account 200)\<lparr>is_account := \<lambda>_. False\<rparr>) 8 1024 (core 1101)
      (sys0\<lparr>namebids := fmupd 1024 \<lparr>high_bidder = 7, high_bid = 1000, last_bid_time = 0\<rparr> fmempty\<rparr>) = Inr s' \<and>
     (\<exists>a. fmlookup (bidrefunds s') (1024, 7) = Some a \<and> amount a = 1000)"
proof -
  let ?E = "(sdk_env eosio_account 200)\<lparr>is_account := \<lambda>_. False\<rparr>"
  let ?s = "sys0\<lparr>namebids := fmupd 1024 \<lparr>high_bidder = 7, high_bid = 1000, last_bid_time = 0\<rparr> fmempty\<rparr>"
  have "case bidname ?E 8 1024 (core 1101) ?s of Inl _ \<Rightarrow> False | Inr _ \<Rightarrow> True" by code_simp
  then obtain s' where s': "bidname ?E 8 1024 (core 1101) ?s = Inr s'" by (auto split: sum.splits)
  have inv: "auction_inv core_sym ?s" using sys0_auction by (auto simp: auction_inv_def core_symbol_def pending_proceeds_def)
  from bid_raises [OF chain_laws_more inv s'] show ?thesis using s' by (auto simp: in_i64_def sys0_def)
qed

text \<open>
  Closing an auction takes the highest open bid of all names, marks it as won by negating it and
  moves no tokens; a name whose last bid is younger than a day stays open.
\<close>

theorem close_takes_highest:
  assumes inv: "auction_inv y s" and ch: "close_auction E slot s \<noteq> s"
  shows "\<exists>n b. fmlookup (namebids s) n = Some b \<and> 0 < high_bid b \<and> useconds_per_day < current_time E - last_bid_time b \<and>
    (\<forall>n' b'. fmlookup (namebids s) n' = Some b' \<longrightarrow> high_bid b' \<le> high_bid b) \<and>
    namebids (close_auction E slot s) = fmupd n (b\<lparr>high_bid := - high_bid b\<rparr>) (namebids s) \<and>
    effects (close_auction E slot s) = effects s"
proof (cases rule: close_auction_steps [where E = E and slot = slot and s = s])
  case 1
  then show ?thesis using ch by simp
next
  case (2 n b s1)
  have row: "fmlookup (namebids s) n = Some b" by (rule highest_bid_max(1) [OF 2(1,2)]) (rule auction_invD(5) [OF inv])
  have mx: "high_bid b' \<le> high_bid b" if "fmlookup (namebids s) n' = Some b'" for n' b'
    by (rule highest_bid_max(2) [OF 2(1,2) _ that]) (rule auction_invD(5) [OF inv])
  have "i64 (- high_bid b) = - high_bid b" using auction_invD(5) [OF inv row] 2(2) by (intro i64_id) auto
  moreover have "effects s1 = effects s" by (simp add: 2(4) channel_namebid_to_rex_def split: option.splits)
  ultimately show ?thesis using row mx 2(2,3) unfolding 2(5) by auto
qed

definition demo_auctions :: sys where
  "demo_auctions = sys0\<lparr>gstate := (gstate sys0)\<lparr>g_thresh_activated_stake_time := 1\<rparr>,
     namebids := fmap_of_list [(1024, \<lparr>high_bidder = 7, high_bid = 1000, last_bid_time = 0\<rparr>),
       (2048, \<lparr>high_bidder = 8, high_bid = 3000, last_bid_time = 0\<rparr>), (4096, \<lparr>high_bidder = 9, high_bid = -5000, last_bid_time = 0\<rparr>)]\<rparr>"

lemma demo_close: "map_option high_bid (fmlookup (namebids (close_auction (sdk_env eosio_account 10000000) 200000 demo_auctions)) 2048) = Some (-3000)"
  by code_simp

theorem close_takes_highest_witness:
  "\<exists>n b. fmlookup (namebids demo_auctions) n = Some b \<and>
     namebids (close_auction (sdk_env eosio_account 10000000) 200000 demo_auctions) = fmupd n (b\<lparr>high_bid := - high_bid b\<rparr>) (namebids demo_auctions)"
proof -
  have "close_auction (sdk_env eosio_account 10000000) 200000 demo_auctions \<noteq> demo_auctions"
    using demo_close by (auto simp: demo_auctions_def fmlookup_of_list)
  moreover have "auction_inv core_sym demo_auctions"
    using sys0_auction by (auto simp: demo_auctions_def auction_inv_def core_symbol_def pending_proceeds_def fmlookup_of_list split: if_splits)
  ultimately show ?thesis using close_takes_highest by blast
qed

end
