(* ===== verification/Block_Info.thy ===== *)
theory Block_Info
  imports System_State
begin

section \<open>The rolling window of recent blocks\<close>

text \<open>
  Model of \<open>block_info.cpp\<close> and of the query in \<open>block_info.hpp\<close>.  The table is keyed by the block height;
  a record is added for every block and at most two old records are erased with it.
\<close>

definition rolling_window_size :: int where "rolling_window_size = 10"

definition block_height_from_id :: "8 word list \<Rightarrow> int" where
  "block_height_from_id arr =
     uint (arr ! 0) * 2 ^ 24 + uint (arr ! 1) * 2 ^ 16 + uint (arr ! 2) * 2 ^ 8 + uint (arr ! 3)"

definition first_key :: "(int, 'v) fmap \<Rightarrow> int option" where
  "first_key m = (case sorted_list_of_fset (fmdom m) of [] \<Rightarrow> None | k # _ \<Rightarrow> Some k)"

definition last_key :: "(int, 'v) fmap \<Rightarrow> int option" where
  "last_key m = (case sorted_list_of_fset (fmdom m) of [] \<Rightarrow> None | k # ks \<Rightarrow> Some (last (k # ks)))"

fun prune_blocks :: "nat \<Rightarrow> int \<Rightarrow> (int, block_info_record) fmap \<Rightarrow> (int, block_info_record) fmap" where
  "prune_blocks 0 last_prunable m = m"
| "prune_blocks (Suc count) last_prunable m =
     (case first_key m of None \<Rightarrow> m
      | Some k \<Rightarrow> if k \<le> last_prunable then prune_blocks count last_prunable (fmdrop k m) else m)"

definition add_block :: "int \<Rightarrow> int \<Rightarrow> (int, block_info_record) fmap \<Rightarrow> (int, block_info_record) fmap" where
  "add_block h t m =
     prune_blocks 2 (max h rolling_window_size - rolling_window_size) (fmupd h \<lparr>bi_version = 0, bi_timestamp = t\<rparr> m)"

text \<open>The chain refuses to store a second row under a key.\<close>

definition add_to_blockinfo_table :: "env \<Rightarrow> 8 word list \<Rightarrow> int \<Rightarrow> sys \<Rightarrow> sys result" where
  "add_to_blockinfo_table E previous_block_id timestamp s =
     (let new_block_height = u32 (block_height_from_id previous_block_id + 1) in
      if fmlookup (blockinfo s) new_block_height \<noteq> None then Inl (Trap ''key already exists'') else
      Inr (s\<lparr>blockinfo := add_block new_block_height (slot_to_time E timestamp) (blockinfo s)\<rparr>))"

subsection \<open>Querying the latest batch\<close>

record block_batch_info =
  batch_start_height :: int
  batch_start_timestamp :: int
  batch_current_end_height :: int
  batch_current_end_timestamp :: int

datatype error_code_enum = invalid_input | unsupported_version | insufficient_data

definition get_latest_block_batch_info :: "int \<Rightarrow> int \<Rightarrow> (int, block_info_record) fmap \<Rightarrow> error_code_enum + block_batch_info" where
  "get_latest_block_batch_info offset batch_size t =
     (if batch_size = 0 then Inl invalid_input else
      (case last_key t of None \<Rightarrow> Inl insufficient_data | Some end_height \<Rightarrow>
      let latest = the (fmlookup t end_height) in
      if bi_version latest \<noteq> 0 then Inl unsupported_version else
      if end_height < offset then Inl insufficient_data else
      let start_height = end_height - (end_height - offset) mod batch_size in
      if start_height = end_height
      then Inr \<lparr>batch_start_height = start_height, batch_start_timestamp = bi_timestamp latest,
                batch_current_end_height = end_height, batch_current_end_timestamp = bi_timestamp latest\<rparr> else
      (case fmlookup t start_height of None \<Rightarrow> Inl insufficient_data | Some start \<Rightarrow>
      if bi_version start \<noteq> 0 then Inl unsupported_version else
      Inr \<lparr>batch_start_height = start_height, batch_start_timestamp = bi_timestamp start,
           batch_current_end_height = end_height, batch_current_end_timestamp = bi_timestamp latest\<rparr>)))"

subsection \<open>First and last keys\<close>

lemma first_key_None: "first_key m = None \<longleftrightarrow> fmdom m = {||}"
proof -
  have "sorted_list_of_fset (fmdom m) = [] \<longleftrightarrow> fset (fmdom m) = {}" by (simp add: sorted_list_of_fset.rep_eq)
  then show ?thesis by (auto simp: first_key_def split: list.splits)
qed

lemma first_keyD:
  assumes "first_key m = Some k"
  shows "k |\<in>| fmdom m" "\<And>j. j |\<in>| fmdom m \<Longrightarrow> k \<le> j"
proof -
  obtain ks where ks: "sorted_list_of_fset (fmdom m) = k # ks" using assms by (auto simp: first_key_def split: list.splits)
  have "set (sorted_list_of_fset (fmdom m)) = fset (fmdom m)" "sorted (sorted_list_of_fset (fmdom m))"
    by (simp_all add: sorted_list_of_fset.rep_eq)
  then show "k |\<in>| fmdom m" "\<And>j. j |\<in>| fmdom m \<Longrightarrow> k \<le> j" unfolding ks by auto
qed

lemma last_keyD:
  assumes "last_key m = Some k"
  shows "k |\<in>| fmdom m" "\<And>j. j |\<in>| fmdom m \<Longrightarrow> j \<le> k"
proof -
  obtain l where l: "sorted_list_of_fset (fmdom m) = l" "l \<noteq> []" "k = last l" using assms by (auto simp: last_key_def split: list.splits)
  have set: "set l = fset (fmdom m)" and srt: "sorted l" using l(1) by (auto simp: sorted_list_of_fset.rep_eq)
  show "k |\<in>| fmdom m" using set l by (metis last_in_set)
  fix j assume "j |\<in>| fmdom m"
  then obtain i where "i < length l" "j = l ! i" using set by (metis in_set_conv_nth)
  then show "j \<le> k" using l srt sorted_nth_mono [of l i "length l - 1"] by (simp add: last_conv_nth)
qed

lemma last_key_unique:
  assumes "k |\<in>| fmdom m" "\<And>j. j |\<in>| fmdom m \<Longrightarrow> j \<le> k"
  shows "last_key m = Some k"
proof (cases "last_key m")
  case None
  then have "sorted_list_of_fset (fmdom m) = []" by (auto simp: last_key_def split: list.splits)
  then have "fset (fmdom m) = {}" by (simp add: sorted_list_of_fset.rep_eq)
  then show ?thesis using assms(1) by simp
next
  case (Some j)
  then show ?thesis using last_keyD [OF Some] assms by force
qed

subsection \<open>The window\<close>

lemma prune_blocks_lookup:
  "fmlookup (prune_blocks c p m) k = None \<or> fmlookup (prune_blocks c p m) k = fmlookup m k"
  by (induction c p m rule: prune_blocks.induct) (auto split: option.splits)

lemma prune_blocks_keeps: "p < k \<Longrightarrow> fmlookup (prune_blocks c p m) k = fmlookup m k"
  by (induction c p m rule: prune_blocks.induct) (auto split: option.splits)

lemma prune_blocks_card:
  assumes "\<exists>k. k |\<in>| fmdom m \<and> k \<le> p"
  shows "fcard (fmdom (prune_blocks (Suc c) p m)) < fcard (fmdom m)"
proof -
  obtain k where k: "k |\<in>| fmdom m" "k \<le> p" using assms by blast
  then obtain j where j: "first_key m = Some j" using first_key_None [of m] by (cases "first_key m") auto
  have "j \<le> p" "j |\<in>| fmdom m" using first_keyD [OF j] k by force+
  moreover have "fcard (fmdom (prune_blocks c p (fmdrop j m))) \<le> fcard (fmdom (fmdrop j m))"
  proof (rule fcard_mono)
    show "fmdom (prune_blocks c p (fmdrop j m)) |\<subseteq>| fmdom (fmdrop j m)"
      using prune_blocks_lookup [of c p "fmdrop j m"] by (auto simp: fmlookup_dom_iff) (metis option.distinct(1))+
  qed
  moreover have "fcard (fmdom (fmdrop j m)) < fcard (fmdom m)"
    using \<open>j |\<in>| fmdom m\<close> by (metis fcard_fminus1_less fmdom_drop)
  ultimately show ?thesis using j by simp
qed

text \<open>
  The window: at most ten records, all at most the height of the newest block.  Heights grow, and
  blocks without a record may lie between two records.
\<close>

definition window_ok :: "int \<Rightarrow> (int, block_info_record) fmap \<Rightarrow> bool" where
  "window_ok h m \<longleftrightarrow> fcard (fmdom m) \<le> 10 \<and> (\<forall>k r. fmlookup m k = Some r \<longrightarrow> 0 \<le> k \<and> k \<le> h \<and> bi_version r = 0)"

text \<open>Ten distinct heights up to \<open>h\<close> cannot all lie in the last nine.\<close>

lemma ten_heights:
  assumes "fcard A = 10" "\<And>k. k |\<in>| A \<Longrightarrow> k \<le> (h::int)"
  shows "\<exists>k. k |\<in>| A \<and> k \<le> h - 9"
proof (rule ccontr)
  assume "\<not> ?thesis"
  then have "fset A \<subseteq> {h - 8..h}" using assms(2) by force
  then have "card (fset A) \<le> card {h - 8..h}" by (intro card_mono) auto
  then show False using assms(1) by (simp add: fcard.rep_eq)
qed

lemma add_block_lookup:
  assumes "max 0 (h - 10) < k"
  shows "fmlookup (add_block h t m) k = (if k = h then Some \<lparr>bi_version = 0, bi_timestamp = t\<rparr> else fmlookup m k)"
proof -
  have "max h rolling_window_size - rolling_window_size < k" using assms
    by (cases "10 \<le> h") (simp_all add: rolling_window_size_def max_absorb1 max_absorb2)
  from prune_blocks_keeps [OF this, of 2 "fmupd h \<lparr>bi_version = 0, bi_timestamp = t\<rparr> m"] show ?thesis
    by (simp add: add_block_def)
qed

lemma add_block_window:
  assumes w: "window_ok h m" and h': "h < h'" "0 < h'"
  shows "window_ok h' (add_block h' t m)" "last_key (add_block h' t m) = Some h'"
proof -
  let ?p = "max h' rolling_window_size - rolling_window_size" and ?u = "fmupd h' \<lparr>bi_version = 0, bi_timestamp = t\<rparr> m"
  have le: "k \<le> h \<and> 0 \<le> k" if "k |\<in>| fmdom m" for k using w that by (auto simp: window_ok_def fmlookup_dom_iff)
  have new: "h' |\<notin>| fmdom m" using le h' by force
  have rows: "0 \<le> k \<and> k \<le> h' \<and> bi_version r = 0" if "fmlookup (add_block h' t m) k = Some r" for k r
  proof -
    have "fmlookup ?u k = Some r" using that prune_blocks_lookup [of 2 ?p ?u k] by (simp add: add_block_def)
    then show ?thesis using w h' by (force simp: window_ok_def split: if_splits)
  qed
  have sub: "fcard (fmdom (add_block h' t m)) \<le> fcard (fmdom ?u)"
    unfolding add_block_def using prune_blocks_lookup [of 2 ?p ?u]
    by (intro fcard_mono) (auto simp: fmlookup_dom_iff, metis option.distinct(1))
  have u: "fcard (fmdom ?u) = Suc (fcard (fmdom m))" using new by (simp add: fcard_finsert_disjoint)
  have "fcard (fmdom (add_block h' t m)) \<le> 10"
  proof (cases "fcard (fmdom m) = 10")
    case True
    obtain k where k: "k |\<in>| fmdom m" "k \<le> h - 9" using ten_heights [OF True, of h] le by blast
    then have "k \<le> ?p" using h' le [OF k(1)] by (simp add: rolling_window_size_def)
    then have "fcard (fmdom (prune_blocks (Suc 1) ?p ?u)) < fcard (fmdom ?u)"
      using k(1) by (intro prune_blocks_card) auto
    then show ?thesis using u True by (simp add: add_block_def numeral_2_eq_2)
  next
    case False
    then show ?thesis using w u sub by (simp add: window_ok_def)
  qed
  with rows show "window_ok h' (add_block h' t m)" by (auto simp: window_ok_def)
  have "fmlookup (add_block h' t m) h' = Some \<lparr>bi_version = 0, bi_timestamp = t\<rparr>"
    using add_block_lookup [of h' h' t m] h' by simp
  then show "last_key (add_block h' t m) = Some h'"
    using rows by (intro last_key_unique) (auto simp: fmlookup_dom_iff)
qed

subsection \<open>Theorems\<close>

text \<open>
  C34. Recording a block of greater height than the recorded ones keeps the table a window: at most ten records, none above
  the new block.  The record of the new block and all records of the nine blocks before it are
  there, also when earlier blocks were never recorded.
\<close>

theorem block_window:
  assumes "add_to_blockinfo_table E prev slot s = Inr s'" and "window_ok h (blockinfo s)"
    and "h \<le> block_height_from_id prev" and "block_height_from_id prev + 1 < 2 ^ 32" and "0 \<le> block_height_from_id prev"
  shows "let h' = block_height_from_id prev + 1 in
    window_ok h' (blockinfo s') \<and> last_key (blockinfo s') = Some h' \<and>
    (\<forall>k. max 0 (h' - 10) < k \<longrightarrow> fmlookup (blockinfo s') k =
       (if k = h' then Some \<lparr>bi_version = 0, bi_timestamp = slot_to_time E slot\<rparr> else fmlookup (blockinfo s) k))"
proof -
  let ?h = "block_height_from_id prev + 1"
  have "u32 ?h = ?h" using assms(4,5) by (intro u32_id) auto
  then have s': "blockinfo s' = add_block ?h (slot_to_time E slot) (blockinfo s)"
    using assms(1) by (auto simp: add_to_blockinfo_table_def Let_def split: if_splits)
  show ?thesis
    using add_block_window [OF assms(2), of ?h] add_block_lookup [of ?h] assms(3,5) unfolding s' Let_def by simp
qed

theorem block_window_witness:
  "\<exists>s'. add_to_blockinfo_table (sdk_env eosio_account 1) ([0, 0, 0, 5] @ replicate 28 0) 6 sys0 = Inr s' \<and>
     window_ok 6 (blockinfo s') \<and> last_key (blockinfo s') = Some 6"
proof -
  have h: "block_height_from_id ([0, 0, 0, 5] @ replicate 28 0) = 5" by (simp add: block_height_from_id_def)
  have w: "window_ok 0 (blockinfo sys0)" by (simp add: window_ok_def sys0_def fcard.rep_eq)
  obtain s' where s': "add_to_blockinfo_table (sdk_env eosio_account 1) ([0, 0, 0, 5] @ replicate 28 0) 6 sys0 = Inr s'"
    by (simp add: add_to_blockinfo_table_def sys0_def)
  from block_window [OF this w, unfolded h] show ?thesis using s' by simp
qed

text \<open>
  The query for the latest batch answers exactly when the batch size is positive, a block at or after the offset is
  recorded, and the first block of its batch is recorded, all in the known version.  The answer is the batch
  that contains the newest block in the partition through the offset: it starts a multiple of the batch size
  after the offset, has between one and batch-size blocks, and carries the recorded times.
\<close>

theorem latest_batch:
  assumes "0 \<le> size'"
  shows "get_latest_block_batch_info offset size' t = Inr r \<longleftrightarrow>
    (\<exists>e le ls. 0 < size' \<and> last_key t = Some e \<and> offset \<le> e \<and> fmlookup t e = Some le \<and> bi_version le = 0 \<and>
       batch_current_end_height r = e \<and> batch_current_end_timestamp r = bi_timestamp le \<and>
       fmlookup t (batch_start_height r) = Some ls \<and> bi_version ls = 0 \<and> batch_start_timestamp r = bi_timestamp ls \<and>
       (batch_start_height r - offset) mod size' = 0 \<and>
       0 < e - batch_start_height r + 1 \<and> e - batch_start_height r + 1 \<le> size')"
proof (cases "\<exists>e. 0 < size' \<and> last_key t = Some e \<and> offset \<le> e")
  case False
  then show ?thesis using assms by (auto simp: get_latest_block_batch_info_def Let_def split: option.splits if_splits)
next
  case True
  then obtain e where e: "0 < size'" "last_key t = Some e" "offset \<le> e" by blast
  obtain le where le: "fmlookup t e = Some le" using last_keyD(1) [OF e(2)] by (auto simp: fmlookup_dom_iff)
  define st where "st = e - (e - offset) mod size'"
  have st: "(st - offset) mod size' = 0" "0 < e - st + 1" "e - st + 1 \<le> size'"
  proof -
    have "st - offset = size' * ((e - offset) div size')" by (simp add: st_def minus_mod_eq_mult_div [symmetric])
    then show "(st - offset) mod size' = 0" by simp
    have "0 \<le> (e - offset) mod size'" "(e - offset) mod size' < size'" using e(1) by simp_all
    then show "0 < e - st + 1" "e - st + 1 \<le> size'" by (simp_all add: st_def)
  qed
  have uniq: "x = st" if "(x - offset) mod size' = 0" "0 < e - x + 1" "e - x + 1 \<le> size'" for x
  proof -
    have "(e - offset) mod size' = (e - x + (x - offset)) mod size'" by simp
    also have "\<dots> = (e - x) mod size'" using that(1) by (metis add.right_neutral mod_add_right_eq)
    also have "\<dots> = e - x" using that by (intro mod_pos_pos_trivial) auto
    finally show ?thesis by (simp add: st_def)
  qed
  show ?thesis
  proof (cases "bi_version le = 0")
    case False
    then show ?thesis using e le by (auto simp: get_latest_block_batch_info_def)
  next
    case v: True
    have eq: "get_latest_block_batch_info offset size' t = (if st = e
        then Inr \<lparr>batch_start_height = st, batch_start_timestamp = bi_timestamp le,
                  batch_current_end_height = e, batch_current_end_timestamp = bi_timestamp le\<rparr>
        else (case fmlookup t st of None \<Rightarrow> Inl insufficient_data | Some ls \<Rightarrow>
          if bi_version ls \<noteq> 0 then Inl unsupported_version else
          Inr \<lparr>batch_start_height = st, batch_start_timestamp = bi_timestamp ls,
               batch_current_end_height = e, batch_current_end_timestamp = bi_timestamp le\<rparr>))"
      using e le v by (auto simp: get_latest_block_batch_info_def Let_def st_def split: option.splits)
    let ?ans = "\<lambda>ls. r = \<lparr>batch_start_height = st, batch_start_timestamp = bi_timestamp ls,
      batch_current_end_height = e, batch_current_end_timestamp = bi_timestamp le\<rparr>"
    have "get_latest_block_batch_info offset size' t = Inr r \<longleftrightarrow> (\<exists>ls. fmlookup t st = Some ls \<and> bi_version ls = 0 \<and> ?ans ls)"
      unfolding eq using le v by (auto split: option.splits)
    also have "\<dots> \<longleftrightarrow> (\<exists>e' le' ls. 0 < size' \<and> last_key t = Some e' \<and> offset \<le> e' \<and> fmlookup t e' = Some le' \<and> bi_version le' = 0 \<and>
       batch_current_end_height r = e' \<and> batch_current_end_timestamp r = bi_timestamp le' \<and>
       fmlookup t (batch_start_height r) = Some ls \<and> bi_version ls = 0 \<and> batch_start_timestamp r = bi_timestamp ls \<and>
       (batch_start_height r - offset) mod size' = 0 \<and>
       0 < e' - batch_start_height r + 1 \<and> e' - batch_start_height r + 1 \<le> size')" (is "?l \<longleftrightarrow> ?r")
    proof
      assume ?l
      then show ?r using st e le v by auto
    next
      assume ?r
      then obtain ls where r: "batch_current_end_height r = e" "batch_current_end_timestamp r = bi_timestamp le"
        "fmlookup t (batch_start_height r) = Some ls" "bi_version ls = 0" "batch_start_timestamp r = bi_timestamp ls"
        "(batch_start_height r - offset) mod size' = 0" "0 < e - batch_start_height r + 1" "e - batch_start_height r + 1 \<le> size'"
        using e(2) le by auto
      have "batch_start_height r = st" by (rule uniq [OF r(6,7,8)])
      then show ?l using r(1-5) by (intro exI [of _ ls]) (cases r, simp)
    qed
    finally show ?thesis .
  qed
qed

theorem latest_batch_witness:
  "get_latest_block_batch_info 1 3 (fmap_of_list [(4, \<lparr>bi_version = 0, bi_timestamp = 40\<rparr>), (5, \<lparr>bi_version = 0, bi_timestamp = 50\<rparr>)]) =
     Inr \<lparr>batch_start_height = 4, batch_start_timestamp = 40, batch_current_end_height = 5, batch_current_end_timestamp = 50\<rparr>"
proof -
  have "last_key (fmap_of_list [(4, \<lparr>bi_version = 0, bi_timestamp = 40\<rparr>), (5, \<lparr>bi_version = 0, bi_timestamp = 50\<rparr>)]) = Some 5"
    by (intro last_key_unique) (auto simp: fmlookup_dom_iff fmlookup_of_list split: if_splits)
  then show ?thesis by (subst latest_batch) (simp_all add: fmlookup_of_list)
qed

end
