(* ===== verification/Double_Approx.thy ===== *)
theory Double_Approx
  imports IEEE_Double
begin

section \<open>Relative error of double arithmetic\<close>

text \<open>
  A calculus for the rounding error of a formula over doubles.  \<open>approx e x y\<close> says that \<open>x\<close> deviates from the
  non-negative exact value \<open>y\<close> by a relative error of at most \<open>e\<close>; every operation adds the errors of its
  operands and one unit of rounding \<open>ulp\<close>.  The exact values stay between \<open>2^-100\<close> and \<open>2^100\<close>, far from the
  subnormal numbers and from overflow.
\<close>

definition ulp :: rat where "ulp = 1 / 2 ^ 52"

definition approx :: "rat \<Rightarrow> rat \<Rightarrow> rat \<Rightarrow> bool" where
  "approx e x y \<longleftrightarrow> (1 - e) * y \<le> x \<and> x \<le> (1 + e) * y"

definition moderate :: "rat \<Rightarrow> bool" where
  "moderate y \<longleftrightarrow> y = 0 \<or> 1 / 2 ^ 100 \<le> y \<and> y \<le> 2 ^ 100"

fun approx_double :: "rat \<Rightarrow> double \<Rightarrow> rat \<Rightarrow> bool" where
  "approx_double e (Fin x) y \<longleftrightarrow> approx e x y"
| "approx_double e _ y \<longleftrightarrow> False"

lemma approx_refl: "approx 0 x x"
  by (simp add: approx_def)

lemma approx_mono: "approx e x y \<Longrightarrow> e \<le> f \<Longrightarrow> 0 \<le> y \<Longrightarrow> approx f x y"
  using mult_right_mono [of e f y] by (auto simp: approx_def algebra_simps)

lemma approx_mult:
  assumes "approx e x y" "approx f u v" "0 \<le> y" "0 \<le> v" "0 \<le> e" "e \<le> 1" "0 \<le> f" "f \<le> 1"
  shows "approx (e + f + e * f) (x * u) (y * v)"
proof -
  have x: "(1 - e) * y \<le> x" "x \<le> (1 + e) * y" and u: "(1 - f) * v \<le> u" "u \<le> (1 + f) * v"
    using assms by (simp_all add: approx_def)
  have x0: "0 \<le> (1 - e) * y" "0 \<le> x" and u0: "0 \<le> (1 - f) * v" "0 \<le> u"
    using x(1) u(1) assms(3-8) mult_nonneg_nonneg [of "1 - e" y] mult_nonneg_nonneg [of "1 - f" v] by linarith+
  have "((1 - e) * y) * ((1 - f) * v) \<le> x * u" by (rule mult_mono [OF x(1) u(1) x0(2) u0(1)])
  moreover have "((1 - e) * y) * ((1 - f) * v) = (1 - (e + f + e * f)) * (y * v) + 2 * (e * f) * (y * v)" by (simp add: algebra_simps)
  moreover have "0 \<le> 2 * (e * f) * (y * v)" using assms(3,4,5,7) by simp
  ultimately have lo: "(1 - (e + f + e * f)) * (y * v) \<le> x * u" by linarith
  have "x * u \<le> ((1 + e) * y) * ((1 + f) * v)"
    by (rule mult_mono [OF x(2) u(2) _ u0(2)]) (use assms(3,5) in simp)
  also have "\<dots> = (1 + (e + f + e * f)) * (y * v)" by (simp add: algebra_simps)
  finally show ?thesis using lo by (simp add: approx_def)
qed

lemma approx_inverse:
  assumes "approx f u v" "0 < v" "0 \<le> f" "f \<le> 1 / 2"
  shows "approx (2 * f) (1 / u) (1 / v)"
proof -
  have u: "(1 - f) * v \<le> u" "u \<le> (1 + f) * v" using assms by (simp_all add: approx_def)
  have p: "0 < (1 - f) * v" using assms by simp
  then have u0: "0 < u" using u(1) by linarith
  have "f * f \<le> 1 / 2 * f" using assms(3,4) by (intro mult_right_mono) auto
  then have sq: "2 * (f * f) \<le> f" by simp
  have "(1 - 2 * f) * u \<le> 1 * v"
  proof (cases "0 \<le> 1 - 2 * f")
    case True
    have "(1 - 2 * f) * u \<le> (1 - 2 * f) * ((1 + f) * v)" using True u(2) by (rule mult_left_mono [rotated])
    also have "\<dots> = (1 - f - 2 * (f * f)) * v" by (simp add: algebra_simps)
    also have "\<dots> \<le> 1 * v" using assms(2,3) mult_nonneg_nonneg [OF assms(3,3)] by (intro mult_right_mono) linarith+
    finally show ?thesis .
  qed (use assms(4) in simp)
  then have lo: "(1 - 2 * f) * (1 / v) \<le> 1 / u" using u0 assms(2) by (simp add: field_simps)
  have "1 * v \<le> (1 + f - 2 * (f * f)) * v" using assms(2) sq by (intro mult_right_mono) auto
  also have "\<dots> = (1 + 2 * f) * ((1 - f) * v)" by (simp add: algebra_simps)
  also have "\<dots> \<le> (1 + 2 * f) * u" using u(1) assms(3) by (intro mult_left_mono) auto
  finally have "1 / u \<le> (1 + 2 * f) * (1 / v)" using u0 assms(2) by (simp add: field_simps)
  then show ?thesis using lo by (simp add: approx_def)
qed

lemma approx_add: "approx e x y \<Longrightarrow> approx e u v \<Longrightarrow> approx e (x + u) (y + v)"
  unfolding approx_def distrib_left by (metis add_mono)

lemma approx_diff:
  assumes "approx e x y" "approx e u v" "0 \<le> e" "2 * v \<le> y"
  shows "approx (3 * e) (x - u) (y - v)"
proof -
  have "e * (2 * v) \<le> e * y" using assms(3,4) by (intro mult_left_mono)
  then show ?thesis using assms(1,2) by (simp add: approx_def algebra_simps)
qed

lemma approx_rnd:
  assumes xy: "approx e x y" and y: "moderate y" and e: "0 \<le> e" "e \<le> 1 / 4"
  shows "approx_double (e + ulp) (rnd x) y"
proof (cases "y = 0")
  case True
  then have "x = 0" using xy by (simp add: approx_def)
  then show ?thesis using True by (simp add: approx_def rnd_def Let_def)
next
  case False
  then have y: "1 / 2 ^ 100 \<le> y" "y \<le> 2 ^ 100" using y by (simp_all add: moderate_def)
  have y0: "0 < y" using y(1) by (rule less_le_trans [rotated]) simp
  have x: "(1 - e) * y \<le> x" "x \<le> (1 + e) * y" using xy by (simp_all add: approx_def)
  have "1 / 2 * y \<le> (1 - e) * y" "(1 + e) * y \<le> 2 * y" using e y0 by (simp_all add: mult_right_mono)
  then have x2: "1 / 2 * y \<le> x" "x \<le> 2 * y" using x by linarith+
  have "2 powi (-1022) \<le> (2::rat) powi (-101)" by (simp only: powi2_le_iff)
  also have "\<dots> = 1 / 2 * (1 / 2 ^ 100)" by (simp add: power_int_def power_divide)
  also have "\<dots> \<le> 1 / 2 * y" using y(1) by simp
  finally have n: "2 powi (-1022) \<le> \<bar>x\<bar>" using x2(1) y0 by linarith
  have "2 * y \<le> 2 * 2 ^ 100" using y(2) by simp
  also have "\<dots> \<le> (2::rat) ^ 200" by simp
  finally have "\<bar>x\<bar> \<le> 2 ^ 200" using x2 y0 by linarith
  then have r: "rnd x = Fin (rv x)" by (rule rnd_small)
  have "\<bar>rv x - x\<bar> \<le> \<bar>x\<bar> / 2 ^ 53" by (rule rv_rel_error [OF n])
  also have "\<dots> \<le> ulp * y" using x2 y0 by (simp add: ulp_def)
  finally show ?thesis using x by (simp add: r approx_def algebra_simps abs_le_iff)
qed

subsection \<open>Operations\<close>

lemma approx_double_mono: "approx_double e d y \<Longrightarrow> e \<le> f \<Longrightarrow> 0 \<le> y \<Longrightarrow> approx_double f d y"
  by (cases d) (auto intro: approx_mono)

lemma approx_double_Fin: "approx_double 0 (Fin x) x"
  by (simp add: approx_refl)

lemma moderate_nonneg: "moderate y \<Longrightarrow> 0 \<le> y"
  by (auto simp: moderate_def intro: order_trans [of _ "1 / 2 ^ 100"])

lemma approx_double_rnd: "moderate y \<Longrightarrow> approx_double ulp (rnd y) y"
  using approx_rnd [OF approx_refl, of y] by simp

lemma approx_dmul:
  assumes "approx_double e a y" "approx_double f b z" "0 \<le> y" "0 \<le> z" "moderate (y * z)" "0 \<le> e" "e \<le> 1 / 16" "0 \<le> f" "f \<le> 1 / 16"
    and g: "e + f + e * f + ulp \<le> g"
  shows "approx_double g (dmul a b) (y * z)"
proof (cases a; cases b)
  fix x u assume d: "a = Fin x" "b = Fin u"
  have "e * f \<le> 1 * f" using assms(6-8) by (intro mult_right_mono) auto
  then have "e + f + e * f \<le> 1 / 4" using assms(6-9) by linarith
  then have "approx_double (e + f + e * f + ulp) (rnd (x * u)) (y * z)"
    using assms(1-9) d by (intro approx_rnd approx_mult) auto
  then show ?thesis using d g assms(3,4) by (auto intro: approx_double_mono)
qed (use assms(1,2) in auto)

lemma approx_ddiv:
  assumes "approx_double e a y" "approx_double f b z" "0 \<le> y" "0 < z" "moderate (y / z)" "0 \<le> e" "e \<le> 1 / 16" "0 \<le> f" "f \<le> 1 / 32"
    and g: "e + 2 * f + e * (2 * f) + ulp \<le> g"
  shows "approx_double g (ddiv a b) (y / z)"
proof (cases a; cases b)
  fix x u assume d: "a = Fin x" "b = Fin u"
  have "approx f u z" using assms(2) d by simp
  then have i: "approx (2 * f) (1 / u) (1 / z)" using assms(4,8,9) by (intro approx_inverse) auto
  have "(1 - f) * z \<le> u" "0 < (1 - f) * z" using assms(2,4,9) d by (simp_all add: approx_def)
  then have u: "u \<noteq> 0" by linarith
  have "e * (2 * f) \<le> 1 * (2 * f)" using assms(6-8) by (intro mult_right_mono) auto
  then have e: "e + 2 * f + e * (2 * f) \<le> 1 / 4" "0 \<le> e + 2 * f + e * (2 * f)" using assms(6-9) by simp_all
  have "approx (e + 2 * f + e * (2 * f)) (x * (1 / u)) (y * (1 / z))"
    using assms(1-9) d i by (intro approx_mult) auto
  then have "approx_double (e + 2 * f + e * (2 * f) + ulp) (rnd (x / u)) (y / z)"
    using assms(5) e by (intro approx_rnd) simp_all
  then show ?thesis using d u g assms(3,4) by (auto intro: approx_double_mono)
qed (use assms(1,2) in auto)

lemma approx_dadd:
  assumes "approx_double e a y" "approx_double e b z" "0 \<le> y + z" "moderate (y + z)" "0 \<le> e" "e \<le> 1 / 4" and g: "e + ulp \<le> g"
  shows "approx_double g (dadd a b) (y + z)"
proof (cases a; cases b)
  fix x u assume d: "a = Fin x" "b = Fin u"
  have "approx_double (e + ulp) (rnd (x + u)) (y + z)" using assms d by (intro approx_rnd approx_add) auto
  then show ?thesis using d g assms(3) by (auto intro: approx_double_mono)
qed (use assms(1,2) in auto)

lemma approx_dsub:
  assumes "approx_double e a y" "approx_double e b z" "2 * z \<le> y" "0 \<le> z" "moderate (y - z)" "0 \<le> e" "e \<le> 1 / 12" and g: "3 * e + ulp \<le> g"
  shows "approx_double g (dsub a b) (y - z)"
proof (cases a; cases b)
  fix x u assume d: "a = Fin x" "b = Fin u"
  have "approx_double (3 * e + ulp) (rnd (x - u)) (y - z)" using assms d by (intro approx_rnd approx_diff) auto
  then show ?thesis using d g assms(3,4) by (auto simp: dsub_def intro: approx_double_mono)
qed (use assms(1,2) in auto)

end
