(* ===== verification/Producer_Pay.thy ===== *)
theory Producer_Pay
  imports Name_Bidding Producer_Schedule Block_Info Eosio_Token Double_Approx
begin

section \<open>Producer pay and the block hook\<close>

text \<open>
  Model of \<open>producer_pay.cpp\<close>: \<open>onblock\<close>, which runs with every block, the snapshot that mints the pay
  of workers and producers and divides the bucket of the producers, the claim of a payment, and \<open>pay\<close>, which
  tops up the TEDP account.  The tables of other contracts that this code reads are fields of \<open>pay_env\<close>: the
  average prices of the oracle for \<open>tlosusd\<close> in primary order, the tables of the token contract and the
  payouts of the TEDP contract.
\<close>

record average_row =
  avg_type :: int
  avg_value :: int

record payout =
  payout_to :: name
  payout_amount :: int
  payout_interval :: int
  last_payout :: int

record pay_env =
  averages :: "average_row list"
  token_tables :: token_state
  payouts :: "payout list"

datatype average_types = last_7_days | last_14_days | last_30_days | last_45_days | none_days

fun get_type :: "average_types \<Rightarrow> int" where
  "get_type last_7_days = 0"
| "get_type last_14_days = 1"
| "get_type last_30_days = 2"
| "get_type last_45_days = 3"
| "get_type none_days = 255"

definition find_average :: "average_types \<Rightarrow> average_row list \<Rightarrow> int option" where
  "find_average t rs = map_option avg_value (find (\<lambda>r. avg_type r = get_type t) rs)"

definition get_telos_average_price :: "average_row list \<Rightarrow> int" where
  "get_telos_average_price rs =
     (case find_average last_30_days rs of Some v \<Rightarrow> v
      | None \<Rightarrow> (case find_average last_14_days rs of Some v \<Rightarrow> v
      | None \<Rightarrow> (case find_average last_7_days rs of Some v \<Rightarrow> v | None \<Rightarrow> 1)))"

definition useconds_per_year :: int where "useconds_per_year = 31449600 * 1000000"

subsection \<open>Minting\<close>

definition per_year :: "double \<Rightarrow> int \<Rightarrow> int result" where
  "per_year a usecs = d_to_i64 (ddiv (dmul a (d_of_int usecs)) (d_of_int useconds_per_year))"

definition to_workers :: "int \<Rightarrow> int \<Rightarrow> int result" where
  "to_workers worker usecs = per_year (dmul (Fin 12) (d_of_int worker)) usecs"

definition bp_pay_per_month :: "env \<Rightarrow> int \<Rightarrow> double" where
  "bp_pay_per_month E tlos_price =
     dmul (dmin (dmul (Fin 189000) (std_pow E (ddiv (d_of_int tlos_price) (Fin 10000)) (rnd (- 516 / 1000)))) (Fin 315000))
       (Fin 10000)"

definition to_producers :: "env \<Rightarrow> int \<Rightarrow> int \<Rightarrow> int result" where
  "to_producers E tlos_price usecs = per_year (dmul (bp_pay_per_month E tlos_price) (Fin 12)) usecs"

text \<open>What is taken from the TEDP account and what is issued.\<close>

definition offset_and_issue :: "int \<Rightarrow> int \<Rightarrow> int \<times> int" where
  "offset_and_issue tedp_balance new_tokens =
     (if 0 < tedp_balance
      then if new_tokens \<le> tedp_balance then (new_tokens, 0) else (tedp_balance, i64 (new_tokens - tedp_balance))
      else (0, new_tokens))"

definition send_core :: "env \<Rightarrow> int \<Rightarrow> (asset \<Rightarrow> effect) \<Rightarrow> sys \<Rightarrow> sys result" where
  "send_core E n f s =
     (if 0 < n then (case core_asset E n s of Inl e \<Rightarrow> Inl e | Inr a \<Rightarrow> Inr (emit (f a) s)) else Inr s)"

definition core_transfer :: "name \<Rightarrow> name \<Rightarrow> string \<Rightarrow> asset \<Rightarrow> effect" where
  "core_transfer x y memo a = Token_transfer \<lparr>t_from = x, t_to = y, t_quantity = a, t_memo = memo\<rparr>"

definition mint_pay :: "env \<Rightarrow> int \<Rightarrow> int \<Rightarrow> int \<Rightarrow> sys \<Rightarrow> sys result" where
  "mint_pay E tedp_balance workers prods s =
     (let new_tokens = i64 (workers + prods);
          (transfer_tokens, issue_tokens) = offset_and_issue tedp_balance new_tokens in
      (case send_core E transfer_tokens (core_transfer tedp_account (get_self E) ''TEDP: Inflation offset'') s of
        Inl e \<Rightarrow> Inl e | Inr s1 \<Rightarrow>
      (case send_core E issue_tokens (\<lambda>a. Token_issue (get_self E) a ''Issue new TLOS tokens'') s1 of
        Inl e \<Rightarrow> Inl e | Inr s2 \<Rightarrow>
      (case send_core E workers (core_transfer (get_self E) works_account
          ''Transfer worker proposal share to works.decide account'') s2 of
        Inl e \<Rightarrow> Inl e | Inr s3 \<Rightarrow>
      send_core E prods (core_transfer (get_self E) bpay_account ''Transfer producer share to per-block bucket'') s3))))"

definition fill_bucket :: "env \<Rightarrow> pay_env \<Rightarrow> sys \<Rightarrow> sys result" where
  "fill_bucket E P s =
     (let usecs = current_time E - g_last_pervote_bucket_fill (gstate s) in
      if \<not> (0 < usecs \<and> 0 < g_last_pervote_bucket_fill (gstate s)) then Inr s else
      (case to_workers (worker_amount (payrate s)) usecs of Inl e \<Rightarrow> Inl e | Inr workers \<Rightarrow>
      (case to_producers E (get_telos_average_price (averages P)) usecs of Inl e \<Rightarrow> Inl e | Inr prods \<Rightarrow>
      (case core_symbol s of Inl e \<Rightarrow> Inl e | Inr y \<Rightarrow>
      (case get_balance tedp_account (scode y) (token_tables P) of Inl e \<Rightarrow> Inl e | Inr bal \<Rightarrow>
      (case mint_pay E (amount bal) workers prods s of Inl e \<Rightarrow> Inl e | Inr s1 \<Rightarrow>
      Inr (s1\<lparr>gstate := (gstate s1)\<lparr>g_perblock_bucket := i64 (g_perblock_bucket (gstate s1) + prods),
            g_last_pervote_bucket_fill := current_time E\<rparr>\<rparr>)))))))"

subsection \<open>Dividing the bucket\<close>

fun count_active :: "nat \<Rightarrow> producer_info list \<Rightarrow> nat" where
  "count_active c [] = c"
| "count_active c (p # ps) = (if p_is_active p \<and> c < MAX_PRODUCERS then count_active (Suc c) ps else c)"

text \<open>\<open>activecount\<close> is unsigned: \<open>activecount - 1\<close> wraps for an empty count.\<close>

definition sum_of_multipliers :: "nat \<Rightarrow> double" where
  "sum_of_multipliers activecount =
     (let n = int activecount; a = dmul (Fin 2) (rnd (12 / 10)); d = rnd (2 / 100) in
      if n \<le> 21
      then dmul (dmul (ddiv (d_of_int n) (Fin 2)) (dsub a (dmul (d_of_int (u32 (n - 1))) d))) (Fin 2)
      else dadd (Fin 42) (dmul (ddiv (d_of_int (u32 (n - 21))) (Fin 2)) (dsub a (dmul (d_of_int (u32 (n - 22))) d))))"

definition tier_multiplier :: "int \<Rightarrow> int \<Rightarrow> double" where
  "tier_multiplier base_rank index = ddiv (dsub (Fin (of_int base_rank)) (dmul (Fin 2) (d_of_int index))) (Fin 100)"

definition pay_amount :: "double \<Rightarrow> int \<Rightarrow> int result" where
  "pay_amount shareValue index =
     (if index \<le> 21 then d_to_i64 (dmul (dmul shareValue (Fin 2)) (tier_multiplier 122 index))
      else d_to_i64 (dmul shareValue (tier_multiplier 164 index)))"

definition add_payment :: "env \<Rightarrow> name \<Rightarrow> int \<Rightarrow> sys \<Rightarrow> sys result" where
  "add_payment E x n s =
     (case core_asset E n s of Inl e \<Rightarrow> Inl e | Inr a \<Rightarrow>
      (case (case fmlookup (payments s) x of None \<Rightarrow> Inr a | Some b \<Rightarrow> asset_add E b a) of Inl e \<Rightarrow> Inl e | Inr a' \<Rightarrow>
      Inr (s\<lparr>payments := fmupd x a' (payments s)\<rparr>)))"

definition settle_producer :: "env \<Rightarrow> producer_info \<Rightarrow> int \<Rightarrow> sys \<Rightarrow> sys" where
  "settle_producer E p n s =
     s\<lparr>gstate := (gstate s)\<lparr>g_perblock_bucket := i64 (g_perblock_bucket (gstate s) - n),
         g_total_unpaid_blocks := u32 (g_total_unpaid_blocks (gstate s) - p_unpaid_blocks p)\<rparr>,
       producers := fmupd (p_owner p) (p\<lparr>p_last_claim_time := current_time E, p_unpaid_blocks := 0\<rparr>) (producers s)\<rparr>"

fun pay_loop :: "env \<Rightarrow> double \<Rightarrow> int \<Rightarrow> producer_info list \<Rightarrow> sys \<Rightarrow> sys result" where
  "pay_loop E shareValue index [] s = Inr s"
| "pay_loop E shareValue index (p # ps) s =
     (if \<not> p_is_active p then pay_loop E shareValue index ps s else
      let i = index + 1 in
      if int MAX_PRODUCERS < i then Inr s else
      (case pay_amount shareValue i of Inl e \<Rightarrow> Inl e | Inr n \<Rightarrow>
      (case add_payment E (p_owner p) n (settle_producer E p n s) of Inl e \<Rightarrow> Inl e | Inr s1 \<Rightarrow>
      pay_loop E shareValue i ps s1)))"

definition divide_bucket :: "env \<Rightarrow> sys \<Rightarrow> sys result" where
  "divide_bucket E s =
     (let sortedprods = producers_by_votes s;
          shareValue = ddiv (d_of_int (g_perblock_bucket (gstate s))) (sum_of_multipliers (count_active 0 sortedprods))
      in pay_loop E shareValue 0 sortedprods s)"

definition claimrewards_snapshot :: "env \<Rightarrow> pay_env \<Rightarrow> sys \<Rightarrow> sys result" where
  "claimrewards_snapshot E P s =
     (if \<not> 0 < g_thresh_activated_stake_time (gstate s)
      then Inl (Check ''cannot take snapshot until chain is activated'') else
      if g_total_unpaid_blocks (gstate s) \<le> 0 then Inr s else
      (case fill_bucket E P s of Inl e \<Rightarrow> Inl e | Inr s1 \<Rightarrow> divide_bucket E s1))"

definition claimrewards :: "env \<Rightarrow> name \<Rightarrow> sys \<Rightarrow> sys result" where
  "claimrewards E owner s =
     (if \<not> has_auth E owner then Inl Missing_auth else
      (case fmlookup (producers s) owner of None \<Rightarrow> Inl (Check ''unable to find key'') | Some pr \<Rightarrow>
      if \<not> p_is_active pr then Inl (Check ''producer does not have an active key'') else
      if \<not> 0 < g_thresh_activated_stake_time (gstate s)
      then Inl (Check ''cannot claim rewards until the chain is activated (1,000,000 blocks produced)'') else
      (case fmlookup (payments s) owner of None \<Rightarrow> Inl (Check ''No payment exists for account'') | Some pay \<Rightarrow>
      Inr ((send_transfer bpay_account owner pay ''Producer/Standby Payment'' s)
             \<lparr>payments := fmdrop owner (payments s)\<rparr>))))"

subsection \<open>Topping up the TEDP account\<close>

fun payouts_total :: "int \<Rightarrow> payout list \<Rightarrow> bool \<times> int \<Rightarrow> (bool \<times> int) result" where
  "payouts_total now_ms [] acc = Inr acc"
| "payouts_total now_ms (p # ps) (made, new_tokens) =
     (if payout_interval p = 0 then Inl (Trap ''integer divide by zero'') else
      let payouts_due = u64 (now_ms - last_payout p) div payout_interval p;
          total_due = u64 (u64 (payouts_due * payout_amount p) * 10000) in
      if payouts_due = 0 \<or> payout_amount p = 0 then payouts_total now_ms ps (made, new_tokens)
      else payouts_total now_ms ps (True, i64 (new_tokens + total_due)))"

definition shortage :: "int \<Rightarrow> int \<Rightarrow> int" where
  "shortage tedp_balance new_tokens =
     (if 0 < tedp_balance then if tedp_balance < new_tokens then i64 (new_tokens - tedp_balance) else 0 else new_tokens)"

definition pay_action_name :: name where "pay_action_name = 12230650688031424512" \<comment> \<open>\<open>pay\<close>\<close>

definition pay :: "env \<Rightarrow> pay_env \<Rightarrow> sys \<Rightarrow> sys result" where
  "pay E P s =
     (case payouts_total (current_sec E) (payouts P) (False, 0) of Inl e \<Rightarrow> Inl e | Inr (payouts_made, new_tokens) \<Rightarrow>
      if \<not> payouts_made then Inl (Check ''No payouts are due'') else
      (case core_symbol s of Inl e \<Rightarrow> Inl e | Inr y \<Rightarrow>
      (case get_balance tedp_account (scode y) (token_tables P) of Inl e \<Rightarrow> Inl e | Inr bal \<Rightarrow>
      let issue_tokens = shortage (amount bal) new_tokens in
      (case send_core E issue_tokens (\<lambda>a. Token_issue (get_self E) a ''Issue new TLOS tokens'') s of Inl e \<Rightarrow> Inl e | Inr s1 \<Rightarrow>
      (case send_core E issue_tokens (core_transfer (get_self E) tedp_account ''Transfer issued TLOS to TEDP account'') s1 of
        Inl e \<Rightarrow> Inl e
      | Inr s2 \<Rightarrow> Inr (emit (Inline_action tedp_account pay_action_name) s2))))))"

subsection \<open>The block hook\<close>

definition activate_chain :: "env \<Rightarrow> int \<Rightarrow> sys \<Rightarrow> sys" where
  "activate_chain E slot s =
     (if block_num_network_activation \<le> g_block_num (gstate s) \<and> dlt (Fin 0) (g_total_producer_vote_weight (gstate s))
      then s\<lparr>gstate := (gstate s)\<lparr>g_thresh_activated_stake_time := current_time E, g_last_claimrewards := slot\<rparr>\<rparr>
      else s)"

definition start_bucket :: "env \<Rightarrow> sys \<Rightarrow> sys" where
  "start_bucket E s =
     (if g_last_pervote_bucket_fill (gstate s) = 0
      then s\<lparr>gstate := (gstate s)\<lparr>g_last_pervote_bucket_fill := current_time E\<rparr>\<rparr> else s)"

definition close_cycle :: "env \<Rightarrow> schedule_env \<Rightarrow> int \<Rightarrow> name \<Rightarrow> sys \<Rightarrow> sys result" where
  "close_cycle E X slot producer s =
     (case check_missed_blocks E X slot producer s of Inl e \<Rightarrow> Inl e | Inr (cycle_done, s1) \<Rightarrow>
      if \<not> cycle_done then Inr s1 else
      (case update_missed_blocks_per_rotation E X s1 of Inl e \<Rightarrow> Inl e | Inr s2 \<Rightarrow>
      Inr (reset_schedule_metrics producer s2)))"

definition count_produced :: "name \<Rightarrow> sys \<Rightarrow> sys" where
  "count_produced producer s =
     (case fmlookup (producers s) producer of None \<Rightarrow> s
      | Some p \<Rightarrow> s\<lparr>gstate := (gstate s)\<lparr>g_total_unpaid_blocks := u32 (g_total_unpaid_blocks (gstate s) + 1)\<rparr>,
            producers := fmupd producer (p\<lparr>p_unpaid_blocks := u32 (p_unpaid_blocks p + 1),
              p_lifetime_produced_blocks := u32 (p_lifetime_produced_blocks p + 1)\<rparr>) (producers s)\<rparr>)"

definition every_minute :: "env \<Rightarrow> schedule_env \<Rightarrow> int \<Rightarrow> sys \<Rightarrow> sys result" where
  "every_minute E X slot s =
     (if \<not> 120 < u32 (slot - g_last_producer_schedule_update (gstate s)) then Inr s else
      (case update_elected_producers E X slot s of Inl e \<Rightarrow> Inl e | Inr s1 \<Rightarrow> Inr (close_auction E slot s1)))"

definition every_half_hour :: "env \<Rightarrow> pay_env \<Rightarrow> int \<Rightarrow> sys \<Rightarrow> sys result" where
  "every_half_hour E P slot s =
     (if \<not> u32 (g_last_claimrewards (gstate s) + 3600) \<le> slot then Inr s else
      (case claimrewards_snapshot E P s of Inl e \<Rightarrow> Inl e
       | Inr s1 \<Rightarrow> Inr (s1\<lparr>gstate := (gstate s1)\<lparr>g_last_claimrewards := slot\<rparr>\<rparr>)))"

definition onblock :: "env \<Rightarrow> schedule_env \<Rightarrow> pay_env \<Rightarrow> int \<Rightarrow> name \<Rightarrow> 8 word list \<Rightarrow> sys \<Rightarrow> sys result" where
  "onblock E X P slot producer previous_block_id s =
     (if \<not> has_auth E (get_self E) then Inl Missing_auth else
      (case add_to_blockinfo_table E previous_block_id slot s of Inl e \<Rightarrow> Inl e | Inr s0 \<Rightarrow>
      let s1 = s0\<lparr>gstate2 := (gstate2 s0)\<lparr>g2_last_block_num := slot\<rparr>, gstate := (gstate s0)\<lparr>g_block_num := u32 (g_block_num (gstate s0) + 1)\<rparr>\<rparr> in
      if g_thresh_activated_stake_time (gstate s1) = 0 then Inr (activate_chain E slot s1) else
      (case close_cycle E X slot producer (start_bucket E s1) of Inl e \<Rightarrow> Inl e | Inr s2 \<Rightarrow>
      (case recalculate_votes E (count_produced producer s2) of Inl e \<Rightarrow> Inl e | Inr s3 \<Rightarrow>
      (case every_minute E X slot s3 of Inl e \<Rightarrow> Inl e | Inr s4 \<Rightarrow>
      every_half_hour E P slot s4)))))"

subsection \<open>Results that are not negative\<close>

text \<open>The documented behaviour of \<open>pow\<close>: a base that is not negative never gives a negative result.\<close>

locale pow_laws =
  fixes E :: env
  assumes pow_nonneg: "0 \<le> x \<Longrightarrow> \<not> dlt (std_pow E (Fin x) y) (Fin 0)"

lemma rnd_nonneg: "0 \<le> x \<Longrightarrow> \<not> dlt (rnd x) (Fin 0)"
  using rv_nonneg [of x] by (auto simp: rnd_def Let_def)

lemma rnd_nonneg_Fin: "0 \<le> x \<Longrightarrow> rnd x = Fin r \<Longrightarrow> 0 \<le> r"
  using rnd_nonneg [of x] by auto

lemma dmul_nonneg: "\<not> dlt a (Fin 0) \<Longrightarrow> \<not> dlt b (Fin 0) \<Longrightarrow> \<not> dlt (dmul a b) (Fin 0)"
  by (cases a; cases b) (auto simp: dinf_def rnd_nonneg split: if_splits)

lemma ddiv_nonneg: "\<not> dlt a (Fin 0) \<Longrightarrow> 0 < b \<Longrightarrow> \<not> dlt (ddiv a (Fin b)) (Fin 0)"
  by (cases a) (auto simp: dinf_def rnd_nonneg)

lemma dmin_nonneg: "\<not> dlt a (Fin 0) \<Longrightarrow> \<not> dlt b (Fin 0) \<Longrightarrow> \<not> dlt (dmin a b) (Fin 0)"
  by (simp add: dmin_def)

lemma d_of_int_nonneg: "0 \<le> n \<Longrightarrow> \<not> dlt (d_of_int n) (Fin 0)"
  by (simp add: d_of_int_def rnd_nonneg)

lemma d_to_i64_nonneg: "d_to_i64 a = Inr n \<Longrightarrow> \<not> dlt a (Fin 0) \<Longrightarrow> 0 \<le> n"
  by (cases a) (auto simp: rtrunc_def split: if_splits)

lemma d_to_i64_range: "d_to_i64 a = Inr n \<Longrightarrow> in_i64 n"
  by (cases a) (auto simp: in_i64_def split: if_splits)

lemma useconds_per_year_double: "d_of_int useconds_per_year = Fin 31449600000000"
  unfolding useconds_per_year_def by (subst d_of_int_exact) simp_all

lemma per_year_nonneg: "per_year a t = Inr n \<Longrightarrow> \<not> dlt a (Fin 0) \<Longrightarrow> 0 \<le> t \<Longrightarrow> 0 \<le> n"
  unfolding per_year_def useconds_per_year_double
  by (erule d_to_i64_nonneg) (intro ddiv_nonneg dmul_nonneg d_of_int_nonneg; simp)

lemma to_workers_nonneg: "to_workers w t = Inr n \<Longrightarrow> 0 \<le> w \<Longrightarrow> 0 \<le> t \<Longrightarrow> 0 \<le> n"
  unfolding to_workers_def by (erule per_year_nonneg) (intro dmul_nonneg d_of_int_nonneg; simp)+

lemma price_nonneg: "0 \<le> p \<Longrightarrow> \<exists>x. ddiv (d_of_int p) (Fin 10000) = Fin x \<and> 0 \<le> x" if "p < 2 ^ 64" for p
proof -
  assume p: "0 \<le> p"
  have b: "\<bar>of_int p :: rat\<bar> \<le> of_int (2 ^ 64)" using p that by (simp only: of_int_abs [symmetric] of_int_le_iff)
  then have d: "d_of_int p = Fin (rv (of_int p))" unfolding d_of_int_def by (intro rnd_small) simp
  have r: "0 \<le> rv (of_int p)" using p by (simp add: rv_nonneg)
  have "\<bar>rv (of_int p)\<bar> \<le> of_int 1 * 2 powi 64" using b by (intro rv_abs_le) simp_all
  then have "\<bar>rv (of_int p) / 10000\<bar> \<le> 2 ^ 200" by simp
  then show ?thesis using d r rnd_small [of "rv (of_int p) / 10000"] rv_nonneg [of "rv (of_int p) / 10000"] by simp
qed

lemma to_producers_nonneg:
  assumes "pow_laws E" "to_producers E p t = Inr n" "0 \<le> p" "p < 2 ^ 64" "0 \<le> t"
  shows "0 \<le> n"
proof -
  obtain x where x: "ddiv (d_of_int p) (Fin 10000) = Fin x" "0 \<le> x" using price_nonneg [OF assms(4,3)] by blast
  have "\<not> dlt (bp_pay_per_month E p) (Fin 0)"
    unfolding bp_pay_per_month_def x(1) by (intro dmul_nonneg dmin_nonneg pow_laws.pow_nonneg [OF assms(1) x(2)]) simp_all
  then have "\<not> dlt (dmul (bp_pay_per_month E p) (Fin 12)) (Fin 0)" by (intro dmul_nonneg) simp_all
  then show ?thesis by (rule per_year_nonneg [OF assms(2) [unfolded to_producers_def] _ assms(5)])
qed

subsection \<open>What the account of the producers' pay owes\<close>

definition bpay_owed :: "sys \<Rightarrow> int" where
  "bpay_owed s = g_perblock_bucket (gstate s) + fmsum amount (payments s)"

definition bpay_backing :: "symcode \<Rightarrow> sys \<Rightarrow> int" where
  "bpay_backing c s = net_flow (transfers_of (effects s)) bpay_account c - bpay_owed s"

definition pay_inv :: "symbol \<Rightarrow> sys \<Rightarrow> bool" where
  "pay_inv y s \<longleftrightarrow> core_symbol s = Inr y \<and> 0 \<le> worker_amount (payrate s) \<and>
     (\<forall>x a. fmlookup (payments s) x = Some a \<longrightarrow> sym a = y)"

lemma core_asset_exact:
  assumes "chain_laws E" "core_symbol s = Inr y" "core_asset E n s = Inr a"
  shows "a = \<lparr>amount = n, sym = y\<rparr>"
  using assms(2,3) chain_laws.new_exact [OF assms(1)] by (simp add: core_asset_def)

lemma send_core_result:
  assumes "chain_laws E" "core_symbol s = Inr y" "send_core E n f s = Inr s'"
  shows "s' = (if 0 < n then emit (f \<lparr>amount = n, sym = y\<rparr>) s else s)"
proof (cases "0 < n")
  case True
  then obtain a where "core_asset E n s = Inr a" "s' = emit (f a) s" using assms(3) by (auto simp: send_core_def result_simps)
  then show ?thesis using True core_asset_exact [OF assms(1,2)] by simp
qed (use assms(3) in \<open>simp add: send_core_def\<close>)

lemma emit_tables [simp]:
  "rammarket (emit e s) = rammarket s" "gstate (emit e s) = gstate s" "payments (emit e s) = payments s"
  "payrate (emit e s) = payrate s" "effects (emit e s) = effects s @ [e]" "producers (emit e s) = producers s"
  "core_symbol (emit e s) = core_symbol s" "namebids (emit e s) = namebids s" "bidrefunds (emit e s) = bidrefunds s"
  "rexpool (emit e s) = rexpool s" "rotation (emit e s) = rotation s" "schedule_metrics (emit e s) = schedule_metrics s"
  "blockinfo (emit e s) = blockinfo s"
  by (simp_all add: emit_def core_symbol_def)

text \<open>The effects of minting, in order.\<close>

definition mint_effects :: "name \<Rightarrow> symbol \<Rightarrow> int \<Rightarrow> int \<Rightarrow> int \<Rightarrow> effect list" where
  "mint_effects self y tedp_balance workers prods =
     (let (t, i) = offset_and_issue tedp_balance (i64 (workers + prods)); a = \<lambda>n. \<lparr>amount = n, sym = y\<rparr> in
      (if 0 < t then [core_transfer tedp_account self ''TEDP: Inflation offset'' (a t)] else []) @
      (if 0 < i then [Token_issue self (a i) ''Issue new TLOS tokens''] else []) @
      (if 0 < workers then [core_transfer self works_account ''Transfer worker proposal share to works.decide account'' (a workers)] else []) @
      (if 0 < prods then [core_transfer self bpay_account ''Transfer producer share to per-block bucket'' (a prods)] else []))"

lemma mint_pay_result:
  assumes E: "chain_laws E" and c: "core_symbol s = Inr y" and r: "mint_pay E b w p s = Inr s'"
  shows "s' = s\<lparr>effects := effects s @ mint_effects (get_self E) y b w p\<rparr>"
proof -
  obtain t i where ti: "offset_and_issue b (i64 (w + p)) = (t, i)" by force
  obtain s1 s2 s3 where s1: "send_core E t (core_transfer tedp_account (get_self E) ''TEDP: Inflation offset'') s = Inr s1"
    and s2: "send_core E i (\<lambda>a. Token_issue (get_self E) a ''Issue new TLOS tokens'') s1 = Inr s2"
    and s3: "send_core E w (core_transfer (get_self E) works_account ''Transfer worker proposal share to works.decide account'') s2 = Inr s3"
    and s4: "send_core E p (core_transfer (get_self E) bpay_account ''Transfer producer share to per-block bucket'') s3 = Inr s'"
    using r unfolding mint_pay_def ti Let_def prod.case by (simp only: result_simps) blast
  note e1 = send_core_result [OF E c s1]
  have c1: "core_symbol s1 = Inr y" using c by (simp add: e1)
  note e2 = send_core_result [OF E c1 s2]
  have c2: "core_symbol s2 = Inr y" using c1 by (simp add: e2)
  note e3 = send_core_result [OF E c2 s3]
  have c3: "core_symbol s3 = Inr y" using c2 by (simp add: e3)
  note e4 = send_core_result [OF E c3 s4]
  show ?thesis unfolding e4 e3 e2 e1 mint_effects_def ti Let_def prod.case by (auto simp: emit_def)
qed

lemma fill_bucket_steps:
  assumes E: "chain_laws E" "pow_laws E" and inv: "pay_inv y s" and prices: "\<forall>a \<in> set (averages P). 0 \<le> avg_value a \<and> avg_value a < 2 ^ 64"
    and r: "fill_bucket E P s = Inr s'"
  obtains "s' = s"
  | w p bal where "get_balance tedp_account (scode y) (token_tables P) = Inr bal" "0 \<le> w" "0 \<le> p" "in_i64 w" "in_i64 p"
    "s' = s\<lparr>effects := effects s @ mint_effects (get_self E) y (amount bal) w p,
        gstate := (gstate s)\<lparr>g_perblock_bucket := i64 (g_perblock_bucket (gstate s) + p), g_last_pervote_bucket_fill := current_time E\<rparr>\<rparr>"
proof (cases "0 < current_time E - g_last_pervote_bucket_fill (gstate s) \<and> 0 < g_last_pervote_bucket_fill (gstate s)")
  case False
  then show ?thesis using r that(1) by (simp add: fill_bucket_def)
next
  case True
  define t where "t = current_time E - g_last_pervote_bucket_fill (gstate s)"
  define pr where "pr = get_telos_average_price (averages P)"
  have c: "core_symbol s = Inr y" and wa: "0 \<le> worker_amount (payrate s)" using inv by (simp_all add: pay_inv_def)
  obtain w p bal s1 where w: "to_workers (worker_amount (payrate s)) t = Inr w" and p: "to_producers E pr t = Inr p"
    and bal: "get_balance tedp_account (scode y) (token_tables P) = Inr bal" and s1: "mint_pay E (amount bal) w p s = Inr s1"
    and s': "s' = s1\<lparr>gstate := (gstate s1)\<lparr>g_perblock_bucket := i64 (g_perblock_bucket (gstate s1) + p),
            g_last_pervote_bucket_fill := current_time E\<rparr>\<rparr>"
    using r True c unfolding fill_bucket_def Let_def t_def [symmetric] pr_def [symmetric]
    by (auto simp: result_simps)
  have t: "0 \<le> t" using True by (simp add: t_def)
  have "find_average k (averages P) = Some v \<Longrightarrow> 0 \<le> v \<and> v < 2 ^ 64" for k v
    using prices by (auto simp: find_average_def find_Some_iff)
  then have pr: "0 \<le> pr \<and> pr < 2 ^ 64" by (auto simp: pr_def get_telos_average_price_def split: option.splits)
  have "in_i64 w" "in_i64 p" using w p unfolding to_workers_def to_producers_def per_year_def by (blast intro: d_to_i64_range)+
  then show ?thesis
    using that(2) [OF bal to_workers_nonneg [OF w wa t] to_producers_nonneg [OF E(2) p _ _ t]] pr
    by (simp add: s' mint_pay_result [OF E(1) c s1])
qed

lemma account_names_distinct:
  "tedp_account \<noteq> bpay_account" "works_account \<noteq> bpay_account" "bpay_account \<noteq> tedp_account" "bpay_account \<noteq> works_account"
  "tedp_account \<noteq> works_account" "works_account \<noteq> tedp_account"
  by (simp_all add: tedp_account_def bpay_account_def works_account_def)

lemma mint_effects_bpay:
  assumes "self \<noteq> bpay_account" "0 \<le> p"
  shows "net_flow (transfers_of (mint_effects self y b w p)) bpay_account (scode y) = p"
  using assms by (auto simp: mint_effects_def Let_def core_transfer_def flow_def account_names_distinct split: prod.splits)

lemma fill_bucket_backing:
  assumes E: "chain_laws E" "pow_laws E" and self: "get_self E \<noteq> bpay_account" and inv: "pay_inv y s"
    and prices: "\<forall>a \<in> set (averages P). 0 \<le> avg_value a \<and> avg_value a < 2 ^ 64" and r: "fill_bucket E P s = Inr s'"
  shows "pay_inv y s' \<and> u64 (bpay_backing (scode y) s') = u64 (bpay_backing (scode y) s)"
  using E inv prices r
proof (cases rule: fill_bucket_steps)
  case 1
  then show ?thesis using inv by simp
next
  case (2 w p bal)
  have "bpay_backing (scode y) s' =
      bpay_backing (scode y) s + p + g_perblock_bucket (gstate s) - i64 (g_perblock_bucket (gstate s) + p)"
    by (simp add: 2(6) bpay_backing_def bpay_owed_def mint_effects_bpay [OF self 2(3)])
  then show ?thesis using inv by (simp add: u64_ring 2(6) pay_inv_def core_symbol_def)
qed

lemma add_payment_result:
  assumes E: "chain_laws E" and c: "core_symbol s = Inr y" and r: "add_payment E x n s = Inr s'"
  obtains a where "s' = s\<lparr>payments := fmupd x a (payments s)\<rparr>" "sym a = y" "amount a = n + fmval amount (fmlookup (payments s) x)"
proof -
  obtain q a where q: "core_asset E n s = Inr q"
    and a: "(case fmlookup (payments s) x of None \<Rightarrow> Inr q | Some b \<Rightarrow> asset_add E b q) = Inr a"
    and s': "s' = s\<lparr>payments := fmupd x a (payments s)\<rparr>"
    using r unfolding add_payment_def by (auto simp: result_simps)
  note qq = core_asset_exact [OF E c q]
  from a [unfolded row_or_new] show ?thesis
  proof (elim disjE exE conjE)
    fix b assume b: "fmlookup (payments s) x = Some b" "asset_add E b q = Inr a"
    show ?thesis using that [OF s'] chain_laws.add_exact [OF E b(2)] b(1) qq by auto
  qed (use that [OF s'] qq in auto)
qed

lemma pay_loop_backing:
  "chain_laws E \<Longrightarrow> pay_inv y s \<Longrightarrow> pay_loop E v i ps s = Inr s' \<Longrightarrow>
     pay_inv y s' \<and> u64 (bpay_backing c s') = u64 (bpay_backing c s)"
proof (induction ps arbitrary: i s)
  case (Cons p ps)
  show ?case
  proof (cases "p_is_active p \<and> \<not> int MAX_PRODUCERS < i + 1")
    case True
    then obtain n s1 where s1: "add_payment E (p_owner p) n (settle_producer E p n s) = Inr s1" "pay_loop E v (i + 1) ps s1 = Inr s'"
      using Cons.prems(3) by (auto simp: result_simps Let_def)
    have c: "core_symbol (settle_producer E p n s) = Inr y" using Cons.prems(2) by (simp add: pay_inv_def settle_producer_def core_symbol_def)
    obtain a where a: "s1 = (settle_producer E p n s)\<lparr>payments := fmupd (p_owner p) a (payments (settle_producer E p n s))\<rparr>"
      "sym a = y" "amount a = n + fmval amount (fmlookup (payments (settle_producer E p n s)) (p_owner p))"
      by (rule add_payment_result [OF Cons.prems(1) c s1(1)])
    have "bpay_backing c s1 = bpay_backing c s + g_perblock_bucket (gstate s) - n - i64 (g_perblock_bucket (gstate s) - n)"
      using a(3) by (simp add: a(1) bpay_backing_def bpay_owed_def settle_producer_def fmsum_upd)
    moreover have "pay_inv y s1" using Cons.prems(2) a(2) by (simp add: a(1) pay_inv_def settle_producer_def core_symbol_def)
    ultimately show ?thesis using Cons.IH [OF Cons.prems(1) _ s1(2)] by (simp add: u64_ring)
  qed (use Cons in \<open>auto simp: Let_def split: if_splits\<close>)
qed simp

lemma snapshot_backing:
  assumes E: "chain_laws E" "pow_laws E" and self: "get_self E \<noteq> bpay_account" and inv: "pay_inv y s"
    and prices: "\<forall>a \<in> set (averages P). 0 \<le> avg_value a \<and> avg_value a < 2 ^ 64" and r: "claimrewards_snapshot E P s = Inr s'"
  shows "pay_inv y s' \<and> u64 (bpay_backing (scode y) s') = u64 (bpay_backing (scode y) s)"
proof (cases "g_total_unpaid_blocks (gstate s) \<le> 0")
  case True
  then show ?thesis using r inv by (simp add: claimrewards_snapshot_def result_simps)
next
  case False
  then obtain s1 where s1: "fill_bucket E P s = Inr s1" "divide_bucket E s1 = Inr s'"
    using r by (auto simp: claimrewards_snapshot_def result_simps)
  note f = fill_bucket_backing [OF E self inv prices s1(1)]
  show ?thesis using pay_loop_backing [OF E(1) _ s1(2) [unfolded divide_bucket_def Let_def], of y] f by simp
qed

lemma claimrewards_backing:
  assumes inv: "pay_inv y s" and x: "x \<noteq> bpay_account" and r: "claimrewards E x s = Inr s'"
  shows "pay_inv y s' \<and> bpay_backing (scode y) s' = bpay_backing (scode y) s"
proof -
  obtain a where a: "fmlookup (payments s) x = Some a"
    and s': "s' = (send_transfer bpay_account x a ''Producer/Standby Payment'' s)\<lparr>payments := fmdrop x (payments s)\<rparr>"
    using r by (auto simp: claimrewards_def result_simps)
  have y: "sym a = y" using inv a by (simp add: pay_inv_def)
  show ?thesis
    using inv y x a
    by (simp add: s' pay_inv_def bpay_backing_def bpay_owed_def fmsum_drop core_symbol_def send_transfer_def flow_def)
qed

subsection \<open>The tiers of the pay\<close>

text \<open>The exact multipliers of the ranks and their sum, as the comment in the source lists them.\<close>

definition tier_weight :: "nat \<Rightarrow> rat" where
  "tier_weight i = (if i \<le> 21 then 2 * (of_int (122 - 2 * int i) / 100) else of_int (164 - 2 * int i) / 100)"

fun tier_sum :: "nat \<Rightarrow> rat" where
  "tier_sum 0 = 0"
| "tier_sum (Suc n) = tier_sum n + tier_weight (Suc n)"

definition closed_sum :: "nat \<Rightarrow> rat" where
  "closed_sum n =
     (if n \<le> 21 then (of_int (int n) / 2) * (2 * (12 / 10) - of_int (int n - 1) * (2 / 100)) * 2
      else 42 + (of_int (int n - 21) / 2) * (2 * (12 / 10) - of_int (int n - 22) * (2 / 100)))"

lemma closed_sum_eq: "1 \<le> n \<Longrightarrow> n \<le> 35 \<Longrightarrow> closed_sum n = tier_sum n"
proof -
  have "\<forall>n \<in> set [1..<36]. closed_sum n = tier_sum n" by code_simp
  then show "1 \<le> n \<Longrightarrow> n \<le> 35 \<Longrightarrow> closed_sum n = tier_sum n" by simp
qed

lemma tier_bounds:
  assumes "1 \<le> i" "i \<le> 35"
  shows "94 / 100 \<le> tier_weight i" "tier_weight i \<le> 24 / 10" "24 / 10 \<le> tier_sum i" "tier_sum i \<le> 57"
proof -
  have "\<forall>i \<in> set [1..<36]. 94 / 100 \<le> tier_weight i \<and> tier_weight i \<le> 24 / 10 \<and> 24 / 10 \<le> tier_sum i \<and> tier_sum i \<le> 57"
    by code_simp
  then show "94 / 100 \<le> tier_weight i" "tier_weight i \<le> 24 / 10" "24 / 10 \<le> tier_sum i" "tier_sum i \<le> 57" using assms by simp_all
qed

lemma tier_sum_eq: "tier_sum n = (\<Sum>j<n. tier_weight (Suc j))"
  by (induction n) simp_all

lemma moderate_between: "1 / 2 ^ 100 \<le> y \<Longrightarrow> y \<le> 2 ^ 100 \<Longrightarrow> moderate y"
  by (simp add: moderate_def)

lemma rnd_int: "\<bar>m\<bar> \<le> 2 ^ 53 \<Longrightarrow> rnd (of_int m) = Fin (of_int m)"
  using d_of_int_exact [of m] by (simp add: d_of_int_def)

lemma tier_multiplier_close:
  assumes "1 \<le> i" "i \<le> 35" "72 \<le> k" "k \<le> 200"
  shows "approx_double ulp (tier_multiplier k i) (of_int (k - 2 * i) / 100)"
proof -
  have "rnd (2 * of_int i) = Fin (of_int (2 * i))" using rnd_int [of "2 * i"] assms by simp
  moreover have "rnd (of_int k - of_int (2 * i)) = Fin (of_int (k - 2 * i))" using rnd_int [of "k - 2 * i"] assms by simp
  ultimately have e: "tier_multiplier k i = rnd (of_int (k - 2 * i) / 100)"
    using assms d_of_int_exact [of i] by (simp add: tier_multiplier_def dsub_def)
  have "(of_int 1 :: rat) \<le> of_int (k - 2 * i)" "of_int (k - 2 * i) \<le> (of_int 200 :: rat)" using assms by (simp_all only: of_int_le_iff)
  then have "moderate (of_int (k - 2 * i) / 100)" by (intro moderate_between) simp_all
  then show ?thesis unfolding e by (rule approx_double_rnd)
qed

lemma ulp_small: "0 \<le> ulp" "ulp \<le> 1 / 1000000"
  by (simp_all add: ulp_def)

text \<open>The closed formula of the source loses at most nine units of precision.\<close>

lemma step_close:
  assumes "0 \<le> k" "k \<le> 21"
  shows "approx_double (7 * ulp) (dsub (dmul (Fin 2) (rnd (12 / 10))) (dmul (d_of_int k) (rnd (2 / 100))))
     (2 * (12 / 10) - of_int k * (2 / 100))"
proof -
  have k: "(0 :: rat) \<le> of_int k" "of_int k \<le> (21 :: rat)" using assms by simp_all
  have m: "moderate (of_int k * (2 / 100))"
  proof (cases "k = 0")
    case False
    then have "(1 :: rat) \<le> of_int k" using assms by simp
    then show ?thesis using k by (intro moderate_between) simp_all
  qed (simp add: moderate_def)
  have a: "approx_double (2 * ulp) (dmul (Fin 2) (rnd (12 / 10))) (2 * (12 / 10))"
    by (rule approx_dmul [OF approx_double_Fin approx_double_rnd]) (use ulp_small in \<open>simp_all add: moderate_def\<close>)
  have "approx_double (2 * ulp) (dmul (Fin (of_int k)) (rnd (2 / 100))) (of_int k * (2 / 100))"
    by (rule approx_dmul [OF approx_double_Fin approx_double_rnd _ _ m]) (use ulp_small k in \<open>simp_all add: moderate_def\<close>)
  then have d: "approx_double (2 * ulp) (dmul (d_of_int k) (rnd (2 / 100))) (of_int k * (2 / 100))"
    using assms by (simp add: d_of_int_exact)
  have "moderate (2 * (12 / 10) - of_int k * (2 / 100))" using k by (intro moderate_between) simp_all
  from approx_dsub [OF a d _ _ this] show ?thesis using ulp_small k by simp
qed

lemma half_close: "0 \<le> n \<Longrightarrow> n \<le> 35 \<Longrightarrow> approx_double 0 (ddiv (d_of_int n) (Fin 2)) (of_int n / 2)"
  using rv_half [of n] rnd_small [of "of_int n / 2"] d_of_int_exact [of n] by (simp add: approx_def)

lemma half_step_close:
  assumes "1 \<le> n" "n \<le> 35" "0 \<le> k" "k \<le> 21"
  shows "approx_double (8 * ulp) (dmul (ddiv (d_of_int n) (Fin 2)) (dsub (dmul (Fin 2) (rnd (12 / 10))) (dmul (d_of_int k) (rnd (2 / 100)))))
     (of_int n / 2 * (2 * (12 / 10) - of_int k * (2 / 100)))"
proof -
  have n: "1 \<le> (of_int n :: rat)" "of_int n \<le> (35 :: rat)" and k: "(0 :: rat) \<le> of_int k" "of_int k \<le> (21 :: rat)" using assms by simp_all
  let ?y = "of_int n / 2 * (2 * (12 / 10) - of_int k * (2 / 100) :: rat)"
  have y: "1 / 2 * 1 \<le> ?y" "?y \<le> 35 / 2 * 3" using n k by (intro mult_mono; simp)+
  have "1 / 2 ^ 100 \<le> (1 / 2 * 1 :: rat)" "35 / 2 * 3 \<le> (2 ^ 100 :: rat)" by simp_all
  with y have "moderate ?y" by (intro moderate_between) linarith+
  from approx_dmul [OF half_close step_close _ _ this] show ?thesis using assms n k ulp_small by simp
qed

lemma sum_of_multipliers_close:
  assumes "1 \<le> n" "n \<le> 35"
  shows "approx_double (9 * ulp) (sum_of_multipliers n) (tier_sum n)"
proof -
  have b: "moderate (tier_sum n)" "0 \<le> tier_sum n" using tier_bounds(3,4) [OF assms] by (auto simp: moderate_def)
  show ?thesis
  proof (cases "n \<le> 21")
    case True
    have "u32 (int n - 1) = int n - 1" using assms by (simp add: u32_id)
    moreover have "approx_double (8 * ulp) (dmul (ddiv (d_of_int (int n)) (Fin 2)) (dsub (dmul (Fin 2) (rnd (12 / 10))) (dmul (d_of_int (int n - 1)) (rnd (2 / 100)))))
     (of_int (int n) / 2 * (2 * (12 / 10) - of_int (int n - 1) * (2 / 100)))" (is "approx_double _ ?d ?y")
      using assms True by (intro half_step_close) auto
    moreover have y: "?y * 2 = tier_sum n" using closed_sum_eq [OF assms] True by (simp add: closed_sum_def)
    ultimately show ?thesis
      using approx_dmul [of "8 * ulp" ?d ?y 0 "Fin 2" 2 "9 * ulp"] b ulp_small True
      unfolding sum_of_multipliers_def Let_def y by (simp add: approx_refl)
  next
    case False
    have "u32 (int n - 21) = int n - 21" "u32 (int n - 22) = int n - 22" using assms False by (simp_all add: u32_id)
    moreover have "approx_double (8 * ulp) (dmul (ddiv (d_of_int (int n - 21)) (Fin 2)) (dsub (dmul (Fin 2) (rnd (12 / 10))) (dmul (d_of_int (int n - 22)) (rnd (2 / 100)))))
     (of_int (int n - 21) / 2 * (2 * (12 / 10) - of_int (int n - 22) * (2 / 100)))" (is "approx_double _ ?d ?y")
      using assms False by (intro half_step_close) auto
    moreover have y: "42 + ?y = tier_sum n" using closed_sum_eq [OF assms] False by (simp add: closed_sum_def)
    moreover have "approx_double (8 * ulp) (Fin 42) 42" by (rule approx_double_mono [OF approx_double_Fin]) (use ulp_small in simp_all)
    ultimately show ?thesis
      using approx_dadd [of "8 * ulp" "Fin 42" 42 ?d ?y "9 * ulp"] b ulp_small False
      unfolding sum_of_multipliers_def Let_def y by simp
  qed
qed

definition share_value :: "int \<Rightarrow> nat \<Rightarrow> double" where
  "share_value bucket n = ddiv (d_of_int bucket) (sum_of_multipliers n)"

definition exact_share :: "int \<Rightarrow> nat \<Rightarrow> nat \<Rightarrow> rat" where
  "exact_share bucket n i = of_int bucket / tier_sum n * tier_weight i"

lemma moderate_share:
  assumes "0 \<le> b" "b < 2 ^ 47" "1 \<le> n" "n \<le> 35" "1 / 100 \<le> w" "w \<le> 3"
  shows "moderate (of_int b / tier_sum n * w)"
proof (cases "b = 0")
  case False
  have b: "(1 :: rat) \<le> of_int b" "of_int b \<le> (of_int (2 ^ 47) :: rat)"
    using False assms(1) apply simp
    using less_imp_le [OF assms(2)] by (simp only: of_int_le_iff)
  note t = tier_bounds(3,4) [OF assms(3,4)]
  have "1 / 57 \<le> of_int b / tier_sum n" "of_int b / tier_sum n \<le> of_int (2 ^ 47) / 1" using b t by (intro frac_le; simp)+
  then have "1 / 57 * (1 / 100) \<le> of_int b / tier_sum n * w" "of_int b / tier_sum n * w \<le> of_int (2 ^ 47) / 1 * 3"
    using assms(5,6) b t by (intro mult_mono; simp)+
  moreover have "1 / 2 ^ 100 \<le> (1 / 57 * (1 / 100) :: rat)" "of_int (2 ^ 47) / 1 * 3 \<le> (2 ^ 100 :: rat)" by simp_all
  ultimately show ?thesis by (intro moderate_between) linarith+
qed (simp add: moderate_def)

lemma share_value_close:
  assumes "0 \<le> b" "b < 2 ^ 47" "1 \<le> n" "n \<le> 35"
  shows "approx_double (19 * ulp) (share_value b n) (of_int b / tier_sum n)"
proof -
  have d: "d_of_int b = Fin (of_int b)" using assms by (intro d_of_int_exact) simp
  have "moderate (of_int b / tier_sum n)" using moderate_share [OF assms, of 1] by simp
  from approx_ddiv [OF approx_double_Fin sum_of_multipliers_close _ _ this, where g = "19 * ulp"] show ?thesis
    using assms tier_bounds(3) [OF assms(3,4)] ulp_small by (simp add: share_value_def d)
qed

lemma shares_close:
  assumes "0 \<le> b" "b < 2 ^ 47" "1 \<le> n" "n \<le> 35" "1 \<le> i" "i \<le> 35"
  shows "\<exists>d. pay_amount (share_value b n) (int i) = d_to_i64 d \<and> approx_double (23 * ulp) d (exact_share b n i)"
proof -
  let ?q = "of_int b / tier_sum n"
  note t = tier_bounds(3,4) [OF assms(3,4)] tier_bounds(1,2) [OF assms(5,6)]
  have q: "0 \<le> ?q" "0 \<le> ?q * 2" using assms t by simp_all
  have sh: "approx_double (19 * ulp) (share_value b n) ?q" by (rule share_value_close [OF assms(1-4)])
  have sq: "20 * ulp * ulp \<le> ulp" using mult_right_mono [OF ulp_small(2,1)] by (simp add: ulp_def)
  show ?thesis
  proof (cases "i \<le> 21")
    case True
    let ?w = "of_int (122 - 2 * int i) / 100 :: rat"
    have w: "tier_weight i = 2 * ?w" using True by (simp add: tier_weight_def)
    have two: "approx_double (20 * ulp) (dmul (share_value b n) (Fin 2)) (?q * 2)"
      by (rule approx_dmul [OF sh approx_double_Fin]) (use q ulp_small moderate_share [OF assms(1-4), of 2] in simp_all)
    have m: "approx_double ulp (tier_multiplier 122 (int i)) ?w" using assms True by (intro tier_multiplier_close) auto
    have "approx_double (23 * ulp) (dmul (dmul (share_value b n) (Fin 2)) (tier_multiplier 122 (int i))) (?q * 2 * ?w)"
      by (rule approx_dmul [OF two m q(2)]) (use q(1) ulp_small sq w t(3,4) moderate_share [OF assms(1-4), of "2 * ?w"] in \<open>simp_all add: mult.assoc\<close>)
    then show ?thesis using True by (auto simp: pay_amount_def exact_share_def w mult.assoc)
  next
    case False
    have w: "tier_weight i = of_int (164 - 2 * int i) / 100" using False by (simp add: tier_weight_def)
    have m: "approx_double ulp (tier_multiplier 164 (int i)) (tier_weight i)" unfolding w using assms by (intro tier_multiplier_close) auto
    have "approx_double (23 * ulp) (dmul (share_value b n) (tier_multiplier 164 (int i))) (?q * tier_weight i)"
      by (rule approx_dmul [OF sh m]) (use q ulp_small sq t(3,4) moderate_share [OF assms(1-4), of "tier_weight i"] in simp_all)
    then show ?thesis using False by (auto simp: pay_amount_def exact_share_def)
  qed
qed

text \<open>A share is paid within one unit and the rounding error of its exact value, and the cast never traps.\<close>

definition paid_share :: "int \<Rightarrow> nat \<Rightarrow> nat \<Rightarrow> int" where
  "paid_share b n i = (case pay_amount (share_value b n) (int i) of Inl e \<Rightarrow> 0 | Inr k \<Rightarrow> k)"

lemma exact_share_bounds:
  assumes "0 \<le> b" "b < 2 ^ 47" "1 \<le> n" "n \<le> 35" "1 \<le> i" "i \<le> 35"
  shows "0 \<le> exact_share b n i" "exact_share b n i \<le> of_int b"
proof -
  note t = tier_bounds(3,4) [OF assms(3,4)] tier_bounds(1,2) [OF assms(5,6)]
  show "0 \<le> exact_share b n i" using assms t by (simp add: exact_share_def)
  have "tier_weight i / tier_sum n \<le> 1" using t by simp
  then have "of_int b * (tier_weight i / tier_sum n) \<le> of_int b * 1" using assms(1) by (intro mult_left_mono) simp_all
  then show "exact_share b n i \<le> of_int b" by (simp add: exact_share_def)
qed

lemma paid_share_close:
  assumes "0 \<le> b" "b < 2 ^ 47" "1 \<le> n" "n \<le> 35" "1 \<le> i" "i \<le> 35"
  shows "pay_amount (share_value b n) (int i) = Inr (paid_share b n i)" "0 \<le> paid_share b n i" "paid_share b n i \<le> 2 ^ 48"
    "of_int (paid_share b n i) \<le> (1 + 1 / 2 ^ 47) * exact_share b n i" "(1 - 1 / 2 ^ 47) * exact_share b n i - 1 \<le> of_int (paid_share b n i)"
proof -
  note x = exact_share_bounds [OF assms]
  obtain d where d: "pay_amount (share_value b n) (int i) = d_to_i64 d" "approx_double (23 * ulp) d (exact_share b n i)"
    using shares_close [OF assms] by blast
  have "approx_double (1 / 2 ^ 47) d (exact_share b n i)" by (rule approx_double_mono [OF d(2) _ x(1)]) (simp add: ulp_def)
  then obtain v where v: "d = Fin v" "(1 - 1 / 2 ^ 47) * exact_share b n i \<le> v" "v \<le> (1 + 1 / 2 ^ 47) * exact_share b n i"
    by (cases d) (auto simp: approx_def)
  have v0: "0 \<le> v" by (rule order_trans [OF _ v(2)]) (use x(1) in simp)
  have "of_int b \<le> (of_int (2 ^ 47) :: rat)" using less_imp_le [OF assms(2)] by (simp only: of_int_le_iff)
  then have "(1 + 1 / 2 ^ 47) * exact_share b n i \<le> (1 + 1 / 2 ^ 47) * of_int (2 ^ 47)" using x(2) by (intro mult_left_mono) simp_all
  also have "\<dots> \<le> of_int (2 ^ 48)" by simp
  finally have v1: "v \<le> of_int (2 ^ 48)" using v(3) by linarith
  then have f: "0 \<le> \<lfloor>v\<rfloor>" "\<lfloor>v\<rfloor> \<le> 2 ^ 48" using v0 floor_mono [OF v1] by simp_all
  then show p: "pay_amount (share_value b n) (int i) = Inr (paid_share b n i)"
    by (simp add: paid_share_def d(1) v(1) rtrunc_nonneg [OF v0])
  have e: "paid_share b n i = \<lfloor>v\<rfloor>" using f by (simp add: paid_share_def d(1) v(1) rtrunc_nonneg [OF v0])
  show "0 \<le> paid_share b n i" "paid_share b n i \<le> 2 ^ 48" using e f by simp_all
  show "of_int (paid_share b n i) \<le> (1 + 1 / 2 ^ 47) * exact_share b n i" using e v(3) of_int_floor_le [of v] by linarith
  show "(1 - 1 / 2 ^ 47) * exact_share b n i - 1 \<le> of_int (paid_share b n i)" using e v(2) floor_correct [of v] by linarith
qed

lemma paid_total:
  assumes "0 \<le> b" "b < 2 ^ 47" "1 \<le> n" "n \<le> 35" "m \<le> 35"
  shows "of_int (\<Sum>j<m. paid_share b n (Suc j)) \<le> (1 + 1 / 2 ^ 47) * (of_int b * (tier_sum m / tier_sum n))"
    "(1 - 1 / 2 ^ 47) * (of_int b * (tier_sum m / tier_sum n)) - of_nat m \<le> of_int (\<Sum>j<m. paid_share b n (Suc j))"
proof -
  have x: "of_int b * (tier_sum m / tier_sum n) = (\<Sum>j<m. exact_share b n (Suc j))"
    unfolding exact_share_def sum_distrib_left [symmetric] tier_sum_eq [of m, symmetric] by simp
  show "of_int (\<Sum>j<m. paid_share b n (Suc j)) \<le> (1 + 1 / 2 ^ 47) * (of_int b * (tier_sum m / tier_sum n))"
    unfolding x sum_distrib_left of_int_sum
    by (rule sum_mono) (use paid_share_close(4) [OF assms(1-4)] assms(5) in simp)
  have "(\<Sum>j<m. (1 - 1 / 2 ^ 47) * exact_share b n (Suc j) - 1) \<le> (\<Sum>j<m. of_int (paid_share b n (Suc j)))"
    by (rule sum_mono) (use paid_share_close(5) [OF assms(1-4)] assms(5) in simp)
  then show "(1 - 1 / 2 ^ 47) * (of_int b * (tier_sum m / tier_sum n)) - of_nat m \<le> of_int (\<Sum>j<m. paid_share b n (Suc j))"
    unfolding x sum_distrib_left of_int_sum by (simp add: sum_subtractf)
qed

subsection \<open>Who is paid\<close>

text \<open>The producers paid by the loop: the first 35 active ones, wherever they stand in the index.\<close>

definition paid_producers :: "sys \<Rightarrow> producer_info list" where
  "paid_producers s = take MAX_PRODUCERS (filter p_is_active (producers_by_votes s))"

definition counted_producers :: "sys \<Rightarrow> nat" where
  "counted_producers s = count_active 0 (producers_by_votes s)"

lemma pay_loop_filter:
  "k \<le> MAX_PRODUCERS \<Longrightarrow>
     pay_loop E v (int k) ps s = pay_loop E v (int k) (take (MAX_PRODUCERS - k) (filter p_is_active ps)) s"
proof (induction ps arbitrary: k s)
  case (Cons p ps)
  show ?case
  proof (cases "p_is_active p \<and> k < MAX_PRODUCERS")
    case True
    then have sk: "int k + 1 = int (Suc k)" "MAX_PRODUCERS - k = Suc (MAX_PRODUCERS - Suc k)" "Suc k \<le> MAX_PRODUCERS" by auto
    have "pay_loop E v (int (Suc k)) ps s = pay_loop E v (int (Suc k)) (take (MAX_PRODUCERS - Suc k) (filter p_is_active ps)) s" for s
      by (rule Cons.IH [OF sk(3)])
    then show ?thesis using True by (simp add: sk(1,2) Let_def split: sum.splits)
  next
    case False
    then show ?thesis using Cons by (cases "p_is_active p") (auto simp: Let_def)
  qed
qed simp

lemma count_active_eq: "c \<le> MAX_PRODUCERS \<Longrightarrow> count_active c ps = c + length (takeWhile p_is_active (take (MAX_PRODUCERS - c) ps))"
proof (induction ps arbitrary: c)
  case (Cons p ps)
  show ?case
  proof (cases "c < MAX_PRODUCERS")
    case True
    then have "MAX_PRODUCERS - c = Suc (MAX_PRODUCERS - Suc c)" by simp
    then show ?thesis using Cons.IH [of "Suc c"] True by simp
  qed (use Cons.prems in simp)
qed simp

lemma counted_le: "counted_producers s \<le> length (paid_producers s)" "length (paid_producers s) \<le> 35"
proof -
  have "length (takeWhile P (take n xs)) \<le> length (take n (filter P xs))" for P n and xs :: "producer_info list"
  proof (induction xs arbitrary: n)
    case (Cons x xs)
    then show ?case by (cases n) auto
  qed simp
  then show "counted_producers s \<le> length (paid_producers s)"
    by (simp add: counted_producers_def paid_producers_def count_active_eq)
  show "length (paid_producers s) \<le> 35" by (simp add: paid_producers_def MAX_PRODUCERS_def)
qed

text \<open>Paying a list of active producers, with the amounts given by rank.\<close>

definition payable :: "env \<Rightarrow> symbol \<Rightarrow> sys \<Rightarrow> bool" where
  "payable E y s \<longleftrightarrow> core_symbol s = Inr y \<and> symbol_valid E y \<and>
     (\<forall>x a. fmlookup (payments s) x = Some a \<longrightarrow> sym a = y \<and> 0 \<le> amount a \<and> amount a \<le> 2 ^ 61)"

lemma add_payment_ok:
  assumes E: "chain_laws E" and c: "core_symbol s = Inr y" "symbol_valid E y" and n: "0 \<le> n" "n \<le> 2 ^ 48"
    and row: "\<And>a. fmlookup (payments s) x = Some a \<Longrightarrow> sym a = y \<and> 0 \<le> amount a \<and> amount a \<le> 2 ^ 61"
  shows "add_payment E x n s = Inr (s\<lparr>payments := fmupd x \<lparr>amount = n + fmval amount (fmlookup (payments s) x), sym = y\<rparr> (payments s)\<rparr>)"
proof -
  have a: "core_asset E n s = Inr \<lparr>amount = n, sym = y\<rparr>"
    using c n by (simp add: core_asset_def chain_laws.new_ok [OF E] max_amount_def)
  show ?thesis
  proof (cases "fmlookup (payments s) x")
    case None
    then show ?thesis by (simp add: add_payment_def a)
  next
    case (Some b)
    then have "asset_add E b \<lparr>amount = n, sym = y\<rparr> = Inr \<lparr>amount = n + amount b, sym = y\<rparr>"
      using row [OF Some] n by (simp add: chain_laws.add_ok [OF E] max_amount_def add.commute)
    then show ?thesis by (simp add: add_payment_def a Some)
  qed
qed

lemma settle_fields [simp]:
  "payments (settle_producer E p n s) = payments s" "core_symbol (settle_producer E p n s) = core_symbol s"
  "g_perblock_bucket (gstate (settle_producer E p n s)) = i64 (g_perblock_bucket (gstate s) - n)"
  by (simp_all add: settle_producer_def core_symbol_def)

lemma pay_loop_pays:
  assumes E: "chain_laws E" and valid: "symbol_valid E y"
  shows "\<lbrakk>core_symbol s = Inr y; \<forall>p \<in> set qs. p_is_active p; distinct (map p_owner qs); k + length qs \<le> 35;
      \<forall>j. k < j \<and> j \<le> k + length qs \<longrightarrow> pay_amount v (int j) = Inr (f j) \<and> 0 \<le> f j \<and> f j \<le> 2 ^ 48;
      \<forall>p \<in> set qs. \<forall>a. fmlookup (payments s) (p_owner p) = Some a \<longrightarrow> sym a = y \<and> 0 \<le> amount a \<and> amount a \<le> 2 ^ 61;
      \<bar>g_perblock_bucket (gstate s)\<bar> + 2 ^ 48 * int (length qs) \<le> 2 ^ 60\<rbrakk> \<Longrightarrow>
    \<exists>s'. pay_loop E v (int k) qs s = Inr s' \<and>
      g_perblock_bucket (gstate s') = g_perblock_bucket (gstate s) - (\<Sum>j<length qs. f (Suc (k + j))) \<and>
      (\<forall>x. x \<notin> p_owner ` set qs \<longrightarrow> fmlookup (payments s') x = fmlookup (payments s) x) \<and>
      (\<forall>j<length qs. fmlookup (payments s') (p_owner (qs ! j)) =
         Some \<lparr>amount = f (Suc (k + j)) + fmval amount (fmlookup (payments s) (p_owner (qs ! j))), sym = y\<rparr>)"
proof (induction qs arbitrary: k s)
  case (Cons p qs)
  have f: "pay_amount v (int k + 1) = Inr (f (Suc k))" "0 \<le> f (Suc k)" "f (Suc k) \<le> 2 ^ 48"
    using Cons.prems(5) [rule_format, of "Suc k"] by (simp_all add: add.commute)
  define t where "t = settle_producer E p (f (Suc k)) s"
  define s1 where "s1 = t\<lparr>payments := fmupd (p_owner p) \<lparr>amount = f (Suc k) + fmval amount (fmlookup (payments s) (p_owner p)), sym = y\<rparr> (payments s)\<rparr>"
  have "add_payment E (p_owner p) (f (Suc k)) t = Inr s1"
    using add_payment_ok [OF E, of t y "f (Suc k)" "p_owner p"] Cons.prems(1,6) valid f(2,3) by (simp add: t_def s1_def)
  then have step: "pay_loop E v (int k) (p # qs) s = pay_loop E v (int (Suc k)) qs s1"
    using Cons.prems(2,4) f(1) by (simp add: t_def Let_def MAX_PRODUCERS_def add.commute)
  have b: "g_perblock_bucket (gstate s1) = g_perblock_bucket (gstate s) - f (Suc k)"
    using f(2,3) Cons.prems(7) by (simp add: s1_def t_def i64_id)
  have "core_symbol s1 = Inr y" using Cons.prems(1) by (simp add: s1_def t_def core_symbol_def settle_producer_def)
  moreover have "\<forall>q \<in> set qs. \<forall>a. fmlookup (payments s1) (p_owner q) = Some a \<longrightarrow> sym a = y \<and> 0 \<le> amount a \<and> amount a \<le> 2 ^ 61"
    using Cons.prems(3,6) by (auto simp: s1_def)
  moreover have "\<bar>g_perblock_bucket (gstate s1)\<bar> + 2 ^ 48 * int (length qs) \<le> 2 ^ 60"
    using b f(2,3) Cons.prems(7) by (simp add: algebra_simps)
  ultimately obtain s' where s': "pay_loop E v (int (Suc k)) qs s1 = Inr s'"
      "g_perblock_bucket (gstate s') = g_perblock_bucket (gstate s1) - (\<Sum>j<length qs. f (Suc (Suc k + j)))"
      "\<And>x. x \<notin> p_owner ` set qs \<Longrightarrow> fmlookup (payments s') x = fmlookup (payments s1) x"
      "\<And>j. j < length qs \<Longrightarrow> fmlookup (payments s') (p_owner (qs ! j)) =
         Some \<lparr>amount = f (Suc (Suc k + j)) + fmval amount (fmlookup (payments s1) (p_owner (qs ! j))), sym = y\<rparr>"
    using Cons.IH [of s1 "Suc k"] Cons.prems(2-5) by auto
  have new: "fmlookup (payments s') (p_owner p) = Some \<lparr>amount = f (Suc k) + fmval amount (fmlookup (payments s) (p_owner p)), sym = y\<rparr>"
    using s'(3) [of "p_owner p"] Cons.prems(3) by (simp add: s1_def)
  have old: "fmlookup (payments s1) (p_owner (qs ! j)) = fmlookup (payments s) (p_owner (qs ! j))" if "j < length qs" for j
    using that Cons.prems(3) by (auto simp: s1_def dest: nth_mem)
  have "fmlookup (payments s') (p_owner ((p # qs) ! j)) =
         Some \<lparr>amount = f (Suc (k + j)) + fmval amount (fmlookup (payments s) (p_owner ((p # qs) ! j))), sym = y\<rparr>"
    if "j < length (p # qs)" for j
    using that new s'(4) old by (cases j) simp_all
  moreover have "g_perblock_bucket (gstate s') = g_perblock_bucket (gstate s) - (\<Sum>j<length (p # qs). f (Suc (k + j)))"
    using s'(2) b by (simp add: sum.lessThan_Suc_shift del: sum.lessThan_Suc)
  moreover have "fmlookup (payments s') x = fmlookup (payments s) x" if "x \<notin> p_owner ` set (p # qs)" for x
    using that s'(3) [of x] by (auto simp: s1_def)
  ultimately show ?case using s'(1) step by metis
qed simp

lemma paid_producers_props:
  "\<forall>p \<in> set (paid_producers s). p_is_active p"
  "owners_ok (producers s) \<Longrightarrow> distinct (map p_owner (paid_producers s))"
proof -
  show "\<forall>p \<in> set (paid_producers s). p_is_active p" by (auto simp: paid_producers_def dest: in_set_takeD)
  assume ok: "owners_ok (producers s)"
  have "mset (map p_owner (producers_by_votes s)) = mset (map p_owner (rows (producers s)))" by (simp add: producers_by_votes_def)
  then have "distinct (map p_owner (producers_by_votes s))" using distinct_owners [OF ok] mset_eq_imp_distinct_iff by blast
  then have "distinct (map p_owner (filter p_is_active (producers_by_votes s)))" by (rule distinct_map_filter)
  then show "distinct (map p_owner (paid_producers s))" by (simp add: paid_producers_def take_map [symmetric] distinct_take)
qed

lemma divide_bucket_pays:
  fixes s :: sys
  defines "b \<equiv> g_perblock_bucket (gstate s)" and "n \<equiv> counted_producers s" and "qs \<equiv> paid_producers s"
  assumes E: "chain_laws E" and ok: "payable E y s" "owners_ok (producers s)" and b: "0 \<le> b" "b < 2 ^ 47" and n: "1 \<le> n"
  obtains s' where "divide_bucket E s = Inr s'"
    "g_perblock_bucket (gstate s') = b - (\<Sum>j<length qs. paid_share b n (Suc j))"
    "\<And>x. x \<notin> p_owner ` set qs \<Longrightarrow> fmlookup (payments s') x = fmlookup (payments s) x"
    "\<And>j. j < length qs \<Longrightarrow> fmlookup (payments s') (p_owner (qs ! j)) =
       Some \<lparr>amount = paid_share b n (Suc j) + fmval amount (fmlookup (payments s) (p_owner (qs ! j))), sym = y\<rparr>"
proof -
  have n35: "n \<le> 35" and q35: "length qs \<le> 35" using counted_le [of s] by (simp_all add: n_def qs_def)
  have "divide_bucket E s = pay_loop E (share_value b n) (int 0) qs s"
    using pay_loop_filter [of 0 E "share_value b n" "producers_by_votes s" s]
    by (simp add: divide_bucket_def Let_def share_value_def b_def n_def counted_producers_def qs_def paid_producers_def)
  moreover have "\<forall>j. 0 < j \<and> j \<le> 0 + length qs \<longrightarrow>
      pay_amount (share_value b n) (int j) = Inr (paid_share b n j) \<and> 0 \<le> paid_share b n j \<and> paid_share b n j \<le> 2 ^ 48"
    using paid_share_close(1,2,3) [OF b n n35] q35 by simp
  moreover have "\<bar>g_perblock_bucket (gstate s)\<bar> + 2 ^ 48 * int (length qs) \<le> 2 ^ 60" using b q35 by (simp add: b_def)
  moreover have "\<forall>p \<in> set qs. \<forall>a. fmlookup (payments s) (p_owner p) = Some a \<longrightarrow> sym a = y \<and> 0 \<le> amount a \<and> amount a \<le> 2 ^ 61"
    using ok(1) by (simp add: payable_def)
  moreover have "core_symbol s = Inr y" "symbol_valid E y" using ok(1) by (simp_all add: payable_def)
  ultimately show ?thesis
    using pay_loop_pays [OF E, of y s qs 0 "share_value b n" "paid_share b n"] paid_producers_props [of s] ok(2) q35 that
    by (auto simp: qs_def [symmetric] b_def [symmetric])
qed

lemma divide_bucket_returns:
  assumes "chain_laws E" "payable E y s" "owners_ok (producers s)" "0 \<le> g_perblock_bucket (gstate s)"
    "g_perblock_bucket (gstate s) < 2 ^ 47" "1 \<le> counted_producers s"
  shows "\<exists>s'. divide_bucket E s = Inr s' \<and> g_perblock_bucket (gstate s') = g_perblock_bucket (gstate s) -
     (\<Sum>j<length (paid_producers s). paid_share (g_perblock_bucket (gstate s)) (counted_producers s) (Suc j))"
  by (rule divide_bucket_pays [OF assms], intro exI conjI)

lemma tier_sum_grows: "n < m \<Longrightarrow> m \<le> 35 \<Longrightarrow> tier_sum n + 94 / 100 \<le> tier_sum m"
proof (induction m)
  case (Suc m)
  then show ?case using tier_bounds(1) [of "Suc m"] by (cases "n = m") auto
qed simp

lemma overpay_arith:
  fixes b k m r :: rat
  assumes "10000 \<le> b" "m \<le> 35" "1 + 1 / 61 \<le> r" "(1 - 1 / 2 ^ 47) * (b * r) - m \<le> k"
  shows "b < k"
proof -
  have "b * (1 + 1 / 61) \<le> b * r" using assms(1,3) by (intro mult_left_mono) simp_all
  then have "(1 - 1 / 2 ^ 47) * (b * (1 + 1 / 61)) \<le> (1 - 1 / 2 ^ 47) * (b * r)" by (rule mult_left_mono) simp
  moreover have "b < (1 - 1 / 2 ^ 47) * (b * (1 + 1 / 61)) - m" using assms(1,2) by (simp add: algebra_simps)
  ultimately show ?thesis using assms(4) by linarith
qed

lemma within_one:
  fixes b k :: int
  assumes "0 \<le> b" "b < 2 ^ 47"
  shows "of_int k \<le> (1 + 1 / 2 ^ 47) * (of_int b :: rat) \<Longrightarrow> k \<le> b"
    "(1 - 1 / 2 ^ 47) * (of_int b :: rat) - of_nat m \<le> of_int k \<Longrightarrow> b - k \<le> int m"
proof -
  have b: "(of_int b :: rat) / 2 ^ 47 < 1" using assms(2) by (simp add: divide_less_eq)
  assume "of_int k \<le> (1 + 1 / 2 ^ 47) * (of_int b :: rat)"
  then have "(of_int k :: rat) < of_int (b + 1)" using b by (simp add: algebra_simps)
  then show "k \<le> b" by (simp only: of_int_less_iff)
next
  have b: "(of_int b :: rat) / 2 ^ 47 < 1" using assms(2) by (simp add: divide_less_eq)
  assume "(1 - 1 / 2 ^ 47) * (of_int b :: rat) - of_nat m \<le> of_int k"
  then have "(of_int (b - int m - 1) :: rat) < of_int k" using b by (simp add: algebra_simps)
  then show "b - k \<le> int m" by (simp only: of_int_less_iff)
qed

lemma paid_share_near:
  assumes "0 \<le> b" "b < 2 ^ 47" "1 \<le> n" "n \<le> 35" "1 \<le> i" "i \<le> 35"
  shows "\<bar>of_int (paid_share b n i) - exact_share b n i\<bar> \<le> 2"
proof -
  have "exact_share b n i / 2 ^ 47 \<le> (of_int b :: rat) / 2 ^ 47" using exact_share_bounds(2) [OF assms] by (intro divide_right_mono) simp_all
  also have "\<dots> < 1" using assms(2) by (simp add: divide_less_eq)
  finally show ?thesis using paid_share_close(4,5) [OF assms] by (simp add: algebra_simps abs_le_iff)
qed

subsection \<open>Sequences of snapshots and claims\<close>

datatype pay_step =
    Snapshot pay_env
  | Claim name

fun run_pay_step :: "env \<times> pay_step \<Rightarrow> sys \<Rightarrow> sys result" where
  "run_pay_step (E, Snapshot P) s = claimrewards_snapshot E P s"
| "run_pay_step (E, Claim x) s = claimrewards E x s"

text \<open>
  The pay account claims nothing itself (a transfer to itself is refused by the token contract), the contract
  runs on another account, and the prices of the oracle are 64-bit numbers.
\<close>

fun pay_arg :: "env \<times> pay_step \<Rightarrow> bool" where
  "pay_arg (E, Snapshot P) \<longleftrightarrow> chain_laws E \<and> pow_laws E \<and> get_self E \<noteq> bpay_account \<and>
     (\<forall>a \<in> set (averages P). 0 \<le> avg_value a \<and> avg_value a < 2 ^ 64)"
| "pay_arg (E, Claim x) \<longleftrightarrow> x \<noteq> bpay_account"

lemma run_pay_step_backing:
  assumes "pay_inv y s" "pay_arg a" "run_pay_step a s = Inr s'"
  shows "pay_inv y s' \<and> u64 (bpay_backing (scode y) s') = u64 (bpay_backing (scode y) s)"
proof -
  obtain E act where a: "a = (E, act)" by (cases a)
  show ?thesis
  proof (cases act)
    case (Snapshot P)
    then show ?thesis using snapshot_backing [of E y s P s'] assms by (simp add: a)
  next
    case (Claim x)
    then show ?thesis using claimrewards_backing [of y s x E s'] assms by (simp add: a)
  qed
qed

lemma run_pay_backing:
  "run_actions run_pay_step as s = Inr s' \<Longrightarrow> \<forall>a \<in> set as. pay_arg a \<Longrightarrow> pay_inv y s \<Longrightarrow>
     pay_inv y s' \<and> u64 (bpay_backing (scode y) s') = u64 (bpay_backing (scode y) s)"
proof (induction as arbitrary: s)
  case (Cons a as)
  obtain s1 where s1: "run_pay_step a s = Inr s1" "run_actions run_pay_step as s1 = Inr s'"
    using Cons.prems(1) by (auto simp: result_simps)
  have "pay_inv y s1 \<and> u64 (bpay_backing (scode y) s1) = u64 (bpay_backing (scode y) s)"
    by (rule run_pay_step_backing [OF Cons.prems(3) _ s1(1)]) (use Cons.prems(2) in simp)
  then show ?case using Cons.IH [OF s1(2)] Cons.prems(2) by simp
qed simp

subsection \<open>A concrete run\<close>

interpretation sdk_pow: pow_laws "sdk_env self now"
proof
  fix x :: rat and y :: double
  assume "0 \<le> x"
  then show "\<not> dlt (std_pow (sdk_env self now) (Fin x) y) (Fin 0)" by (simp add: sdk_env_def rnd_nonneg)
qed

definition demo_paid :: sys where
  "demo_paid = demo_rotation\<lparr>gstate := (gstate sys0)\<lparr>g_perblock_bucket := 1000000, g_thresh_activated_stake_time := 1,
     g_last_pervote_bucket_fill := 1000000, g_total_unpaid_blocks := 5\<rparr>, payments := fmap_of_list [(1, core 700)]\<rparr>"

text \<open>An active producer with votes, an inactive and an active one without.\<close>

definition demo_overpaid :: sys where
  "demo_overpaid = demo_paid\<lparr>producers := fmap_of_list [(1, demo_producer 1 7),
     (2, (demo_producer 2 3)\<lparr>p_total_votes := Fin 0, p_is_active := False\<rparr>), (3, (demo_producer 3 3)\<lparr>p_total_votes := Fin 0\<rparr>)]\<rparr>"

definition demo_pay_env :: pay_env where
  "demo_pay_env = \<lparr>averages = [\<lparr>avg_type = 2, avg_value = 10000\<rparr>], token_tables =
     token_init\<lparr>accounts := fmap_of_list [((tedp_account, scode core_sym), core 5000)]\<rparr>, payouts = []\<rparr>"

lemma demo_paid_facts: "payable (sdk_env eosio_account 50) core_sym demo_paid" "pay_inv core_sym demo_paid" "owners_ok (producers demo_paid)"
  by (auto simp: payable_def pay_inv_def demo_paid_def demo_rotation_def core_symbol_def sys0_def sdk_env_def sdk_symbol_valid_def core_sym_def
      core_def owners_ok_def demo_producer_def fmlookup_of_list split: if_splits)

lemma demo_overpaid_facts: "payable (sdk_env eosio_account 50) core_sym demo_overpaid" "owners_ok (producers demo_overpaid)"
  by (auto simp: payable_def demo_overpaid_def demo_paid_def demo_rotation_def core_symbol_def sys0_def sdk_env_def sdk_symbol_valid_def core_sym_def
      core_def owners_ok_def demo_producer_def fmlookup_of_list split: if_splits)

lemma demo_counts:
  "counted_producers demo_paid = 2" "map p_owner (paid_producers demo_paid) = [1, 2]"
  "counted_producers demo_overpaid = 1" "map p_owner (paid_producers demo_overpaid) = [1, 3]"
  by code_simp+

definition demo_pay_steps :: "(env \<times> pay_step) list" where
  "demo_pay_steps = [(sdk_env eosio_account 50, Claim 1), (sdk_env eosio_account 50, Snapshot demo_pay_env)]"

definition demo_claimed :: sys where
  "demo_claimed = (send_transfer bpay_account 1 (core 700) ''Producer/Standby Payment'' demo_paid)\<lparr>payments := fmempty\<rparr>"

lemma demo_claim: "claimrewards (sdk_env eosio_account 50) 1 demo_paid = Inr demo_claimed"
proof -
  have "has_auth (sdk_env eosio_account 50) 1" by (simp add: sdk_env_def)
  moreover have "fmlookup (producers demo_paid) 1 = Some (demo_producer 1 7)" "fmlookup (payments demo_paid) 1 = Some (core 700)"
    "fmdrop 1 (payments demo_paid) = fmempty" "0 < g_thresh_activated_stake_time (gstate demo_paid)"
    by (simp_all add: demo_paid_def demo_rotation_def fmdrop_fmupd_same)
  ultimately show ?thesis by (simp add: claimrewards_def demo_claimed_def demo_producer_def)
qed

lemma demo_claimed_fields:
  "producers demo_claimed = producers demo_paid" "gstate demo_claimed = gstate demo_paid" "payments demo_claimed = fmempty"
  "rammarket demo_claimed = rammarket demo_paid" "core_symbol demo_claimed = Inr core_sym" "worker_amount (payrate demo_claimed) = 10000000000"
  by (simp_all add: demo_claimed_def send_transfer_def core_symbol_def demo_paid_def demo_rotation_def sys0_def)

definition demo_filled :: sys where
  "demo_filled = demo_claimed\<lparr>effects := effects demo_claimed @ mint_effects eosio_account core_sym 5000 186965 35336,
     gstate := (gstate demo_claimed)\<lparr>g_perblock_bucket := 1035336, g_last_pervote_bucket_fill := 50000000\<rparr>\<rparr>"

lemma demo_rates:
  "to_workers 10000000000 49000000 = Inr 186965"
  "to_producers (sdk_env eosio_account 50) (get_telos_average_price (averages demo_pay_env)) 49000000 = Inr 35336"
  by code_simp+

lemma demo_mint: "\<exists>s'. mint_pay (sdk_env eosio_account 50) 5000 186965 35336 demo_claimed = Inr s'"
proof -
  have "core_asset (sdk_env eosio_account 50) n s = Inr (core n)" if "0 < n" "n < 1000000" "core_symbol s = Inr core_sym" for n s
    using that by (simp add: core_asset_def sdk_env_def sdk_new_def in_amount_range_def max_amount_def sdk_symbol_valid_def core_sym_def core_def)
  then show ?thesis
    by (simp add: mint_pay_def send_core_def offset_and_issue_def i64_id demo_claimed_fields)
qed

lemma demo_fill: "fill_bucket (sdk_env eosio_account 50) demo_pay_env demo_claimed = Inr demo_filled"
proof -
  let ?E = "sdk_env eosio_account 50"
  obtain s' where s': "mint_pay ?E 5000 186965 35336 demo_claimed = Inr s'" using demo_mint by blast
  have t: "current_time ?E - g_last_pervote_bucket_fill (gstate demo_claimed) = 49000000" "get_self ?E = eosio_account" "current_time ?E = 50000000"
    "0 < g_last_pervote_bucket_fill (gstate demo_claimed)" "g_perblock_bucket (gstate demo_claimed) = 1000000"
    by (simp_all add: sdk_env_def demo_claimed_fields demo_paid_def)
  have bal: "get_balance tedp_account (scode core_sym) (token_tables demo_pay_env) = Inr (core 5000)"
    by (simp add: get_balance_def demo_pay_env_def)
  note e = mint_pay_result [OF sdk.chain_laws_axioms demo_claimed_fields(5) s']
  show ?thesis
    unfolding fill_bucket_def t(1) demo_claimed_fields(6) demo_rates Let_def
    using t(4) demo_claimed_fields(5) bal s' by (simp add: e t demo_filled_def i64_id)
qed

lemma demo_pay_run: "\<exists>s'. run_actions run_pay_step demo_pay_steps demo_paid = Inr s'"
proof -
  let ?E = "sdk_env eosio_account 50"
  have f: "producers demo_filled = producers demo_paid" "payments demo_filled = fmempty" "core_symbol demo_filled = Inr core_sym"
    "g_perblock_bucket (gstate demo_filled) = 1035336"
    using demo_claimed_fields(1,3,5) by (simp_all add: demo_filled_def core_symbol_def)
  have n: "counted_producers demo_filled = 2"
    using demo_counts(1) by (simp add: counted_producers_def producers_by_votes_def f)
  have "payable ?E core_sym demo_filled" "owners_ok (producers demo_filled)"
    using demo_paid_facts by (simp_all add: payable_def f)
  then obtain s1 where "divide_bucket ?E demo_filled = Inr s1"
    using divide_bucket_returns [OF sdk.chain_laws_axioms, of eosio_account 50 core_sym demo_filled] by (auto simp: f(4) n)
  moreover have "0 < g_thresh_activated_stake_time (gstate demo_claimed)" "g_total_unpaid_blocks (gstate demo_claimed) = 5"
    by (simp_all add: demo_claimed_fields demo_paid_def)
  ultimately show ?thesis by (auto simp: demo_pay_steps_def demo_claim claimrewards_snapshot_def demo_fill)
qed

subsection \<open>Theorems\<close>

text \<open>
  C6. A snapshot divides the bucket of the producers' pay as its comment promises.  When the active producers precede the
  inactive ones in the index (so that the counted producers are the paid ones) and the bucket holds less than \<open>2^47\<close> units, the
  division on doubles never fails: every paid producer gets its tier's exact share within two units added to its payment,
  nobody else's payment changes, the bucket is never overdrawn and at most one unit per producer is left in it.
\<close>

theorem snapshot_divides:
  assumes "chain_laws E" "payable E y s" "owners_ok (producers s)"
    and "0 \<le> g_perblock_bucket (gstate s)" "g_perblock_bucket (gstate s) < 2 ^ 47"
    and "1 \<le> counted_producers s" "counted_producers s = length (paid_producers s)"
  shows "\<exists>s'. divide_bucket E s = Inr s' \<and>
    0 \<le> g_perblock_bucket (gstate s') \<and> g_perblock_bucket (gstate s') \<le> int (counted_producers s) \<and>
    (\<forall>j < length (paid_producers s). \<exists>a. fmlookup (payments s') (p_owner (paid_producers s ! j)) = Some a \<and>
       \<bar>of_int (amount a - fmval amount (fmlookup (payments s) (p_owner (paid_producers s ! j)))) -
         exact_share (g_perblock_bucket (gstate s)) (counted_producers s) (Suc j)\<bar> \<le> 2) \<and>
    (\<forall>x. x \<notin> p_owner ` set (paid_producers s) \<longrightarrow> fmlookup (payments s') x = fmlookup (payments s) x)"
proof -
  let ?b = "g_perblock_bucket (gstate s)" and ?n = "counted_producers s" and ?qs = "paid_producers s"
  have n: "?n \<le> 35" using counted_le [of s] by simp
  obtain s' where s': "divide_bucket E s = Inr s'" "g_perblock_bucket (gstate s') = ?b - (\<Sum>j<length ?qs. paid_share ?b ?n (Suc j))"
    "\<And>x. x \<notin> p_owner ` set ?qs \<Longrightarrow> fmlookup (payments s') x = fmlookup (payments s) x"
    "\<And>j. j < length ?qs \<Longrightarrow> fmlookup (payments s') (p_owner (?qs ! j)) =
       Some \<lparr>amount = paid_share ?b ?n (Suc j) + fmval amount (fmlookup (payments s) (p_owner (?qs ! j))), sym = y\<rparr>"
    using divide_bucket_pays [OF assms(1-6)] by blast
  have "tier_sum (length ?qs) / tier_sum ?n = 1" using tier_bounds(3) [OF assms(6) n] by (simp add: assms(7) [symmetric])
  then have "0 \<le> g_perblock_bucket (gstate s')" "g_perblock_bucket (gstate s') \<le> int ?n"
    using paid_total [OF assms(4-6) n, of "length ?qs"] n within_one [OF assms(4,5)] by (auto simp: s'(2) assms(7) [symmetric])
  moreover have "\<bar>of_int (paid_share ?b ?n (Suc j)) - exact_share ?b ?n (Suc j)\<bar> \<le> 2" if "j < length ?qs" for j
    using paid_share_near [OF assms(4-6) n, of "Suc j"] that n assms(7) by simp
  ultimately show ?thesis using s'(1,3,4) by auto
qed

theorem snapshot_divides_witness:
  "\<exists>s'. divide_bucket (sdk_env eosio_account 50) demo_paid = Inr s' \<and> 0 \<le> g_perblock_bucket (gstate s') \<and> g_perblock_bucket (gstate s') \<le> 2"
proof -
  have "length (paid_producers demo_paid) = 2" using arg_cong [OF demo_counts(2), of length] by simp
  moreover have "g_perblock_bucket (gstate demo_paid) = 1000000" by (simp add: demo_paid_def)
  ultimately show ?thesis
    using snapshot_divides [OF sdk.chain_laws_axioms demo_paid_facts(1,3)] by (auto simp: demo_counts(1))
qed

text \<open>The index with an inactive producer between active ones: the count stops at it, the payment does not.\<close>

lemma counted_paid_split:
  assumes "producers_by_votes s = xs @ p # ys" "\<forall>x \<in> set xs. p_is_active x" "length xs < 35" "\<not> p_is_active p" "q \<in> set ys" "p_is_active q"
  shows "counted_producers s = length xs" "length xs < length (paid_producers s)"
proof -
  obtain c where c: "35 - length xs = Suc c" using assms(3) by (cases "35 - length xs") auto
  have "takeWhile p_is_active (take 35 (xs @ p # ys)) = xs" using assms(2-4) by (simp add: takeWhile_append2 c)
  then show "counted_producers s = length xs" by (simp add: counted_producers_def assms(1) count_active_eq MAX_PRODUCERS_def)
  have "filter p_is_active xs = xs" using assms(2) by simp
  moreover have "0 < length (filter p_is_active ys)" using assms(5,6) by (auto simp: filter_empty_conv)
  ultimately show "length xs < length (paid_producers s)" using assms(3,4) by (simp add: paid_producers_def assms(1) MAX_PRODUCERS_def)
qed

text \<open>
  C37. The count of the producers stops at the first inactive one, but the payment skips inactive ones and goes on.  When the
  index starts with at least one and fewer than 35 active producers, then has an inactive one and after it another active
  one (the two without votes, as the index puts active producers with votes first), dividing a bucket of at least one TLOS and less
  than \<open>2 ^ 47\<close> units credits more than the bucket holds and leaves a negative bucket.
\<close>

theorem snapshot_overpays:
  assumes "chain_laws E" "payable E y s" "owners_ok (producers s)"
    and "10000 \<le> g_perblock_bucket (gstate s)" "g_perblock_bucket (gstate s) < 2 ^ 47"
    and "producers_by_votes s = xs @ p # ys" "xs \<noteq> []" "\<forall>x \<in> set xs. p_is_active x" "length xs < 35"
    and "\<not> p_is_active p" "q \<in> set ys" "p_is_active q"
  shows "\<exists>s'. divide_bucket E s = Inr s' \<and> g_perblock_bucket (gstate s') < 0"
proof -
  let ?b = "g_perblock_bucket (gstate s)" and ?n = "counted_producers s" and ?m = "length (paid_producers s)"
  have c: "1 \<le> ?n" "?n < ?m" using counted_paid_split [OF assms(6,8-12)] assms(7) by (simp_all add: Suc_le_eq)
  have b: "0 \<le> ?b" and m: "?m \<le> 35" and n: "?n \<le> 35" using assms(4) counted_le [of s] by simp_all
  obtain s' where s': "divide_bucket E s = Inr s'" "g_perblock_bucket (gstate s') = ?b - (\<Sum>j<?m. paid_share ?b ?n (Suc j))"
    using divide_bucket_returns [OF assms(1-3) b assms(5) c(1)] by blast
  have W: "tier_sum ?n + 94 / 100 \<le> tier_sum ?m" "24 / 10 \<le> tier_sum ?n" "tier_sum ?n \<le> 57"
    using tier_sum_grows [OF c(2) m] tier_bounds(3,4) [OF c(1) n] by simp_all
  have r: "1 + 1 / 61 \<le> tier_sum ?m / tier_sum ?n" using W by (simp add: field_simps)
  have "(of_nat ?m :: rat) \<le> of_nat 35" using m by (simp only: of_nat_le_iff)
  moreover have "(of_int 10000 :: rat) \<le> of_int ?b" using assms(4) by (simp only: of_int_le_iff)
  ultimately have "(of_int ?b :: rat) < of_int (\<Sum>j<?m. paid_share ?b ?n (Suc j))"
    by (intro overpay_arith [OF _ _ r paid_total(2) [OF b assms(5) c(1) n m]]) simp_all
  then have "?b < (\<Sum>j<?m. paid_share ?b ?n (Suc j))" by (simp only: of_int_less_iff)
  then have "g_perblock_bucket (gstate s') < 0" unfolding s'(2) by (rule diff_less_0_iff_less [THEN iffD2])
  with s'(1) show ?thesis by blast
qed

theorem snapshot_overpays_witness:
  "\<exists>s'. divide_bucket (sdk_env eosio_account 50) demo_overpaid = Inr s' \<and> g_perblock_bucket (gstate s') < 0"
proof -
  have x: "producers_by_votes demo_overpaid = [demo_producer 1 7] @ ((demo_producer 2 3)\<lparr>p_total_votes := Fin 0, p_is_active := False\<rparr>) #
      [(demo_producer 3 3)\<lparr>p_total_votes := Fin 0\<rparr>]"
    by code_simp
  have "g_perblock_bucket (gstate demo_overpaid) = 1000000" by (simp add: demo_overpaid_def demo_paid_def)
  then show ?thesis
    using snapshot_overpays [OF sdk.chain_laws_axioms demo_overpaid_facts _ _ x] by (simp add: demo_producer_def)
qed

text \<open>
  C7. Over any sequence of snapshots and claims, what the pay account receives minus what it pays out equals, modulo the
  width of the amounts, the bucket plus the open payments: every payment credited is taken from the bucket, every token
  added to the bucket is transferred to the pay account, and a claim pays exactly the credited amount once.
\<close>

theorem bpay_backed:
  assumes "run_actions run_pay_step as s = Inr s'" and "\<forall>a \<in> set as. pay_arg a" and "pay_inv y s"
  shows "pay_inv y s' \<and> u64 (bpay_backing (scode y) s') = u64 (bpay_backing (scode y) s)"
  using run_pay_backing [OF assms] .

theorem bpay_backed_witness:
  "\<exists>s'. run_actions run_pay_step demo_pay_steps demo_paid = Inr s' \<and>
     u64 (bpay_backing (scode core_sym) s') = u64 (bpay_backing (scode core_sym) demo_paid)"
proof -
  obtain s' where s': "run_actions run_pay_step demo_pay_steps demo_paid = Inr s'"
    using demo_pay_run by blast
  have "\<forall>a \<in> set demo_pay_steps. pay_arg a"
    using sdk.chain_laws_axioms sdk_pow.pow_laws_axioms
    by (simp add: demo_pay_steps_def demo_pay_env_def) (simp add: sdk_env_def eosio_account_def bpay_account_def)
  then show ?thesis using bpay_backed [OF s' _ demo_paid_facts(2)] s' by blast
qed

end
