(* ===== verification/Block_Hook.thy ===== *)
theory Block_Hook
  imports Producer_Pay
begin

section \<open>What every block keeps\<close>

text \<open>
  \<open>onblock\<close> runs the block records, the bookkeeping of missed blocks, the votes, the election of the schedule,
  the name auction and the snapshot of the producers' pay one after another on the same state.  The parts are verified on
  their own; this theory shows that they do not disturb one another: a step of the scheduling and voting parts leaves all
  that concerns money alone (\<open>money\<close>), and the money parts leave the schedule alone.
\<close>

definition money :: "sys \<Rightarrow> (name, name_bid) fmap \<times> (name \<times> name, asset) fmap \<times> rex_pool option \<times> exchange_state option \<times>
    (name, asset) fmap \<times> payrates \<times> int \<times> transfer_data list" where
  "money s = (namebids s, bidrefunds s, rexpool s, rammarket s, payments s, payrate s, g_perblock_bucket (gstate s),
     transfers_of (effects s))"

lemma money_observers:
  assumes "money s' = money s"
  shows "auction_inv y s' = auction_inv y s" "names_backing c s' = names_backing c s"
    "pay_inv y s' = pay_inv y s" "bpay_backing c s' = bpay_backing c s"
  using assms
  by (simp_all add: money_def auction_inv_def names_backing_def names_owed_def pending_proceeds_def pay_inv_def bpay_backing_def bpay_owed_def
      core_symbol_def)

lemma money_simps [simp]:
  "money (set_metrics ms s) = money s" "money (set_caller p s) = money s" "money (set_correction c s) = money s"
  "money (reset_schedule_metrics p s) = money s" "money (update_producer_missed_blocks p s) = money s"
  "money (set_bps_rotation a b s) = money s" "money (update_rotation_time E t s) = money s" "money (set_indices i j s) = money s"
  "money (s\<lparr>producers := ps\<rparr>) = money s" "money (s\<lparr>blockinfo := bi\<rparr>) = money s"
  "money (first_correction p s) = money s" "money (second_correction p s) = money s"
  by (simp_all add: money_def set_metrics_def set_caller_def set_correction_def reset_schedule_metrics_def update_producer_missed_blocks_def
      set_bps_rotation_def update_rotation_time_def set_indices_def first_correction_def second_correction_def)

subsection \<open>The schedule moves no money\<close>

lemma restart_money: "money (restart_missed_blocks_per_rotation ps s) = money s"
  by (induction ps arbitrary: s) (auto simp: Let_def split: option.splits)

lemma keep_rotation_money: "keep_rotation ps s = (b, i, s') \<Longrightarrow> money s' = money s"
  by (auto simp: keep_rotation_def Let_def split: if_splits)

lemma next_rotation_money: "next_rotation E ps t s = Inr (b, i, s') \<Longrightarrow> money s' = money s"
  by (auto simp: next_rotation_def Let_def result_simps restart_money split: if_splits)

lemma check_rotation_money: "check_rotation_state E ps t s = Inr (tops, s') \<Longrightarrow> money s' = money s"
  by (auto simp: check_rotation_state_def result_simps split: if_splits prod.splits dest: keep_rotation_money next_rotation_money)

lemma update_elected_money: "update_elected_producers E X t s = Inr s' \<Longrightarrow> money s' = money s"
proof -
  assume r: "update_elected_producers E X t s = Inr s'"
  let ?s = "s\<lparr>gstate := (gstate s)\<lparr>g_last_producer_schedule_update := t\<rparr>\<rparr>"
  have 0: "money ?s = money s" by (simp add: money_def)
  have e: "money (emit (Propose_schedule ps) s1) = money s1" "money (adopt_schedule t tops s1) = money s1" for ps s1 tops
    by (simp_all add: money_def adopt_schedule_def set_metrics_def)
  show ?thesis
    using r 0 by (auto simp: update_elected_producers_def Let_def result_simps e split: if_splits prod.splits dest!: check_rotation_money)
qed

lemma count_block_money: "count_block E X t p s = Inr (r, s') \<Longrightarrow> money s' = money s"
  by (auto simp: count_block_def result_simps split: option.splits if_splits dest!: update_elected_money)

lemma check_missed_money: "check_missed_blocks E X t p s = Inr (r, s') \<Longrightarrow> money s' = money s"
  by (auto simp: check_missed_blocks_def Let_def result_simps split: if_splits dest!: count_block_money)

lemma update_missed_money: "update_missed_blocks_per_rotation E X s = Inr s' \<Longrightarrow> money s' = money s"
proof -
  assume "update_missed_blocks_per_rotation E X s = Inr s'"
  from update_missed_rows(2) [OF this] have "noprods s' = noprods s" by (simp add: rows_related_def)
  from arg_cong [OF this, of money] show ?thesis by (simp add: noprods_def)
qed

lemma close_cycle_keeps:
  assumes X: "schedule_laws X" and ok: "sched_inv s" and r: "close_cycle E X t p s = Inr s'"
  shows "sched_inv s' \<and> money s' = money s"
proof -
  obtain b s1 where s1: "check_missed_blocks E X t p s = Inr (b, s1)"
    and s': "(if \<not> b then Inr s1 else case update_missed_blocks_per_rotation E X s1 of Inl e \<Rightarrow> Inl e | Inr s2 \<Rightarrow> Inr (reset_schedule_metrics p s2)) = Inr s'"
    using r unfolding close_cycle_def by (simp only: result_simps split_paired_Ex prod.case) blast
  have "sched_inv s1" using check_missed_blocks_step [OF X ok, of E t p] s1 by auto
  then show ?thesis
    using s' check_missed_money [OF s1]
    by (auto simp: result_simps split: if_splits dest: update_missed_inv update_missed_money intro: sched_inv_reset)
qed

subsection \<open>Voting keeps the schedule state\<close>

lemma shift_votes_owners: "shift_votes d ps s = Inr s' \<Longrightarrow> owners_ok (producers s) \<Longrightarrow> owners_ok (producers s')"
proof (induction ps arbitrary: s)
  case (Cons p ps)
  obtain info where info: "fmlookup (producers s) p = Some info" using Cons.prems(1) by (auto simp: result_simps)
  have "p_owner info = p" by (rule owners_okD [OF Cons.prems(2) info])
  then show ?case using Cons.prems(1) Cons.prems(2) by (simp add: info) (erule Cons.IH, simp add: owners_ok_upd)
qed simp

lemma propagate_owners: "propagate_weight_change n E x s = Inr s' \<Longrightarrow> owners_ok (producers s) \<Longrightarrow> owners_ok (producers s')"
proof (induction n arbitrary: x s s')
  case (Suc n)
  note IH = Suc.IH
  from Suc.prems show ?case
    by (auto simp: result_simps Let_def split: if_splits dest: IH shift_votes_owners)
qed simp

lemma apply_deltas_owners: "apply_deltas vt ds s = Inr s' \<Longrightarrow> owners_ok (producers s) \<Longrightarrow> owners_ok (producers s')"
proof (induction ds arbitrary: s)
  case (Cons d ds)
  obtain p x nw where d: "d = (p, x, nw)" by (cases d)
  show ?case
  proof (cases "fmlookup (producers s) p")
    case None
    then show ?thesis using Cons by (auto simp: d result_simps)
  next
    case (Some info)
    then have "p_owner info = p" using Cons.prems(2) by (rule owners_okD [rotated])
    then show ?thesis
      using Cons.prems by (simp add: d Some result_simps Let_def) (elim conjE, erule Cons.IH, simp add: owners_ok_upd)
  qed
qed simp

lemma propagate_all_owners: "propagate E x s = Inr s' \<Longrightarrow> owners_ok (producers s) \<Longrightarrow> owners_ok (producers s')"
  unfolding propagate_def by (rule propagate_owners)

lemma activate_stake_producers [simp]: "producers (activate_stake n s) = producers s"
  by (simp add: activate_stake_def)

lemma undo_old_vote_owners:
  assumes r: "undo_old_vote E x pr t v b s = Inr (s', m, b')" and ok: "owners_ok (producers s)"
  shows "owners_ok (producers s')"
proof -
  consider "producers s' = producers s" | y s1 where "propagate E y s1 = Inr s'" "producers s1 = producers s"
    using r by (auto simp: undo_old_vote_def result_simps Let_def split: if_splits prod.splits)
  then show ?thesis using ok by cases (simp_all add: propagate_all_owners)
qed

lemma cast_new_vote_owners:
  assumes r: "cast_new_vote E x pr ps vt t w m b s = Inr (s', m', b')" and ok: "owners_ok (producers s)"
  shows "owners_ok (producers s')"
proof -
  consider "producers s' = producers s" | y s1 where "propagate E y s1 = Inr s'" "producers s1 = producers s"
    using r by (auto simp: cast_new_vote_def result_simps Let_def split: if_splits prod.splits)
  then show ?thesis using ok by cases (simp_all add: propagate_all_owners)
qed

lemma update_votes_owners: "update_votes E x pr ps vt s = Inr s' \<Longrightarrow> owners_ok (producers s) \<Longrightarrow> owners_ok (producers s')"
  by (auto simp: update_votes_def result_simps Let_def dest!: undo_old_vote_owners cast_new_vote_owners apply_deltas_owners split: if_splits)

lemma recalculate_loop_keeps:
  "recalculate_loop E xs pr s = Inr s' \<Longrightarrow> owners_ok (producers s) \<Longrightarrow> owners_ok (producers s') \<and> novotes s' = novotes s"
proof (induction xs arbitrary: pr s)
  case (Cons x xs)
  obtain v s1 pr1 v1 s2 pr2 s3 where v: "fmlookup (voters s) x = Some v"
    and s1: "(if v_proxy v \<noteq> 0 \<and> v_proxy v |\<notin>| pr
            then (case fmlookup (voters s) (v_proxy v) of
                   None \<Rightarrow> Inl No_row
                 | Some pv \<Rightarrow> Inr (s\<lparr>voters := fmupd (v_proxy v) (reset_vote pv) (voters s)\<rparr>, finsert (v_proxy v) pr))
            else Inr (s, pr)) = Inr (s1, pr1)"
    and s2: "s2 = (if \<not> v_is_proxy v1 \<or> v_owner v1 |\<notin>| pr1 then s1\<lparr>voters := fmupd x (reset_vote v1) (voters s1)\<rparr> else s1)"
    and 2: "update_votes E (v_owner v1) (v_proxy v1) (v_producers v1) True s2 = Inr s3" "recalculate_loop E xs pr2 s3 = Inr s'"
    using Cons.prems(1) unfolding recalculate_loop.simps Let_def by (simp only: result_simps split_paired_Ex prod.case) blast
  have 1: "producers s1 = producers s" "novotes s1 = novotes s" "producers s2 = producers s1" "novotes s2 = novotes s1"
    using s1 by (auto simp: s2 split: if_splits option.splits)
  have "owners_ok (producers s3)" "novotes s3 = novotes s" using update_votes_owners [OF 2(1)] update_votes_frame [OF 2(1)] 1 Cons.prems(2) by simp_all
  then show ?case using Cons.IH [OF 2(2)] by simp
qed simp

lemma recalculate_votes_keeps:
  assumes r: "recalculate_votes E s = Inr s'" and ok: "sched_inv s"
  shows "sched_inv s' \<and> money s' = money s"
proof (cases "dle (g_total_producer_vote_weight (gstate s)) (rnd (- 1 / 10))")
  case True
  let ?s = "s\<lparr>gstate := (gstate s)\<lparr>g_total_producer_vote_weight := Fin 0, g_total_activated_stake := 0\<rparr>,
                 producers := fmmap (\<lambda>p. p\<lparr>p_total_votes := Fin 0\<rparr>) (producers s)\<rparr>"
  have "owners_ok (producers ?s)" using ok by (auto simp: sched_inv_def owners_ok_def)
  then have k: "owners_ok (producers s')" "novotes s' = novotes ?s"
    using recalculate_loop_keeps [of E _ "{||}" ?s s'] r True by (auto simp: recalculate_votes_def Let_def)
  have n: "novotes s' = novotes s" unfolding k(2) by (simp add: novotes_def)
  have "rotation s' = rotation s" "schedule_metrics s' = schedule_metrics s" "g_last_producer_schedule_size (gstate s') = g_last_producer_schedule_size (gstate s)"
    "money s' = money s"
    using arg_cong [OF n, of rotation] arg_cong [OF n, of schedule_metrics] arg_cong [OF n, of "\<lambda>s. g_last_producer_schedule_size (gstate s)"]
      arg_cong [OF n, of money]
    by (simp_all add: novotes_def money_def)
  then show ?thesis using ok k(1) by (simp add: sched_inv_def)
qed (use assms in \<open>simp add: recalculate_votes_def\<close>)

lemma count_produced_keeps:
  assumes "sched_inv s"
  shows "sched_inv (count_produced p s)" "money (count_produced p s) = money s"
  using assms by (auto simp: count_produced_def sched_inv_def money_def split: option.splits intro!: owners_ok_upd dest: owners_okD)

subsection \<open>The auction and the pay keep the schedule state and each other\<close>

lemma channel_keeps:
  "producers (channel_namebid_to_rex k s) = producers s" "rotation (channel_namebid_to_rex k s) = rotation s"
  "schedule_metrics (channel_namebid_to_rex k s) = schedule_metrics s" "gstate (channel_namebid_to_rex k s) = gstate s"
  "payments (channel_namebid_to_rex k s) = payments s" "payrate (channel_namebid_to_rex k s) = payrate s"
  "effects (channel_namebid_to_rex k s) = effects s" "rammarket (channel_namebid_to_rex k s) = rammarket s"
  by (simp_all add: channel_namebid_to_rex_def split: option.splits)

lemma close_auction_keeps:
  "sched_inv (close_auction E slot s) = sched_inv s" "pay_inv y (close_auction E slot s) = pay_inv y s"
  "bpay_backing c (close_auction E slot s) = bpay_backing c s"
  by (cases rule: close_auction_steps [where E = E and slot = slot and s = s];
      simp add: sched_inv_def pay_inv_def bpay_backing_def bpay_owed_def core_symbol_def channel_keeps)+

lemma every_minute_keeps:
  assumes X: "schedule_laws X" and ok: "sched_inv s" "auction_inv y s" and r: "every_minute E X slot s = Inr s'"
  shows "sched_inv s'" "auction_inv y s'" "names_backing c s \<le> names_backing c s'" "pay_inv y s' = pay_inv y s"
    "bpay_backing c s' = bpay_backing c s"
proof -
  have "sched_inv s' \<and> auction_inv y s' \<and> names_backing c s \<le> names_backing c s' \<and> pay_inv y s' = pay_inv y s \<and> bpay_backing c s' = bpay_backing c s"
  proof (cases "120 < u32 (slot - g_last_producer_schedule_update (gstate s))")
    case True
    then obtain s1 where s1: "update_elected_producers E X slot s = Inr s1" "s' = close_auction E slot s1"
      using r by (auto simp: every_minute_def result_simps)
    have "sched_inv s1" by (rule update_elected_cases [OF X ok(1), where E = E and t = slot]) (use s1(1) in auto)
    moreover note m = money_observers [OF update_elected_money [OF s1(1)]]
    ultimately show ?thesis
      using close_auction_backing [of y s1 E slot c] ok(2) by (simp add: s1(2) close_auction_keeps m)
  qed (use ok r in \<open>simp add: every_minute_def\<close>)
  then show "sched_inv s'" "auction_inv y s'" "names_backing c s \<le> names_backing c s'" "pay_inv y s' = pay_inv y s"
    "bpay_backing c s' = bpay_backing c s" by blast+
qed

text \<open>The parts of the state that a snapshot leaves alone.\<close>

definition unpaid_view :: "symcode \<Rightarrow> sys \<Rightarrow> _" where
  "unpaid_view c s = (namebids s, bidrefunds s, rexpool s, rammarket s, rotation s, schedule_metrics s,
     g_last_producer_schedule_size (gstate s), net_flow (transfers_of (effects s)) names_account c)"

lemma unpaid_view_observers:
  assumes "unpaid_view c s' = unpaid_view c s"
  shows "auction_inv y s' = auction_inv y s" "names_backing c s' = names_backing c s"
    "owners_ok (producers s') \<Longrightarrow> sched_inv s \<Longrightarrow> sched_inv s'"
  using assms
  by (simp_all add: unpaid_view_def auction_inv_def names_backing_def names_owed_def pending_proceeds_def core_symbol_def sched_inv_def)

lemma names_account_distinct:
  "names_account \<noteq> tedp_account" "names_account \<noteq> works_account" "names_account \<noteq> bpay_account"
  by (simp_all add: names_account_def tedp_account_def works_account_def bpay_account_def)

lemma mint_effects_names:
  assumes "self \<noteq> names_account"
  shows "net_flow (transfers_of (mint_effects self y b w p)) names_account c = 0"
  using assms names_account_distinct
  by (auto simp: mint_effects_def Let_def core_transfer_def flow_def split: prod.splits)

lemma pay_loop_view:
  "pay_loop E v i ps s = Inr s' \<Longrightarrow> unpaid_view c s' = unpaid_view c s \<and> (owners_ok (producers s) \<longrightarrow> owners_ok (producers s'))"
proof (induction ps arbitrary: i s)
  case (Cons p ps)
  show ?case
  proof (cases "p_is_active p \<and> \<not> int MAX_PRODUCERS < i + 1")
    case True
    then obtain n s1 where s1: "add_payment E (p_owner p) n (settle_producer E p n s) = Inr s1" "pay_loop E v (i + 1) ps s1 = Inr s'"
      using Cons.prems by (auto simp: result_simps Let_def)
    obtain m where "s1 = (settle_producer E p n s)\<lparr>payments := m\<rparr>" using s1(1) by (auto simp: add_payment_def result_simps)
    then have "unpaid_view c s1 = unpaid_view c s" "owners_ok (producers s) \<longrightarrow> owners_ok (producers s1)"
      by (simp_all add: unpaid_view_def settle_producer_def owners_ok_upd)
    then show ?thesis using Cons.IH [OF s1(2)] by simp
  qed (use Cons in \<open>auto simp: Let_def split: if_splits\<close>)
qed simp

lemma snapshot_keeps:
  assumes E: "chain_laws E" "pow_laws E" and self: "get_self E \<noteq> names_account" and inv: "pay_inv y s" "sched_inv s"
    and prices: "\<forall>a \<in> set (averages P). 0 \<le> avg_value a \<and> avg_value a < 2 ^ 64" and r: "claimrewards_snapshot E P s = Inr s'"
  shows "unpaid_view c s' = unpaid_view c s \<and> sched_inv s'"
proof (cases "g_total_unpaid_blocks (gstate s) \<le> 0")
  case True
  then show ?thesis using r inv by (simp add: claimrewards_snapshot_def result_simps)
next
  case False
  then obtain s1 where s1: "fill_bucket E P s = Inr s1" "divide_bucket E s1 = Inr s'"
    using r by (auto simp: claimrewards_snapshot_def result_simps)
  have "unpaid_view c s1 = unpaid_view c s \<and> producers s1 = producers s"
    using E inv(1) prices s1(1)
    by (cases rule: fill_bucket_steps) (simp_all add: unpaid_view_def mint_effects_names [OF self])
  moreover have "unpaid_view c s' = unpaid_view c s1 \<and> (owners_ok (producers s1) \<longrightarrow> owners_ok (producers s'))"
    by (rule pay_loop_view [OF s1(2) [unfolded divide_bucket_def Let_def]])
  ultimately show ?thesis using unpaid_view_observers(3) [of c s' s] inv(2) by (simp add: sched_inv_def)
qed

subsection \<open>Theorem\<close>

text \<open>
  C5. A block keeps the whole chain of invariants.  Whatever \<open>onblock\<close> does -- recording the block, closing a cycle, kicking
  producers, recounting the votes, electing a schedule, closing an auction, taking a snapshot -- the schedule state
  stays consistent, the auction stays covered by what \<open>eosio.names\<close> holds, and the pay account covers (modulo the width of
  the amounts) the bucket and the open payments exactly as before.
\<close>

theorem onblock_keeps:
  assumes "chain_laws E" "pow_laws E" "schedule_laws X" "get_self E \<notin> {bpay_account, names_account}"
    and "\<forall>a \<in> set (averages P). 0 \<le> avg_value a \<and> avg_value a < 2 ^ 64"
    and "sched_inv s" "auction_inv y s" "pay_inv y s" "onblock E X P slot producer prev s = Inr s'"
  shows "sched_inv s' \<and> auction_inv y s' \<and> pay_inv y s' \<and> names_backing (scode y) s \<le> names_backing (scode y) s' \<and>
     u64 (bpay_backing (scode y) s') = u64 (bpay_backing (scode y) s)"
proof -
  obtain s0 where s0: "add_to_blockinfo_table E prev slot s = Inr s0"
    using assms(9) by (auto simp: onblock_def result_simps)
  define s1 where "s1 = s0\<lparr>gstate2 := (gstate2 s0)\<lparr>g2_last_block_num := slot\<rparr>, gstate := (gstate s0)\<lparr>g_block_num := u32 (g_block_num (gstate s0) + 1)\<rparr>\<rparr>"
  have m1: "money s1 = money s" "sched_inv s1"
    using s0 assms(6) by (auto simp: add_to_blockinfo_table_def Let_def result_simps s1_def money_def sched_inv_def)
  show ?thesis
  proof (cases "g_thresh_activated_stake_time (gstate s1) = 0")
    case True
    then have "s' = activate_chain E slot s1" using assms(9) s0 by (simp add: onblock_def s1_def [symmetric] Let_def result_simps)
    then have "money s' = money s" "sched_inv s'" using m1 by (auto simp: activate_chain_def money_def sched_inv_def)
    then show ?thesis using assms(7,8) money_observers [of s' s] by simp
  next
    case False
    then obtain s2 s3 s4 where s2: "close_cycle E X slot producer (start_bucket E s1) = Inr s2"
      and s3: "recalculate_votes E (count_produced producer s2) = Inr s3" and s4: "every_minute E X slot s3 = Inr s4"
      and s5: "every_half_hour E P slot s4 = Inr s'"
      using assms(9) s0 by (simp add: onblock_def s1_def [symmetric] Let_def result_simps) blast
    have "money (start_bucket E s1) = money s" "sched_inv (start_bucket E s1)"
      using m1 by (auto simp: start_bucket_def money_def sched_inv_def)
    with close_cycle_keeps [OF assms(3) _ s2] have 2: "sched_inv s2" "money s2 = money s" by auto
    with recalculate_votes_keeps [OF s3] count_produced_keeps [OF 2(1)] have 3: "sched_inv s3" "money s3 = money s" by auto
    note o3 = money_observers [OF 3(2)]
    have a3: "auction_inv y s3" using assms(7) o3 by simp
    note 4 = every_minute_keeps [OF assms(3) 3(1) a3 s4]
    have p4: "pay_inv y s4" using 4(4) o3 assms(8) by simp
    show ?thesis
    proof (cases "u32 (g_last_claimrewards (gstate s4) + 3600) \<le> slot")
      case True
      then obtain t where t: "claimrewards_snapshot E P s4 = Inr t" and s': "s' = t\<lparr>gstate := (gstate t)\<lparr>g_last_claimrewards := slot\<rparr>\<rparr>"
        using s5 by (auto simp: every_half_hour_def result_simps)
      have self: "get_self E \<noteq> bpay_account" "get_self E \<noteq> names_account" using assms(4) by auto
      have v: "unpaid_view (scode y) t = unpaid_view (scode y) s4" "sched_inv t"
        using snapshot_keeps [OF assms(1,2) self(2) p4 4(1) assms(5) t] by auto
      have b: "pay_inv y t" "u64 (bpay_backing (scode y) t) = u64 (bpay_backing (scode y) s4)"
        using snapshot_backing [OF assms(1,2) self(1) p4 assms(5) t] by auto
      have "money s' = money t" "sched_inv s' = sched_inv t" by (simp_all add: s' money_def sched_inv_def)
      then show ?thesis
        using money_observers [of s' t] unpaid_view_observers(1,2) [OF v(1)] v(2) b 4(2,3,5) o3 by simp
    next
      case False
      then have "s' = s4" using s5 by (simp add: every_half_hour_def)
      then show ?thesis using 4 o3 p4 by simp
    qed
  qed
qed

definition demo_block :: sys where
  "demo_block = demo_rotation\<lparr>gstate := (gstate sys0)\<lparr>g_thresh_activated_stake_time := 1, g_last_claimrewards := 10000\<rparr>\<rparr>"

lemma demo_block_inv: "sched_inv demo_block" "auction_inv core_sym demo_block" "pay_inv core_sym demo_block"
  using demo_rotation_inv
  by (simp_all add: demo_block_def sched_inv_def auction_inv_def pay_inv_def pending_proceeds_def demo_rotation_def sys0_def core_symbol_def
      core_def in_i64_def)

lemma demo_block_run:
  "case onblock (sdk_env eosio_account 50) (demo_schedule_env []) demo_pay_env 500 eosio_account (replicate 32 0) demo_block of
     Inl _ \<Rightarrow> False | Inr s' \<Rightarrow> effects s' \<noteq> []"
  by code_simp

theorem onblock_keeps_witness:
  "\<exists>s'. onblock (sdk_env eosio_account 50) (demo_schedule_env []) demo_pay_env 500 eosio_account (replicate 32 0) demo_block = Inr s' \<and>
     effects s' \<noteq> [] \<and> sched_inv s' \<and> auction_inv core_sym s'"
proof -
  obtain s' where s': "onblock (sdk_env eosio_account 50) (demo_schedule_env []) demo_pay_env 500 eosio_account (replicate 32 0) demo_block = Inr s'"
    "effects s' \<noteq> []"
    using demo_block_run by (auto split: sum.splits)
  have "get_self (sdk_env eosio_account 50) \<notin> {bpay_account, names_account}"
    by (simp add: sdk_env_def eosio_account_def bpay_account_def names_account_def)
  moreover have "\<forall>a \<in> set (averages demo_pay_env). 0 \<le> avg_value a \<and> avg_value a < 2 ^ 64" by (simp add: demo_pay_env_def)
  ultimately show ?thesis
    using onblock_keeps [OF sdk.chain_laws_axioms sdk_pow.pow_laws_axioms demo_sorts.schedule_laws_axioms _ _ demo_block_inv s'(1)] s' by blast
qed

end
