(* ===== verification/Rlp.thy ===== *)
theory Rlp
  imports Prelude
begin

section \<open>RLP encoding of EVM transactions\<close>

text \<open>
  The encoder and decoder of \<open>libs/rlp/rlp.hpp\<close>, with which the system contract builds the
  transactions it sends to the EVM.  An \<open>RLPValue\<close> is a buffer of bytes or an array of
  values.  Contracts are 32-bit programs, so \<open>size_t\<close> has 32 bits: lengths are kept as
  natural numbers and cut to 32 bits where the code stores them in a \<open>size_t\<close>.  The
  decoder's pointer and length are the list of the remaining bytes; its
  output parameter \<open>wanted\<close>, which no caller uses, is left out.
\<close>

subsection \<open>Values and encoding\<close>

type_synonym byte = "8 word"

datatype rlp = VBUF "byte list" | VARR "rlp list"

definition size_t :: "int \<Rightarrow> int" where "size_t n = n mod 2 ^ 32"

definition byte :: "nat \<Rightarrow> byte" where "byte n = word_of_nat n"

text \<open>Big-endian bytes without leading zeros (\<open>encodeBinary\<close>; the loop of \<open>to_byte_string\<close> skips
  the zero bytes instead).\<close>

fun encodeBinary :: "nat \<Rightarrow> byte list" where
  "encodeBinary n = (if n = 0 then [] else encodeBinary (n div 256) @ [byte (n mod 256)])"

declare encodeBinary.simps [simp del]

definition encodeLength :: "nat \<Rightarrow> nat \<Rightarrow> byte list" where
  "encodeLength n offset =
     (if n < 56 then [byte (n + offset)]
      else let binlen = encodeBinary n in byte (length binlen + offset + 55) # binlen)"

fun rlp_write :: "rlp \<Rightarrow> byte list" where
  "rlp_write (VBUF b) = (if length b = 1 \<and> hd b < 0x80 then b else encodeLength (length b) 0x80 @ b)"
| "rlp_write (VARR vs) = (let tmp = concat (map rlp_write vs) in encodeLength (length tmp) 0xC0 @ tmp)"

text \<open>\<open>to_byte_string\<close> of a \<open>uint64_t\<close>: the bytes from the most significant one, once a byte is not zero.\<close>

definition to_byte_string :: "64 word \<Rightarrow> byte list" where
  "to_byte_string n =
     snd (fold (\<lambda>i (started, bs). let b = ucast (drop_bit ((7 - i) * 8) n) :: byte
                in if started \<or> b \<noteq> 0 then (True, bs @ [b]) else (started, bs)) [0..<8] (False, []))"

text \<open>\<open>to_byte_string\<close> of a \<open>uint256_t\<close>: the significant bytes of the 32-byte big-endian form.\<close>

definition to_byte_string_256 :: "nat \<Rightarrow> byte list" where
  "to_byte_string_256 n = dropWhile (\<lambda>b. b = 0) (map (\<lambda>i. byte (n div 256 ^ (31 - i))) [0..<32])"

text \<open>\<open>encode( args... )\<close>, each argument already turned into its bytes.\<close>

definition encode :: "byte list list \<Rightarrow> byte list" where
  "encode args = (if 1 < length args then rlp_write (VARR (map VBUF args)) else rlp_write (VBUF []))"

subsection \<open>Decoding\<close>

fun toInteger :: "byte list \<Rightarrow> int" where
  "toInteger [] = 0"
| "toInteger [b] = uint b"
| "toInteger bs = (uint (last bs) + toInteger (butlast bs) * 256) mod 2 ^ 64"

text \<open>
  \<open>read\<close> and \<open>readArray\<close>: the value and the number of bytes consumed.  A child that consumed no byte would make
  the loop of \<open>readArray\<close> run forever; lemma \<open>read_consumes\<close> shows that this does not happen.
\<close>

function (sequential) read :: "byte list \<Rightarrow> (rlp \<times> nat) option"
  and read_list :: "byte list \<Rightarrow> (rlp list) option" where
  "read [] = None"
| "read (ch # raw) =
     (let c = unat ch; len = length raw + 1 in
      if c \<le> 0x7f then Some (VBUF [ch], 1)
      else if c \<le> 0xb7 then
        (let blen = c - 0x80 in
         if len < 1 + blen then None else
         if blen = 1 \<and> hd raw \<le> 0x7f then None else
         Some (VBUF (take blen raw), 1 + blen))
      else if c \<le> 0xbf then
        (let uintlen = c - 0xb7 in
         if len < 1 + uintlen then None else
         if 1 < uintlen \<and> hd raw = 0 then None else
         let slen = toInteger (take uintlen raw); expected = size_t (1 + int uintlen + slen) in
         if slen < 56 \<or> int len < expected \<or> int len < slen then None else
         Some (VBUF (take (nat slen) (drop uintlen raw)), nat expected))
      else if c \<le> 0xf7 then
        (let payloadlen = c - 0xc0 in
         if len < 1 + payloadlen \<or> len < payloadlen then None else
         (case read_list (take payloadlen raw) of None \<Rightarrow> None | Some vs \<Rightarrow>
          Some (VARR vs, 1 + payloadlen)))
      else
        (let uintlen = c - 0xf7 in
         if len < 1 + uintlen then None else
         if 1 < uintlen \<and> hd raw = 0 then None else
         let payloadlen = size_t (toInteger (take uintlen raw)) in
         if payloadlen < 56 then None else
         if int len < size_t (1 + int uintlen + payloadlen) \<or> int len < payloadlen then None else
         (case read_list (take (nat payloadlen) (drop uintlen raw)) of None \<Rightarrow> None | Some vs \<Rightarrow>
          Some (VARR vs, nat (size_t (1 + int uintlen + payloadlen))))))"
| "read_list [] = Some []"
| "read_list (b # bs) =
     (case read (b # bs) of None \<Rightarrow> None | Some (v, consumed) \<Rightarrow>
      if consumed = 0 then None else
      (case read_list (drop consumed (b # bs)) of None \<Rightarrow> None | Some vs \<Rightarrow> Some (v # vs)))"
  by pat_completeness auto
termination
  by (relation "measure (\<lambda>x. case x of Inl bs \<Rightarrow> 2 * length bs | Inr bs \<Rightarrow> 2 * length bs + 1)") auto

declare read.simps [simp del] rlp_write.simps [simp del]

definition decode :: "byte list \<Rightarrow> rlp result" where
  "decode bytes =
     (if bytes = [] then Inl (Check ''Invalid Transaction: RLP nothing to decode'') else
      (case read bytes of
        None \<Rightarrow> Inl (Check ''Invalid Transaction: RLP could not be decoded'')
      | Some (v, _) \<Rightarrow> Inr v))"

subsection \<open>Lengths\<close>

lemma unat_byte: "unat (byte n) = n mod 256"
  by (simp add: byte_def unat_of_nat)

lemma length_encodeBinary: "n < 256 ^ k \<Longrightarrow> length (encodeBinary n) \<le> k"
proof (induction n arbitrary: k rule: encodeBinary.induct)
  case (1 n)
  show ?case
  proof (cases "n = 0")
    case False
    then obtain k' where k: "k = Suc k'" using 1(2) by (cases k) auto
    have "n div 256 < 256 ^ k'" using 1(2) by (simp add: k less_mult_imp_div_less mult.commute)
    then show ?thesis using 1(1) [OF False, of k'] False k by (subst encodeBinary.simps) simp
  qed (simp add: encodeBinary.simps)
qed

lemma encodeBinary_nonempty: "0 < n \<Longrightarrow> encodeBinary n \<noteq> []"
  by (subst encodeBinary.simps) simp

lemma hd_encodeBinary: "0 < n \<Longrightarrow> hd (encodeBinary n) \<noteq> 0"
proof (induction n rule: encodeBinary.induct)
  case (1 n)
  show ?case
  proof (cases "n div 256 = 0")
    case True
    then have "n < 256" by (simp add: div_eq_0_iff)
    then have "hd (encodeBinary n) = byte n" using 1(2) True by (subst encodeBinary.simps) (simp add: encodeBinary.simps)
    moreover have "byte n \<noteq> 0" using unat_byte [of n] 1(2) \<open>n < 256\<close> by auto
    ultimately show ?thesis by simp
  next
    case False
    then have "hd (encodeBinary n) = hd (encodeBinary (n div 256))"
      using encodeBinary_nonempty [of "n div 256"] by (subst encodeBinary.simps) auto
    then show ?thesis using 1(1) 1(2) False by simp
  qed
qed

lemma toInteger_snoc: "toInteger (bs @ [b]) = (uint b + toInteger bs * 256) mod 2 ^ 64"
proof (cases bs)
  case Nil
  have "uint b < 2 ^ LENGTH(8)" "0 \<le> uint b" by (rule unsigned_less) simp
  then show ?thesis using Nil by simp
next
  case (Cons x xs)
  then have "bs @ [b] = x # hd (xs @ [b]) # tl (xs @ [b])" by simp
  then show ?thesis by (metis toInteger.simps(3) last_snoc butlast_snoc)
qed

lemma toInteger_encodeBinary: "int n < 2 ^ 64 \<Longrightarrow> toInteger (encodeBinary n) = int n"
proof (induction n rule: encodeBinary.induct)
  case (1 n)
  show ?case
  proof (cases "n = 0")
    case False
    have "int (n div 256) \<le> int n" by simp
    then have "toInteger (encodeBinary (n div 256)) = int (n div 256)" using 1 False by simp
    moreover have "uint (byte (n mod 256)) = int (n mod 256)" using unat_byte [of "n mod 256"] by (simp add: uint_nat)
    moreover have "int (n mod 256) + int (n div 256) * 256 = int n" by (metis mod_div_mult_eq of_nat_add of_nat_mult of_nat_numeral)
    ultimately show ?thesis using 1(2) False
      by (subst encodeBinary.simps) (simp add: toInteger_snoc del: of_nat_add)
  qed (simp add: encodeBinary.simps)
qed

lemma encodeBinary_facts:
  assumes "56 \<le> n" "int n < 2 ^ 32"
  shows "1 \<le> length (encodeBinary n)" "length (encodeBinary n) \<le> 4" "hd (encodeBinary n) \<noteq> 0" "toInteger (encodeBinary n) = int n"
  using assms length_encodeBinary [of n 4] encodeBinary_nonempty [of n] hd_encodeBinary [of n] toInteger_encodeBinary [of n]
  by (simp_all add: Suc_le_eq)

subsection \<open>Round trip\<close>

lemma size_t_id [simp]: "0 \<le> n \<Longrightarrow> n < 2 ^ 32 \<Longrightarrow> size_t n = n"
  by (simp add: size_t_def)

lemma read_buffer:
  assumes "int (length (rlp_write (VBUF b) @ r)) < 2 ^ 32"
  shows "read (rlp_write (VBUF b) @ r) = Some (VBUF b, length (rlp_write (VBUF b)))"
proof (cases "length b = 1 \<and> hd b < 0x80")
  case True
  then obtain x where b: "b = [x]" by (cases b) auto
  then have "unat x \<le> 0x7f" using True by (simp add: word_less_nat_alt)
  then show ?thesis using True by (simp add: b read.simps rlp_write.simps)
next
  case False
  define n where "n = length b"
  have w: "rlp_write (VBUF b) = encodeLength n 0x80 @ b" using False by (auto simp: n_def rlp_write.simps)
  have nb: "int n < 2 ^ 32" using assms by (simp add: w n_def)
  show ?thesis
  proof (cases "n < 56")
    case True
    have "\<not> (n = 1 \<and> hd (b @ r) \<le> 0x7f)" using False by (cases b) (auto simp: n_def word_less_nat_alt word_le_nat_alt)
    then show ?thesis using True
      by (simp add: w encodeLength_def read.simps unat_byte Let_def) (auto simp: n_def)
  next
    case ge: False
    note f = encodeBinary_facts [OF _ nb]
    let ?k = "length (encodeBinary n)"
    have k: "unat (byte (?k + 0x80 + 55)) = ?k + 183" using f ge by (simp add: unat_byte)
    have h: "encodeLength n 0x80 = byte (?k + 0x80 + 55) # encodeBinary n" using ge by (simp add: encodeLength_def Let_def)
    have "length b = n" by (simp add: n_def)
    then have len: "1 + int ?k + int n < 2 ^ 32" using assms by (simp add: w h)
    have hd': "hd (encodeBinary n @ b @ r) = hd (encodeBinary n)" using f ge by (cases "encodeBinary n") auto
    have "nat (1 + int ?k + int n) = Suc (?k + n)" "encodeBinary n \<noteq> []" using f ge by auto
    then show ?thesis using f ge k len hd'
      by (simp add: w h read.simps Let_def) (simp add: n_def)
  qed
qed

lemma read_consumes:
  assumes "read bs = Some (v, c)" "int (length bs) < 2 ^ 32 - 16"
  shows "0 < c"
proof (cases bs)
  case (Cons x xs)
  have u: "unat x < 2 ^ LENGTH(8)" by (rule unsigned_less)
  have pos: "0 < nat (size_t (1 + int k + n))" if "k \<le> 8" "56 \<le> n" "n \<le> 1 + int (length xs)" for k n
    using that assms(2) by (simp add: Cons)
  consider "unat x \<le> 0xb7" | "0xb7 < unat x" "unat x \<le> 0xbf" | "0xbf < unat x" "unat x \<le> 0xf7" | "0xf7 < unat x" by linarith
  then show ?thesis
  proof cases
    case 2
    then show ?thesis using assms(1) pos [of "unat x - 0xb7" "toInteger (take (unat x - 0xb7) xs)"]
      by (simp add: Cons read.simps Let_def del: of_nat_diff split: if_splits) auto
  next
    case 4
    then show ?thesis using assms(1) u pos [of "unat x - 0xf7" "size_t (toInteger (take (unat x - 0xf7) xs))"]
      by (simp add: Cons read.simps Let_def del: of_nat_diff split: if_splits option.splits) auto
  qed (use assms(1) in \<open>simp add: Cons read.simps Let_def split: if_splits option.splits\<close>)+
qed (use assms in \<open>simp add: read.simps\<close>)

lemma read_list_children:
  assumes "\<And>v r. v \<in> set vs \<Longrightarrow> int (length (rlp_write v @ r)) < 2 ^ 32 \<Longrightarrow> read (rlp_write v @ r) = Some (v, length (rlp_write v))"
    and "int (length (concat (map rlp_write vs))) < 2 ^ 32"
  shows "read_list (concat (map rlp_write vs)) = Some vs"
  using assms
proof (induction vs)
  case (Cons v vs)
  let ?r = "concat (map rlp_write vs)"
  have v: "read (rlp_write v @ ?r) = Some (v, length (rlp_write v))" using Cons.prems(2) by (intro Cons.prems(1)) auto
  have "rlp_write v \<noteq> []" by (cases v) (auto simp: encodeLength_def Let_def rlp_write.simps)
  then obtain x xs where x: "rlp_write v = x # xs" by (cases "rlp_write v") auto
  have IH: "read_list ?r = Some vs" using Cons.prems by (intro Cons.IH) auto
  show ?case using v IH by (simp add: x)
qed simp

lemma read_rlp_write: "int (length (rlp_write v @ r)) < 2 ^ 32 \<Longrightarrow> read (rlp_write v @ r) = Some (v, length (rlp_write v))"
proof (induction v arbitrary: r)
  case (VBUF b)
  then show ?case by (rule read_buffer)
next
  case (VARR vs)
  define t where "t = concat (map rlp_write vs)"
  have w: "rlp_write (VARR vs) = encodeLength (length t) 0xC0 @ t" by (simp add: t_def Let_def rlp_write.simps)
  have nb: "int (length t) < 2 ^ 32" using VARR.prems by (simp add: w)
  have ch: "read_list t = Some vs" unfolding t_def using VARR.IH nb by (intro read_list_children) (auto simp: t_def)
  show ?case
  proof (cases "length t < 56")
    case True
    then show ?thesis using ch by (simp add: w encodeLength_def read.simps unat_byte Let_def)
  next
    case ge: False
    note f = encodeBinary_facts [OF _ nb]
    let ?n = "length t" let ?k = "length (encodeBinary ?n)"
    have k: "unat (byte (?k + 0xC0 + 55)) = ?k + 247" using f ge by (simp add: unat_byte)
    have h: "encodeLength ?n 0xC0 = byte (?k + 0xC0 + 55) # encodeBinary ?n" using ge by (simp add: encodeLength_def Let_def)
    have len: "1 + int ?k + int ?n < 2 ^ 32" using VARR.prems by (simp add: w h)
    have hd': "hd (encodeBinary ?n @ t @ r) = hd (encodeBinary ?n)" using f ge by (cases "encodeBinary ?n") auto
    have cons: "nat (1 + int ?k + int ?n) = Suc (?k + ?n)" "encodeBinary ?n \<noteq> []" using f ge by auto
    show ?thesis using f ge k len hd' nb ch cons by (simp add: w h read.simps Let_def)
  qed
qed

subsection \<open>Properties\<close>

text \<open>
  C19. Round trip of the encoding: a value whose encoding fits a 32-bit length is read back
  from its encoding, whatever follows, and exactly the bytes of the encoding are consumed; \<open>decode\<close> therefore inverts
  the encoder, and no encoding is a prefix of the encoding of a different value.
\<close>

theorem rlp_roundtrip:
  assumes "int (length (rlp_write v @ rest)) < 2 ^ 32"
  shows "read (rlp_write v @ rest) = Some (v, length (rlp_write v)) \<and> decode (rlp_write v @ rest) = Inr v \<and>
    (\<forall>v' rest'. rlp_write v @ rest = rlp_write v' @ rest' \<longrightarrow> v' = v \<and> rest' = rest)"
proof -
  have rd: "read (rlp_write v @ rest) = Some (v, length (rlp_write v))" by (rule read_rlp_write [OF assms])
  have ne: "rlp_write v @ rest \<noteq> []" by (cases v) (auto simp: encodeLength_def Let_def rlp_write.simps)
  have "v' = v \<and> rest' = rest" if "rlp_write v @ rest = rlp_write v' @ rest'" for v' rest'
  proof -
    have "read (rlp_write v' @ rest') = Some (v', length (rlp_write v'))" using assms that by (intro read_rlp_write) simp
    then show ?thesis using rd that by auto
  qed
  then show ?thesis using rd ne by (auto simp: decode_def)
qed

theorem rlp_roundtrip_witness:
  "decode (encode [[1], [], [0x86, 0xA0], replicate 60 7] @ [5]) = Inr (VARR [VBUF [1], VBUF [], VBUF [0x86, 0xA0], VBUF (replicate 60 7)])"
proof -
  let ?v = "VARR (map VBUF [[1], [], [0x86, 0xA0], replicate 60 7])"
  have "int (length (rlp_write ?v @ [5])) < 2 ^ 32" by code_simp
  from rlp_roundtrip [OF this] show ?thesis by (simp add: encode_def)
qed

text \<open>
  C39. The decoder cuts the length of a long list to 32 bits before it checks it against the bytes that are there.  So a list
  whose payload has \<open>n \<ge> 56\<close> bytes is also read back, with exactly its own bytes consumed, from every encoding that announces
  \<open>k * 2 ^ 32 + n\<close> bytes instead, for any \<open>k > 0\<close> with a 64-bit sum: none of them is what the encoder writes, and no two of
  them agree.
\<close>

theorem rlp_length_truncated:
  assumes "t = concat (map rlp_write vs)" "56 \<le> length t" "int (length (t @ rest)) + 9 < 2 ^ 32" "0 < k" "k * 2 ^ 32 + length t < 2 ^ 64"
  shows "\<exists>bs. bs = encodeLength (k * 2 ^ 32 + length t) 0xC0 @ t \<and>
    read (bs @ rest) = Some (VARR vs, length bs) \<and> decode (bs @ rest) = Inr (VARR vs) \<and>
    bs \<noteq> rlp_write (VARR vs) \<and>
    (\<forall>k'. k' \<noteq> k \<and> k' * 2 ^ 32 + length t < 2 ^ 64 \<longrightarrow> encodeLength (k' * 2 ^ 32 + length t) 0xC0 @ t \<noteq> bs)"
proof -
  define N where "N = k * 2 ^ 32 + length t"
  have N: "56 \<le> N" "int N < 2 ^ 64" "N < 256 ^ 8" "0 < N" "N \<noteq> length t"
    using assms(2,4,5) by (simp_all add: N_def)
  let ?k = "length (encodeBinary N)"
  have kb: "1 \<le> ?k" "?k \<le> 8" "hd (encodeBinary N) \<noteq> 0" "toInteger (encodeBinary N) = int N"
    using encodeBinary_nonempty [OF N(4)] length_encodeBinary [OF N(3)] hd_encodeBinary [OF N(4)] toInteger_encodeBinary [OF N(2)]
    by (simp_all add: Suc_le_eq)
  have nb: "int (length t) < 2 ^ 32" using assms(3) by simp
  have "int N mod 2 ^ 32 = int (length t)" using nb by (simp add: N_def)
  then have cut: "size_t (int N) = int (length t)" by (simp add: size_t_def)
  have ch: "read_list t = Some vs" unfolding assms(1) using nb assms(1) by (intro read_list_children read_rlp_write) auto
  have h: "encodeLength N 0xC0 = byte (?k + 0xC0 + 55) # encodeBinary N" using N(1) by (simp add: encodeLength_def Let_def)
  have k: "unat (byte (?k + 0xC0 + 55)) = ?k + 247" using kb(2) by (simp add: unat_byte)
  have len: "1 + int ?k + int (length t) < 2 ^ 32" using assms(3) kb(2) by simp
  have hd': "hd (encodeBinary N @ t @ rest) = hd (encodeBinary N)" using kb(1) by (cases "encodeBinary N") auto
  have cons: "nat (1 + int ?k + int (length t)) = Suc (?k + length t)" "encodeBinary N \<noteq> []" using kb(1) by auto
  have rd: "read ((encodeLength N 0xC0 @ t) @ rest) = Some (VARR vs, length (encodeLength N 0xC0 @ t))"
    using kb k len hd' nb ch cons cut assms(2) by (simp add: h read.simps Let_def)
  have inj: "M = N" if "encodeLength M 0xC0 @ t = encodeLength N 0xC0 @ t" "56 \<le> M" "int M < 2 ^ 64" for M
  proof -
    have "encodeBinary M = encodeBinary N" using that(1,2) h by (simp add: encodeLength_def Let_def)
    then have "toInteger (encodeBinary M) = toInteger (encodeBinary N)" by simp
    then show ?thesis using toInteger_encodeBinary [OF that(3)] kb(4) by simp
  qed
  have "rlp_write (VARR vs) = encodeLength (length t) 0xC0 @ t" by (simp add: assms(1) rlp_write.simps Let_def)
  then have "encodeLength N 0xC0 @ t \<noteq> rlp_write (VARR vs)" using inj [of "length t"] N(5) assms(2) nb by auto
  moreover have "encodeLength (k' * 2 ^ 32 + length t) 0xC0 @ t \<noteq> encodeLength N 0xC0 @ t"
    if "k' \<noteq> k" "k' * 2 ^ 32 + length t < 2 ^ 64" for k'
  proof
    assume eq: "encodeLength (k' * 2 ^ 32 + length t) 0xC0 @ t = encodeLength N 0xC0 @ t"
    have "int (k' * 2 ^ 32 + length t) < 2 ^ 64" using that(2) by (metis of_nat_less_iff of_nat_numeral of_nat_power)
    from inj [OF eq _ this] show False using assms(2) that(1) by (simp add: N_def)
  qed
  moreover have "(encodeLength N 0xC0 @ t) @ rest \<noteq> []" by (simp add: h)
  ultimately show ?thesis using rd unfolding N_def [symmetric]
    by (intro exI [of _ "encodeLength N 0xC0 @ t"]) (simp add: decode_def)
qed

theorem rlp_length_truncated_witness:
  "decode ([0xFC, 1, 0, 0, 0, 56] @ replicate 56 7) = Inr (VARR (replicate 56 (VBUF [7]))) \<and>
   rlp_write (VARR (replicate 56 (VBUF [7]))) \<noteq> [0xFC, 1, 0, 0, 0, 56] @ replicate 56 7"
proof -
  have t: "replicate 56 7 = concat (map rlp_write (replicate 56 (VBUF [7])))" by code_simp
  have l: "encodeLength (1 * 2 ^ 32 + length (replicate 56 (7 :: byte))) 0xC0 = [0xFC, 1, 0, 0, 0, 56]"
    by (simp add: encodeLength_def encodeBinary.simps [of "numeral n" for n] encodeBinary.simps [of 0] encodeBinary.simps [of "Suc 0"] byte_def)
  have h: "56 \<le> length (replicate 56 (7 :: byte))" "int (length (replicate 56 (7 :: byte) @ [])) + 9 < 2 ^ 32" "0 < (1 :: nat)"
    "1 * 2 ^ 32 + length (replicate 56 (7 :: byte)) < 2 ^ 64"
    by simp_all
  from rlp_length_truncated [OF t h] show ?thesis unfolding l append_Nil2
    by (elim exE conjE, hypsubst) (intro conjI, assumption, erule not_sym)
qed

end
