(* ===== verification/Evm_Voting.thy ===== *)
theory Evm_Voting
  imports System_Admin Rlp
begin

section \<open>Votes from the EVM\<close>

text \<open>
  Model of the actions of \<open>eosio.system.cpp\<close> that exchange data with the voting contract in the EVM: the decay
  parameters, the votes that are read out of the storage of the EVM contract, and the registration status of
  a producer.  The tables of the EVM contract (\<open>libs/eosio.evm/tables.hpp\<close>) belong to another contract;
  they and the hash function \<open>keccak\<close> are the record \<open>evm_env\<close>.  Rows are in the order of their
  primary key.  \<open>uint256_t\<close> values are numbers below \<open>2 ^ 256\<close>.
\<close>

record evm_row =
  ea_index :: int
  ea_address :: "byte list"
  ea_account :: name
  ea_nonce :: int

record evm_env =
  evm_rows :: "evm_row list"
  evm_storage :: "int \<Rightarrow> byte list \<Rightarrow> byte list option"   \<comment> \<open>scope, key\<close>
  keccak :: "byte list \<Rightarrow> byte list"

definition pad160 :: "byte list \<Rightarrow> byte list" where
  "pad160 a = replicate 12 0 @ a"

definition checksum256ToValue :: "byte list \<Rightarrow> int" where
  "checksum256ToValue bs = fold (\<lambda>b n. n * 256 + uint b) bs 0"

definition find_address :: "evm_env \<Rightarrow> byte list \<Rightarrow> evm_row option" where
  "find_address V a = find (\<lambda>r. pad160 (ea_address r) = pad160 a) (evm_rows V)"

definition find_account :: "evm_env \<Rightarrow> name \<Rightarrow> evm_row option" where
  "find_account V n = find (\<lambda>r. ea_account r = n) (evm_rows V)"

subsection \<open>Transactions to the EVM\<close>

definition VOTE_STORAGE_SLOT :: byte where "VOTE_STORAGE_SLOT = 3"
definition STATUS_STORAGE_SLOT :: byte where "STATUS_STORAGE_SLOT = 4"
definition DEFAULT_GAS_LIMIT :: nat where "DEFAULT_GAS_LIMIT = 100000"
definition SET_DECAY_PARAMS_SELECTOR :: "byte list" where "SET_DECAY_PARAMS_SELECTOR = [0x5d, 0x32, 0xff, 0x31]"
definition REGISTER_BP_SELECTOR :: "byte list" where "REGISTER_BP_SELECTOR = [21, 144, 113, 236]"
definition UNREGISTER_BP_SELECTOR :: "byte list" where "UNREGISTER_BP_SELECTOR = [171, 46, 42, 196]"

text \<open>Eight bytes, the most significant one first (\<open>write_u64_be\<close> and the loops over a name).\<close>

definition u64_be :: "64 word \<Rightarrow> byte list" where
  "u64_be v = map (\<lambda>i. ucast (drop_bit ((7 - i) * 8) v)) [0..<8]"

text \<open>The fields nonce, gas price, gas limit, to, value, data, V, R and S.\<close>

definition evm_fields :: "int \<Rightarrow> byte list \<Rightarrow> byte list \<Rightarrow> byte list list" where
  "evm_fields nonce to data =
     [to_byte_string_256 (nat nonce), to_byte_string_256 0, to_byte_string_256 DEFAULT_GAS_LIMIT, to,
      to_byte_string_256 0, data, to_byte_string 0, to_byte_string_256 0, to_byte_string_256 0]"

definition send_evm :: "env \<Rightarrow> evm_env \<Rightarrow> byte list \<Rightarrow> sys \<Rightarrow> sys result" where
  "send_evm E V data s =
     (case find_account V (get_self E) of
        None \<Rightarrow> Inl (Check ''eosio EVM address not found'')
      | Some r \<Rightarrow>
          Inr (emit (Evm_raw (encode (evm_fields (ea_nonce r) (evm_voting_contract (voting_cfg s)) data)) (ea_address r)) s))"

definition contract_set :: "sys \<Rightarrow> bool" where
  "contract_set s \<longleftrightarrow> evm_voting_contract (voting_cfg s) \<noteq> replicate 20 0"

definition decay_data :: "64 word \<Rightarrow> 64 word \<Rightarrow> byte list" where
  "decay_data start scaled =
     SET_DECAY_PARAMS_SELECTOR @ replicate 24 0 @ u64_be start @ replicate 24 0 @ u64_be scaled"

definition setvotedecay :: "env \<Rightarrow> evm_env \<Rightarrow> int \<Rightarrow> int \<Rightarrow> sys \<Rightarrow> sys result" where
  "setvotedecay E V start increase s =
     (if \<not> has_auth E (get_self E) then Inl Missing_auth else
      if \<not> contract_set s then Inl (Check ''EVM voting contract not set'') else
      if \<not> increase \<le> 100 then Inl (Check ''decay_increase_yearly must be <= 100 (100%)'') else
      let s1 = s\<lparr>voting_cfg := (voting_cfg s)\<lparr>decay_start_epoch := start, decay_increase_yearly := increase\<rparr>\<rparr> in
      if \<not> increase \<le> (2 ^ 64 - 1) div 10000000000000000
      then Inl (Check ''decay_increase_yearly too large, would cause overflow'') else
      send_evm E V (decay_data (word_of_int start) (word_of_int (increase * 10000000000000000))) s1)"

subsection \<open>Reading the storage of the voting contract\<close>

definition memory_location :: "byte \<Rightarrow> name \<Rightarrow> byte list" where
  "memory_location slot bp = replicate 24 0 @ u64_be bp @ replicate 31 0 @ [slot]"

definition normalized :: "int \<Rightarrow> int" where
  "normalized v = u64 (v div 100000000000000)"

definition add_votes :: "bool \<Rightarrow> double \<Rightarrow> name \<Rightarrow> sys \<Rightarrow> sys result" where
  "add_votes clamp d bp s =
     (case fmlookup (producers s) bp of None \<Rightarrow> Inl (Check ''BP not found'') | Some p \<Rightarrow>
      let cut = (\<lambda>x. if clamp \<and> dlt x (Fin 0) then Fin 0 else x) in
      Inr (s\<lparr>producers := fmupd bp (p\<lparr>p_total_votes := cut (dadd (p_total_votes p) d)\<rparr>) (producers s),
             gstate := (gstate s)\<lparr>g_total_producer_vote_weight := cut (dadd (g_total_producer_vote_weight (gstate s)) d)\<rparr>\<rparr>))"

text \<open>
  The first vote of a producer adds the normalized vote, a later one the difference of two unsigned 64-bit numbers.
\<close>

definition update_evm_vote :: "name \<Rightarrow> int \<Rightarrow> bool \<Rightarrow> sys \<Rightarrow> (bool \<times> sys) result" where
  "update_evm_vote bp current is_changed s =
     (case fmlookup (evm_votes s) bp of
        None \<Rightarrow>
          (case add_votes False (d_of_int (normalized current)) bp s of Inl e \<Rightarrow> Inl e | Inr s1 \<Rightarrow>
           Inr (True, s1\<lparr>evm_votes := fmupd bp current (evm_votes s1)\<rparr>))
      | Some previous \<Rightarrow>
          (case add_votes True (d_of_int (u64 (normalized current - normalized previous))) bp s of Inl e \<Rightarrow> Inl e | Inr s1 \<Rightarrow>
           Inr (is_changed \<or> previous \<noteq> current, s1\<lparr>evm_votes := fmupd bp current (evm_votes s1)\<rparr>)))"

fun evm_vote_loop :: "(name \<Rightarrow> int option) \<Rightarrow> name list \<Rightarrow> bool \<Rightarrow> sys \<Rightarrow> (bool \<times> sys) result" where
  "evm_vote_loop votes [] is_changed s = Inr (is_changed, s)"
| "evm_vote_loop votes (bp # bps) is_changed s =
     (case votes bp of None \<Rightarrow> Inl (Check ''BP vote not found in EVM state'') | Some current \<Rightarrow>
      (case update_evm_vote bp current is_changed s of Inl e \<Rightarrow> Inl e | Inr (ch, s1) \<Rightarrow>
      evm_vote_loop votes bps ch s1))"

definition stored_vote :: "evm_env \<Rightarrow> evm_row \<Rightarrow> name \<Rightarrow> int option" where
  "stored_vote V r bp =
     map_option checksum256ToValue (evm_storage V (ea_index r) (keccak V (memory_location VOTE_STORAGE_SLOT bp)))"

definition getevmvote :: "evm_env \<Rightarrow> name list \<Rightarrow> sys \<Rightarrow> sys result" where
  "getevmvote V bps s =
     (if \<not> contract_set s then Inl (Check ''EVM voting contract not set'') else
      if \<not> length bps \<le> 30 then Inl (Check ''attempt to update EVM vote for too many BPs'') else
      if \<not> successively (<) bps then Inl (Check ''list of BPs that need to be updated must be unique and sorted'') else
      (case find_address V (evm_voting_contract (voting_cfg s)) of
        None \<Rightarrow> Inl (Check ''EVM voting contract not found'')
      | Some r \<Rightarrow>
      (case evm_vote_loop (stored_vote V r) bps False s of Inl e \<Rightarrow> Inl e | Inr (is_changed, s1) \<Rightarrow>
      if \<not> is_changed then Inl (Check ''None of the BPs EVM votes has been changed'') else Inr s1)))"

definition status_data :: "bool \<Rightarrow> name \<Rightarrow> byte list" where
  "status_data active bp =
     (if active then REGISTER_BP_SELECTOR else UNREGISTER_BP_SELECTOR) @ replicate 24 0 @ u64_be bp"

definition setbpevmstat :: "env \<Rightarrow> evm_env \<Rightarrow> name \<Rightarrow> sys \<Rightarrow> sys result" where
  "setbpevmstat E V bp s =
     (if \<not> contract_set s then Inl (Check ''EVM voting contract not set'') else
      (case fmlookup (producers s) bp of None \<Rightarrow> Inl (Check ''BP not found'') | Some p \<Rightarrow>
      (case find_address V (evm_voting_contract (voting_cfg s)) of
        None \<Rightarrow> Inl (Check ''EVM voting contract not found'')
      | Some r \<Rightarrow>
      (case evm_storage V (ea_index r) (keccak V (memory_location STATUS_STORAGE_SLOT bp)) of
        None \<Rightarrow> Inl (Check ''BP status not found in EVM state'')
      | Some v \<Rightarrow>
      if p_is_active p = (v ! 31 \<noteq> 0) then Inl (Check ''The status of BP is not changed'') else
      send_evm E V (status_data (p_is_active p) bp) s))))"

subsection \<open>Bytes\<close>

lemma checksum_fold: "fold (\<lambda>b n. n * 256 + uint b) ys n = n * 256 ^ length ys + checksum256ToValue ys"
  for ys :: "byte list" and n :: int
proof (induction ys arbitrary: n)
  case Nil
  show ?case by (simp add: checksum256ToValue_def)
next
  case (Cons y ys)
  have "checksum256ToValue (y # ys) = fold (\<lambda>b n. n * 256 + uint b) ys (uint y)" by (simp add: checksum256ToValue_def)
  also have "\<dots> = uint y * 256 ^ length ys + checksum256ToValue ys" by (rule Cons.IH)
  finally have c: "checksum256ToValue (y # ys) = uint y * 256 ^ length ys + checksum256ToValue ys" .
  have "fold (\<lambda>b n. n * 256 + uint b) (y # ys) n = (n * 256 + uint y) * 256 ^ length ys + checksum256ToValue ys"
    using Cons.IH [of "n * 256 + uint y"] by simp
  then show ?case by (simp add: c algebra_simps)
qed

lemma checksum_append: "checksum256ToValue (xs @ ys) = checksum256ToValue xs * 256 ^ length ys + checksum256ToValue ys"
  using checksum_fold [of ys "checksum256ToValue xs"] by (simp add: checksum256ToValue_def [of "xs @ ys"] checksum256ToValue_def [of xs])

lemma checksum_zeros: "checksum256ToValue (replicate n 0 @ bs) = checksum256ToValue bs"
proof -
  have "checksum256ToValue (replicate n 0) = 0" by (induction n) (simp_all add: checksum256ToValue_def)
  then show ?thesis by (simp add: checksum_append)
qed

lemma checksum_single: "checksum256ToValue [b] = uint b"
  by (simp add: checksum256ToValue_def)

lemma uint_ucast_byte: "uint (ucast (drop_bit k v) :: byte) = (uint v div 2 ^ k) mod 256" for v :: "64 word"
proof -
  have "uint (ucast (drop_bit k v) :: byte) = take_bit 8 (uint (drop_bit k v))" by (simp add: unsigned_ucast_eq)
  also have "uint (drop_bit k v) = drop_bit k (uint v)" using uint_lt2p [of v]
    by (simp only: unsigned_drop_bit_eq) (simp add: take_bit_int_eq_self)
  finally show ?thesis by (simp add: drop_bit_eq_div take_bit_eq_mod)
qed

lemma be_bytes_value:
  "checksum256ToValue (map (\<lambda>i. ucast (drop_bit ((n - Suc i) * 8) v) :: byte) [0..<n]) = uint v mod 256 ^ n" for v :: "64 word"
proof (induction n)
  case (Suc n)
  have l: "map (\<lambda>i. ucast (drop_bit ((Suc n - Suc i) * 8) v) :: byte) [0..<Suc n] =
     ucast (drop_bit (n * 8) v) # map (\<lambda>i. ucast (drop_bit ((n - Suc i) * 8) v)) [0..<n]"
    by (simp only: upt_conv_Cons [OF zero_less_Suc] map_Suc_upt [symmetric]) (simp add: comp_def)
  have "checksum256ToValue (map (\<lambda>i. ucast (drop_bit ((Suc n - Suc i) * 8) v) :: byte) [0..<Suc n]) =
     (uint v div 2 ^ (n * 8)) mod 256 * 256 ^ n + uint v mod 256 ^ n"
    unfolding l using checksum_append [of "[ucast (drop_bit (n * 8) v)]"] by (simp add: checksum_single uint_ucast_byte Suc.IH)
  also have "(2::int) ^ (n * 8) = 256 ^ n" by (simp add: power_mult mult.commute [of n 8])
  also have "(uint v div 256 ^ n) mod 256 * 256 ^ n + uint v mod 256 ^ n = uint v mod (256 ^ n * 256)"
    using zmod_zmult2_eq [of 256 "uint v" "256 ^ n"] by (simp only: mult.commute [of "uint v div 256 ^ n mod 256"])
  finally show ?case by (simp add: mult.commute)
qed (simp add: checksum256ToValue_def)

lemma u64_be_value: "checksum256ToValue (u64_be v) = uint v"
proof -
  have "uint v < 2 ^ 64" using uint_lt2p [of v] by simp
  then have "uint v mod 256 ^ 8 = uint v" by simp
  moreover have "u64_be v = map (\<lambda>i. ucast (drop_bit ((8 - Suc i) * 8) v)) [0..<8]" by (simp add: u64_be_def)
  ultimately show ?thesis using be_bytes_value [of 8 v] by simp
qed

lemma length_u64_be [simp]: "length (u64_be v) = 8"
  by (simp add: u64_be_def)

subsection \<open>Transactions are short and decode to their fields\<close>

lemma length_encodeLength: "n < 256 ^ 8 \<Longrightarrow> length (encodeLength n off) \<le> 9"
  using length_encodeBinary [of n 8] by (simp add: encodeLength_def Let_def)

lemma length_write_buf: "length b \<le> 100 \<Longrightarrow> length (rlp_write (VBUF b)) \<le> 109"
  using length_encodeLength [of "length b" "0x80"] by (simp add: rlp_write.simps)

lemma length_write_bufs:
  assumes "\<forall>b \<in> set bs. length b \<le> 100"
  shows "length (concat (map rlp_write (map VBUF bs))) \<le> 109 * length bs"
  using assms
proof (induction bs)
  case (Cons b bs)
  then show ?case using length_write_buf [of b] by simp
qed simp

lemma decode_encode:
  assumes "\<forall>b \<in> set bs. length b \<le> 100" "length bs \<le> 1000" "1 < length bs"
  shows "decode (encode bs) = Inr (VARR (map VBUF bs))"
proof -
  let ?c = "concat (map rlp_write (map VBUF bs))"
  have c: "length ?c \<le> 109000" using length_write_bufs [OF assms(1)] assms(2) by linarith
  then have l: "length (rlp_write (VARR (map VBUF bs))) \<le> 109009"
    using length_encodeLength [of "length ?c" "0xC0"] by (simp add: rlp_write.simps Let_def)
  then have "int (length (rlp_write (VARR (map VBUF bs)) @ [])) < 2 ^ 32" by simp
  from read_rlp_write [OF this] have rd: "read (rlp_write (VARR (map VBUF bs))) = Some (VARR (map VBUF bs), length (rlp_write (VARR (map VBUF bs))))"
    by simp
  then have "rlp_write (VARR (map VBUF bs)) \<noteq> []" by (auto simp: read.simps)
  then show ?thesis using rd assms(3) by (simp add: encode_def decode_def)
qed

lemma length_to_byte_string_256: "length (to_byte_string_256 n) \<le> 32"
  unfolding to_byte_string_256_def by (rule order_trans [OF length_dropWhile_le]) simp

lemma evm_fields_decode:
  assumes "length to \<le> 100" "length data \<le> 100"
  shows "decode (encode (evm_fields nonce to data)) = Inr (VARR (map VBUF (evm_fields nonce to data)))"
proof (rule decode_encode)
  have "length (to_byte_string_256 n) \<le> 100" for n using length_to_byte_string_256 [of n] by simp
  moreover have "to_byte_string 0 = []" by (simp add: to_byte_string_def upt_rec)
  ultimately show "\<forall>b \<in> set (evm_fields nonce to data). length b \<le> 100" using assms by (simp add: evm_fields_def)
qed (simp_all add: evm_fields_def)

lemma send_evm_result:
  assumes "send_evm E V data s = Inr s'" "length data \<le> 100" "length (evm_voting_contract (voting_cfg s)) = 20"
  obtains r tx where "find_account V (get_self E) = Some r" "s' = emit (Evm_raw tx (ea_address r)) s"
    "decode tx = Inr (VARR (map VBUF (evm_fields (ea_nonce r) (evm_voting_contract (voting_cfg s)) data)))"
  using assms evm_fields_decode by (auto simp: send_evm_def split: option.splits)

subsection \<open>The votes are taken over once\<close>

lemma add_votes_frame:
  "add_votes c d bp s = Inr s' \<Longrightarrow> evm_votes s' = evm_votes s \<and> voting_cfg s' = voting_cfg s"
  by (auto simp: add_votes_def Let_def split: option.splits)

lemma update_evm_vote_frame:
  "update_evm_vote bp cur ch s = Inr (ch', s') \<Longrightarrow> evm_votes s' = fmupd bp cur (evm_votes s) \<and> voting_cfg s' = voting_cfg s \<and>
     (fmlookup (evm_votes s) bp = Some cur \<longrightarrow> ch' = ch)"
  by (auto simp: update_evm_vote_def result_simps dest!: add_votes_frame split: option.splits)

lemma evm_loop_frame:
  "evm_vote_loop votes bps ch s = Inr (ch', s') \<Longrightarrow> voting_cfg s' = voting_cfg s \<and>
     (\<forall>bp. fmlookup (evm_votes s') bp = (if bp \<in> set bps then votes bp else fmlookup (evm_votes s) bp)) \<and>
     (\<forall>bp \<in> set bps. votes bp \<noteq> None) \<and>
     ((\<forall>bp \<in> set bps. fmlookup (evm_votes s) bp = votes bp) \<longrightarrow> ch' = ch)"
proof (induction bps arbitrary: ch s)
  case (Cons bp bps)
  obtain cur ch1 s1 where c: "votes bp = Some cur" "update_evm_vote bp cur ch s = Inr (ch1, s1)" "evm_vote_loop votes bps ch1 s1 = Inr (ch', s')"
    using Cons.prems by (auto simp: result_simps)
  note f = update_evm_vote_frame [OF c(2)] and IH = Cons.IH [OF c(3)]
  have lk: "fmlookup (evm_votes s1) x = (if x = bp then Some cur else fmlookup (evm_votes s) x)" for x using f by simp
  show ?case using IH f c(1) lk by auto
qed simp

lemma evm_loop_fresh:
  assumes "\<forall>bp \<in> set bps. fmlookup (evm_votes s) bp = votes bp" "evm_vote_loop votes bps False s = Inr (ch', s')"
  shows "\<not> ch'"
  using evm_loop_frame [OF assms(2)] assms(1) by simp

text \<open>The votes that are taken over: each non-negative increase is added once to the producer and once to the total.\<close>

definition evm_counted :: "sys \<Rightarrow> name \<Rightarrow> int" where
  "evm_counted s bp = (case fmlookup (evm_votes s) bp of None \<Rightarrow> 0 | Some v \<Rightarrow> v div 10 ^ 14)"

definition clamped :: "double \<Rightarrow> bool" where
  "clamped d \<longleftrightarrow> d = PInf \<or> (\<exists>v \<ge> 0. d = Fin v)"

lemma clamped_rnd: "0 \<le> x \<Longrightarrow> clamped (rnd x)"
  using rv_nonneg [of x] by (auto simp: clamped_def rnd_def Let_def)

lemma clamped_add: "clamped d \<Longrightarrow> 0 \<le> k \<Longrightarrow> clamped (dadd d (d_of_int k))"
proof -
  assume d: "clamped d" and k: "0 \<le> k"
  have "clamped (d_of_int k)" unfolding d_of_int_def using k by (intro clamped_rnd) simp
  with d show ?thesis unfolding clamped_def [of d] clamped_def [of "d_of_int k"]
    by (elim disjE exE conjE) (simp_all add: clamped_def [of PInf] clamped_rnd)
qed

lemma clamped_dlt: "clamped d \<Longrightarrow> \<not> dlt d (Fin 0)"
  by (auto simp: clamped_def)

lemma update_evm_vote_adds:
  assumes "update_evm_vote bp cur ch s = Inr (ch', s')" "\<forall>p. fmlookup (producers s) bp = Some p \<longrightarrow> clamped (p_total_votes p)"
    "clamped (g_total_producer_vote_weight (gstate s))" "0 \<le> evm_counted s bp" "evm_counted s bp \<le> cur div 10 ^ 14" "cur div 10 ^ 14 < 2 ^ 64"
  shows "\<exists>p. fmlookup (producers s) bp = Some p \<and>
    producers s' = fmupd bp (p\<lparr>p_total_votes := dadd (p_total_votes p) (d_of_int (cur div 10 ^ 14 - evm_counted s bp))\<rparr>) (producers s) \<and>
    g_total_producer_vote_weight (gstate s') = dadd (g_total_producer_vote_weight (gstate s)) (d_of_int (cur div 10 ^ 14 - evm_counted s bp))"
proof -
  have n: "normalized cur = cur div 10 ^ 14" using assms(4-6) by (simp add: normalized_def u64_def)
  show ?thesis
  proof (cases "fmlookup (evm_votes s) bp")
    case None
    then have "evm_counted s bp = 0" by (simp add: evm_counted_def)
    then show ?thesis using assms(1) None n by (auto simp: update_evm_vote_def add_votes_def Let_def result_simps split: option.splits)
  next
    case (Some v)
    then have c: "evm_counted s bp = v div 10 ^ 14" by (simp add: evm_counted_def)
    have "normalized v = v div 10 ^ 14" using assms(4-6) by (simp add: c normalized_def u64_def)
    then have d: "u64 (normalized cur - normalized v) = cur div 10 ^ 14 - evm_counted s bp"
      using assms(4-6) unfolding n c by (simp add: u64_def)
    obtain p where p: "fmlookup (producers s) bp = Some p"
      using assms(1) Some by (auto simp: update_evm_vote_def add_votes_def split: option.splits)
    let ?d = "d_of_int (cur div 10 ^ 14 - evm_counted s bp)"
    have "\<not> dlt (dadd (p_total_votes p) ?d) (Fin 0)" "\<not> dlt (dadd (g_total_producer_vote_weight (gstate s)) ?d) (Fin 0)"
      using assms(2,3,5) p by (intro clamped_dlt clamped_add; simp)+
    then show ?thesis using assms(1) Some p unfolding update_evm_vote_def add_votes_def Let_def by (auto simp: d)
  qed
qed

lemma evm_loop_adds:
  assumes "evm_vote_loop votes bps ch s = Inr (ch', s')" "distinct bps"
    "\<forall>bp \<in> set bps. \<forall>p. fmlookup (producers s) bp = Some p \<longrightarrow> clamped (p_total_votes p)"
    "clamped (g_total_producer_vote_weight (gstate s))"
    "\<forall>bp \<in> set bps. 0 \<le> evm_counted s bp \<and> evm_counted s bp \<le> evm_counted s' bp \<and> evm_counted s' bp < 2 ^ 64"
  shows "(\<forall>k. fmlookup (producers s') k =
      (if k \<in> set bps then map_option (\<lambda>p. p\<lparr>p_total_votes := dadd (p_total_votes p) (d_of_int (evm_counted s' k - evm_counted s k))\<rparr>)
         (fmlookup (producers s) k) else fmlookup (producers s) k)) \<and>
    g_total_producer_vote_weight (gstate s') =
      fold (\<lambda>k t. dadd t (d_of_int (evm_counted s' k - evm_counted s k))) bps (g_total_producer_vote_weight (gstate s))"
  using assms
proof (induction bps arbitrary: ch s)
  case (Cons bp bps)
  obtain cur ch1 s1 where c: "votes bp = Some cur" "update_evm_vote bp cur ch s = Inr (ch1, s1)" "evm_vote_loop votes bps ch1 s1 = Inr (ch', s')"
    using Cons.prems(1) by (auto simp: result_simps)
  have "fmlookup (evm_votes s') bp = Some cur" using evm_loop_frame [OF Cons.prems(1)] c(1) by simp
  then have cur: "evm_counted s' bp = cur div 10 ^ 14" by (simp add: evm_counted_def)
  have b: "0 \<le> evm_counted s bp" "evm_counted s bp \<le> evm_counted s' bp" "evm_counted s' bp < 2 ^ 64" using Cons.prems(5) by simp_all
  obtain p where p: "fmlookup (producers s) bp = Some p"
    "producers s1 = fmupd bp (p\<lparr>p_total_votes := dadd (p_total_votes p) (d_of_int (evm_counted s' bp - evm_counted s bp))\<rparr>) (producers s)"
    "g_total_producer_vote_weight (gstate s1) = dadd (g_total_producer_vote_weight (gstate s)) (d_of_int (evm_counted s' bp - evm_counted s bp))"
    using update_evm_vote_adds [OF c(2)] Cons.prems(3,4) b unfolding cur by auto
  have cn: "evm_counted s1 k = evm_counted s k" if "k \<noteq> bp" for k
    using update_evm_vote_frame [OF c(2)] that by (simp add: evm_counted_def)
  have bps: "bp \<notin> set bps" "distinct bps" using Cons.prems(2) by simp_all
  have cn': "\<forall>k \<in> set bps. evm_counted s1 k = evm_counted s k" using cn bps(1) by metis
  have "clamped (g_total_producer_vote_weight (gstate s1))" using Cons.prems(4) b(2) unfolding p(3) by (intro clamped_add) simp_all
  moreover have "\<forall>bp \<in> set bps. \<forall>p. fmlookup (producers s1) bp = Some p \<longrightarrow> clamped (p_total_votes p)"
    using Cons.prems(3) bps(1) by (auto simp: p(2))
  moreover have "\<forall>bp \<in> set bps. 0 \<le> evm_counted s1 bp \<and> evm_counted s1 bp \<le> evm_counted s' bp \<and> evm_counted s' bp < 2 ^ 64"
    using Cons.prems(5) cn' by simp
  ultimately have IH: "\<forall>k. fmlookup (producers s') k =
      (if k \<in> set bps then map_option (\<lambda>p. p\<lparr>p_total_votes := dadd (p_total_votes p) (d_of_int (evm_counted s' k - evm_counted s1 k))\<rparr>)
         (fmlookup (producers s1) k) else fmlookup (producers s1) k)"
    "g_total_producer_vote_weight (gstate s') =
      fold (\<lambda>k t. dadd t (d_of_int (evm_counted s' k - evm_counted s1 k))) bps (g_total_producer_vote_weight (gstate s1))"
    using Cons.IH [OF c(3) bps(2)] by blast+
  have "fold (\<lambda>k t. dadd t (d_of_int (evm_counted s' k - evm_counted s1 k))) bps t =
    fold (\<lambda>k t. dadd t (d_of_int (evm_counted s' k - evm_counted s k))) bps t" for t
    by (rule fold_cong) (use cn' in auto)
  then show ?case using IH cn' bps(1) p by auto
qed simp

text \<open>A number below \<open>2 ^ 256\<close> is the value of its bytes, of which the first is not zero.\<close>

lemma checksum_dropWhile: "checksum256ToValue (dropWhile (\<lambda>b. b = 0) bs) = checksum256ToValue bs"
  by (induction bs) (auto simp: checksum256ToValue_def)

lemma nat_bytes_value:
  "checksum256ToValue (map (\<lambda>i. byte (m div 256 ^ (n - Suc i))) [0..<n]) = int m mod 256 ^ n"
proof (induction n)
  case (Suc n)
  have l: "map (\<lambda>i. byte (m div 256 ^ (Suc n - Suc i))) [0..<Suc n] =
     byte (m div 256 ^ n) # map (\<lambda>i. byte (m div 256 ^ (n - Suc i))) [0..<n]"
    by (simp only: upt_conv_Cons [OF zero_less_Suc] map_Suc_upt [symmetric]) (simp add: comp_def)
  have "uint (byte (m div 256 ^ n)) = (int m div 256 ^ n) mod 256"
    using unat_byte [of "m div 256 ^ n"] by (simp add: uint_nat zdiv_int zmod_int)
  then have "checksum256ToValue (map (\<lambda>i. byte (m div 256 ^ (Suc n - Suc i))) [0..<Suc n]) =
     (int m div 256 ^ n) mod 256 * 256 ^ n + int m mod 256 ^ n"
    unfolding l using checksum_append [of "[byte (m div 256 ^ n)]"] by (simp add: checksum_single Suc.IH)
  also have "\<dots> = int m mod (256 ^ n * 256)"
    using zmod_zmult2_eq [of 256 "int m" "256 ^ n"] by (simp only: mult.commute [of "int m div 256 ^ n mod 256"])
  finally show ?case by (simp add: mult.commute)
qed (simp add: checksum256ToValue_def)

lemma to_byte_string_256_value: "int n < 2 ^ 256 \<Longrightarrow> checksum256ToValue (to_byte_string_256 n) = int n"
proof -
  assume "int n < 2 ^ 256"
  then have "int n mod 256 ^ 32 = int n" by simp
  moreover have "to_byte_string_256 n = dropWhile (\<lambda>b. b = 0) (map (\<lambda>i. byte (n div 256 ^ (32 - Suc i))) [0..<32])"
    by (simp add: to_byte_string_256_def)
  ultimately show ?thesis using nat_bytes_value [of n 32] by (simp add: checksum_dropWhile)
qed

lemma to_byte_string_256_hd: "to_byte_string_256 n = [] \<or> hd (to_byte_string_256 n) \<noteq> 0"
  unfolding to_byte_string_256_def using hd_dropWhile by blast

lemma evm_fields_literal:
  "evm_fields nonce to data = [to_byte_string_256 (nat nonce), [], [0x01, 0x86, 0xA0], to, [], data, [], [], []]"
proof -
  have z: "byte (DEFAULT_GAS_LIMIT div 256 ^ (31 - i)) = 0" if "i < 29" for i
  proof -
    have "(256 :: nat) ^ 3 \<le> 256 ^ (31 - i)" using that by (intro power_increasing) auto
    then have "DEFAULT_GAS_LIMIT < 256 ^ (31 - i)" by (simp add: DEFAULT_GAS_LIMIT_def)
    then show ?thesis by (simp add: byte_def)
  qed
  have u: "[0..<32] = [0..<29] @ [29, 30, 31 :: nat]" using upt_add_eq_append [of 0 29 3] by (simp add: upt_conv_Cons)
  have "to_byte_string_256 DEFAULT_GAS_LIMIT = [0x01, 0x86, 0xA0]"
    unfolding to_byte_string_256_def u map_append
    by (subst dropWhile_append2) (use z in force, simp add: DEFAULT_GAS_LIMIT_def byte_def)
  moreover have "to_byte_string_256 0 = []" by (simp add: to_byte_string_256_def dropWhile_eq_Nil_conv byte_def)
  moreover have "to_byte_string 0 = []" by (simp add: to_byte_string_def upt_rec)
  ultimately show ?thesis by (simp only: evm_fields_def)
qed

subsection \<open>Theorems\<close>

text \<open>
  C21. Setting the decay parameters stores them, bounded by 100 percent, and sends exactly one transaction to the EVM, from the
  address of the contract's EVM account.  Its bytes decode to nine fields: the nonce of that account, gas price zero, the
  gas limit 100000, the address of the voting contract, no value, the call data, and an empty signature.  The call data are the
  selector \<open>0x5d32ff31\<close> and two words of 32 bytes, the start and the yearly increase scaled by \<open>10 ^ 16\<close>.
\<close>

theorem decay_transaction:
  assumes r: "setvotedecay E V start increase s = Inr s'"
    and rng: "0 \<le> start" "start < 2 ^ 64" "0 \<le> increase" and a: "length (evm_voting_contract (voting_cfg s)) = 20"
    and nonce: "\<forall>row. find_account V (get_self E) = Some row \<longrightarrow> 0 \<le> ea_nonce row \<and> ea_nonce row < 2 ^ 256"
  shows "\<exists>row tx nonce_bytes start_word increase_word. has_auth E (get_self E) \<and> increase \<le> 100 \<and>
    voting_cfg s' = (voting_cfg s)\<lparr>decay_start_epoch := start, decay_increase_yearly := increase\<rparr> \<and>
    find_account V (get_self E) = Some row \<and> effects s' = effects s @ [Evm_raw tx (ea_address row)] \<and>
    decode tx = Inr (VARR [VBUF nonce_bytes, VBUF [], VBUF [0x01, 0x86, 0xA0], VBUF (evm_voting_contract (voting_cfg s)), VBUF [],
      VBUF ([0x5d, 0x32, 0xff, 0x31] @ start_word @ increase_word), VBUF [], VBUF [], VBUF []]) \<and>
    checksum256ToValue nonce_bytes = ea_nonce row \<and> (nonce_bytes = [] \<or> hd nonce_bytes \<noteq> 0) \<and>
    length start_word = 32 \<and> checksum256ToValue start_word = start \<and>
    length increase_word = 32 \<and> checksum256ToValue increase_word = increase * 10 ^ 16"
proof -
  let ?s1 = "s\<lparr>voting_cfg := (voting_cfg s)\<lparr>decay_start_epoch := start, decay_increase_yearly := increase\<rparr>\<rparr>"
  let ?sw = "replicate 24 0 @ u64_be (word_of_int start)" and ?iw = "replicate 24 0 @ u64_be (word_of_int (increase * 10000000000000000))"
  let ?data = "decay_data (word_of_int start) (word_of_int (increase * 10000000000000000))"
  have g: "has_auth E (get_self E)" "increase \<le> 100" and sd: "send_evm E V ?data ?s1 = Inr s'"
    using r by (auto simp: setvotedecay_def result_simps Let_def)
  have data: "?data = [0x5d, 0x32, 0xff, 0x31] @ ?sw @ ?iw" by (simp add: decay_data_def SET_DECAY_PARAMS_SELECTOR_def)
  have len: "length ?data = 68" by (simp add: decay_data_def SET_DECAY_PARAMS_SELECTOR_def)
  obtain row tx where t: "find_account V (get_self E) = Some row" "s' = emit (Evm_raw tx (ea_address row)) ?s1"
    "decode tx = Inr (VARR (map VBUF (evm_fields (ea_nonce row) (evm_voting_contract (voting_cfg s)) ?data)))"
    using send_evm_result [OF sd] len a by auto
  have u: "uint (word_of_int x :: 64 word) = x" if "0 \<le> x" "x < 2 ^ 64" for x
    using that by (simp add: uint_word_of_int)
  have v: "uint (word_of_int start :: 64 word) = start"
    "uint (word_of_int (increase * 10000000000000000) :: 64 word) = increase * 10000000000000000"
    using rng g(2) by (intro u; simp)+
  have w: "checksum256ToValue ?sw = start" "checksum256ToValue ?iw = increase * 10 ^ 16"
    unfolding checksum_zeros u64_be_value v by simp_all
  have n: "checksum256ToValue (to_byte_string_256 (nat (ea_nonce row))) = ea_nonce row"
    using nonce t(1) to_byte_string_256_value [of "nat (ea_nonce row)"] by simp
  have d: "decode tx = Inr (VARR [VBUF (to_byte_string_256 (nat (ea_nonce row))), VBUF [], VBUF [0x01, 0x86, 0xA0],
      VBUF (evm_voting_contract (voting_cfg s)), VBUF [], VBUF ([0x5d, 0x32, 0xff, 0x31] @ ?sw @ ?iw), VBUF [], VBUF [], VBUF []])"
    unfolding t(3) evm_fields_literal data list.map ..
  have "voting_cfg s' = voting_cfg ?s1" "effects s' = effects s @ [Evm_raw tx (ea_address row)]" by (simp_all add: t(2) emit_def)
  then show ?thesis using g t(1) d w n to_byte_string_256_hd [of "nat (ea_nonce row)"]
    by (intro exI [of _ row] exI [of _ tx] exI [of _ "to_byte_string_256 (nat (ea_nonce row))"] exI [of _ ?sw] exI [of _ ?iw] conjI)
      (simp_all del: append_assoc)
qed

definition demo_evm :: evm_env where
  "demo_evm = \<lparr>evm_rows = [\<lparr>ea_index = 0, ea_address = replicate 20 1, ea_account = eosio_account, ea_nonce = 5\<rparr>,
      \<lparr>ea_index = 1, ea_address = replicate 20 2, ea_account = 0, ea_nonce = 1\<rparr>],
     evm_storage = (\<lambda>i k. if i = 1 then Some (replicate 18 0 @ [9] @ replicate 13 0) else None), keccak = (\<lambda>bs. bs)\<rparr>"

definition demo_evm_sys :: sys where
  "demo_evm_sys = sys0\<lparr>voting_cfg := (voting_cfg sys0)\<lparr>evm_voting_contract := replicate 20 2\<rparr>,
     producers := fmupd 7 (demo_producer 7 0) fmempty\<rparr>"

theorem decay_transaction_witness:
  "\<exists>s' tx. setvotedecay (sdk_env eosio_account 1) demo_evm 1000 50 demo_evm_sys = Inr s' \<and> effects s' = [Evm_raw tx (replicate 20 1)] \<and>
     decay_increase_yearly (voting_cfg s') = 50"
proof -
  have "find_account demo_evm eosio_account = Some \<lparr>ea_index = 0, ea_address = replicate 20 1, ea_account = eosio_account, ea_nonce = 5\<rparr>"
    by (simp add: find_account_def demo_evm_def)
  moreover have self: "get_self (sdk_env eosio_account 1) = eosio_account" by (simp add: sdk_env_def)
  ultimately have fa: "find_account demo_evm (get_self (sdk_env eosio_account 1)) = Some \<lparr>ea_index = 0, ea_address = replicate 20 1, ea_account = eosio_account, ea_nonce = 5\<rparr>"
    by simp
  have cs: "contract_set demo_evm_sys" "length (evm_voting_contract (voting_cfg demo_evm_sys)) = 20" "effects demo_evm_sys = []"
    by (simp_all add: contract_set_def demo_evm_sys_def sys0_def)
  have "\<exists>s'. setvotedecay (sdk_env eosio_account 1) demo_evm 1000 50 demo_evm_sys = Inr s'"
    using cs(1) fa by (simp add: setvotedecay_def send_evm_def) (simp add: sdk_env_def)
  then obtain s' where s': "setvotedecay (sdk_env eosio_account 1) demo_evm 1000 50 demo_evm_sys = Inr s'" ..
  have "\<forall>row. find_account demo_evm (get_self (sdk_env eosio_account 1)) = Some row \<longrightarrow> 0 \<le> ea_nonce row \<and> ea_nonce row < 2 ^ 256"
    unfolding fa by simp
  from decay_transaction [OF s' _ _ _ cs(2) this] show ?thesis using cs fa s' by auto
qed

text \<open>
  The status of a producer is only sent to the EVM when the EVM has the other status, and the transaction that is
  sent decodes to a call of \<open>registerBP\<close> for an active and of \<open>unregisterBP\<close> for an inactive
  producer, with the producer's name as its argument.
\<close>

theorem status_transaction:
  assumes r: "setbpevmstat E V bp s = Inr s'" and a: "length (evm_voting_contract (voting_cfg s)) = 20"
  shows "\<exists>p row tx v data. fmlookup (producers s) bp = Some p \<and> effects s' = effects s @ [Evm_raw tx (ea_address row)] \<and>
    find_account V (get_self E) = Some row \<and>
    (\<exists>c. find_address V (evm_voting_contract (voting_cfg s)) = Some c \<and>
       evm_storage V (ea_index c) (keccak V (memory_location STATUS_STORAGE_SLOT bp)) = Some v) \<and>
    (p_is_active p \<longleftrightarrow> v ! 31 = 0) \<and>
    decode tx = Inr (VARR (map VBUF (evm_fields (ea_nonce row) (evm_voting_contract (voting_cfg s)) data))) \<and>
    take 4 data = (if p_is_active p then REGISTER_BP_SELECTOR else UNREGISTER_BP_SELECTOR) \<and>
    checksum256ToValue (drop 4 data) = uint bp \<and> length data = 36"
proof -
  obtain p c v where g: "fmlookup (producers s) bp = Some p" "find_address V (evm_voting_contract (voting_cfg s)) = Some c"
      "evm_storage V (ea_index c) (keccak V (memory_location STATUS_STORAGE_SLOT bp)) = Some v" "p_is_active p \<noteq> (v ! 31 \<noteq> 0)"
    and sd: "send_evm E V (status_data (p_is_active p) bp) s = Inr s'"
    using r by (auto simp: setbpevmstat_def result_simps)
  let ?data = "status_data (p_is_active p) bp"
  have len: "length ?data = 36" by (simp add: status_data_def REGISTER_BP_SELECTOR_def UNREGISTER_BP_SELECTOR_def)
  obtain row tx where t: "find_account V (get_self E) = Some row" "s' = emit (Evm_raw tx (ea_address row)) s"
    "decode tx = Inr (VARR (map VBUF (evm_fields (ea_nonce row) (evm_voting_contract (voting_cfg s)) ?data)))"
    using send_evm_result [OF sd _ a] len by auto
  have d: "take 4 ?data = (if p_is_active p then REGISTER_BP_SELECTOR else UNREGISTER_BP_SELECTOR)"
    "drop 4 ?data = replicate 24 0 @ u64_be bp"
    by (simp_all add: status_data_def REGISTER_BP_SELECTOR_def UNREGISTER_BP_SELECTOR_def)
  have "checksum256ToValue (drop 4 ?data) = uint bp" unfolding d(2) checksum_zeros u64_be_value ..
  moreover have "effects s' = effects s @ [Evm_raw tx (ea_address row)]" by (simp add: t(2) emit_def)
  ultimately show ?thesis using g t(1,3) d(1) len
    by (intro exI [of _ p] exI [of _ row] exI [of _ tx] exI [of _ v] exI [of _ ?data]) auto
qed

lemma demo_status_run: "\<exists>s'. setbpevmstat (sdk_env eosio_account 1) demo_evm 7 demo_evm_sys = Inr s'"
proof -
  have "find_account demo_evm (get_self (sdk_env eosio_account 1)) = Some (hd (evm_rows demo_evm))"
    by (simp add: find_account_def demo_evm_def sdk_env_def)
  moreover have "find_address demo_evm (replicate 20 2) = Some (evm_rows demo_evm ! 1)"
    by (simp add: find_address_def pad160_def demo_evm_def numeral_eq_Suc)
  moreover have "evm_storage demo_evm (ea_index (evm_rows demo_evm ! 1)) k = Some (replicate 18 0 @ [9] @ replicate 13 0)" for k
    by (simp add: demo_evm_def)
  moreover have "(replicate 18 0 @ [9] @ replicate 13 (0 :: byte)) ! 31 = 0" by code_simp
  moreover have "contract_set demo_evm_sys" "evm_voting_contract (voting_cfg demo_evm_sys) = replicate 20 2"
    "fmlookup (producers demo_evm_sys) 7 = Some (demo_producer 7 0)"
    by (simp_all add: contract_set_def demo_evm_sys_def sys0_def)
  ultimately show ?thesis by (simp add: setbpevmstat_def send_evm_def demo_producer_def)
qed

theorem status_transaction_witness:
  "\<exists>s' tx (row :: evm_row). setbpevmstat (sdk_env eosio_account 1) demo_evm 7 demo_evm_sys = Inr s' \<and> effects s' = [Evm_raw tx (ea_address row)]"
proof -
  obtain s' where s': "setbpevmstat (sdk_env eosio_account 1) demo_evm 7 demo_evm_sys = Inr s'" using demo_status_run ..
  have l: "length (evm_voting_contract (voting_cfg demo_evm_sys)) = 20" and e: "effects demo_evm_sys = []"
    by (simp_all add: demo_evm_sys_def sys0_def)
  from status_transaction [OF s' l] obtain tx and row :: evm_row where "effects s' = effects demo_evm_sys @ [Evm_raw tx (ea_address row)]" by blast
  then have "effects s' = [Evm_raw tx (ea_address row)]" by (simp add: e)
  with s' show ?thesis by blast
qed

text \<open>
  C20. The votes of the EVM are taken over once.  After a successful run the recorded vote of every listed producer is the vote
  in the storage of the EVM, no other record changes, and running the action again on the same EVM state
  fails.  When no listed vote fell and the votes in units of \<open>10 ^ 14\<close> fit 64 bits, every listed producer's total has grown once by
  the difference between its recorded votes after and before the run, no other producer changed, and the total over all
  producers has grown by each of these differences once (all sums in double precision).
\<close>

theorem evm_votes_once:
  assumes r: "getevmvote V bps s = Inr s'"
    and votes: "\<forall>bp \<in> set bps. \<forall>p. fmlookup (producers s) bp = Some p \<longrightarrow> (\<exists>v \<ge> 0. p_total_votes p = Fin v)"
      "\<exists>v \<ge> 0. g_total_producer_vote_weight (gstate s) = Fin v"
    and grown: "\<forall>bp \<in> set bps. 0 \<le> evm_counted s bp \<and> evm_counted s bp \<le> evm_counted s' bp \<and> evm_counted s' bp < 2 ^ 64"
  shows "(\<exists>c. find_address V (evm_voting_contract (voting_cfg s)) = Some c \<and>
       (\<forall>bp. fmlookup (evm_votes s') bp = (if bp \<in> set bps then stored_vote V c bp else fmlookup (evm_votes s) bp)) \<and>
       (\<forall>bp \<in> set bps. stored_vote V c bp \<noteq> None)) \<and>
    (\<forall>bp. fmlookup (producers s') bp =
      (if bp \<in> set bps then map_option (\<lambda>p. p\<lparr>p_total_votes := dadd (p_total_votes p) (d_of_int (evm_counted s' bp - evm_counted s bp))\<rparr>)
         (fmlookup (producers s) bp) else fmlookup (producers s) bp)) \<and>
    g_total_producer_vote_weight (gstate s') =
      fold (\<lambda>bp t. dadd t (d_of_int (evm_counted s' bp - evm_counted s bp))) bps (g_total_producer_vote_weight (gstate s)) \<and>
    (\<exists>e. getevmvote V bps s' = Inl e)"
proof -
  obtain c where c: "find_address V (evm_voting_contract (voting_cfg s)) = Some c" "sorted_wrt (<) bps"
    and l: "evm_vote_loop (stored_vote V c) bps False s = Inr (True, s')"
    using r by (auto simp: getevmvote_def result_simps successively_conv_sorted_wrt)
  note f = evm_loop_frame [OF l]
  have d: "distinct bps" using c(2) by (simp add: strict_sorted_iff)
  have "\<exists>e. getevmvote V bps s' = Inl e"
  proof (rule ccontr)
    assume "\<not> ?thesis"
    then obtain s'' where "getevmvote V bps s' = Inr s''" by (cases "getevmvote V bps s'") auto
    then have "evm_vote_loop (stored_vote V c) bps False s' = Inr (True, s'')"
      using c f by (auto simp: getevmvote_def result_simps)
    from evm_loop_fresh [OF _ this] show False using f by auto
  qed
  moreover have "\<forall>bp \<in> set bps. \<forall>p. fmlookup (producers s) bp = Some p \<longrightarrow> clamped (p_total_votes p)"
    "clamped (g_total_producer_vote_weight (gstate s))" using votes unfolding clamped_def by blast+
  note a = evm_loop_adds [OF l d this grown]
  ultimately show ?thesis using c(1) f a by blast
qed

definition demo_vote_sys :: sys where
  "demo_vote_sys = demo_evm_sys\<lparr>evm_votes := fmupd 7 (9 * 10 ^ 14) fmempty\<rparr>"

lemma demo_votes_run:
  "case getevmvote demo_evm [7] demo_vote_sys of Inl _ \<Rightarrow> False | Inr s' \<Rightarrow> fmlookup (evm_votes s') 7 = Some (9 * 256 ^ 13)"
  by code_simp

theorem evm_votes_once_witness:
  "\<exists>s' e. getevmvote demo_evm [7] demo_vote_sys = Inr s' \<and> getevmvote demo_evm [7] s' = Inl e \<and>
     map_option p_total_votes (fmlookup (producers s') 7) = Some (dadd (Fin 5) (d_of_int (9 * 256 ^ 13 div 10 ^ 14 - 9)))"
proof -
  obtain s' where s': "getevmvote demo_evm [7] demo_vote_sys = Inr s'" "fmlookup (evm_votes s') 7 = Some (9 * 256 ^ 13)"
    using demo_votes_run by (auto split: sum.splits)
  have c: "evm_counted demo_vote_sys 7 = 9" "evm_counted s' 7 = 9 * 256 ^ 13 div 10 ^ 14"
    using s'(2) by (simp_all add: evm_counted_def demo_vote_sys_def)
  have p: "fmlookup (producers demo_vote_sys) 7 = Some (demo_producer 7 0)" "g_total_producer_vote_weight (gstate demo_vote_sys) = Fin 0"
    by (simp_all add: demo_vote_sys_def demo_evm_sys_def sys0_def)
  have "(9 * 256 ^ 13 div 10 ^ 14 :: int) < 2 ^ 64" by simp
  show ?thesis using evm_votes_once [OF s'(1)] c p s'(1) by (auto simp: demo_producer_def)
qed

text \<open>
  C38. A vote that decreased in the EVM is not subtracted: the difference of the two normalized votes is taken on
  unsigned 64-bit numbers, so the producer gains about \<open>2 ^ 64\<close> votes instead of losing some.
\<close>

theorem evm_vote_decrease_wraps:
  assumes "fmlookup (evm_votes s) bp = Some previous" and "fmlookup (producers s) bp = Some p" and "p_total_votes p = Fin v"
    and "0 \<le> current" "normalized current < normalized previous" and "0 \<le> v"
  shows "\<exists>ch s' p'. update_evm_vote bp current b s = Inr (ch, s') \<and> fmlookup (producers s') bp = Some p' \<and>
     p_total_votes p' = dadd (Fin v) (d_of_int (2 ^ 64 - (normalized previous - normalized current)))"
proof -
  have r: "0 \<le> normalized current" "normalized previous < 2 ^ 64" unfolding normalized_def by (rule u64_range)+
  have w: "u64 (normalized current - normalized previous) = 2 ^ 64 - (normalized previous - normalized current)"
    unfolding u64_def using r assms(5) by (subst mod_add_self1 [symmetric], subst mod_pos_pos_trivial) auto
  define k where "k = u64 (normalized current - normalized previous)"
  have k: "0 \<le> k" by (simp add: k_def)
  have "0 \<le> rv (of_int k)" "0 \<le> rv (v + rv (of_int k))" using k assms(6) by (simp_all add: rv_nonneg)
  then have "\<not> dlt (dadd (Fin v) (d_of_int k)) (Fin 0)" by (auto simp: d_of_int_def rnd_def Let_def)
  then have "\<exists>ch s' p'. update_evm_vote bp current b s = Inr (ch, s') \<and> fmlookup (producers s') bp = Some p' \<and>
     p_total_votes p' = dadd (Fin v) (d_of_int k)"
    using assms(1,2,3) by (simp add: update_evm_vote_def add_votes_def Let_def k_def [symmetric])
  then show ?thesis unfolding k_def w .
qed

theorem evm_vote_decrease_wraps_witness:
  "\<exists>ch s' p'. update_evm_vote 7 (4 * 100000000000000) False (demo_evm_sys\<lparr>evm_votes := fmupd 7 (9 * 100000000000000) fmempty\<rparr>) = Inr (ch, s') \<and>
     fmlookup (producers s') 7 = Some p' \<and> p_total_votes p' = dadd (Fin 5) (d_of_int (2 ^ 64 - 5))"
proof -
  have n: "normalized (4 * 100000000000000) = 4" "normalized (9 * 100000000000000) = 9" by (simp_all add: normalized_def u64_def)
  show ?thesis
    using evm_vote_decrease_wraps [of "demo_evm_sys\<lparr>evm_votes := fmupd 7 (9 * 100000000000000) fmempty\<rparr>" 7 "9 * 100000000000000"
        "demo_producer 7 0" 5 "4 * 100000000000000" False] n
    by (simp add: demo_evm_sys_def demo_producer_def)
qed

end
