(* ===== verification/Powerup.thy ===== *)
theory Powerup
  imports Rex Block_Info
begin

section \<open>The PowerUp resource market\<close>

text \<open>
  Model of \<open>powerup.cpp\<close>: a market per resource with a weight that grows while its ratio shrinks linearly,
  a utilization that is sold for a number of days and an adjusted utilization that decays exponentially
  after a sale expires, and a fee that is the integral of a price curve.  Times are seconds.

  \<open>cfgpowerup\<close> fills the arguments that are not given by assigning through \<open>operator*\<close> of an empty
  \<open>std::optional\<close> and reads the value back through \<open>operator*\<close>; the model uses the value so stored.
\<close>

definition powerup_frac :: int where "powerup_frac = 1000000000000000"

record powerup_config_resource =
  c_current_weight_ratio :: "int option"
  c_target_weight_ratio :: "int option"
  c_assumed_stake_weight :: "int option"
  c_target_timestamp :: "int option"
  c_exponent :: "double option"
  c_decay_secs :: "int option"
  c_min_price :: "asset option"
  c_max_price :: "asset option"

record powerup_config =
  c_net :: powerup_config_resource
  c_cpu :: powerup_config_resource
  c_powerup_days :: "int option"
  c_min_powerup_fee :: "asset option"

definition default_asset :: asset where "default_asset = \<lparr>amount = 0, sym = \<lparr>scode = 0, sprec = 0\<rparr>\<rparr>"

definition default_resource :: powerup_state_resource where
  "default_resource = \<lparr>pr_weight = 0, pr_weight_ratio = 0, pr_assumed_stake_weight = 0, pr_initial_weight_ratio = powerup_frac,
     pr_target_weight_ratio = powerup_frac div 100, pr_initial_timestamp = 0, pr_target_timestamp = 0, pr_exponent = Fin 2,
     pr_decay_secs = 86400, pr_min_price = default_asset, pr_max_price = default_asset, pr_utilization = 0,
     pr_adjusted_utilization = 0, pr_utilization_timestamp = 0\<rparr>"

definition default_state :: powerup_state where
  "default_state = \<lparr>pw_net = default_resource, pw_cpu = default_resource, pw_days = 30, pw_min_fee = default_asset\<rparr>"

subsection \<open>Resources of an account\<close>

definition powerup_row :: "env \<Rightarrow> name \<Rightarrow> symbol \<Rightarrow> int \<Rightarrow> int \<Rightarrow> sys \<Rightarrow> user_resources result" where
  "powerup_row E account y net_delta cpu_delta s =
     (case fmlookup (userres s) account of
        None \<Rightarrow>
          (case asset_new E net_delta y of Inl e \<Rightarrow> Inl e | Inr n \<Rightarrow>
          (case asset_new E cpu_delta y of Inl e \<Rightarrow> Inl e | Inr c \<Rightarrow>
          Inr \<lparr>u_net_weight = n, u_cpu_weight = c, u_ram_bytes = 0\<rparr>))
      | Some u \<Rightarrow> Inr (u\<lparr>u_net_weight := add_amt (u_net_weight u) net_delta,
                         u_cpu_weight := add_amt (u_cpu_weight u) cpu_delta\<rparr>))"

definition store_powerup :: "name \<Rightarrow> user_resources \<Rightarrow> sys \<Rightarrow> sys" where
  "store_powerup account u s =
     (let nm = net_managed s account; cm = cpu_managed s account;
          (ram, net, cpu) = res_limits s account;
          s1 = (if \<not> (nm \<and> cm)
                then set_resource_limits account
                       (if ram_managed s account then ram else max (i64 (u_ram_bytes u + ram_gift_bytes)) ram)
                       (if nm then net else amount (u_net_weight u)) (if cm then cpu else amount (u_cpu_weight u)) s
                else s)
      in if amount (u_net_weight u) = 0 \<and> amount (u_cpu_weight u) = 0 \<and> u_ram_bytes u = 0
         then s1\<lparr>userres := fmdrop account (userres s1)\<rparr>
         else s1\<lparr>userres := fmupd account u (userres s1)\<rparr>)"

definition adjust_resources :: "env \<Rightarrow> name \<Rightarrow> symbol \<Rightarrow> int \<Rightarrow> int \<Rightarrow> bool \<Rightarrow> sys \<Rightarrow> sys result" where
  "adjust_resources E account y net_delta cpu_delta must_not_be_managed s =
     (if net_delta = 0 \<and> cpu_delta = 0 then Inr s else
      (case powerup_row E account y net_delta cpu_delta s of Inl e \<Rightarrow> Inl e | Inr u \<Rightarrow>
      if \<not> 0 \<le> amount (u_net_weight u) then Inl (Check ''insufficient staked total net bandwidth'') else
      if \<not> 0 \<le> amount (u_cpu_weight u) then Inl (Check ''insufficient staked total cpu bandwidth'') else
      if must_not_be_managed \<and> (net_managed s account \<or> cpu_managed s account)
      then Inl (Check ''something is managed which shouldn't be'') else
      Inr (store_powerup account u s)))"

subsection \<open>Weight and utilization\<close>

definition weight_ratio_at :: "int \<Rightarrow> powerup_state_resource \<Rightarrow> int result" where
  "weight_ratio_at now res =
     (if pr_target_timestamp res \<le> now then Inr (pr_target_weight_ratio res) else
      if u32 (pr_target_timestamp res - pr_initial_timestamp res) = 0 then Inl (Trap ''integer divide by zero'') else
      Inr (i64 (pr_initial_weight_ratio res +
        tdiv (i64 (pr_target_weight_ratio res - pr_initial_weight_ratio res) * u32 (now - pr_initial_timestamp res))
          (u32 (pr_target_timestamp res - pr_initial_timestamp res)))))"

definition update_weight :: "int \<Rightarrow> powerup_state_resource \<times> int \<Rightarrow> (powerup_state_resource \<times> int) result" where
  "update_weight now rd =
     (case rd of (res, delta_available) \<Rightarrow>
      (case weight_ratio_at now res of Inl e \<Rightarrow> Inl e | Inr ratio \<Rightarrow>
      if ratio = 0 then Inl (Trap ''integer divide by zero'') else
      let new_weight = i64 (tdiv (pr_assumed_stake_weight res * powerup_frac) ratio - pr_assumed_stake_weight res)
      in Inr (res\<lparr>pr_weight_ratio := ratio, pr_weight := new_weight\<rparr>,
              i64 (delta_available + i64 (new_weight - pr_weight res)))))"

definition decayed :: "env \<Rightarrow> int \<Rightarrow> powerup_state_resource \<Rightarrow> int result" where
  "decayed E now res =
     (let diff = i64 (pr_adjusted_utilization res - pr_utilization res) in
      (case d_to_i64 (dmul (d_of_int diff)
              (std_exp E (ddiv (dneg (d_of_int (u32 (now - pr_utilization_timestamp res)))) (d_of_int (pr_decay_secs res))))) of
        Inl e \<Rightarrow> Inl e
      | Inr delta \<Rightarrow> Inr (if delta < 0 then 0 else if diff < delta then diff else delta)))"

definition update_utilization :: "env \<Rightarrow> int \<Rightarrow> powerup_state_resource \<Rightarrow> powerup_state_resource result" where
  "update_utilization E now res =
     (if now \<le> pr_utilization_timestamp res then Inr res else
      if pr_adjusted_utilization res \<le> pr_utilization res
      then Inr (res\<lparr>pr_adjusted_utilization := pr_utilization res, pr_utilization_timestamp := now\<rparr>) else
      (case decayed E now res of Inl e \<Rightarrow> Inl e | Inr delta \<Rightarrow>
      Inr (res\<lparr>pr_adjusted_utilization := i64 (pr_utilization res + delta), pr_utilization_timestamp := now\<rparr>)))"

subsection \<open>Expired orders\<close>

definition first_order :: "sys \<Rightarrow> (int \<times> powerup_order) option" where
  "first_order s =
     (case sort_key (\<lambda>r. po_expires (snd r))
             (map (\<lambda>k. (k, the (fmlookup (powup_orders s) k))) (sorted_list_of_fset (fmdom (powup_orders s)))) of
        [] \<Rightarrow> None | r # _ \<Rightarrow> Some r)"

fun expire_orders :: "env \<Rightarrow> symbol \<Rightarrow> int \<Rightarrow> nat \<Rightarrow> int \<Rightarrow> int \<Rightarrow> sys \<Rightarrow> (int \<times> int \<times> sys) result" where
  "expire_orders E y now 0 net cpu s = Inr (net, cpu, s)"
| "expire_orders E y now (Suc n) net cpu s =
     (case first_order s of None \<Rightarrow> Inr (net, cpu, s)
      | Some (k, ord) \<Rightarrow>
          if now < po_expires ord then Inr (net, cpu, s) else
          (case adjust_resources E (po_owner ord) y (i64 (- po_net_weight ord)) (i64 (- po_cpu_weight ord)) False s of
            Inl e \<Rightarrow> Inl e
          | Inr s1 \<Rightarrow> expire_orders E y now n (i64 (net + po_net_weight ord)) (i64 (cpu + po_cpu_weight ord))
                        (s1\<lparr>powup_orders := fmdrop k (powup_orders s1)\<rparr>)))"

definition release :: "int \<Rightarrow> powerup_state_resource \<Rightarrow> powerup_state_resource" where
  "release n res = res\<lparr>pr_utilization := i64 (pr_utilization res - n)\<rparr>"

definition process_powerup_queue ::
  "env \<Rightarrow> symbol \<Rightarrow> powerup_state \<Rightarrow> nat \<Rightarrow> sys \<Rightarrow> (powerup_state \<times> int \<times> int \<times> sys) result" where
  "process_powerup_queue E y st max_items s =
     (let now = current_sec E in
      (case update_utilization E now (pw_net st) of Inl e \<Rightarrow> Inl e | Inr n1 \<Rightarrow>
      (case update_utilization E now (pw_cpu st) of Inl e \<Rightarrow> Inl e | Inr c1 \<Rightarrow>
      (case expire_orders E y now max_items 0 0 s of Inl e \<Rightarrow> Inl e | Inr (net, cpu, s1) \<Rightarrow>
      (case update_weight now (release net n1, net) of Inl e \<Rightarrow> Inl e | Inr (n2, net') \<Rightarrow>
      (case update_weight now (release cpu c1, cpu) of Inl e \<Rightarrow> Inl e | Inr (c2, cpu') \<Rightarrow>
      Inr (st\<lparr>pw_net := n2, pw_cpu := c2\<rparr>, net', cpu', s1)))))))"

subsection \<open>Configuration\<close>

definition is_default_asset :: "asset \<Rightarrow> bool" where
  "is_default_asset a \<longleftrightarrow> a = default_asset"

definition or_else :: "'a option \<Rightarrow> 'a \<Rightarrow> 'a" where
  "or_else m d = (case m of None \<Rightarrow> d | Some x \<Rightarrow> x)"

definition target_time :: "int \<Rightarrow> int \<Rightarrow> int \<Rightarrow> powerup_config_resource \<Rightarrow> powerup_state_resource \<Rightarrow> int result" where
  "target_time now current target a res =
     (if current = target then Inr now else
      if c_target_timestamp a = None \<and> pr_target_timestamp res = 0
      then Inl (Check ''target_timestamp does not have a default value'') else
      let t = or_else (c_target_timestamp a) (pr_target_timestamp res) in
      if \<not> now < t then Inl (Check ''target_timestamp must be in the future'') else Inr t)"

definition check_prices :: "symbol \<Rightarrow> double \<Rightarrow> asset \<Rightarrow> asset \<Rightarrow> unit result" where
  "check_prices y ex min_price max_price =
     (if sym max_price \<noteq> y then Inl (Check ''max_price doesn't match core symbol'') else
      if \<not> 0 < amount max_price then Inl (Check ''max_price must be positive'') else
      if sym min_price \<noteq> y then Inl (Check ''min_price doesn't match core symbol'') else
      if \<not> 0 \<le> amount min_price then Inl (Check ''min_price must be non-negative'') else
      if \<not> amount min_price \<le> amount max_price then Inl (Check ''min_price cannot exceed max_price'') else
      if ex = Fin 1 \<and> amount min_price \<noteq> amount max_price
      then Inl (Check ''min_price and max_price must be the same if the exponent is 1'') else Inr ())"

definition check_weights :: "int \<Rightarrow> int \<Rightarrow> int \<Rightarrow> double \<Rightarrow> int \<Rightarrow> unit result" where
  "check_weights current target assumed ex decay =
     (if \<not> 0 < current then Inl (Check ''current_weight_ratio is too small'') else
      if \<not> current \<le> powerup_frac then Inl (Check ''current_weight_ratio is too large'') else
      if \<not> 0 < target then Inl (Check ''target_weight_ratio is too small'') else
      if \<not> target \<le> current then Inl (Check ''weight can't grow over time'') else
      if \<not> 1 \<le> assumed then Inl (Check ''assumed_stake_weight must be at least 1; a much larger value is recommended'') else
      if \<not> tdiv (assumed * powerup_frac) target \<le> 2 ^ 63 - 1
      then Inl (Check ''assumed_stake_weight/target_weight_ratio is too large'') else
      if \<not> dle (Fin 1) ex then Inl (Check ''exponent must be >= 1'') else
      if \<not> 1 \<le> decay then Inl (Check ''decay_secs must be >= 1'') else Inr ())"

text \<open>The lambda \<open>update\<close> of \<open>cfgpowerup\<close>.\<close>

definition configure_resource :: "int \<Rightarrow> symbol \<Rightarrow> powerup_config_resource \<Rightarrow> powerup_state_resource \<Rightarrow> powerup_state_resource result" where
  "configure_resource now y a res =
     (let current = or_else (c_current_weight_ratio a)
            (if pr_weight_ratio res \<noteq> 0 then pr_weight_ratio res else pr_initial_weight_ratio res);
          target = or_else (c_target_weight_ratio a) (pr_target_weight_ratio res);
          assumed = or_else (c_assumed_stake_weight a) (pr_assumed_stake_weight res);
          ex = or_else (c_exponent a) (pr_exponent res);
          decay = or_else (c_decay_secs a) (pr_decay_secs res);
          max_price = or_else (c_max_price a) (pr_max_price res);
          min_price = or_else (c_min_price a)
            (if is_default_asset (pr_min_price res) then max_price\<lparr>amount := 0\<rparr> else pr_min_price res)
      in if c_assumed_stake_weight a = None \<and> pr_assumed_stake_weight res = 0
         then Inl (Check ''assumed_stake_weight does not have a default value'') else
         (case target_time now current target a res of Inl e \<Rightarrow> Inl e | Inr t \<Rightarrow>
         if c_max_price a = None \<and> is_default_asset (pr_max_price res)
         then Inl (Check ''max_price does not have a default value'') else
         (case check_weights current target assumed ex decay of Inl e \<Rightarrow> Inl e | Inr _ \<Rightarrow>
         (case check_prices y ex min_price max_price of Inl e \<Rightarrow> Inl e | Inr _ \<Rightarrow>
         Inr (res\<lparr>pr_assumed_stake_weight := assumed, pr_initial_weight_ratio := current, pr_target_weight_ratio := target,
                  pr_initial_timestamp := now, pr_target_timestamp := t, pr_exponent := ex, pr_decay_secs := decay,
                  pr_min_price := min_price, pr_max_price := max_price\<rparr>)))))"

text \<open>What \<open>cfgpowerup\<close> does before it reads its arguments.\<close>

definition refresh_state :: "env \<Rightarrow> sys \<Rightarrow> ((powerup_state_resource \<times> int) \<times> (powerup_state_resource \<times> int) \<times> powerup_state) result" where
  "refresh_state E s =
     (let now = current_sec E in
      (case powup_state s of
        None \<Rightarrow> let st = default_state in
          Inr (((pw_net st)\<lparr>pr_utilization_timestamp := now\<rparr>, 0), ((pw_cpu st)\<lparr>pr_utilization_timestamp := now\<rparr>, 0), st)
      | Some st \<Rightarrow>
          (case update_utilization E now (pw_net st) of Inl e \<Rightarrow> Inl e | Inr n1 \<Rightarrow>
          (case update_utilization E now (pw_cpu st) of Inl e \<Rightarrow> Inl e | Inr c1 \<Rightarrow>
          (case update_weight now (n1, 0) of Inl e \<Rightarrow> Inl e | Inr n2 \<Rightarrow>
          (case update_weight now (c1, 0) of Inl e \<Rightarrow> Inl e | Inr c2 \<Rightarrow> Inr (n2, c2, st)))))))"

definition cap_utilization :: "powerup_state_resource \<Rightarrow> powerup_state_resource" where
  "cap_utilization res = res\<lparr>pr_adjusted_utilization := min (pr_adjusted_utilization res) (pr_weight res)\<rparr>"

definition cfgpowerup :: "env \<Rightarrow> powerup_config \<Rightarrow> sys \<Rightarrow> sys result" where
  "cfgpowerup E a s =
     (if \<not> has_auth E (get_self E) then Inl Missing_auth else
      let now = current_sec E in
      (case core_symbol s of Inl e \<Rightarrow> Inl e | Inr y \<Rightarrow>
      if \<not> is_account E reserve_account then Inl (Check ''eosio.reserv account must first be created'') else
      (case refresh_state E s of Inl e \<Rightarrow> Inl e | Inr (n1, c1, st) \<Rightarrow>
      let days = or_else (c_powerup_days a) (pw_days st); fee = or_else (c_min_powerup_fee a) (pw_min_fee st) in
      if c_min_powerup_fee a = None \<and> is_default_asset (pw_min_fee st)
      then Inl (Check ''min_powerup_fee does not have a default value'') else
      if \<not> 0 < days then Inl (Check ''powerup_days must be > 0'') else
      if sym fee \<noteq> y then Inl (Check ''min_powerup_fee doesn't match core symbol'') else
      if \<not> 0 < amount fee then Inl (Check ''min_powerup_fee must be positive'') else
      (case configure_resource now y (c_net a) (fst n1) of Inl e \<Rightarrow> Inl e | Inr n0 \<Rightarrow>
      (case configure_resource now y (c_cpu a) (fst c1) of Inl e \<Rightarrow> Inl e | Inr c0 \<Rightarrow>
      (case update_weight now (n0, snd n1) of Inl e \<Rightarrow> Inl e | Inr (n2, net) \<Rightarrow>
      (case update_weight now (c0, snd c1) of Inl e \<Rightarrow> Inl e | Inr (c2, cpu) \<Rightarrow>
      if \<not> pr_utilization n2 \<le> pr_weight n2 then Inl (Check ''weight can't shrink below utilization'') else
      if \<not> pr_utilization c2 \<le> pr_weight c2 then Inl (Check ''weight can't shrink below utilization'') else
      (case adjust_resources E reserve_account y net cpu True s of Inl e \<Rightarrow> Inl e | Inr s1 \<Rightarrow>
      Inr (s1\<lparr>powup_state := Some \<lparr>pw_net = cap_utilization n2, pw_cpu = cap_utilization c2, pw_days = days, pw_min_fee = fee\<rparr>\<rparr>)))))))))"

subsection \<open>The fee\<close>

definition fraction :: "int \<Rightarrow> powerup_state_resource \<Rightarrow> double" where
  "fraction u res = ddiv (d_of_int u) (d_of_int (pr_weight res))"

definition price_integral_delta :: "env \<Rightarrow> powerup_state_resource \<Rightarrow> int \<Rightarrow> int \<Rightarrow> double" where
  "price_integral_delta E res start_utilization end_utilization =
     (let coefficient = ddiv (d_of_int (i64 (amount (pr_max_price res) - amount (pr_min_price res)))) (pr_exponent res);
          start_u = fraction start_utilization res; end_u = fraction end_utilization res;
          mp = d_of_int (amount (pr_min_price res))
      in dsub (dadd (dsub (dmul mp end_u) (dmul mp start_u)) (dmul coefficient (std_pow E end_u (pr_exponent res))))
           (dmul coefficient (std_pow E start_u (pr_exponent res))))"

definition price_function :: "env \<Rightarrow> powerup_state_resource \<Rightarrow> int \<Rightarrow> double" where
  "price_function E res utilization =
     (let new_exponent = dsub (pr_exponent res) (Fin 1) in
      if dle new_exponent (Fin 0) then d_of_int (amount (pr_max_price res))
      else dadd (d_of_int (amount (pr_min_price res)))
             (dmul (d_of_int (i64 (amount (pr_max_price res) - amount (pr_min_price res))))
               (std_pow E (fraction utilization res) new_exponent)))"

definition calc_powerup_fee :: "env \<Rightarrow> powerup_state_resource \<Rightarrow> int \<Rightarrow> int result" where
  "calc_powerup_fee E res utilization_increase =
     (if utilization_increase \<le> 0 then Inr 0 else
      let start0 = pr_utilization res; end_utilization = i64 (start0 + utilization_increase); adj = pr_adjusted_utilization res;
          (fee1, start1) =
            (if start0 < adj
             then (dadd (Fin 0) (ddiv (dmul (price_function E res adj) (d_of_int (min utilization_increase (i64 (adj - start0)))))
                     (d_of_int (pr_weight res))), adj)
             else (Fin 0, start0));
          fee2 = (if start1 < end_utilization then dadd fee1 (price_integral_delta E res start1 end_utilization) else fee1)
      in d_to_i64 (dceil fee2))"

subsection \<open>Actions\<close>

definition powerupexec :: "env \<Rightarrow> name \<Rightarrow> int \<Rightarrow> sys \<Rightarrow> sys result" where
  "powerupexec E user max_items s =
     (if \<not> has_auth E user then Inl Missing_auth else
      (case powup_state s of None \<Rightarrow> Inl (Check ''powerup hasn't been initialized'') | Some st \<Rightarrow>
      (case core_symbol s of Inl e \<Rightarrow> Inl e | Inr y \<Rightarrow>
      (case process_powerup_queue E y st (nat (u16 max_items)) s of Inl e \<Rightarrow> Inl e | Inr (st1, net, cpu, s1) \<Rightarrow>
      (case adjust_resources E reserve_account y net cpu True s1 of Inl e \<Rightarrow> Inl e | Inr s2 \<Rightarrow>
      Inr (s2\<lparr>powup_state := Some st1\<rparr>))))))"

text \<open>The lambda \<open>process\<close> of \<open>powerup\<close>: the amount, the accumulated fee and the market after the sale.\<close>

definition sell_resource :: "env \<Rightarrow> int \<Rightarrow> int \<Rightarrow> powerup_state_resource \<Rightarrow> (int \<times> int \<times> powerup_state_resource) result" where
  "sell_resource E share fee res =
     (if share = 0 then Inr (0, fee, res) else
      let n = i64 (tdiv (share * pr_weight res) powerup_frac) in
      if pr_weight res = 0 then Inl (Check ''market doesn't have resources available'') else
      if \<not> i64 (pr_utilization res + n) \<le> pr_weight res then Inl (Check ''market doesn't have enough resources available'') else
      (case calc_powerup_fee E res n of Inl e \<Rightarrow> Inl e | Inr f \<Rightarrow>
      if \<not> 0 < f then Inl (Check ''calculated fee is below minimum; try powering up with more resources'') else
      Inr (n, i64 (fee + f), res\<lparr>pr_utilization := i64 (pr_utilization res + n)\<rparr>)))"

definition next_order_id :: "sys \<Rightarrow> int" where
  "next_order_id s = (case last_key (powup_orders s) of None \<Rightarrow> 0 | Some k \<Rightarrow> k + 1)"

definition add_order :: "name \<Rightarrow> int \<Rightarrow> int \<Rightarrow> int \<Rightarrow> sys \<Rightarrow> sys" where
  "add_order receiver net cpu expires s =
     s\<lparr>powup_orders := fmupd (next_order_id s)
        \<lparr>po_owner = receiver, po_net_weight = net, po_cpu_weight = cpu, po_expires = expires\<rparr> (powup_orders s)\<rparr>"

definition check_powerup :: "symbol \<Rightarrow> powerup_state \<Rightarrow> int \<Rightarrow> int \<Rightarrow> int \<Rightarrow> asset \<Rightarrow> unit result" where
  "check_powerup y st days net_frac cpu_frac max_payment =
     (if sym max_payment \<noteq> y then Inl (Check ''max_payment doesn't match core symbol'') else
      if days \<noteq> pw_days st then Inl (Check ''days doesn't match configuration'') else
      if \<not> 0 \<le> net_frac then Inl (Check ''net_frac can't be negative'') else
      if \<not> 0 \<le> cpu_frac then Inl (Check ''cpu_frac can't be negative'') else
      if \<not> net_frac \<le> powerup_frac then Inl (Check ''net can't be more than 100%'') else
      if \<not> cpu_frac \<le> powerup_frac then Inl (Check ''cpu can't be more than 100%'') else Inr ())"

definition powerup :: "env \<Rightarrow> name \<Rightarrow> name \<Rightarrow> int \<Rightarrow> int \<Rightarrow> int \<Rightarrow> asset \<Rightarrow> sys \<Rightarrow> sys result" where
  "powerup E payer receiver days net_frac cpu_frac max_payment s =
     (if \<not> has_auth E payer then Inl Missing_auth else
      (case powup_state s of None \<Rightarrow> Inl (Check ''powerup hasn't been initialized'') | Some st \<Rightarrow>
      (case core_symbol s of Inl e \<Rightarrow> Inl e | Inr y \<Rightarrow>
      (case check_powerup y st days net_frac cpu_frac max_payment of Inl e \<Rightarrow> Inl e | Inr _ \<Rightarrow>
      (case process_powerup_queue E y st 2 s of Inl e \<Rightarrow> Inl e | Inr (st1, net, cpu, s1) \<Rightarrow>
      (case asset_new E 0 y of Inl e \<Rightarrow> Inl e | Inr fee0 \<Rightarrow>
      (case sell_resource E net_frac (amount fee0) (pw_net st1) of Inl e \<Rightarrow> Inl e | Inr (net_sold, f1, n1) \<Rightarrow>
      (case sell_resource E cpu_frac f1 (pw_cpu st1) of Inl e \<Rightarrow> Inl e | Inr (cpu_sold, f2, c1) \<Rightarrow>
      let fee = fee0\<lparr>amount := f2\<rparr> in
      (case asset_le E fee max_payment of Inl e \<Rightarrow> Inl e | Inr affordable \<Rightarrow>
      if \<not> affordable then Inl (Check ''max_payment is less than calculated fee: '') else
      (case asset_le E (pw_min_fee st1) fee of Inl e \<Rightarrow> Inl e | Inr enough \<Rightarrow>
      if \<not> enough then Inl (Check ''calculated fee is below minimum; try powering up with more resources'') else
      (case adjust_resources E receiver y net_sold cpu_sold True
              (add_order receiver net_sold cpu_sold (u32 (current_sec E + 86400 * days)) s1) of Inl e \<Rightarrow> Inl e | Inr s2 \<Rightarrow>
      (case adjust_resources E reserve_account y (i64 (net - net_sold)) (i64 (cpu - cpu_sold)) True s2 of
        Inl e \<Rightarrow> Inl e | Inr s3 \<Rightarrow>
      (case channel_to_rex E payer fee True s3 of Inl e \<Rightarrow> Inl e | Inr s4 \<Rightarrow>
      Inr (emit (Powup_result fee net_sold cpu_sold)
             (s4\<lparr>powup_state := Some (st1\<lparr>pw_net := n1, pw_cpu := c1\<rparr>)\<rparr>)))))))))))))))"

subsection \<open>The weight of a configured market\<close>

definition ratio_at :: "int \<Rightarrow> powerup_state_resource \<Rightarrow> int" where
  "ratio_at t res =
     (if pr_target_timestamp res \<le> t then pr_target_weight_ratio res
      else pr_initial_weight_ratio res -
        (pr_initial_weight_ratio res - pr_target_weight_ratio res) * (t - pr_initial_timestamp res) div
          (pr_target_timestamp res - pr_initial_timestamp res))"

definition weight_at :: "int \<Rightarrow> powerup_state_resource \<Rightarrow> int" where
  "weight_at t res = pr_assumed_stake_weight res * powerup_frac div ratio_at t res - pr_assumed_stake_weight res"

definition cfg_ok :: "int \<Rightarrow> powerup_state_resource \<Rightarrow> bool" where
  "cfg_ok t res \<longleftrightarrow> 0 < pr_target_weight_ratio res \<and> pr_target_weight_ratio res \<le> pr_initial_weight_ratio res \<and>
     pr_initial_weight_ratio res \<le> powerup_frac \<and> 1 \<le> pr_assumed_stake_weight res \<and>
     pr_assumed_stake_weight res * powerup_frac div pr_target_weight_ratio res < 2 ^ 62 \<and>
     0 \<le> pr_initial_timestamp res \<and> pr_initial_timestamp res \<le> t \<and> pr_target_timestamp res < 2 ^ 32"

lemma cfg_ok_mono: "cfg_ok t res \<Longrightarrow> t \<le> t' \<Longrightarrow> cfg_ok t' res"
  by (auto simp: cfg_ok_def)

lemma ratio_bounds:
  assumes "cfg_ok t res"
  shows "pr_target_weight_ratio res \<le> ratio_at t res" "ratio_at t res \<le> powerup_frac" "0 < ratio_at t res"
proof -
  let ?d = "pr_initial_weight_ratio res - pr_target_weight_ratio res"
  let ?n = "pr_target_timestamp res - pr_initial_timestamp res" and ?k = "t - pr_initial_timestamp res"
  have "0 \<le> ?d * ?k div ?n \<and> ?d * ?k div ?n \<le> ?d" if "t < pr_target_timestamp res"
  proof -
    have n: "0 < ?n" "0 \<le> ?k" "?k \<le> ?n" "0 \<le> ?d" using assms that by (auto simp: cfg_ok_def)
    have "?d * ?k \<le> ?d * ?n" using n by (intro mult_left_mono) auto
    then have "?d * ?k div ?n \<le> ?d * ?n div ?n" using n by (intro zdiv_mono1) auto
    then show ?thesis using n by (simp add: pos_imp_zdiv_nonneg_iff)
  qed
  then show "pr_target_weight_ratio res \<le> ratio_at t res" "ratio_at t res \<le> powerup_frac"
    using assms by (auto simp: ratio_at_def cfg_ok_def)
  then show "0 < ratio_at t res" using assms by (auto simp: cfg_ok_def)
qed

lemma ratio_antimono:
  assumes "cfg_ok t res" "t \<le> t'"
  shows "ratio_at t' res \<le> ratio_at t res"
proof (cases "pr_target_timestamp res \<le> t'")
  case True
  then show ?thesis using ratio_bounds(1) [OF assms(1)] by (simp add: ratio_at_def)
next
  case False
  let ?d = "pr_initial_weight_ratio res - pr_target_weight_ratio res" and ?n = "pr_target_timestamp res - pr_initial_timestamp res"
  have "?d * (t - pr_initial_timestamp res) div ?n \<le> ?d * (t' - pr_initial_timestamp res) div ?n"
    using assms False by (intro zdiv_mono1 mult_left_mono) (auto simp: cfg_ok_def)
  then show ?thesis using False assms(2) by (simp add: ratio_at_def)
qed

lemma weight_mono:
  assumes "cfg_ok t res" "t \<le> t'"
  shows "weight_at t res \<le> weight_at t' res"
proof -
  have "0 \<le> pr_assumed_stake_weight res * powerup_frac" using assms(1) by (simp add: cfg_ok_def powerup_frac_def)
  then have "pr_assumed_stake_weight res * powerup_frac div ratio_at t res \<le> pr_assumed_stake_weight res * powerup_frac div ratio_at t' res"
    using ratio_antimono [OF assms] ratio_bounds(3) [OF cfg_ok_mono [OF assms]] by (intro zdiv_mono2) auto
  then show ?thesis by (simp add: weight_at_def)
qed

lemma weight_bounds:
  assumes "cfg_ok t res"
  shows "0 \<le> weight_at t res" "weight_at t res < 2 ^ 62"
proof -
  let ?a = "pr_assumed_stake_weight res"
  note r = ratio_bounds [OF assms]
  have a: "1 \<le> ?a" "?a * powerup_frac div pr_target_weight_ratio res < 2 ^ 62" using assms by (simp_all add: cfg_ok_def)
  have p: "0 \<le> ?a * powerup_frac" using a(1) by (simp add: powerup_frac_def)
  have "?a * powerup_frac div powerup_frac \<le> ?a * powerup_frac div ratio_at t res" using p r by (intro zdiv_mono2) auto
  then show "0 \<le> weight_at t res" by (simp add: weight_at_def powerup_frac_def)
  have "?a * powerup_frac div ratio_at t res \<le> ?a * powerup_frac div pr_target_weight_ratio res"
    using p r assms by (intro zdiv_mono2) (auto simp: cfg_ok_def)
  then show "weight_at t res < 2 ^ 62" using a by (simp add: weight_at_def)
qed

lemma tdiv_neg: "a \<le> 0 \<Longrightarrow> 0 < b \<Longrightarrow> tdiv a b = - (- a div b)"
  by (cases "a = 0") (simp_all add: tdiv_def)

lemma weight_ratio_exact:
  assumes ok: "cfg_ok t res" and t: "t < 2 ^ 32"
  shows "weight_ratio_at t res = Inr (ratio_at t res)"
proof (cases "pr_target_timestamp res \<le> t")
  case True
  then show ?thesis by (simp add: weight_ratio_at_def ratio_at_def)
next
  case False
  let ?d = "pr_initial_weight_ratio res - pr_target_weight_ratio res"
  let ?n = "pr_target_timestamp res - pr_initial_timestamp res" and ?k = "t - pr_initial_timestamp res"
  have n: "u32 ?n = ?n" "u32 ?k = ?k" "0 < ?n" "0 \<le> ?k" "0 \<le> ?d" "?d \<le> powerup_frac"
    using ok False t by (auto simp: cfg_ok_def intro!: u32_id)
  have d: "i64 (pr_target_weight_ratio res - pr_initial_weight_ratio res) = - ?d" using n(5,6) by (simp add: i64_id powerup_frac_def)
  have "tdiv (- (?d * ?k)) ?n = - (- (- (?d * ?k)) div ?n)"
    by (rule tdiv_neg [OF _ n(3)]) (use mult_nonneg_nonneg [OF n(5,4)] in \<open>simp only: neg_le_0_iff_le\<close>)
  then have "tdiv (i64 (pr_target_weight_ratio res - pr_initial_weight_ratio res) * u32 ?k) (u32 ?n) = - (?d * ?k div ?n)"
    unfolding d n(1,2) mult_minus_left minus_minus .
  moreover have "i64 (ratio_at t res) = ratio_at t res" using ratio_bounds [OF ok] by (simp add: i64_id powerup_frac_def)
  ultimately show ?thesis using False n(1,3) by (simp add: weight_ratio_at_def ratio_at_def)
qed

lemma update_weight_exact:
  assumes ok: "cfg_ok t res" and t: "t < 2 ^ 32" and w: "0 \<le> pr_weight res" "pr_weight res < 2 ^ 63"
  shows "update_weight t (res, d) =
     Inr (res\<lparr>pr_weight_ratio := ratio_at t res, pr_weight := weight_at t res\<rparr>, i64 (d + (weight_at t res - pr_weight res)))"
proof -
  note r = ratio_bounds [OF ok] and b = weight_bounds [OF ok]
  have "0 \<le> pr_assumed_stake_weight res * powerup_frac" using ok by (simp add: cfg_ok_def powerup_frac_def)
  then have "i64 (tdiv (pr_assumed_stake_weight res * powerup_frac) (ratio_at t res) - pr_assumed_stake_weight res) = weight_at t res"
    using b r by (simp add: tdiv_nonneg weight_at_def i64_id)
  moreover have "i64 (weight_at t res - pr_weight res) = weight_at t res - pr_weight res" using b w by (intro i64_id) auto
  ultimately show ?thesis using r by (simp add: update_weight_def weight_ratio_exact [OF ok t] Let_def)
qed

subsection \<open>The decay of the utilization\<close>

lemma decayed_range:
  assumes "decayed E t res = Inr d" "0 \<le> pr_utilization res" "pr_utilization res < pr_adjusted_utilization res" "pr_adjusted_utilization res < 2 ^ 63"
  shows "0 \<le> d" "d \<le> pr_adjusted_utilization res - pr_utilization res"
proof -
  have "i64 (pr_adjusted_utilization res - pr_utilization res) = pr_adjusted_utilization res - pr_utilization res"
    using assms(2-4) by (simp add: i64_id)
  then show "0 \<le> d" "d \<le> pr_adjusted_utilization res - pr_utilization res"
    using assms(1,3) by (auto simp: decayed_def Let_def result_simps)
qed

text \<open>What \<open>update_utilization\<close> changes: only the adjusted utilization and its time stamp.\<close>

lemma update_utilization_range:
  assumes r: "update_utilization E t res = Inr res'" and u: "0 \<le> pr_utilization res" "pr_utilization res < 2 ^ 63"
    and a: "0 \<le> pr_adjusted_utilization res" "pr_adjusted_utilization res < 2 ^ 63"
  obtains adj ts where "res' = res\<lparr>pr_adjusted_utilization := adj, pr_utilization_timestamp := ts\<rparr>"
    "0 \<le> adj" "adj \<le> max (pr_utilization res) (pr_adjusted_utilization res)"
    "pr_utilization_timestamp res < t \<Longrightarrow> ts = t \<and> pr_utilization res \<le> adj"
    "pr_utilization_timestamp res < t \<Longrightarrow> pr_adjusted_utilization res \<le> pr_utilization res \<Longrightarrow> adj = pr_utilization res"
    "t \<le> pr_utilization_timestamp res \<Longrightarrow> res' = res"
proof -
  consider (early) "t \<le> pr_utilization_timestamp res" | (grown) "pr_utilization_timestamp res < t" "pr_adjusted_utilization res \<le> pr_utilization res"
    | (decay) "pr_utilization_timestamp res < t" "pr_utilization res < pr_adjusted_utilization res" by linarith
  then show ?thesis
  proof cases
    case early
    then have res': "res' = res" using r by (simp add: update_utilization_def)
    have "res' = res\<lparr>pr_adjusted_utilization := pr_adjusted_utilization res, pr_utilization_timestamp := pr_utilization_timestamp res\<rparr>"
      by (simp add: res')
    from that [OF this] show ?thesis using res' a early by simp
  next
    case grown
    then have "res' = res\<lparr>pr_adjusted_utilization := pr_utilization res, pr_utilization_timestamp := t\<rparr>"
      using r by (simp add: update_utilization_def)
    from that [OF this] show ?thesis using u grown by simp
  next
    case decay
    then obtain d where d: "decayed E t res = Inr d"
      and res': "res' = res\<lparr>pr_adjusted_utilization := i64 (pr_utilization res + d), pr_utilization_timestamp := t\<rparr>"
      using r by (auto simp: update_utilization_def result_simps)
    note rng = decayed_range [OF d u(1) decay(2) a(2)]
    have "i64 (pr_utilization res + d) = pr_utilization res + d" using rng u(1) a(2) by (intro i64_id) auto
    from that [OF res' [unfolded this]] show ?thesis using rng u(1) decay by simp
  qed
qed

subsection \<open>The bandwidth of all accounts\<close>

definition in_amount :: "asset \<Rightarrow> bool" where
  "in_amount a \<longleftrightarrow> 0 \<le> amount a \<and> amount a < 2 ^ 63"

definition users_ok :: "sys \<Rightarrow> bool" where
  "users_ok s \<longleftrightarrow> (\<forall>x u. fmlookup (userres s) x = Some u \<longrightarrow> in_amount (u_net_weight u) \<and> in_amount (u_cpu_weight u))"

abbreviation net_of :: "user_resources \<Rightarrow> int" where "net_of u \<equiv> amount (u_net_weight u)"
abbreviation cpu_of :: "user_resources \<Rightarrow> int" where "cpu_of u \<equiv> amount (u_cpu_weight u)"

lemma add_amt_exact:
  assumes "in_amount a" "\<bar>d\<bar> < 2 ^ 63" "0 \<le> amount (add_amt a d)"
  shows "amount (add_amt a d) = amount a + d"
proof -
  consider "- (2 ^ 63) \<le> amount a + d" "amount a + d < 2 ^ 63" | "2 ^ 63 \<le> amount a + d" "amount a + d < 2 ^ 64"
    using assms(1,2) by (simp add: in_amount_def abs_less_iff) linarith
  then show ?thesis
  proof cases
    case 2
    have "(amount a + d + 2 ^ 63) mod 2 ^ 64 = (amount a + d + 2 ^ 63 - 2 ^ 64) mod 2 ^ 64"
      by (rule minus_mod_self2 [symmetric])
    also have "\<dots> = amount a + d + 2 ^ 63 - 2 ^ 64" using 2 by (intro mod_pos_pos_trivial) auto
    finally show ?thesis using assms(3) 2 by (simp add: i64_def)
  qed (simp add: i64_id)
qed

lemma store_powerup_shape:
  fixes t y u s
  defines "t \<equiv> store_powerup y u s"
  shows "t = s\<lparr>res_limits := res_limits t, userres := fmupd y u (userres s)\<rparr> \<or>
     net_of u = 0 \<and> cpu_of u = 0 \<and> t = s\<lparr>res_limits := res_limits t, userres := fmdrop y (userres s)\<rparr>"
  by (cases "res_limits s y") (simp add: t_def store_powerup_def set_resource_limits_def Let_def)

lemma powerup_row_exact:
  assumes E: "chain_laws E" and ok: "users_ok s" and d: "\<bar>net\<bar> < 2 ^ 63" "\<bar>cpu\<bar> < 2 ^ 63"
    and r: "powerup_row E x y net cpu s = Inr u" and p: "0 \<le> net_of u" "0 \<le> cpu_of u"
  shows "net_of u = fmval net_of (fmlookup (userres s) x) + net" "cpu_of u = fmval cpu_of (fmlookup (userres s) x) + cpu"
    "in_amount (u_net_weight u)" "in_amount (u_cpu_weight u)"
proof -
  have "net_of u = fmval net_of (fmlookup (userres s) x) + net \<and> cpu_of u = fmval cpu_of (fmlookup (userres s) x) + cpu \<and>
      net_of u < 2 ^ 63 \<and> cpu_of u < 2 ^ 63"
  proof (cases "fmlookup (userres s) x")
    case None
    then obtain n c where nc: "asset_new E net y = Inr n" "asset_new E cpu y = Inr c" "u = \<lparr>u_net_weight = n, u_cpu_weight = c, u_ram_bytes = 0\<rparr>"
      using r by (auto simp: powerup_row_def result_simps)
    show ?thesis using chain_laws.new_exact [OF E nc(1)] chain_laws.new_exact [OF E nc(2)] nc(3) None d by auto
  next
    case (Some v)
    then have u: "u = v\<lparr>u_net_weight := add_amt (u_net_weight v) net, u_cpu_weight := add_amt (u_cpu_weight v) cpu\<rparr>"
      using r by (simp add: powerup_row_def)
    have v: "in_amount (u_net_weight v)" "in_amount (u_cpu_weight v)" using ok Some by (auto simp: users_ok_def)
    have "net_of u = net_of v + net" "cpu_of u = cpu_of v + cpu"
      using add_amt_exact [OF v(1) d(1)] add_amt_exact [OF v(2) d(2)] p by (simp_all add: u)
    moreover have "net_of u < 2 ^ 63" "cpu_of u < 2 ^ 63"
      using in_i64_i64 [of "net_of v + net"] in_i64_i64 [of "cpu_of v + cpu"] by (simp_all add: u in_i64_def)
    ultimately show ?thesis using Some by simp
  qed
  then show "net_of u = fmval net_of (fmlookup (userres s) x) + net" "cpu_of u = fmval cpu_of (fmlookup (userres s) x) + cpu"
    "in_amount (u_net_weight u)" "in_amount (u_cpu_weight u)" using p by (auto simp: in_amount_def)
qed

lemma adjust_resources_exact:
  assumes E: "chain_laws E" and ok: "users_ok s" and d: "\<bar>net\<bar> < 2 ^ 63" "\<bar>cpu\<bar> < 2 ^ 63"
    and r: "adjust_resources E x y net cpu must s = Inr s'"
  obtains rl m where "s' = s\<lparr>res_limits := rl, userres := m\<rparr>" "users_ok s'"
    "fmsum net_of m = fmsum net_of (userres s) + net" "fmsum cpu_of m = fmsum cpu_of (userres s) + cpu"
proof (cases "net = 0 \<and> cpu = 0")
  case True
  then have "s' = s" using r by (simp add: adjust_resources_def)
  then show ?thesis using True ok by (intro that [where rl = "res_limits s" and m = "userres s"]) simp_all
next
  case False
  then obtain u where u: "powerup_row E x y net cpu s = Inr u" "0 \<le> net_of u" "0 \<le> cpu_of u" and s': "s' = store_powerup x u s"
    using r unfolding adjust_resources_def by (simp only: if_False result_simps not_not) blast
  note e = powerup_row_exact [OF E ok d u]
  from store_powerup_shape [of x u s, folded s'] show ?thesis
  proof (elim disjE conjE)
    assume sh: "s' = s\<lparr>res_limits := res_limits s', userres := fmupd x u (userres s)\<rparr>"
    show ?thesis
    proof (rule that [OF sh])
      show "users_ok s'" using ok e(3,4) by (subst sh) (auto simp: users_ok_def)
    qed (use e(1,2) in \<open>simp_all add: fmsum_upd\<close>)
  next
    assume z: "net_of u = 0" "cpu_of u = 0" and sh: "s' = s\<lparr>res_limits := res_limits s', userres := fmdrop x (userres s)\<rparr>"
    show ?thesis
    proof (rule that [OF sh])
      show "users_ok s'" using ok by (subst sh) (auto simp: users_ok_def)
    qed (use e(1,2) z in \<open>simp_all add: fmsum_drop\<close>)
  qed
qed

lemma adjust_resources_tables:
  assumes "adjust_resources E x y net cpu must s = Inr s'"
  shows "effects s' = effects s" "powup_orders s' = powup_orders s"
proof -
  have "effects (store_powerup x u s) = effects s \<and> powup_orders (store_powerup x u s) = powup_orders s" for u
    by (cases "res_limits s x") (simp add: store_powerup_def set_resource_limits_def Let_def)
  then show "effects s' = effects s" "powup_orders s' = powup_orders s"
    using assms by (auto simp: adjust_resources_def result_simps split: if_splits)
qed

subsection \<open>Expiring orders\<close>

definition orders_ok :: "sys \<Rightarrow> bool" where
  "orders_ok s \<longleftrightarrow> (\<forall>k d. fmlookup (powup_orders s) k = Some d \<longrightarrow> 0 \<le> po_net_weight d \<and> 0 \<le> po_cpu_weight d)"

definition sold_net :: "sys \<Rightarrow> int" where "sold_net s = fmsum po_net_weight (powup_orders s)"
definition sold_cpu :: "sys \<Rightarrow> int" where "sold_cpu s = fmsum po_cpu_weight (powup_orders s)"
definition all_net :: "sys \<Rightarrow> int" where "all_net s = fmsum net_of (userres s)"
definition all_cpu :: "sys \<Rightarrow> int" where "all_cpu s = fmsum cpu_of (userres s)"

lemmas market_sums = sold_net_def sold_cpu_def all_net_def all_cpu_def

lemma orders_ok_sums:
  assumes "orders_ok s"
  shows "0 \<le> sold_net s" "0 \<le> sold_cpu s"
    "fmlookup (powup_orders s) k = Some d \<Longrightarrow> po_net_weight d \<le> sold_net s"
    "fmlookup (powup_orders s) k = Some d \<Longrightarrow> po_cpu_weight d \<le> sold_cpu s"
  using assms
  by (auto simp: market_sums orders_ok_def intro!: fmsum_nonneg fmsum_ge_row)

lemma first_order_row: "first_order s = Some (k, d) \<Longrightarrow> fmlookup (powup_orders s) k = Some d"
proof -
  assume a: "first_order s = Some (k, d)"
  let ?l = "map (\<lambda>k. (k, the (fmlookup (powup_orders s) k))) (sorted_list_of_fset (fmdom (powup_orders s)))"
  obtain rs where "sort_key (\<lambda>r. po_expires (snd r)) ?l = (k, d) # rs" using a by (auto simp: first_order_def split: list.splits)
  then have "(k, d) \<in> set ?l" by (metis list.set_intros(1) set_sort)
  then show ?thesis by (auto simp: fmlookup_dom_iff)
qed

lemma expire_orders_exact:
  assumes E: "chain_laws E"
  shows "\<lbrakk>expire_orders E y now n net cpu s = Inr (net', cpu', s'); users_ok s; orders_ok s; 0 \<le> net; 0 \<le> cpu;
      net + sold_net s < 2 ^ 63; cpu + sold_cpu s < 2 ^ 63\<rbrakk> \<Longrightarrow>
    users_ok s' \<and> orders_ok s' \<and> net \<le> net' \<and> cpu \<le> cpu' \<and> net' = net + (sold_net s - sold_net s') \<and> cpu' = cpu + (sold_cpu s - sold_cpu s') \<and>
    all_net s' = all_net s - (net' - net) \<and> all_cpu s' = all_cpu s - (cpu' - cpu) \<and>
    (\<exists>rl m os. s' = s\<lparr>res_limits := rl, userres := m, powup_orders := os\<rparr>)"
proof (induction n arbitrary: net cpu s)
  case 0
  then show ?case by (auto intro!: exI [of _ "res_limits s"] exI [of _ "userres s"] exI [of _ "powup_orders s"])
next
  case (Suc n)
  show ?case
  proof (cases "first_order s")
    case None
    then show ?thesis using Suc.prems by (auto intro!: exI [of _ "res_limits s"] exI [of _ "userres s"] exI [of _ "powup_orders s"])
  next
    case (Some r)
    obtain k d where r: "r = (k, d)" by (cases r)
    note row = first_order_row [OF Some [unfolded r]]
    show ?thesis
    proof (cases "now < po_expires d")
      case True
      then show ?thesis using Suc.prems Some r by (auto intro!: exI [of _ "res_limits s"] exI [of _ "userres s"] exI [of _ "powup_orders s"])
    next
      case False
      have d: "0 \<le> po_net_weight d" "0 \<le> po_cpu_weight d" using row Suc.prems(3) by (auto simp: orders_ok_def)
      have le: "po_net_weight d \<le> sold_net s" "po_cpu_weight d \<le> sold_cpu s" using orders_ok_sums(3,4) [OF Suc.prems(3) row] by auto
      have w: "i64 (- po_net_weight d) = - po_net_weight d" "i64 (- po_cpu_weight d) = - po_cpu_weight d"
        "i64 (net + po_net_weight d) = net + po_net_weight d" "i64 (cpu + po_cpu_weight d) = cpu + po_cpu_weight d"
        using d le Suc.prems(4-7) by (auto intro!: i64_id)
      obtain s1 where s1: "adjust_resources E (po_owner d) y (- po_net_weight d) (- po_cpu_weight d) False s = Inr s1"
        and rec: "expire_orders E y now n (net + po_net_weight d) (cpu + po_cpu_weight d) (s1\<lparr>powup_orders := fmdrop k (powup_orders s1)\<rparr>) = Inr (net', cpu', s')"
        using Suc.prems(1) Some r False w by (auto simp: result_simps)
      have b: "\<bar>- po_net_weight d\<bar> < 2 ^ 63" "\<bar>- po_cpu_weight d\<bar> < 2 ^ 63" using d le Suc.prems(4-7) by auto
      obtain rl m where sh: "s1 = s\<lparr>res_limits := rl, userres := m\<rparr>" "users_ok s1"
        "fmsum net_of m = fmsum net_of (userres s) + (- po_net_weight d)" "fmsum cpu_of m = fmsum cpu_of (userres s) + (- po_cpu_weight d)"
        by (rule adjust_resources_exact [OF E Suc.prems(2) b s1])
      let ?t = "s1\<lparr>powup_orders := fmdrop k (powup_orders s1)\<rparr>"
      have t: "users_ok ?t" "orders_ok ?t" "sold_net ?t = sold_net s - po_net_weight d" "sold_cpu ?t = sold_cpu s - po_cpu_weight d"
        "all_net ?t = all_net s - po_net_weight d" "all_cpu ?t = all_cpu s - po_cpu_weight d"
        using sh(2-4) Suc.prems(3) row
        by (auto simp: users_ok_def orders_ok_def market_sums sh(1) fmsum_drop)
      have "users_ok s' \<and> orders_ok s' \<and> net + po_net_weight d \<le> net' \<and> cpu + po_cpu_weight d \<le> cpu' \<and>
          net' = net + po_net_weight d + (sold_net ?t - sold_net s') \<and> cpu' = cpu + po_cpu_weight d + (sold_cpu ?t - sold_cpu s') \<and>
          all_net s' = all_net ?t - (net' - (net + po_net_weight d)) \<and> all_cpu s' = all_cpu ?t - (cpu' - (cpu + po_cpu_weight d)) \<and>
          (\<exists>rl m os. s' = ?t\<lparr>res_limits := rl, userres := m, powup_orders := os\<rparr>)"
        by (rule Suc.IH [OF rec t(1,2)]) (use d Suc.prems(4-7) t(3,4) in simp_all)
      then show ?thesis using d t(3-6) by (auto simp: sh(1))
    qed
  qed
qed

subsection \<open>The market invariant\<close>

text \<open>
  At time \<open>t\<close> each market has a valid configuration, sold no more than its weight, and its recorded weight is at most the
  weight its configuration gives by then.  What is sold is the sum of the open orders.
\<close>

definition res_ok :: "int \<Rightarrow> powerup_state_resource \<Rightarrow> bool" where
  "res_ok t res \<longleftrightarrow> cfg_ok t res \<and> 0 \<le> pr_utilization res \<and> pr_utilization res \<le> pr_weight res \<and>
     0 \<le> pr_adjusted_utilization res \<and> pr_adjusted_utilization res \<le> pr_weight res \<and> pr_weight res \<le> weight_at t res"

definition state_ok :: "int \<Rightarrow> powerup_state \<Rightarrow> sys \<Rightarrow> bool" where
  "state_ok t st s \<longleftrightarrow> res_ok t (pw_net st) \<and> res_ok t (pw_cpu st) \<and>
     pr_utilization (pw_net st) = sold_net s \<and> pr_utilization (pw_cpu st) = sold_cpu s"

definition market_inv :: "int \<Rightarrow> sys \<Rightarrow> bool" where
  "market_inv t s \<longleftrightarrow> users_ok s \<and> orders_ok s \<and>
     (case powup_state s of None \<Rightarrow> sold_net s = 0 \<and> sold_cpu s = 0 | Some st \<Rightarrow> state_ok t st s)"

text \<open>The bandwidth of all accounts that does not come from the market.\<close>

definition market_weight :: "(powerup_state \<Rightarrow> powerup_state_resource) \<Rightarrow> sys \<Rightarrow> int" where
  "market_weight f s = (case powup_state s of None \<Rightarrow> 0 | Some st \<Rightarrow> pr_weight (f st))"

definition outside :: "sys \<Rightarrow> int \<times> int" where
  "outside s = (all_net s - market_weight pw_net s, all_cpu s - market_weight pw_cpu s)"

lemma res_ok_mono: "res_ok t res \<Longrightarrow> t \<le> t' \<Longrightarrow> res_ok t' res"
  using weight_mono [of t res t'] cfg_ok_mono [of t res t'] by (auto simp: res_ok_def)

lemma res_ok_weight: "res_ok t res \<Longrightarrow> 0 \<le> pr_weight res \<and> pr_weight res < 2 ^ 62"
  using weight_bounds [of t res] by (auto simp: res_ok_def)

lemma cfg_ok_upd [simp]:
  "cfg_ok t (res\<lparr>pr_adjusted_utilization := a\<rparr>) = cfg_ok t res" "cfg_ok t (res\<lparr>pr_utilization_timestamp := b\<rparr>) = cfg_ok t res"
  "cfg_ok t (res\<lparr>pr_utilization := c\<rparr>) = cfg_ok t res" "cfg_ok t (res\<lparr>pr_weight := w\<rparr>) = cfg_ok t res"
  "cfg_ok t (res\<lparr>pr_weight_ratio := r\<rparr>) = cfg_ok t res"
  by (simp_all add: cfg_ok_def)

lemma weight_at_upd [simp]:
  "weight_at t (res\<lparr>pr_adjusted_utilization := a\<rparr>) = weight_at t res" "weight_at t (res\<lparr>pr_utilization_timestamp := b\<rparr>) = weight_at t res"
  "weight_at t (res\<lparr>pr_utilization := c\<rparr>) = weight_at t res" "weight_at t (res\<lparr>pr_weight := w\<rparr>) = weight_at t res"
  "weight_at t (res\<lparr>pr_weight_ratio := r\<rparr>) = weight_at t res"
  by (simp_all add: weight_at_def ratio_at_def)

lemma refresh_utilization:
  assumes ok: "res_ok t res" and r: "update_utilization E t res = Inr res'"
  shows "res_ok t res' \<and> pr_utilization res' = pr_utilization res \<and> pr_weight res' = pr_weight res"
proof -
  have b: "0 \<le> pr_utilization res" "pr_utilization res < 2 ^ 63" "0 \<le> pr_adjusted_utilization res" "pr_adjusted_utilization res < 2 ^ 63"
    using res_ok_weight [OF ok] ok by (auto simp: res_ok_def)
  obtain adj ts where "res' = res\<lparr>pr_adjusted_utilization := adj, pr_utilization_timestamp := ts\<rparr>"
    "0 \<le> adj" "adj \<le> max (pr_utilization res) (pr_adjusted_utilization res)"
    by (rule update_utilization_range [OF r b])
  then show ?thesis using ok by (auto simp: res_ok_def)
qed

text \<open>Releasing expired sales and growing to the weight of the present time.\<close>

lemma release_and_grow:
  assumes ok: "res_ok t res" and t: "t < 2 ^ 32" and k: "0 \<le> k" "k \<le> pr_utilization res"
    and r: "update_weight t (release k res, k) = Inr (res', k')"
  shows "res_ok t res'" "pr_utilization res' = pr_utilization res - k" "pr_weight res' = weight_at t res"
    "k' = k + (pr_weight res' - pr_weight res)" "0 \<le> k'" "k' \<le> pr_weight res'"
proof -
  note w = res_ok_weight [OF ok]
  have c: "cfg_ok t res" using ok by (simp add: res_ok_def)
  have wt: "pr_weight res \<le> weight_at t res" "pr_utilization res \<le> pr_weight res" using ok by (simp_all add: res_ok_def)
  have u: "i64 (pr_utilization res - k) = pr_utilization res - k" using k ok w by (intro i64_id) (auto simp: res_ok_def)
  note b = weight_bounds [OF c]
  have "update_weight t (release k res, k) = Inr ((release k res)\<lparr>pr_weight_ratio := ratio_at t res, pr_weight := weight_at t res\<rparr>,
      i64 (k + (weight_at t res - pr_weight res)))"
    using update_weight_exact [of t "release k res" k] c t w by (simp add: release_def ratio_at_def)
  moreover have "i64 (k + (weight_at t res - pr_weight res)) = k + (weight_at t res - pr_weight res)"
    using b wt k by (intro i64_id) auto
  ultimately have e: "res' = (release k res)\<lparr>pr_weight_ratio := ratio_at t res, pr_weight := weight_at t res\<rparr>"
    "k' = k + (weight_at t res - pr_weight res)" using r by simp_all
  show "res_ok t res'" "pr_utilization res' = pr_utilization res - k" "pr_weight res' = weight_at t res"
    "k' = k + (pr_weight res' - pr_weight res)" "0 \<le> k'" "k' \<le> pr_weight res'"
    using ok u k wt by (auto simp: e release_def res_ok_def)
qed

lemma process_queue_exact:
  assumes E: "chain_laws E" and st: "state_ok t st s" and s: "users_ok s" "orders_ok s" and t: "t \<le> current_sec E" "current_sec E < 2 ^ 32"
    and r: "process_powerup_queue E y st n s = Inr (st', net, cpu, s')"
  shows "state_ok (current_sec E) st' s'" "users_ok s'" "orders_ok s'" "0 \<le> net" "net \<le> pr_weight (pw_net st')" "0 \<le> cpu" "cpu \<le> pr_weight (pw_cpu st')"
    "all_net s' + net = all_net s + (pr_weight (pw_net st') - pr_weight (pw_net st))"
    "all_cpu s' + cpu = all_cpu s + (pr_weight (pw_cpu st') - pr_weight (pw_cpu st))"
    "powup_state s' = powup_state s"
    "\<exists>rl m os. s' = s\<lparr>res_limits := rl, userres := m, powup_orders := os\<rparr>"
proof -
  let ?now = "current_sec E"
  obtain n1 c1 n0 c0 n2 c2 where n1: "update_utilization E ?now (pw_net st) = Inr n1" and c1: "update_utilization E ?now (pw_cpu st) = Inr c1"
    and e: "expire_orders E y ?now n 0 0 s = Inr (n0, c0, s')"
    and n2: "update_weight ?now (release n0 n1, n0) = Inr (n2, net)" and c2: "update_weight ?now (release c0 c1, c0) = Inr (c2, cpu)"
    and st': "st' = st\<lparr>pw_net := n2, pw_cpu := c2\<rparr>"
    using r unfolding process_powerup_queue_def Let_def by (auto simp: result_simps)
  have ok: "res_ok ?now (pw_net st)" "res_ok ?now (pw_cpu st)" using st t(1) by (auto simp: state_ok_def intro: res_ok_mono)
  note rn = refresh_utilization [OF ok(1) n1] and rc = refresh_utilization [OF ok(2) c1]
  have sold: "pr_utilization n1 = sold_net s" "pr_utilization c1 = sold_cpu s" using rn rc st by (auto simp: state_ok_def)
  have lt: "0 + sold_net s < 2 ^ 63" "0 + sold_cpu s < 2 ^ 63"
    using rn rc res_ok_weight [of ?now n1] res_ok_weight [of ?now c1] sold by (auto simp: res_ok_def)
  have x: "users_ok s'" "orders_ok s'" "0 \<le> n0" "0 \<le> c0" "n0 = sold_net s - sold_net s'" "c0 = sold_cpu s - sold_cpu s'"
    "all_net s' = all_net s - n0" "all_cpu s' = all_cpu s - c0" "\<exists>rl m os. s' = s\<lparr>res_limits := rl, userres := m, powup_orders := os\<rparr>"
    using expire_orders_exact [OF E e s _ _ lt] by auto
  have le: "n0 \<le> pr_utilization n1" "c0 \<le> pr_utilization c1" using x(2,5,6) sold orders_ok_sums(1,2) [of s'] by auto
  note gn = release_and_grow [OF conjunct1 [OF rn] t(2) x(3) le(1) n2] and gc = release_and_grow [OF conjunct1 [OF rc] t(2) x(4) le(2) c2]
  show "state_ok ?now st' s'" using gn(1,2) gc(1,2) sold x(5,6) by (simp add: st' state_ok_def)
  show "users_ok s'" "orders_ok s'" by (fact x)+
  show "0 \<le> net" "net \<le> pr_weight (pw_net st')" "0 \<le> cpu" "cpu \<le> pr_weight (pw_cpu st')" using gn(5,6) gc(5,6) by (simp_all add: st')
  show "all_net s' + net = all_net s + (pr_weight (pw_net st') - pr_weight (pw_net st))"
    "all_cpu s' + cpu = all_cpu s + (pr_weight (pw_cpu st') - pr_weight (pw_cpu st))"
    using x(7,8) gn(4) gc(4) rn rc by (simp_all add: st')
  show "\<exists>rl m os. s' = s\<lparr>res_limits := rl, userres := m, powup_orders := os\<rparr>" by (fact x)
  then show "powup_state s' = powup_state s" by auto
qed

subsection \<open>Every action keeps the market\<close>

lemma market_inv_Some: "powup_state s = Some st \<Longrightarrow> market_inv t s \<longleftrightarrow> users_ok s \<and> orders_ok s \<and> state_ok t st s"
  by (simp add: market_inv_def)

lemma market_views:
  assumes "userres s' = userres s" "powup_orders s' = powup_orders s"
  shows "users_ok s' = users_ok s" "orders_ok s' = orders_ok s" "state_ok t st s' = state_ok t st s" "all_net s' = all_net s" "all_cpu s' = all_cpu s"
    "sold_net s' = sold_net s" "sold_cpu s' = sold_cpu s"
  using assms by (simp_all add: users_ok_def orders_ok_def state_ok_def market_sums)

lemma powerupexec_keeps:
  assumes E: "chain_laws E" and inv: "market_inv t s" and t: "t \<le> current_sec E" "current_sec E < 2 ^ 32"
    and r: "powerupexec E user k s = Inr s'"
  shows "market_inv (current_sec E) s' \<and> outside s' = outside s"
proof -
  obtain st y st1 net cpu s1 s2 where st: "powup_state s = Some st"
    and q: "process_powerup_queue E y st (nat (u16 k)) s = Inr (st1, net, cpu, s1)"
    and a: "adjust_resources E reserve_account y net cpu True s1 = Inr s2" and s': "s' = s2\<lparr>powup_state := Some st1\<rparr>"
    using r unfolding powerupexec_def by (auto simp: result_simps)
  have i: "users_ok s" "orders_ok s" "state_ok t st s" using inv st by (simp_all add: market_inv_Some)
  note q = process_queue_exact [OF E i(3,1,2) t q]
  have w: "pr_weight (pw_net st1) < 2 ^ 62" "pr_weight (pw_cpu st1) < 2 ^ 62" using q(1) res_ok_weight by (auto simp: state_ok_def)
  have b: "\<bar>net\<bar> < 2 ^ 63" "\<bar>cpu\<bar> < 2 ^ 63" using q(4-7) w by auto
  obtain rl m where sh: "s2 = s1\<lparr>res_limits := rl, userres := m\<rparr>" "users_ok s2" "fmsum net_of m = fmsum net_of (userres s1) + net"
    "fmsum cpu_of m = fmsum cpu_of (userres s1) + cpu"
    by (rule adjust_resources_exact [OF E q(2) b a])
  have v: "users_ok s' = users_ok s2" "orders_ok s' = orders_ok s1" "state_ok t' st1 s' = state_ok t' st1 s1" for t'
    by (simp_all add: s' sh(1) users_ok_def orders_ok_def state_ok_def market_sums)
  have "market_inv (current_sec E) s'" using q(1,3) sh(2) v by (simp add: market_inv_def s' [symmetric]) (simp add: s')
  moreover have "outside s' = outside s"
    using q(8,9) sh(3,4) st by (simp add: outside_def market_weight_def s' sh(1) market_sums)
  ultimately show ?thesis ..
qed

lemma sell_resource_exact:
  assumes ok: "res_ok t res" and f: "0 \<le> f" "f \<le> powerup_frac" and r: "sell_resource E f fee res = Inr (n, fee', res')"
  shows "res' = res\<lparr>pr_utilization := pr_utilization res + n\<rparr>" "0 \<le> n" "pr_utilization res + n \<le> pr_weight res" "res_ok t res'"
    "n = f * pr_weight res div powerup_frac"
proof -
  note w = res_ok_weight [OF ok]
  have u: "0 \<le> pr_utilization res" "pr_utilization res \<le> pr_weight res" using ok by (simp_all add: res_ok_def)
  have "res' = res\<lparr>pr_utilization := pr_utilization res + n\<rparr> \<and> 0 \<le> n \<and> pr_utilization res + n \<le> pr_weight res \<and> n = f * pr_weight res div powerup_frac"
  proof (cases "f = 0")
    case True
    then show ?thesis using r u by (simp add: sell_resource_def)
  next
    case False
    let ?n = "f * pr_weight res div powerup_frac"
    have n: "0 \<le> ?n" "?n \<le> pr_weight res"
    proof -
      show "0 \<le> ?n" using f w by (simp add: powerup_frac_def pos_imp_zdiv_nonneg_iff)
      have "f * pr_weight res \<le> powerup_frac * pr_weight res" using f w by (intro mult_right_mono) auto
      then have "?n \<le> powerup_frac * pr_weight res div powerup_frac" by (intro zdiv_mono1) (simp_all add: powerup_frac_def)
      then show "?n \<le> pr_weight res" by (simp add: powerup_frac_def)
    qed
    have "tdiv (f * pr_weight res) powerup_frac = ?n" using f w by (intro tdiv_nonneg) (simp_all add: powerup_frac_def)
    then have i: "i64 (tdiv (f * pr_weight res) powerup_frac) = ?n" "i64 (pr_utilization res + ?n) = pr_utilization res + ?n"
      using n w u by (auto intro!: i64_id)
    show ?thesis using r False n(1) by (auto simp: sell_resource_def Let_def result_simps i)
  qed
  then show "res' = res\<lparr>pr_utilization := pr_utilization res + n\<rparr>" "0 \<le> n" "pr_utilization res + n \<le> pr_weight res" "n = f * pr_weight res div powerup_frac" by auto
  then show "res_ok t res'" using ok u by (simp add: res_ok_def)
qed

lemma next_order_fresh: "fmlookup (powup_orders s) (next_order_id s) = None"
proof (cases "last_key (powup_orders s)")
  case None
  then have "sorted_list_of_fset (fmdom (powup_orders s)) = []" by (auto simp: last_key_def split: list.splits)
  then have "fset (fmdom (powup_orders s)) = {}" by (simp add: sorted_list_of_fset.rep_eq)
  then show ?thesis by (metis empty_iff fmdom_notD)
next
  case (Some k)
  then have "next_order_id s |\<notin>| fmdom (powup_orders s)" using last_keyD(2) [OF Some, of "k + 1"] by (auto simp: next_order_id_def)
  then show ?thesis by (rule fmdom_notD)
qed

lemma add_order_sums:
  assumes "orders_ok s" "0 \<le> n" "0 \<le> c"
  shows "orders_ok (add_order x n c t s)" "sold_net (add_order x n c t s) = sold_net s + n" "sold_cpu (add_order x n c t s) = sold_cpu s + c"
  using assms next_order_fresh [of s] by (auto simp: add_order_def orders_ok_def market_sums fmsum_upd)

text \<open>The steps of a sale.\<close>

lemma powerup_steps:
  assumes "powerup E payer receiver days nf cf max_payment s = Inr s'"
  obtains st y st1 net cpu s1 fee0 na f1 n1 ca f2 c1 s2 s3 s4 where "powup_state s = Some st" "core_symbol s = Inr y"
    "check_powerup y st days nf cf max_payment = Inr ()"
    "process_powerup_queue E y st 2 s = Inr (st1, net, cpu, s1)" "asset_new E 0 y = Inr fee0"
    "sell_resource E nf (amount fee0) (pw_net st1) = Inr (na, f1, n1)" "sell_resource E cf f1 (pw_cpu st1) = Inr (ca, f2, c1)"
    "asset_le E (fee0\<lparr>amount := f2\<rparr>) max_payment = Inr True" "asset_le E (pw_min_fee st1) (fee0\<lparr>amount := f2\<rparr>) = Inr True"
    "adjust_resources E receiver y na ca True (add_order receiver na ca (u32 (current_sec E + 86400 * days)) s1) = Inr s2"
    "adjust_resources E reserve_account y (i64 (net - na)) (i64 (cpu - ca)) True s2 = Inr s3"
    "channel_to_rex E payer (fee0\<lparr>amount := f2\<rparr>) True s3 = Inr s4"
    "s' = emit (Powup_result (fee0\<lparr>amount := f2\<rparr>) na ca) (s4\<lparr>powup_state := Some (st1\<lparr>pw_net := n1, pw_cpu := c1\<rparr>)\<rparr>)"
  using assms unfolding powerup_def Let_def
  by (simp only: result_simps split_paired_Ex prod.case not_not sum.inject) (elim exE conjE, rule that, (assumption | simp)+)

lemma check_powerup_fracs:
  assumes "check_powerup y st days nf cf p = Inr ()"
  shows "0 \<le> nf" "nf \<le> powerup_frac" "0 \<le> cf" "cf \<le> powerup_frac" "sym p = y" "days = pw_days st"
  using assms by (auto simp: check_powerup_def result_simps)

lemma channel_market_views:
  assumes "channel_to_rex E x a req s = Inr s'"
  shows "userres s' = userres s" "powup_orders s' = powup_orders s"
proof -
  have "userres s' = userres s \<and> powup_orders s' = powup_orders s"
    using assms
  proof (cases rule: channel_to_rex_frame)
    case (2 memo)
    then show ?thesis using nopool_fields(12,19) [OF 2] by (simp add: send_transfer_def)
  qed simp
  then show "userres s' = userres s" "powup_orders s' = powup_orders s" by simp_all
qed

lemma powerup_keeps:
  assumes E: "chain_laws E" and inv: "market_inv t s" and t: "t \<le> current_sec E" "current_sec E < 2 ^ 32"
    and r: "powerup E payer receiver days nf cf max_payment s = Inr s'"
  shows "market_inv (current_sec E) s' \<and> outside s' = outside s"
  using r
proof (rule powerup_steps)
  fix st y st1 net cpu s1 fee0 na f1 n1 ca f2 c1 s2 s3 s4
  assume st: "powup_state s = Some st" and ck: "check_powerup y st days nf cf max_payment = Inr ()"
    and q: "process_powerup_queue E y st 2 s = Inr (st1, net, cpu, s1)"
    and sn: "sell_resource E nf (amount fee0) (pw_net st1) = Inr (na, f1, n1)" and sc: "sell_resource E cf f1 (pw_cpu st1) = Inr (ca, f2, c1)"
    and a2: "adjust_resources E receiver y na ca True (add_order receiver na ca (u32 (current_sec E + 86400 * days)) s1) = Inr s2"
    and a3: "adjust_resources E reserve_account y (i64 (net - na)) (i64 (cpu - ca)) True s2 = Inr s3"
    and ch: "channel_to_rex E payer (fee0\<lparr>amount := f2\<rparr>) True s3 = Inr s4"
    and s': "s' = emit (Powup_result (fee0\<lparr>amount := f2\<rparr>) na ca) (s4\<lparr>powup_state := Some (st1\<lparr>pw_net := n1, pw_cpu := c1\<rparr>)\<rparr>)"
  have i: "users_ok s" "orders_ok s" "state_ok t st s" using inv st by (simp_all add: market_inv_Some)
  note q = process_queue_exact [OF E i(3,1,2) t q]
  note f = check_powerup_fracs [OF ck]
  have ok: "res_ok (current_sec E) (pw_net st1)" "res_ok (current_sec E) (pw_cpu st1)" using q(1) by (simp_all add: state_ok_def)
  note n = sell_resource_exact [OF ok(1) f(1,2) sn] and c = sell_resource_exact [OF ok(2) f(3,4) sc]
  have w: "pr_weight (pw_net st1) < 2 ^ 62" "pr_weight (pw_cpu st1) < 2 ^ 62" using ok res_ok_weight by auto
  have le: "na \<le> pr_weight (pw_net st1)" "ca \<le> pr_weight (pw_cpu st1)" using n(3) c(3) ok by (auto simp: res_ok_def)
  let ?o = "add_order receiver na ca (u32 (current_sec E + 86400 * days)) s1"
  have o: "users_ok ?o" "orders_ok ?o" "sold_net ?o = sold_net s1 + na" "sold_cpu ?o = sold_cpu s1 + ca" "all_net ?o = all_net s1" "all_cpu ?o = all_cpu s1"
    using add_order_sums [OF q(3) n(2) c(2)] q(2) by (simp_all add: users_ok_def market_sums) (simp_all add: add_order_def)
  have b2: "\<bar>na\<bar> < 2 ^ 63" "\<bar>ca\<bar> < 2 ^ 63" using n(2) c(2) le w by auto
  obtain rl m where sh2: "s2 = ?o\<lparr>res_limits := rl, userres := m\<rparr>" "users_ok s2" "fmsum net_of m = fmsum net_of (userres ?o) + na"
    "fmsum cpu_of m = fmsum cpu_of (userres ?o) + ca"
    by (rule adjust_resources_exact [OF E o(1) b2 a2])
  have e: "i64 (net - na) = net - na" "i64 (cpu - ca) = cpu - ca" using q(4-7) n(2) c(2) le w by (auto intro!: i64_id)
  have b3: "\<bar>i64 (net - na)\<bar> < 2 ^ 63" "\<bar>i64 (cpu - ca)\<bar> < 2 ^ 63" using e q(4-7) n(2) c(2) le w by auto
  obtain rl' m' where sh3: "s3 = s2\<lparr>res_limits := rl', userres := m'\<rparr>" "users_ok s3" "fmsum net_of m' = fmsum net_of (userres s2) + i64 (net - na)"
    "fmsum cpu_of m' = fmsum cpu_of (userres s2) + i64 (cpu - ca)"
    by (rule adjust_resources_exact [OF E sh2(2) b3 a3])
  have tables: "userres s' = m'" "powup_orders s' = powup_orders ?o" "powup_state s' = Some (st1\<lparr>pw_net := n1, pw_cpu := c1\<rparr>)"
    using channel_market_views [OF ch] by (simp_all add: s' emit_def sh3(1) sh2(1))
  have u: "users_ok s'" using sh3(2) tables(1) by (simp add: users_ok_def sh3(1))
  have od: "orders_ok s'" "sold_net s' = sold_net s1 + na" "sold_cpu s' = sold_cpu s1 + ca"
    using o(2-4) tables(2) by (simp_all add: orders_ok_def market_sums)
  have "state_ok (current_sec E) (st1\<lparr>pw_net := n1, pw_cpu := c1\<rparr>) s'"
    using n(1,4) c(1,4) od(2,3) q(1) by (simp add: state_ok_def)
  moreover have "all_net s' = all_net s + (pr_weight (pw_net st1) - pr_weight (pw_net st))"
    "all_cpu s' = all_cpu s + (pr_weight (pw_cpu st1) - pr_weight (pw_cpu st))"
    using q(8,9) sh3(3,4) sh2(3,4) o(5,6) e by (simp_all add: market_sums tables(1) sh2(1))
  ultimately show ?thesis
    using u od(1) tables(3) st n(1) c(1) by (simp add: market_inv_def outside_def market_weight_def)
qed

subsection \<open>Configuring the market\<close>

text \<open>
  A configuration that leaves the weight below \<open>2^62\<close>, the range of an amount of tokens, and whose times are 32-bit numbers.
\<close>

definition small_config :: "powerup_config_resource \<Rightarrow> bool" where
  "small_config a \<longleftrightarrow> (case (c_assumed_stake_weight a, c_target_weight_ratio a) of
       (None, None) \<Rightarrow> True | (Some w, Some r) \<Rightarrow> w * powerup_frac div r < 2 ^ 62 | _ \<Rightarrow> False) \<and>
     (\<forall>x. c_target_timestamp a = Some x \<longrightarrow> x < 2 ^ 32)"

lemma configure_resource_ok:
  assumes r: "configure_resource t y a res = Inr res'" and a: "small_config a" and t: "0 \<le> t" "t < 2 ^ 32"
    and res: "cfg_ok t res \<or> pr_assumed_stake_weight res = 0 \<and> pr_target_timestamp res < 2 ^ 32"
  shows "cfg_ok t res'" "pr_weight res' = pr_weight res" "pr_utilization res' = pr_utilization res"
    "pr_adjusted_utilization res' = pr_adjusted_utilization res"
proof -
  obtain cu ta as ex de mx mn tt where d: "c_assumed_stake_weight a = None \<longrightarrow> pr_assumed_stake_weight res \<noteq> 0"
    and as: "as = or_else (c_assumed_stake_weight a) (pr_assumed_stake_weight res)" and ta: "ta = or_else (c_target_weight_ratio a) (pr_target_weight_ratio res)"
    and tt: "target_time t cu ta a res = Inr tt" and cw: "check_weights cu ta as ex de = Inr ()"
    and res': "res' = res\<lparr>pr_assumed_stake_weight := as, pr_initial_weight_ratio := cu, pr_target_weight_ratio := ta,
                  pr_initial_timestamp := t, pr_target_timestamp := tt, pr_exponent := ex, pr_decay_secs := de,
                  pr_min_price := mn, pr_max_price := mx\<rparr>"
    using r unfolding configure_resource_def Let_def by (auto simp: result_simps)
  have c: "0 < cu" "cu \<le> powerup_frac" "0 < ta" "ta \<le> cu" "1 \<le> as" using cw by (auto simp: check_weights_def result_simps)
  have "as * powerup_frac div ta < 2 ^ 62"
    using a d res unfolding as ta small_config_def or_else_def by (auto simp: cfg_ok_def split: option.splits)
  moreover have "tt < 2 ^ 32"
    using tt t a res by (auto simp: target_time_def or_else_def result_simps Let_def small_config_def cfg_ok_def split: if_splits option.splits)
  ultimately show "cfg_ok t res'" using c t by (simp add: res' cfg_ok_def)
  show "pr_weight res' = pr_weight res" "pr_utilization res' = pr_utilization res"
    "pr_adjusted_utilization res' = pr_adjusted_utilization res" by (simp_all add: res')
qed

lemma reconfigure_ok:
  assumes r1: "configure_resource t y a res = Inr r1" "update_weight t (r1, d) = Inr (res', d')" and a: "small_config a" and t: "0 \<le> t" "t < 2 ^ 32"
    and res: "cfg_ok t res \<or> pr_assumed_stake_weight res = 0 \<and> pr_target_timestamp res < 2 ^ 32"
    and l: "0 \<le> pr_utilization res" "0 \<le> pr_adjusted_utilization res" "0 \<le> pr_weight res" "pr_weight res < 2 ^ 62"
    and d: "\<bar>d\<bar> < 2 ^ 62"
  shows "pr_utilization res' = pr_utilization res" "d' = d + (pr_weight res' - pr_weight res)" "0 \<le> pr_weight res'" "pr_weight res' < 2 ^ 62"
    "pr_utilization res' \<le> pr_weight res' \<Longrightarrow> res_ok t (cap_utilization res')"
proof -
  note c = configure_resource_ok [OF r1(1) a t res]
  note b = weight_bounds [OF c(1)]
  have "i64 (d + (weight_at t r1 - pr_weight r1)) = d + (weight_at t r1 - pr_weight r1)" using b c(2) l(3,4) d by (intro i64_id) auto
  then have e: "res' = r1\<lparr>pr_weight_ratio := ratio_at t r1, pr_weight := weight_at t r1\<rparr>" "d' = d + (weight_at t r1 - pr_weight r1)"
    using update_weight_exact [OF c(1) t(2)] r1(2) c(2) l(3,4) by auto
  show "pr_utilization res' = pr_utilization res" "d' = d + (pr_weight res' - pr_weight res)" "0 \<le> pr_weight res'" "pr_weight res' < 2 ^ 62"
    using b c(2,3) by (simp_all add: e)
  show "res_ok t (cap_utilization res')" if "pr_utilization res' \<le> pr_weight res'"
    using that b c l by (simp add: e res_ok_def cap_utilization_def)
qed

lemma refresh_exact:
  assumes ok: "res_ok t res" and t: "t < 2 ^ 32" and u: "update_utilization E t res = Inr r1" and w: "update_weight t (r1, 0) = Inr (r2, d)"
  shows "res_ok t r2" "pr_utilization r2 = pr_utilization res" "d = pr_weight r2 - pr_weight res" "0 \<le> d" "d \<le> pr_weight r2"
proof -
  note a = refresh_utilization [OF ok u]
  have "release 0 r1 = r1"
    using a res_ok_weight [of t r1] by (simp add: release_def i64_id res_ok_def)
  then have "update_weight t (release 0 r1, 0) = Inr (r2, d)" using w by simp
  note g = release_and_grow [OF conjunct1 [OF a] t order_refl _ this]
  show "res_ok t r2" "pr_utilization r2 = pr_utilization res" "d = pr_weight r2 - pr_weight res" "0 \<le> d" "d \<le> pr_weight r2"
    using g a by (auto simp: res_ok_def)
qed

text \<open>What the configuration starts from: a refreshed market or an empty one.\<close>

lemma refresh_state_exact:
  assumes inv: "market_inv t s" and t: "t \<le> current_sec E" "0 \<le> current_sec E" "current_sec E < 2 ^ 32"
    and r: "refresh_state E s = Inr ((n, dn), (c, dc), st)"
  shows "cfg_ok (current_sec E) n \<or> pr_assumed_stake_weight n = 0 \<and> pr_target_timestamp n < 2 ^ 32"
    "cfg_ok (current_sec E) c \<or> pr_assumed_stake_weight c = 0 \<and> pr_target_timestamp c < 2 ^ 32"
    "0 \<le> pr_adjusted_utilization n" "0 \<le> pr_adjusted_utilization c"
    "0 \<le> pr_weight n" "pr_weight n < 2 ^ 62" "0 \<le> pr_weight c" "pr_weight c < 2 ^ 62"
    "pr_utilization n = sold_net s" "pr_utilization c = sold_cpu s" "0 \<le> sold_net s" "0 \<le> sold_cpu s"
    "dn = pr_weight n - market_weight pw_net s" "dc = pr_weight c - market_weight pw_cpu s" "\<bar>dn\<bar> < 2 ^ 62" "\<bar>dc\<bar> < 2 ^ 62"
proof -
  let ?G = "(cfg_ok (current_sec E) n \<or> pr_assumed_stake_weight n = 0 \<and> pr_target_timestamp n < 2 ^ 32) \<and>
    (cfg_ok (current_sec E) c \<or> pr_assumed_stake_weight c = 0 \<and> pr_target_timestamp c < 2 ^ 32) \<and>
    0 \<le> pr_adjusted_utilization n \<and> 0 \<le> pr_adjusted_utilization c \<and>
    0 \<le> pr_weight n \<and> pr_weight n < 2 ^ 62 \<and> 0 \<le> pr_weight c \<and> pr_weight c < 2 ^ 62 \<and>
    pr_utilization n = sold_net s \<and> pr_utilization c = sold_cpu s \<and> 0 \<le> sold_net s \<and> 0 \<le> sold_cpu s \<and>
    dn = pr_weight n - market_weight pw_net s \<and> dc = pr_weight c - market_weight pw_cpu s \<and> \<bar>dn\<bar> < 2 ^ 62 \<and> \<bar>dc\<bar> < 2 ^ 62"
  have ?G
  proof (cases "powup_state s")
    case None
    then show ?thesis
      using r inv by (auto simp: refresh_state_def Let_def default_state_def default_resource_def market_inv_def market_weight_def)
  next
    case (Some p)
    then have i: "res_ok t (pw_net p)" "res_ok t (pw_cpu p)" "pr_utilization (pw_net p) = sold_net s" "pr_utilization (pw_cpu p) = sold_cpu s" "orders_ok s"
      using inv by (auto simp: market_inv_def state_ok_def)
    obtain n1 c1 where u: "update_utilization E (current_sec E) (pw_net p) = Inr n1" "update_utilization E (current_sec E) (pw_cpu p) = Inr c1"
      "update_weight (current_sec E) (n1, 0) = Inr (n, dn)" "update_weight (current_sec E) (c1, 0) = Inr (c, dc)"
      using r Some by (auto simp: refresh_state_def Let_def result_simps)
    note a = refresh_exact [OF res_ok_mono [OF i(1) t(1)] t(3) u(1,3)] and b = refresh_exact [OF res_ok_mono [OF i(2) t(1)] t(3) u(2,4)]
    show ?thesis
      using a b i(3,4) orders_ok_sums(1,2) [OF i(5)] res_ok_weight [OF a(1)] res_ok_weight [OF b(1)] Some
      by (auto simp: res_ok_def market_weight_def)
  qed
  then show "cfg_ok (current_sec E) n \<or> pr_assumed_stake_weight n = 0 \<and> pr_target_timestamp n < 2 ^ 32"
    "cfg_ok (current_sec E) c \<or> pr_assumed_stake_weight c = 0 \<and> pr_target_timestamp c < 2 ^ 32"
    "0 \<le> pr_adjusted_utilization n" "0 \<le> pr_adjusted_utilization c"
    "0 \<le> pr_weight n" "pr_weight n < 2 ^ 62" "0 \<le> pr_weight c" "pr_weight c < 2 ^ 62"
    "pr_utilization n = sold_net s" "pr_utilization c = sold_cpu s" "0 \<le> sold_net s" "0 \<le> sold_cpu s"
    "dn = pr_weight n - market_weight pw_net s" "dc = pr_weight c - market_weight pw_cpu s" "\<bar>dn\<bar> < 2 ^ 62" "\<bar>dc\<bar> < 2 ^ 62" by auto
qed

lemma cfgpowerup_keeps:
  assumes E: "chain_laws E" and inv: "market_inv t s" and t: "t \<le> current_sec E" "0 \<le> current_sec E" "current_sec E < 2 ^ 32"
    and a: "small_config (c_net a)" "small_config (c_cpu a)" and r: "cfgpowerup E a s = Inr s'"
  shows "market_inv (current_sec E) s' \<and> outside s' = outside s"
proof -
  obtain y n dn c dc st n0 c0 n2 net c2 cpu s1 days fee where
    f: "refresh_state E s = Inr ((n, dn), (c, dc), st)"
    and n0: "configure_resource (current_sec E) y (c_net a) (fst (n, dn)) = Inr n0" and c0: "configure_resource (current_sec E) y (c_cpu a) (fst (c, dc)) = Inr c0"
    and n2: "update_weight (current_sec E) (n0, snd (n, dn)) = Inr (n2, net)" and c2: "update_weight (current_sec E) (c0, snd (c, dc)) = Inr (c2, cpu)"
    and le: "pr_utilization n2 \<le> pr_weight n2" "pr_utilization c2 \<le> pr_weight c2"
    and adj: "adjust_resources E reserve_account y net cpu True s = Inr s1"
    and s': "s' = s1\<lparr>powup_state := Some \<lparr>pw_net = cap_utilization n2, pw_cpu = cap_utilization c2, pw_days = days, pw_min_fee = fee\<rparr>\<rparr>"
    using r unfolding cfgpowerup_def Let_def
    by (simp only: result_simps split_paired_Ex prod.case not_not sum.inject) (elim exE conjE, rule that, (assumption | erule sym)+)
  note x = refresh_state_exact [OF inv t f]
  have u: "0 \<le> pr_utilization n" "0 \<le> pr_utilization c" using x(9-12) by simp_all
  note rn = reconfigure_ok [OF n0 [unfolded fst_conv] n2 [unfolded snd_conv] a(1) t(2,3) x(1) u(1) x(3,5,6,15)] and rc = reconfigure_ok [OF c0 [unfolded fst_conv] c2 [unfolded snd_conv] a(2) t(2,3) x(2) u(2) x(4,7,8,16)]
  have b: "\<bar>net\<bar> < 2 ^ 63" "\<bar>cpu\<bar> < 2 ^ 63" using rn(2-4) rc(2-4) x(5-8,15,16) by auto
  have i: "users_ok s" "orders_ok s" using inv by (simp_all add: market_inv_def)
  obtain rl m where sh: "s1 = s\<lparr>res_limits := rl, userres := m\<rparr>" "users_ok s1" "fmsum net_of m = fmsum net_of (userres s) + net"
    "fmsum cpu_of m = fmsum cpu_of (userres s) + cpu"
    by (rule adjust_resources_exact [OF E i(1) b adj])
  have ok: "res_ok (current_sec E) (cap_utilization n2)" "res_ok (current_sec E) (cap_utilization c2)" using rn(5) rc(5) le by auto
  have cap: "pr_utilization (cap_utilization k) = pr_utilization k" "pr_weight (cap_utilization k) = pr_weight k" for k
    by (simp_all add: cap_utilization_def)
  have "users_ok s'" "orders_ok s'" "sold_net s' = sold_net s" "sold_cpu s' = sold_cpu s"
    using sh(2) i(2) by (simp_all add: s' sh(1) users_ok_def orders_ok_def market_sums)
  then have "market_inv (current_sec E) s'"
    using ok rn(1) rc(1) x(9,10) by (simp add: market_inv_def state_ok_def cap) (simp add: s' state_ok_def cap)
  moreover have "outside s' = outside s"
    using rn(2) rc(2) x(13,14) sh(3,4) by (simp add: outside_def s' sh(1) market_sums cap) (simp add: market_weight_def cap)
  ultimately show ?thesis ..
qed

subsection \<open>Sequences of actions\<close>

datatype powerup_action =
    Cfgpowerup powerup_config
  | Powerupexec name int
  | Powerup_sale name name int int int asset

fun powerup_step :: "env \<times> powerup_action \<Rightarrow> sys \<Rightarrow> sys result" where
  "powerup_step (E, Cfgpowerup a) s = cfgpowerup E a s"
| "powerup_step (E, Powerupexec user k) s = powerupexec E user k s"
| "powerup_step (E, Powerup_sale payer receiver days nf cf p) s = powerup E payer receiver days nf cf p s"

fun powerup_arg :: "env \<times> powerup_action \<Rightarrow> bool" where
  "powerup_arg (E, Cfgpowerup a) \<longleftrightarrow> chain_laws E \<and> 0 \<le> current_sec E \<and> current_sec E < 2 ^ 32 \<and> small_config (c_net a) \<and> small_config (c_cpu a)"
| "powerup_arg (E, _) \<longleftrightarrow> chain_laws E \<and> 0 \<le> current_sec E \<and> current_sec E < 2 ^ 32"

lemma powerup_step_keeps:
  assumes inv: "market_inv t s" and a: "powerup_arg a" and t: "t \<le> current_sec (fst a)" and r: "powerup_step a s = Inr s'"
  shows "market_inv (current_sec (fst a)) s' \<and> outside s' = outside s"
proof -
  obtain E act where e: "a = (E, act)" by (cases a)
  show ?thesis
  proof (cases act)
    case (Cfgpowerup c)
    then show ?thesis using cfgpowerup_keeps [OF _ inv, of E c s'] a t r by (simp add: e)
  next
    case (Powerupexec u k)
    then show ?thesis using powerupexec_keeps [OF _ inv, of E u k s'] a t r by (simp add: e)
  next
    case (Powerup_sale p1 p2 d n c m)
    then show ?thesis using powerup_keeps [OF _ inv, of E p1 p2 d n c m s'] a t r by (simp add: e)
  qed
qed

lemma run_powerup:
  "run_actions powerup_step as s = Inr s' \<Longrightarrow> \<forall>a \<in> set as. powerup_arg a \<Longrightarrow> sorted (t # map (\<lambda>a. current_sec (fst a)) as) \<Longrightarrow> market_inv t s \<Longrightarrow>
     market_inv (last (t # map (\<lambda>a. current_sec (fst a)) as)) s' \<and> outside s' = outside s"
proof (induction as arbitrary: s t)
  case (Cons a as)
  obtain s1 where s1: "powerup_step a s = Inr s1" "run_actions powerup_step as s1 = Inr s'"
    using Cons.prems(1) by (auto simp: result_simps)
  have "market_inv (current_sec (fst a)) s1 \<and> outside s1 = outside s"
    by (rule powerup_step_keeps [OF Cons.prems(4) _ _ s1(1)]) (use Cons.prems(2,3) in simp_all)
  then show ?case using Cons.IH [OF s1(2), of "current_sec (fst a)"] Cons.prems(2,3) by (cases as) auto
qed simp

subsection \<open>A concrete market\<close>

definition demo_resource :: powerup_config_resource where
  "demo_resource = \<lparr>c_current_weight_ratio = Some 10000000000000, c_target_weight_ratio = Some 10000000000000,
     c_assumed_stake_weight = Some 1000000, c_target_timestamp = None, c_exponent = None, c_decay_secs = None,
     c_min_price = Some (core 100000000), c_max_price = Some (core 1000000000)\<rparr>"

definition demo_config :: powerup_config where
  "demo_config = \<lparr>c_net = demo_resource, c_cpu = demo_resource, c_powerup_days = None, c_min_powerup_fee = Some (core 1)\<rparr>"

definition demo_power :: sys where
  "demo_power = sys0\<lparr>rexpool := Some \<lparr>total_lent = core 0, total_unlent = core 1000, total_rent = core 200000000,
     total_lendable = core 1000, total_rex = rex_asset 10000000, namebid_proceeds = core 0, loan_num = 0\<rparr>\<rparr>"

definition demo_sale :: powerup_action where
  "demo_sale = Powerup_sale 1 2 30 100000000000000 0 (core 20000000)"

definition demo_power_actions :: "(env \<times> powerup_action) list" where
  "demo_power_actions = [(sdk_env eosio_account 100, Cfgpowerup demo_config), (sdk_env eosio_account 200, demo_sale),
     (sdk_env eosio_account 3000000, Powerupexec 3 5)]"

lemma demo_power_inv: "market_inv 0 demo_power"
  by (simp add: market_inv_def users_ok_def orders_ok_def market_sums demo_power_def sys0_def)

lemma demo_power_args: "\<forall>a \<in> set demo_power_actions. powerup_arg a" "sorted (0 # map (\<lambda>a. current_sec (fst a)) demo_power_actions)"
  using sdk.chain_laws_axioms
  by (simp_all add: demo_power_actions_def demo_sale_def demo_config_def demo_resource_def small_config_def powerup_frac_def)
    (simp_all add: sdk_env_def)

lemma demo_power_run:
  "case run_actions powerup_step demo_power_actions demo_power of Inl _ \<Rightarrow> False
   | Inr s' \<Rightarrow> market_weight pw_net s' = 99000000 \<and> length (effects s') = 2"
  by code_simp

definition demo_configured :: "sys result" where
  "demo_configured = run_actions powerup_step (take 1 demo_power_actions) demo_power"

lemma demo_configured_run:
  "case demo_configured of Inl _ \<Rightarrow> False
   | Inr s \<Rightarrow> (case powerup_step (sdk_env eosio_account 200, demo_sale) s of Inl _ \<Rightarrow> False | Inr _ \<Rightarrow> True)"
  by code_simp

subsection \<open>Theorems\<close>

text \<open>
  C11. Over any sequence of configurations, sales and expiry runs at non-decreasing times the market is never oversold:
  what is sold of each resource is the sum of the open orders and at most its weight, the adjusted utilization stays within
  the weight, and no 64-bit operation wraps.  The bandwidth of all accounts together changes exactly with the weight of
  the market, so that every sale, every expiry and every growth of the weight is booked between the buyers and the reserve.
\<close>

theorem powerup_market_sound:
  assumes "run_actions powerup_step as s = Inr s'" "\<forall>a \<in> set as. powerup_arg a"
    and "sorted (t # map (\<lambda>a. current_sec (fst a)) as)" "market_inv t s"
  shows "market_inv (last (t # map (\<lambda>a. current_sec (fst a)) as)) s' \<and> outside s' = outside s"
  using run_powerup [OF assms] .

theorem powerup_market_sound_witness:
  "\<exists>s'. run_actions powerup_step demo_power_actions demo_power = Inr s' \<and> market_inv 3000000 s' \<and> outside s' = outside demo_power \<and>
     market_weight pw_net s' = 99000000"
proof -
  obtain s' where s': "run_actions powerup_step demo_power_actions demo_power = Inr s'" "market_weight pw_net s' = 99000000"
    using demo_power_run by (auto split: sum.splits)
  have "last (0 # map (\<lambda>a. current_sec (fst a)) demo_power_actions) = 3000000" by (simp add: demo_power_actions_def sdk_env_def)
  then show ?thesis using powerup_market_sound [OF s'(1) demo_power_args demo_power_inv] s' by auto
qed

text \<open>
  C25. A sale charges the payer a fee between the configured minimum and the accepted maximum, transferred to REX in one
  transfer, and records an order for exactly the requested fractions of the two weights, rounded down, which expires the given number of
  days later.
\<close>

theorem powerup_sale:
  assumes "chain_laws E" "market_inv t s" "t \<le> current_sec E" "current_sec E < 2 ^ 32"
    and "powerup E payer receiver days nf cf max_payment s = Inr s'"
  shows "\<exists>st fee k memo. powup_state s' = Some st \<and> sym fee = sym max_payment \<and>
     amount (pw_min_fee st) \<le> amount fee \<and> amount fee \<le> amount max_payment \<and>
     transfers_of (effects s') = transfers_of (effects s) @ [\<lparr>t_from = payer, t_to = rex_account, t_quantity = fee, t_memo = memo\<rparr>] \<and>
     fmlookup (powup_orders s') k = Some \<lparr>po_owner = receiver, po_net_weight = nf * pr_weight (pw_net st) div powerup_frac,
       po_cpu_weight = cf * pr_weight (pw_cpu st) div powerup_frac, po_expires = u32 (current_sec E + 86400 * days)\<rparr>"
  using assms(5)
proof (rule powerup_steps)
  fix st y st1 net cpu s1 fee0 na f1 n1 ca f2 c1 s2 s3 s4
  assume st: "powup_state s = Some st" and ck: "check_powerup y st days nf cf max_payment = Inr ()"
    and q: "process_powerup_queue E y st 2 s = Inr (st1, net, cpu, s1)" and z: "asset_new E 0 y = Inr fee0"
    and sn: "sell_resource E nf (amount fee0) (pw_net st1) = Inr (na, f1, n1)" and sc: "sell_resource E cf f1 (pw_cpu st1) = Inr (ca, f2, c1)"
    and lo: "asset_le E (pw_min_fee st1) (fee0\<lparr>amount := f2\<rparr>) = Inr True" and hi: "asset_le E (fee0\<lparr>amount := f2\<rparr>) max_payment = Inr True"
    and a2: "adjust_resources E receiver y na ca True (add_order receiver na ca (u32 (current_sec E + 86400 * days)) s1) = Inr s2"
    and a3: "adjust_resources E reserve_account y (i64 (net - na)) (i64 (cpu - ca)) True s2 = Inr s3"
    and ch: "channel_to_rex E payer (fee0\<lparr>amount := f2\<rparr>) True s3 = Inr s4"
    and s': "s' = emit (Powup_result (fee0\<lparr>amount := f2\<rparr>) na ca) (s4\<lparr>powup_state := Some (st1\<lparr>pw_net := n1, pw_cpu := c1\<rparr>)\<rparr>)"
  have i: "users_ok s" "orders_ok s" "state_ok t st s" using assms(2) st by (simp_all add: market_inv_Some)
  note q = process_queue_exact [OF assms(1) i(3,1,2) assms(3,4) q]
  note f = check_powerup_fracs [OF ck]
  have ok: "res_ok (current_sec E) (pw_net st1)" "res_ok (current_sec E) (pw_cpu st1)" using q(1) by (simp_all add: state_ok_def)
  note n = sell_resource_exact [OF ok(1) f(1,2) sn] and c = sell_resource_exact [OF ok(2) f(3,4) sc]
  let ?fee = "fee0\<lparr>amount := f2\<rparr>" and ?st = "st1\<lparr>pw_net := n1, pw_cpu := c1\<rparr>"
  obtain s5 memo where s5: "add_to_rex_return_pool E ?fee s3 = Inr s5" "s4 = send_transfer payer rex_account ?fee memo s5"
    using ch by (auto simp: channel_to_rex_def result_simps split: if_splits)
  have tabs: "effects s5 = effects s3" "powup_orders s4 = powup_orders s3"
    using nopool_fields(21) [OF add_to_rex_return_pool_frame [OF s5(1)]] channel_market_views(2) [OF ch] by simp_all
  have e: "effects s3 = effects s" "powup_orders s3 = powup_orders (add_order receiver na ca (u32 (current_sec E + 86400 * days)) s1)"
    using adjust_resources_tables [OF a2] adjust_resources_tables [OF a3] q(11) by (auto simp: add_order_def)
  have y: "sym fee0 = y" "sym max_payment = y" using chain_laws.new_exact [OF assms(1) z] f(5) by simp_all
  have le: "amount (pw_min_fee st1) \<le> f2" "f2 \<le> amount max_payment"
    using chain_laws.le_exact [OF assms(1) lo] chain_laws.le_exact [OF assms(1) hi] by simp_all
  let ?k = "next_order_id s1"
  have o: "fmlookup (powup_orders s') ?k = Some \<lparr>po_owner = receiver, po_net_weight = na, po_cpu_weight = ca, po_expires = u32 (current_sec E + 86400 * days)\<rparr>"
    using tabs(2) e(2) by (simp add: s' emit_def add_order_def)
  have w: "pr_weight n1 = pr_weight (pw_net st1)" "pr_weight c1 = pr_weight (pw_cpu st1)" using n(1) c(1) by simp_all
  have x: "transfers_of (effects s') = transfers_of (effects s) @ [\<lparr>t_from = payer, t_to = rex_account, t_quantity = ?fee, t_memo = memo\<rparr>]"
    using tabs(1) e(1) by (simp add: s' emit_def s5(2) send_transfer_def)
  have "powup_state s' = Some ?st" by (simp add: s' emit_def)
  then show ?thesis using le y x o w n(5) c(5) by (intro exI [of _ ?st] exI [of _ ?fee] exI [of _ ?k] exI [of _ memo]) simp
qed

theorem powerup_sale_witness:
  "\<exists>s s' st. demo_configured = Inr s \<and> powerup_step (sdk_env eosio_account 200, demo_sale) s = Inr s' \<and> powup_state s' = Some st \<and>
     amount (pw_min_fee st) \<le> 20000000 \<and> market_inv 100 s"
proof -
  obtain s where s: "demo_configured = Inr s" using demo_configured_run by (auto split: sum.splits)
  obtain s' where s': "powerup_step (sdk_env eosio_account 200, demo_sale) s = Inr s'"
    using demo_configured_run by (auto simp: s split: sum.splits)
  have c: "powerup_step (sdk_env eosio_account 100, Cfgpowerup demo_config) demo_power = Inr s"
    using s by (simp add: demo_configured_def demo_power_actions_def result_simps)
  have "powerup_arg (sdk_env eosio_account 100, Cfgpowerup demo_config)" using demo_power_args(1) by (simp add: demo_power_actions_def)
  from powerup_step_keeps [OF demo_power_inv this _ c] have inv: "market_inv 100 s" by (simp add: sdk_env_def)
  have t: "current_sec (sdk_env eosio_account 200) = 200" by (simp add: sdk_env_def)
  show ?thesis
    using powerup_sale [OF sdk.chain_laws_axioms inv, of eosio_account 200 1 2 30 100000000000000 0 "core 20000000" s'] s s' inv
    by (auto simp: t demo_sale_def intro: order_trans)
qed

text \<open>
  C32. The decay of the adjusted utilization meets the postconditions documented in the source at every later time: it does
  not fall below the utilization, decays only, and jumps to the utilization when that has grown.  When no time has passed,
  which the documented precondition allows, the state is left as it is.
\<close>

theorem utilization_contract:
  assumes "update_utilization E t res = Inr res'" "0 \<le> pr_utilization res" "pr_utilization res < 2 ^ 63"
    and "0 \<le> pr_adjusted_utilization res" "pr_adjusted_utilization res < 2 ^ 63"
  shows "(pr_utilization_timestamp res < t \<longrightarrow> pr_utilization_timestamp res' = t \<and> pr_utilization res' = pr_utilization res \<and>
      pr_utilization res \<le> pr_adjusted_utilization res' \<and>
      (pr_utilization res < pr_adjusted_utilization res \<longrightarrow> pr_adjusted_utilization res' \<le> pr_adjusted_utilization res) \<and>
      (pr_adjusted_utilization res \<le> pr_utilization res \<longrightarrow> pr_adjusted_utilization res' = pr_utilization res)) \<and>
    (t = pr_utilization_timestamp res \<longrightarrow> res' = res)"
  by (rule update_utilization_range [OF assms]) auto

theorem utilization_contract_witness:
  "\<exists>res'. update_utilization (sdk_env eosio_account 200) 200 (default_resource\<lparr>pr_utilization := 5, pr_weight := 10\<rparr>) = Inr res' \<and>
     pr_adjusted_utilization res' = 5"
proof -
  let ?r = "default_resource\<lparr>pr_utilization := 5, pr_weight := 10\<rparr>"
  obtain res' where r: "update_utilization (sdk_env eosio_account 200) 200 ?r = Inr res'"
    by (simp add: update_utilization_def default_resource_def)
  then show ?thesis using utilization_contract [OF r] by (simp add: default_resource_def)
qed

end
