(* ===== verification/Proxy_Chains.thy ===== *)
theory Proxy_Chains
  imports Voting
begin

section \<open>Termination of the weight propagation\<close>

text \<open>
  \<open>propagate_weight_change\<close> calls itself for the proxy of an account.  The model gives it as fuel one more than the number
  of voters.  This theory shows that the fuel is no restriction: when the proxies form no cycle the recursion ends before
  the fuel does, and more fuel gives the same result.
\<close>

definition proxy_edges :: "sys \<Rightarrow> (name \<times> name) set" where
  "proxy_edges s = {(x, v_proxy v) | x v. fmlookup (voters s) x = Some v \<and> v_proxy v \<noteq> 0}"

definition proxy_rank :: "sys \<Rightarrow> name \<Rightarrow> nat" where
  "proxy_rank s x = card {y. (x, y) \<in> (proxy_edges s)\<^sup>+}"

lemma proxy_edges_image: "proxy_edges s = (\<lambda>x. (x, v_proxy (the (fmlookup (voters s) x)))) ` {x. x |\<in>| fmdom (voters s) \<and> v_proxy (the (fmlookup (voters s) x)) \<noteq> 0}"
  by (auto simp: proxy_edges_def image_iff fmlookup_dom_iff)

lemma finite_proxy_edges: "finite (proxy_edges s)"
proof -
  have "finite {x. x |\<in>| fmdom (voters s) \<and> v_proxy (the (fmlookup (voters s) x)) \<noteq> 0}"
    by (rule finite_subset [of _ "fset (fmdom (voters s))"]) auto
  then show ?thesis by (subst proxy_edges_image) (rule finite_imageI)
qed

lemma reachable_proxies: "{y. (x, y) \<in> (proxy_edges s)\<^sup>+} \<subseteq> Range (proxy_edges s)"
  by (auto dest: tranclD2)

lemma proxy_rank_bound: "proxy_rank s x \<le> fcard (fmdom (voters s))"
proof -
  have "finite (Range (proxy_edges s))" using finite_proxy_edges by (simp add: Range_snd)
  then have "proxy_rank s x \<le> card (Range (proxy_edges s))" unfolding proxy_rank_def by (intro card_mono reachable_proxies)
  also have "Range (proxy_edges s) \<subseteq> (\<lambda>x. v_proxy (the (fmlookup (voters s) x))) ` fset (fmdom (voters s))"
    by (auto simp: proxy_edges_image Range_snd image_image)
  then have "card (Range (proxy_edges s)) \<le> card (fset (fmdom (voters s)))"
    by (meson card_image_le card_mono finite_fset finite_imageI le_trans)
  finally show ?thesis by (simp add: fcard.rep_eq)
qed

lemma proxy_rank_less:
  assumes ac: "acyclic (proxy_edges s)" and v: "fmlookup (voters s) x = Some v" "v_proxy v \<noteq> 0"
  shows "proxy_rank s (v_proxy v) < proxy_rank s x"
proof -
  let ?R = "proxy_edges s"
  have e: "(x, v_proxy v) \<in> ?R" using v by (auto simp: proxy_edges_def)
  have "finite (Range ?R)" using finite_proxy_edges by (simp add: Range_snd)
  then have "finite {y. (x, y) \<in> ?R\<^sup>+}" by (rule finite_subset [OF reachable_proxies])
  moreover have "{y. (v_proxy v, y) \<in> ?R\<^sup>+} \<subset> {y. (x, y) \<in> ?R\<^sup>+}"
  proof
    show "{y. (v_proxy v, y) \<in> ?R\<^sup>+} \<subseteq> {y. (x, y) \<in> ?R\<^sup>+}" using e by (auto intro: trancl_into_trancl2)
    have "v_proxy v \<in> {y. (x, y) \<in> ?R\<^sup>+}" using e by auto
    moreover have "v_proxy v \<notin> {y. (v_proxy v, y) \<in> ?R\<^sup>+}" using ac by (auto simp: acyclic_def)
    ultimately show "{y. (v_proxy v, y) \<in> ?R\<^sup>+} \<noteq> {y. (x, y) \<in> ?R\<^sup>+}" by blast
  qed
  ultimately show ?thesis unfolding proxy_rank_def by (rule psubset_card_mono)
qed

text \<open>The recursive call changes only the weight of the proxy, not the proxies.\<close>

lemma proxy_edges_weight:
  assumes "fmlookup (voters s) p = Some pv"
  shows "proxy_edges (s\<lparr>voters := fmupd p (pv\<lparr>v_proxied_vote_weight := w\<rparr>) (voters s)\<rparr>) = proxy_edges s"
  using assms by (auto simp: proxy_edges_def split: if_splits)

lemma shift_votes_no_trap: "shift_votes d ps s \<noteq> Inl (Trap e)"
  by (induction ps arbitrary: s) (auto split: option.splits)

lemma voter_stake_trap: "voter_stake v = Inl e \<Longrightarrow> e = Trap ''integer overflow''"
  by (cases "dadd (d_of_int (v_staked v)) (v_proxied_vote_weight v)") (auto simp: voter_stake_def split: if_splits)

abbreviation exhausted :: error where "exhausted \<equiv> Trap ''call stack exhausted''"

lemma propagate_fuel:
  assumes "acyclic (proxy_edges s)"
  shows "proxy_rank s x < n \<Longrightarrow> proxy_rank s x < m \<Longrightarrow>
    propagate_weight_change n E x s = propagate_weight_change m E x s \<and> propagate_weight_change n E x s \<noteq> Inl exhausted"
  using assms
proof (induction "proxy_rank s x" arbitrary: n m x s rule: less_induct)
  case less
  obtain n' m' where nm: "n = Suc n'" "m = Suc m'" using less.prems(1,2) by (metis gr0_implies_Suc less_nat_zero_code not_gr_zero)
  show ?case
  proof (cases "fmlookup (voters s) x")
    case None
    then show ?thesis by (simp add: nm)
  next
    case (Some v)
    have call: "propagate_weight_change n' E (v_proxy v) t = propagate_weight_change m' E (v_proxy v) t \<and>
        propagate_weight_change n' E (v_proxy v) t \<noteq> Inl exhausted"
      if "v_proxy v \<noteq> 0" "fmlookup (voters s) (v_proxy v) = Some pv"
        and t: "t = s\<lparr>voters := fmupd (v_proxy v) (pv\<lparr>v_proxied_vote_weight := w\<rparr>) (voters s)\<rparr>" for pv w t
    proof -
      have e: "proxy_edges t = proxy_edges s" unfolding t by (rule proxy_edges_weight [OF that(2)])
      then have r: "proxy_rank t (v_proxy v) < proxy_rank s x"
        using proxy_rank_less [OF less.prems(3) Some that(1)] by (simp add: proxy_rank_def)
      show ?thesis by (rule less.hyps [OF r]) (use r less.prems nm e in simp_all)
    qed
    show ?thesis
    proof (cases "voter_stake v")
      case (Inl e)
      then show ?thesis using Some voter_stake_trap [OF Inl] by (simp add: nm)
    next
      case (Inr st)
      define M where "M k = (if v_proxy v \<noteq> 0 then
             if v_last_stake v \<noteq> st then
               (case fmlookup (voters s) (v_proxy v) of
                  None \<Rightarrow> Inl (Check ''proxy not found'')
                | Some pv \<Rightarrow>
                    propagate_weight_change k E (v_proxy v)
                      (s\<lparr>voters := fmupd (v_proxy v) (pv\<lparr>v_proxied_vote_weight :=
                           dadd (v_proxied_vote_weight pv) (d_of_int (i64 (st - v_last_stake v)))\<rparr>) (voters s)\<rparr>))
             else Inr s
           else shift_votes (dsub (inverse_vote_weight E (d_of_int st) (d_of_int (int (length (v_producers v))))) (v_last_vote_weight v))
                  (v_producers v) s)" for k
      have M: "M n' = M m'" "M n' \<noteq> Inl exhausted"
        using call by (cases "fmlookup (voters s) (v_proxy v)"; simp add: M_def shift_votes_no_trap)+
      define F where "F r = (if v_proxy v \<noteq> 0 \<and> v_is_proxy v
          then Inl (Check ''account registered as a proxy is not allowed to use a proxy'') else
          (case r of Inl e \<Rightarrow> Inl e
           | Inr s1 \<Rightarrow> (case fmlookup (voters s1) x of None \<Rightarrow> Inl No_row
              | Some v1 \<Rightarrow> Inr (s1\<lparr>voters := fmupd x (v1\<lparr>v_last_vote_weight := inverse_vote_weight E (d_of_int st) (d_of_int (int (length (v_producers v)))),
                                        v_last_stake := st\<rparr>) (voters s1)\<rparr>))))" for r :: "sys result"
      have step: "propagate_weight_change (Suc k) E x s = F (M k)" for k
        by (simp add: Some Inr Let_def F_def M_def)
      have "F r \<noteq> Inl exhausted" if "r \<noteq> Inl exhausted" for r
        using that by (cases r) (auto simp: F_def split: option.splits)
      then show ?thesis unfolding nm step using M by metis
    qed
  qed
qed

subsection \<open>Theorem\<close>

text \<open>
  C28. The propagation of a changed weight along the proxies terminates: when the proxies form no cycle the call never exhausts
  the stack, and every larger bound on its depth gives the same result.
\<close>

theorem propagate_terminates:
  assumes "acyclic (proxy_edges s)"
  shows "propagate E x s \<noteq> Inl (Trap ''call stack exhausted'') \<and>
    (\<forall>n. fcard (fmdom (voters s)) < n \<longrightarrow> propagate_weight_change n E x s = propagate E x s)"
proof -
  let ?n = "fcard (fmdom (voters s)) + 1"
  have r: "proxy_rank s x < ?n" using proxy_rank_bound [of s x] by simp
  have "propagate_weight_change n E x s = propagate_weight_change ?n E x s" if "fcard (fmdom (voters s)) < n" for n
    by (rule conjunct1 [OF propagate_fuel [OF assms _ r]]) (use that proxy_rank_bound [of s x] in linarith)
  moreover have "propagate_weight_change ?n E x s \<noteq> Inl exhausted" by (rule conjunct2 [OF propagate_fuel [OF assms r r]])
  ultimately show ?thesis unfolding propagate_def by blast
qed

text \<open>Account 1 votes through account 2, which votes for a producer.\<close>

definition demo_proxies :: sys where
  "demo_proxies = sys0\<lparr>voters := fmap_of_list [(1, (blank_voter 1)\<lparr>v_proxy := 2, v_staked := 50\<rparr>),
     (2, (blank_voter 2)\<lparr>v_is_proxy := True\<rparr>)]\<rparr>"

lemma demo_proxies_edges: "proxy_edges demo_proxies = {(1, 2)}"
  by (auto simp: proxy_edges_def demo_proxies_def fmlookup_of_list blank_voter_def split: if_splits) (rule exI [of _ 1], simp)

theorem propagate_terminates_witness:
  "propagate (sdk_env eosio_account 50) 1 demo_proxies \<noteq> Inl (Trap ''call stack exhausted'')"
proof -
  have "acyclic (proxy_edges demo_proxies)"
    unfolding demo_proxies_edges by (rule wf_acyclic, rule wf_subset [of "measure (\<lambda>x. if x = 1 then 0 else 1)"]) auto
  then show ?thesis using propagate_terminates by blast
qed

end
