(* ===== verification/Limit_Auth.thy ===== *)
theory Limit_Auth
  imports System_State
begin

section \<open>Limits on changes of authorities\<close>

text \<open>
  Model of \<open>limit_auth_changes.cpp\<close> and of the four native actions of \<open>native.hpp\<close> that change permissions.
  The chain performs the change itself; the contract only decides whether to reject it.  \<open>require_auth\<close>
  with a permission level is \<open>has_perm\<close>; an absent binary extension is \<open>None\<close>.
\<close>

definition owner_permission :: name where "owner_permission = 12044502819693133824" \<comment> \<open>\<open>owner\<close>\<close>

definition limitauthchg :: "env \<Rightarrow> name \<Rightarrow> name list \<Rightarrow> name list \<Rightarrow> sys \<Rightarrow> sys result" where
  "limitauthchg E account allow disallow s =
     (if \<not> has_auth E account then Inl Missing_auth else
      if \<not> (allow = [] \<or> disallow = []) then Inl (Check ''either allow_perms or disallow_perms must be empty'') else
      if \<not> (allow = [] \<or> owner_permission \<in> set allow) then Inl (Check ''allow_perms does not contain owner'') else
      if \<not> (disallow = [] \<or> owner_permission \<notin> set disallow) then Inl (Check ''disallow_perms contains owner'') else
      Inr (s\<lparr>limitauthchg_tbl :=
        (if allow \<noteq> [] \<or> disallow \<noteq> []
         then fmupd account \<lparr>allow_perms = allow, disallow_perms = disallow\<rparr> (limitauthchg_tbl s)
         else fmdrop account (limitauthchg_tbl s))\<rparr>))"

definition check_auth_change :: "env \<Rightarrow> name \<Rightarrow> name option \<Rightarrow> sys \<Rightarrow> unit result" where
  "check_auth_change E account authorized_by s =
     (let by' = (case authorized_by of Some p \<Rightarrow> p | None \<Rightarrow> 0) in
      if by' \<noteq> 0 \<and> \<not> has_perm E (account, by') then Inl Missing_auth else
      case fmlookup (limitauthchg_tbl s) account of
        None \<Rightarrow> Inr ()
      | Some row \<Rightarrow>
          if by' = 0 then Inl (Check ''authorized_by is required for this account'') else
          if allow_perms row \<noteq> [] then
            (if by' \<in> set (allow_perms row) then Inr () else Inl (Check ''authorized_by does not appear in allow_perms''))
          else
            (if by' \<notin> set (disallow_perms row) then Inr () else Inl (Check ''authorized_by appears in disallow_perms'')))"

datatype auth_action =
    Updateauth name name name       \<comment> \<open>account, permission, parent\<close>
  | Deleteauth name name
  | Linkauth name name name name    \<comment> \<open>account, code, type, requirement\<close>
  | Unlinkauth name name name

fun auth_account :: "auth_action \<Rightarrow> name" where
  "auth_account (Updateauth x p q) = x"
| "auth_account (Deleteauth x p) = x"
| "auth_account (Linkauth x c t r) = x"
| "auth_account (Unlinkauth x c t) = x"

definition native_auth :: "env \<Rightarrow> auth_action \<Rightarrow> name option \<Rightarrow> sys \<Rightarrow> unit result" where
  "native_auth E a authorized_by s = check_auth_change E (auth_account a) authorized_by s"

subsection \<open>The rows\<close>

definition row_ok :: "limit_auth_change \<Rightarrow> bool" where
  "row_ok row \<longleftrightarrow> (allow_perms row = [] \<or> disallow_perms row = []) \<and>
     (allow_perms row = [] \<or> owner_permission \<in> set (allow_perms row)) \<and> owner_permission \<notin> set (disallow_perms row)"

definition limits_ok :: "sys \<Rightarrow> bool" where
  "limits_ok s \<longleftrightarrow> (\<forall>x row. fmlookup (limitauthchg_tbl s) x = Some row \<longrightarrow> row_ok row)"

lemma limitauthchg_ok:
  assumes "limitauthchg E x al dis s = Inr s'" "limits_ok s"
  shows "limits_ok s'"
proof -
  let ?row = "\<lparr>allow_perms = al, disallow_perms = dis\<rparr>"
  have g: "al = [] \<or> dis = []" "al = [] \<or> owner_permission \<in> set al" "dis = [] \<or> owner_permission \<notin> set dis"
    and s': "limitauthchg_tbl s' = (if al \<noteq> [] \<or> dis \<noteq> [] then fmupd x ?row (limitauthchg_tbl s) else fmdrop x (limitauthchg_tbl s))"
    using assms(1) unfolding limitauthchg_def by (simp_all only: result_simps not_not) auto
  have "row_ok ?row" using g by (auto simp: row_ok_def)
  then show ?thesis using assms(2) unfolding limits_ok_def s' by (simp split: if_splits)
qed

text \<open>
  The limits an account set last in a history of \<open>limitauthchg\<close> actions, the two lists it passed; both empty
  when it never set any.
\<close>

definition last_limits :: "name \<Rightarrow> (env \<times> name \<times> name list \<times> name list) list \<Rightarrow> name list \<times> name list" where
  "last_limits x as = fold (\<lambda>(E, y, al, dis) l. if y = x then (al, dis) else l) as ([], [])"

text \<open>What the table holds for such a pair of lists.\<close>

definition limits_row :: "name list \<times> name list \<Rightarrow> limit_auth_change option" where
  "limits_row l = (if l = ([], []) then None else Some \<lparr>allow_perms = fst l, disallow_perms = snd l\<rparr>)"

lemma limits_history:
  assumes "run_actions (\<lambda>(E, x, al, dis). limitauthchg E x al dis) as s = Inr s'"
    and "fmlookup (limitauthchg_tbl s) x = limits_row l" "fst l = [] \<or> snd l = []"
  shows "(\<exists>l'. l' = fold (\<lambda>(E, y, al, dis) l. if y = x then (al, dis) else l) as l \<and>
      fmlookup (limitauthchg_tbl s') x = limits_row l' \<and> (fst l' = [] \<or> snd l' = [])) \<and>
    (\<forall>(E, y, al, dis) \<in> set as. has_auth E y)"
  using assms
proof (induction as arbitrary: s l)
  case (Cons c as)
  obtain F y al dis where c: "c = (F, y, al, dis)" by (cases c) auto
  obtain s1 where s1: "limitauthchg F y al dis s = Inr s1"
    "run_actions (\<lambda>(E, x, al, dis). limitauthchg E x al dis) as s1 = Inr s'"
    using Cons.prems(1) by (auto simp: c result_simps)
  have g: "has_auth F y" "al = [] \<or> dis = []" and t: "limitauthchg_tbl s1 =
      (if al \<noteq> [] \<or> dis \<noteq> [] then fmupd y \<lparr>allow_perms = al, disallow_perms = dis\<rparr> (limitauthchg_tbl s)
       else fmdrop y (limitauthchg_tbl s))"
    using s1(1) unfolding limitauthchg_def by (simp_all only: result_simps not_not) auto
  have "fmlookup (limitauthchg_tbl s1) x = limits_row (if y = x then (al, dis) else l)"
    using Cons.prems(2) by (simp add: t limits_row_def)
  from Cons.IH [OF s1(2) this] show ?case using Cons.prems(3) g by (simp add: c)
qed simp

subsection \<open>Theorems\<close>

text \<open>
  C35. Who may change authorities is decided by the account's own last word.  After any history of limit changes from the empty table, each of which was signed by
  the account it is about, a change of authorities is accepted exactly when the named permission, if one is named, signed it and
  the lists the account set last let this permission through: with no list always, otherwise only when a permission is named that
  is on the allow list, if that is not empty, and not on the disallow list.  Earlier lists and those of other accounts do not matter.
\<close>

theorem auth_change_iff:
  assumes "run_actions (\<lambda>(E, x, al, dis). limitauthchg E x al dis) as s = Inr s'" and "limitauthchg_tbl s = fmempty"
    and "last_limits (auth_account a) as = (al, dis)" and "p = (case authorized_by of Some p \<Rightarrow> p | None \<Rightarrow> 0)"
  shows "(native_auth E a authorized_by s' = Inr () \<longleftrightarrow>
      (p = 0 \<or> has_perm E (auth_account a, p)) \<and>
      (al = [] \<and> dis = [] \<or> p \<noteq> 0 \<and> (al = [] \<or> p \<in> set al) \<and> p \<notin> set dis)) \<and>
    (\<forall>(E, x, al, dis) \<in> set as. has_auth E x)"
proof -
  have "fmlookup (limitauthchg_tbl s) (auth_account a) = limits_row ([], [])" by (simp add: assms(2) limits_row_def)
  from limits_history [OF assms(1) this]
  have h: "fmlookup (limitauthchg_tbl s') (auth_account a) = limits_row (al, dis)" "al = [] \<or> dis = []"
    "\<forall>(E, x, al, dis) \<in> set as. has_auth E x"
    using assms(3) by (simp_all add: last_limits_def)
  have "native_auth E a authorized_by s' = Inr () \<longleftrightarrow>
      (p = 0 \<or> has_perm E (auth_account a, p)) \<and>
      (al = [] \<and> dis = [] \<or> p \<noteq> 0 \<and> (al = [] \<or> p \<in> set al) \<and> p \<notin> set dis)"
    using h(1,2) by (auto simp: native_auth_def check_auth_change_def Let_def limits_row_def assms(4) [symmetric] split: if_splits)
  then show ?thesis using h(3) by blast
qed

theorem auth_change_iff_witness:
  "\<exists>s'. run_actions (\<lambda>(E, x, al, dis). limitauthchg E x al dis)
       [(sdk_env eosio_account 1, 5, [owner_permission, 9], []), (sdk_env eosio_account 2, 6, [], [9]),
        (sdk_env eosio_account 3, 5, [], [8])] sys0 = Inr s' \<and>
     native_auth (sdk_env eosio_account 4) (Deleteauth 5 9) (Some 7) s' = Inr () \<and>
     native_auth (sdk_env eosio_account 4) (Deleteauth 5 9) (Some 8) s' \<noteq> Inr () \<and>
     native_auth (sdk_env eosio_account 4) (Deleteauth 5 9) None s' \<noteq> Inr ()"
proof -
  let ?as = "[(sdk_env eosio_account 1, 5, [owner_permission, 9], []), (sdk_env eosio_account 2, 6, [], [9]),
        (sdk_env eosio_account 3, 5, [], [8])]"
  have "\<exists>s'. run_actions (\<lambda>(E, x, al, dis). limitauthchg E x al dis) ?as sys0 = Inr s'"
    by (simp add: limitauthchg_def sdk_env_def owner_permission_def)
  then obtain s' where s': "run_actions (\<lambda>(E, x, al, dis). limitauthchg E x al dis) ?as sys0 = Inr s'" ..
  have t: "limitauthchg_tbl sys0 = fmempty" and l: "last_limits (auth_account (Deleteauth 5 9)) ?as = ([], [8])"
    by (simp_all add: sys0_def last_limits_def)
  note iff = auth_change_iff [OF s' t l refl, of "sdk_env eosio_account 4"]
  show ?thesis using s' iff [of "Some 7"] iff [of "Some 8"] iff [of None] by (simp add: sdk_env_def)
qed

text \<open>
  C36. However an account sets its limits, it keeps the allow and disallow lists exclusive and can never lock out its owner
  permission: after any sequence of changes, an action signed by the owner permission is
  accepted; setting both lists to empty removes all limits.
\<close>

theorem owner_never_locked_out:
  assumes "run_actions (\<lambda>(E, x, al, dis). limitauthchg E x al dis) as s = Inr s'" and "limits_ok s"
    and "has_perm E (auth_account a, owner_permission)"
  shows "limits_ok s' \<and> native_auth E a (Some owner_permission) s' = Inr ()"
proof -
  have ok: "limits_ok s'" using assms(1,2)
  proof (induction as arbitrary: s)
    case (Cons c as)
    obtain F x al dis where c: "c = (F, x, al, dis)" by (cases c) auto
    from Cons.prems obtain s1 where "limitauthchg F x al dis s = Inr s1"
      "run_actions (\<lambda>(E, x, al, dis). limitauthchg E x al dis) as s1 = Inr s'" by (auto simp: c result_simps)
    then show ?case using Cons.IH limitauthchg_ok Cons.prems(2) by blast
  qed simp
  have "owner_permission \<noteq> 0" by (simp add: owner_permission_def)
  then show ?thesis using ok assms(3)
    by (auto simp: native_auth_def check_auth_change_def limits_ok_def row_ok_def split: option.splits)
qed

theorem owner_never_locked_out_witness:
  "\<exists>s'. run_actions (\<lambda>(E, x, al, dis). limitauthchg E x al dis)
       [(sdk_env eosio_account 1, 5, [owner_permission, 9], []), (sdk_env eosio_account 2, 5, [], [9])] sys0 = Inr s' \<and>
     native_auth (sdk_env eosio_account 3) (Deleteauth 5 9) (Some owner_permission) s' = Inr ()"
proof -
  let ?as = "[(sdk_env eosio_account 1, 5, [owner_permission, 9], []), (sdk_env eosio_account 2, 5, [], [9])]"
  have "\<exists>s'. run_actions (\<lambda>(E, x, al, dis). limitauthchg E x al dis) ?as sys0 = Inr s'"
    by (simp add: limitauthchg_def sdk_env_def owner_permission_def)
  then obtain s' where s': "run_actions (\<lambda>(E, x, al, dis). limitauthchg E x al dis) ?as sys0 = Inr s'" ..
  have "limits_ok sys0" by (simp add: limits_ok_def sys0_def)
  then show ?thesis
    using owner_never_locked_out [OF s', of "sdk_env eosio_account 3" "Deleteauth 5 9"] s' by (simp add: sdk_env_def)
qed

end
