(* ===== verification/Rex_Returns.thy ===== *)
theory Rex_Returns
  imports Rex_Frame
begin

section \<open>What the return pool pays out\<close>

text \<open>
  Fees that go to REX are not lent out at once: they wait in a pending bucket until the next multiple of twelve hours,
  and then flow into the pool at a constant rate over thirty days, in steps of ten minutes.  This theory shows that the incremental
  bookkeeping of \<open>update_rex_pool\<close> (one rate for all buckets, a correction for the buckets that expired since the last
  update) pays exactly what came in: the invariant \<open>returns_ok\<close> says that the undistributed proceeds are the pending
  fees plus, for each open bucket, its rate times the intervals it still has.  The clocks are unsigned 32-bit
  seconds; the bound \<open>max_return_rate\<close> on the rates keeps every product below the width of a signed 64-bit amount.
\<close>

definition max_return_rate :: int where "max_return_rate = 2 ^ 39"

definition return_span :: int where "return_span = total_intervals * dist_interval"

lemma return_consts: "dist_interval = 600" "total_intervals = 4320" "return_span = 2592000"
  by (simp_all add: dist_interval_def total_intervals_def return_span_def)

text \<open>What a bucket still has to pay at time \<open>t\<close>; negative for the bucket that should have been closed before.\<close>

definition bucket_left :: "int \<Rightarrow> int \<times> int \<Rightarrow> int" where
  "bucket_left now b = snd b * (total_intervals - (now div dist_interval - fst b div dist_interval))"

definition undistributed :: "int \<Rightarrow> buckets \<Rightarrow> int" where
  "undistributed now bs = sum_list (map (bucket_left now) bs)"

lemma undistributed_simps [simp]:
  "undistributed now [] = 0" "undistributed now (b # bs) = bucket_left now b + undistributed now bs"
  "undistributed now (xs @ ys) = undistributed now xs + undistributed now ys"
  by (simp_all add: undistributed_def)

definition on_grid :: "int \<Rightarrow> bool" where
  "on_grid t \<longleftrightarrow> dist_interval dvd t \<and> 0 \<le> t \<and> t < 2 ^ 32"

definition bucket_ok :: "int \<Rightarrow> int \<times> int \<Rightarrow> bool" where
  "bucket_ok now b \<longleftrightarrow> on_grid (fst b) \<and> fst b \<le> now \<and> 0 \<le> snd b"

definition pending_ok :: "int \<Rightarrow> rex_return_pool \<Rightarrow> buckets \<Rightarrow> bool" where
  "pending_ok now rp bs \<longleftrightarrow>
     pending_bucket_time rp = max_time_sec \<and> pending_bucket_proceeds rp = 0 \<or>
     on_grid (pending_bucket_time rp) \<and> now \<le> pending_bucket_time rp \<and> 0 \<le> pending_bucket_proceeds rp \<and>
     (\<forall>b\<in>set bs. fst b < pending_bucket_time rp)"

definition rates_ok :: "rex_return_pool \<Rightarrow> buckets \<Rightarrow> bool" where
  "rates_ok rp bs \<longleftrightarrow> current_rate_of_increase rp = bucket_sum bs \<and>
     total_intervals * bucket_sum bs + pending_bucket_proceeds rp \<le> total_intervals * max_return_rate \<and>
     (bs \<noteq> [] \<longrightarrow> oldest_bucket_time rp \<le> fst (hd bs))"

text \<open>The fees of the last thirty days, as far as the pool remembers them.\<close>

definition return_load :: "rex_return_pool \<Rightarrow> int" where
  "return_load rp = total_intervals * current_rate_of_increase rp + pending_bucket_proceeds rp"

definition returns_ok :: "rex_return_pool \<Rightarrow> buckets \<Rightarrow> bool" where
  "returns_ok rp bs \<longleftrightarrow>
     on_grid (last_dist_time rp) \<and> sorted_wrt (<) (map fst bs) \<and>
     (\<forall>b\<in>set bs. bucket_ok (last_dist_time rp) b \<and> last_dist_time rp < fst b + return_span) \<and>
     pending_ok (last_dist_time rp) rp bs \<and> rates_ok rp bs \<and>
     proceeds rp = pending_bucket_proceeds rp + undistributed (last_dist_time rp) bs"

subsection \<open>Intervals\<close>

lemma max_time_off_grid: "\<not> on_grid max_time_sec"
  by (simp add: on_grid_def max_time_sec_def return_consts)

lemma elapsed_grid:
  assumes "on_grid a" "on_grid b" "b \<le> a"
  shows "elapsed_intervals a b = a div dist_interval - b div dist_interval" "0 \<le> elapsed_intervals a b"
    "elapsed_intervals a b \<le> 2 ^ 23"
proof -
  obtain x y where xy: "a = 600 * x" "b = 600 * y" using assms by (auto simp: on_grid_def return_consts elim!: dvdE)
  then have "u32 (a - b) = 600 * (x - y)" using assms by (simp add: on_grid_def width_simps)
  then show "elapsed_intervals a b = a div dist_interval - b div dist_interval" "0 \<le> elapsed_intervals a b"
    "elapsed_intervals a b \<le> 2 ^ 23"
    using xy assms by (simp_all add: elapsed_intervals_def return_consts on_grid_def)
qed

lemma bucket_left_step:
  assumes "bucket_ok now b" "on_grid now" "on_grid later" "now \<le> later"
  shows "bucket_left later b = bucket_left now b - snd b * elapsed_intervals later now"
  unfolding elapsed_grid(1) [OF assms(3,2,4)] by (simp add: bucket_left_def algebra_simps)

lemma undistributed_step:
  assumes "\<forall>b\<in>set bs. bucket_ok now b" "on_grid now" "on_grid later" "now \<le> later"
  shows "undistributed later bs = undistributed now bs - bucket_sum bs * elapsed_intervals later now"
  using assms(1)
proof (induction bs)
  case (Cons b bs)
  have "bucket_left later b = bucket_left now b - snd b * elapsed_intervals later now"
    using Cons.prems by (intro bucket_left_step [OF _ assms(2-4)]) simp
  then show ?case using Cons by (simp add: distrib_right)
qed simp

lemma slots_of_span:
  fixes t now :: int
  assumes "600 dvd t" "600 dvd now" "t \<le> now" "now < t + 2592000"
  shows "0 \<le> 4320 - (now div 600 - t div 600)" "4320 - (now div 600 - t div 600) \<le> 4320"
proof -
  obtain x where x: "t = 600 * x" by (rule dvdE [OF assms(1)])
  obtain y where y: "now = 600 * y" by (rule dvdE [OF assms(2)])
  have d: "t div 600 = x" "now div 600 = y" unfolding x y by simp_all
  have "x \<le> y" using assms(3) unfolding x y by linarith
  moreover have "y < x + 4320" using assms(4) unfolding x y by linarith
  ultimately show "0 \<le> 4320 - (now div 600 - t div 600)" "4320 - (now div 600 - t div 600) \<le> 4320"
    unfolding d by linarith+
qed

lemmas open_slots = slots_of_span [folded return_consts]

lemma bucket_left_nonneg:
  assumes "bucket_ok now b" "now < fst b + return_span" "on_grid now"
  shows "0 \<le> bucket_left now b" "bucket_left now b \<le> total_intervals * snd b"
proof -
  have b: "dist_interval dvd fst b" "dist_interval dvd now" "fst b \<le> now" "0 \<le> snd b"
    using assms by (auto simp: bucket_ok_def on_grid_def)
  note slots = open_slots [OF b(1-3) assms(2)]
  show "0 \<le> bucket_left now b" unfolding bucket_left_def by (rule mult_nonneg_nonneg [OF b(4) slots(1)])
  show "bucket_left now b \<le> total_intervals * snd b"
    unfolding bucket_left_def mult.commute [of total_intervals] by (rule mult_left_mono [OF slots(2) b(4)])
qed

lemma bucket_expired:
  assumes "bucket_ok now b" "fst b + return_span \<le> now" "on_grid now"
  shows "elapsed_intervals now (u32 (fst b + return_span)) * snd b = - bucket_left now b"
    "0 \<le> - bucket_left now b" "- bucket_left now b \<le> snd b * 2 ^ 23"
proof -
  have b: "on_grid (fst b)" "0 \<le> snd b" and now: "on_grid now" using assms by (auto simp: bucket_ok_def)
  have e: "on_grid (fst b + return_span)" using b now assms(2) by (auto simp: on_grid_def return_consts)
  have "u32 (fst b + return_span) = fst b + return_span" using e by (simp add: on_grid_def width_simps)
  then have *: "elapsed_intervals now (u32 (fst b + return_span)) = now div dist_interval - fst b div dist_interval - total_intervals"
    "0 \<le> elapsed_intervals now (u32 (fst b + return_span))" "elapsed_intervals now (u32 (fst b + return_span)) \<le> 2 ^ 23"
    using elapsed_grid [OF now e assms(2)] by (simp_all add: return_span_def return_consts)
  have eq: "elapsed_intervals now (u32 (fst b + return_span)) * snd b = - bucket_left now b"
    unfolding *(1) by (simp add: bucket_left_def algebra_simps)
  show "elapsed_intervals now (u32 (fst b + return_span)) * snd b = - bucket_left now b" by (rule eq)
  show "0 \<le> - bucket_left now b" "- bucket_left now b \<le> snd b * 2 ^ 23"
    using *(2,3) b(2) by (simp_all only: eq [symmetric] mult_nonneg_nonneg mult.commute [of "snd b"] mult_right_mono)
qed

lemma undistributed_nonneg:
  "\<forall>b\<in>set bs. bucket_ok now b \<and> now < fst b + return_span \<Longrightarrow> on_grid now \<Longrightarrow> 0 \<le> undistributed now bs"
  by (induction bs) (auto simp: bucket_left_nonneg)

lemma undistributed_le:
  "\<forall>b\<in>set bs. bucket_ok now b \<and> now < fst b + return_span \<Longrightarrow> on_grid now \<Longrightarrow>
     undistributed now bs \<le> total_intervals * bucket_sum bs"
  by (induction bs) (auto simp: distrib_left intro!: add_mono bucket_left_nonneg(2) [of now "(a, b)" for a b, simplified])

subsection \<open>Opening the pending bucket\<close>

text \<open>The state between the two halves of the update, with the change that is already determined.\<close>

definition opened :: "int \<Rightarrow> rex_return_pool \<Rightarrow> buckets \<Rightarrow> int \<Rightarrow> bool" where
  "opened now rp bs change \<longleftrightarrow>
     sorted_wrt (<) (map fst bs) \<and> (\<forall>b\<in>set bs. bucket_ok now b) \<and> pending_ok now rp bs \<and> rates_ok rp bs \<and>
     0 \<le> change \<and> change \<le> 2 ^ 62 + total_intervals \<and>
     proceeds rp - change = pending_bucket_proceeds rp + undistributed now bs \<and>
     pending_bucket_proceeds rp + undistributed now (filter (\<lambda>b. now < fst b + return_span) bs) \<le> proceeds rp"

lemma rate_times_elapsed:
  assumes "0 \<le> r" "r \<le> max_return_rate" "0 \<le> e" "e \<le> 2 ^ 23"
  shows "0 \<le> r * e" "r * e \<le> 2 ^ 62"
proof -
  show "0 \<le> r * e" using assms by simp
  have "r * e \<le> 2 ^ 39 * 2 ^ 23" using assms by (intro mult_mono) (simp_all add: max_return_rate_def)
  then show "r * e \<le> 2 ^ 62" by simp
qed

lemma rates_nonneg:
  assumes "\<forall>b\<in>set bs. bucket_ok now b"
  shows "buckets_nn bs" "0 \<le> bucket_sum bs"
proof -
  show nn: "buckets_nn bs" using assms by (auto simp: buckets_nn_def bucket_ok_def)
  show "0 \<le> bucket_sum bs" by (rule bucket_sum_nonneg [OF nn])
qed

lemma filter_undistributed:
  assumes "\<forall>b\<in>set bs. bucket_ok now b \<and> now < fst b + return_span" "on_grid now" "on_grid later" "now \<le> later"
  shows "undistributed later (filter P bs) \<le> undistributed now bs"
  using assms(1)
proof (induction bs)
  case (Cons b bs)
  have "bucket_left later b = bucket_left now b - snd b * elapsed_intervals later now"
    using Cons.prems by (intro bucket_left_step [OF _ assms(2-4)]) simp
  moreover have "0 \<le> snd b * elapsed_intervals later now"
    using Cons.prems elapsed_grid(2) [OF assms(3,2,4)] by (auto simp: bucket_ok_def)
  moreover have "0 \<le> bucket_left now b" using Cons.prems assms(2) by (intro bucket_left_nonneg) auto
  moreover have "undistributed later (filter P bs) \<le> undistributed now bs" using Cons by simp
  ultimately show ?case by simp
qed simp

lemma insert_last_bucket: "\<forall>b\<in>set bs. fst b < t \<Longrightarrow> insert_bucket t n bs = bs @ [(t, n)]"
  by (simp add: insert_bucket_def takeWhile_eq_all_conv [THEN iffD2] dropWhile_eq_Nil_conv [THEN iffD2])

lemma open_pending_ok:
  assumes ok: "returns_ok rp bs" and now: "on_grid now" "last_dist_time rp < now"
    and r: "open_pending now rp bs (i64 (current_rate_of_increase rp * elapsed_intervals now (last_dist_time rp))) = (rp1, bs1, change)"
  shows "opened now rp1 bs1 change" "proceeds rp1 = proceeds rp" "return_load rp1 \<le> return_load rp"
proof -
  let ?last = "last_dist_time rp" and ?pend = "pending_bucket_proceeds rp" and ?pt = "pending_bucket_time rp"
  let ?e = "elapsed_intervals now ?last"
  have last: "on_grid ?last" and srt: "sorted_wrt (<) (map fst bs)" and pend: "pending_ok ?last rp bs"
    and rates: "rates_ok rp bs" and pr: "proceeds rp = ?pend + undistributed ?last bs"
    and bs: "\<forall>b\<in>set bs. bucket_ok ?last b \<and> ?last < fst b + return_span"
    using ok by (simp_all add: returns_ok_def)
  have e: "0 \<le> ?e" "?e \<le> 2 ^ 23" using elapsed_grid [OF now(1) last] now(2) by simp_all
  have sum: "0 \<le> bucket_sum bs" using bs by (intro rates_nonneg(2) [of _ ?last]) simp
  have cur: "current_rate_of_increase rp = bucket_sum bs" "bucket_sum bs + ?pend div total_intervals \<le> max_return_rate"
    using rates by (auto simp: rates_ok_def return_consts)
  have pend0: "0 \<le> ?pend" using pend by (auto simp: pending_ok_def)
  have q0: "0 \<le> ?pend div total_intervals" using pend0 by (simp add: return_consts pos_imp_zdiv_nonneg_iff)
  have ce: "0 \<le> bucket_sum bs * ?e" "bucket_sum bs * ?e \<le> 2 ^ 62"
    using sum cur(2) q0 e by (intro rate_times_elapsed; simp)+
  have i: "i64 (current_rate_of_increase rp * ?e) = bucket_sum bs * ?e" unfolding cur(1) using ce by (simp add: width_simps)
  have step: "undistributed now bs = undistributed ?last bs - bucket_sum bs * ?e"
    using bs last now by (intro undistributed_step) auto
  have bs_now: "\<forall>b\<in>set bs. bucket_ok now b" using bs now(2) by (auto simp: bucket_ok_def)
  have fil: "undistributed now (filter (\<lambda>b. now < fst b + return_span) bs) \<le> undistributed ?last bs"
    using bs last now by (intro filter_undistributed) auto
  have "opened now rp1 bs1 change \<and> proceeds rp1 = proceeds rp \<and> return_load rp1 \<le> return_load rp"
  proof (cases "?pt \<le> now")
    case False
    then have "rp1 = rp" "bs1 = bs" "change = bucket_sum bs * ?e" using r by (auto simp: open_pending_def i)
    moreover have "pending_ok now rp bs" using pend False by (auto simp: pending_ok_def)
    ultimately show ?thesis
      using srt bs_now rates ce pr step fil by (simp add: opened_def return_consts)
  next
    case True
    have "?pt \<noteq> max_time_sec" proof
      assume "?pt = max_time_sec"
      then have "now = max_time_sec" using True now(1) by (simp add: on_grid_def max_time_sec_def)
      then show False using now(1) max_time_off_grid by simp
    qed
    then have pt: "on_grid ?pt" "?last \<le> ?pt" "\<forall>b\<in>set bs. fst b < ?pt" using pend by (auto simp: pending_ok_def)
    define q where "q = ?pend div total_intervals"
    define rem where "rem = ?pend mod total_intervals"
    let ?e' = "elapsed_intervals now ?pt"
    have qr: "?pend = q * total_intervals + rem" "0 \<le> rem" "rem < total_intervals" "0 \<le> q"
      using q0 by (simp_all add: q_def rem_def return_consts)
    have tm: "tmod ?pend total_intervals = rem" using pend0 by (simp add: rem_def tmod_nonneg return_consts)
    have q_max: "q \<le> max_return_rate" "bucket_sum bs + q \<le> max_return_rate" using cur(2) sum by (simp_all add: q_def)
    have "0 \<le> q * total_intervals" "q * total_intervals < 2 ^ 63" using q_max qr(4) by (simp_all add: return_consts max_return_rate_def)
    then have td: "tdiv (i64 (?pend - rem)) total_intervals = q"
      using qr by (simp add: width_simps tdiv_nonneg return_consts)
    have e': "0 \<le> ?e'" "?e' \<le> 2 ^ 23" "?e' \<le> ?e"
      using elapsed_grid [OF now(1) pt(1) True] elapsed_grid(1) [OF now(1) last] now(2) pt(2) 
      by (simp_all add: zdiv_mono1 return_consts)
    have qe: "0 \<le> q * ?e'" "q * ?e' \<le> 2 ^ 62" using rate_times_elapsed [OF qr(4) q_max(1) e'(1,2)] .
    have all: "(bucket_sum bs + q) * ?e \<le> 2 ^ 62" using q_max sum qr(4) e by (intro rate_times_elapsed) auto
    have qe': "q * ?e' \<le> q * ?e" using e'(3) qr(4) by (rule mult_left_mono)
    define c where "c = bucket_sum bs * ?e + (rem + q * ?e')"
    have c: "0 \<le> c" "c \<le> 2 ^ 62 + total_intervals"
      using ce qe qr all qe' by (simp_all add: c_def distrib_right)
    have ci: "i64 (bucket_sum bs * ?e + i64 (rem + i64 (q * ?e'))) = c"
    proof -
      have "i64 (q * ?e') = q * ?e'" using qe by (simp add: width_simps)
      moreover have "i64 (rem + q * ?e') = rem + q * ?e'" using qe qr by (simp add: width_simps return_consts)
      moreover have "i64 c = c" using c by (simp add: width_simps return_consts)
      ultimately show ?thesis by (simp add: c_def)
    qed
    have rate: "i64 (bucket_sum bs + q) = bucket_sum bs + q" using sum qr(4) q_max by (simp add: width_simps max_return_rate_def)
    have eqs: "bs1 = bs @ [(?pt, q)]" "change = c"
      "rp1 = rp\<lparr>current_rate_of_increase := bucket_sum bs + q, pending_bucket_proceeds := 0, pending_bucket_time := max_time_sec,
         oldest_bucket_time := (if ?pt < oldest_bucket_time rp then ?pt else oldest_bucket_time rp)\<rparr>"
      using r True by (simp_all add: open_pending_def Let_def i tm td ci insert_last_bucket [OF pt(3)] cur(1) rate i [unfolded cur(1)])
    have left: "bucket_left now (?pt, q) = q * total_intervals - q * ?e'"
      unfolding elapsed_grid(1) [OF now(1) pt(1) True] by (simp add: bucket_left_def right_diff_distrib)
    have a1: "sorted_wrt (<) (map fst bs1)" unfolding eqs using srt pt(3) by (simp add: sorted_wrt_append)
    have a2: "\<forall>b\<in>set bs1. bucket_ok now b" unfolding eqs using bs_now pt(1) True qr(4) by (simp add: bucket_ok_def)
    have a3: "rates_ok rp1 bs1" using rates q_max by (cases bs) (auto simp: rates_ok_def eqs(1,3) return_consts)
    have a4: "proceeds rp - change = undistributed now bs1" using pr step left qr(1) by (simp add: eqs c_def)
    have a5: "undistributed now (filter (\<lambda>b. now < fst b + return_span) bs1) \<le> proceeds rp"
      using fil pr left qr qe mult_nonneg_nonneg [OF qr(4), of total_intervals] by (simp add: eqs return_consts)
    have a6: "return_load rp1 \<le> return_load rp" using qr cur(1) by (simp add: return_load_def eqs(3) distrib_left)
    show ?thesis using a1 a2 a3 a4 a5 a6 c by (simp add: opened_def eqs(2,3) pending_ok_def)
  qed
  then show "opened now rp1 bs1 change" "proceeds rp1 = proceeds rp" "return_load rp1 \<le> return_load rp" by auto
qed

subsection \<open>Closing the expired buckets\<close>

lemma fold_i64_sum:
  assumes "\<forall>b\<in>set bs. 0 \<le> f b" "0 \<le> a" "a + sum_list (map f bs) < 2 ^ 63"
  shows "fold (\<lambda>b x. i64 (x + f b)) bs a = a + sum_list (map f bs)"
  using assms
proof (induction bs arbitrary: a)
  case (Cons b bs)
  have "0 \<le> sum_list (map f bs)" using Cons.prems(1) by (intro sum_list_nonneg) auto
  then have "i64 (a + f b) = a + f b" using Cons.prems by (simp add: width_simps)
  then show ?case using Cons by simp
qed simp

lemma sorted_split_buckets:
  fixes bs :: buckets
  shows "sorted_wrt (<) (map fst bs) \<Longrightarrow> dropWhile (\<lambda>b. fst b \<le> thr) bs = filter (\<lambda>b. thr < fst b) bs"
proof (induction bs)
  case (Cons b bs)
  show ?case
  proof (cases "thr < fst b")
    case True
    have "filter (\<lambda>b. thr < fst b) bs = bs"
    proof (rule filter_True, rule ballI)
      fix x assume "x \<in> set bs"
      then have "fst b < fst x" using Cons.prems by simp
      then show "thr < fst x" using True by simp
    qed
    then show ?thesis using True by simp
  next
    case False
    then show ?thesis using Cons by simp
  qed
qed simp

lemma gone_sums:
  assumes gone: "\<forall>b\<in>set gone. bucket_ok now b \<and> fst b + return_span \<le> now" and now: "on_grid now"
    and le: "bucket_sum gone \<le> max_return_rate"
  shows "fold (\<lambda>b x. i64 (x + i64 (snd b * elapsed_intervals now (u32 (fst b + return_span))))) gone 0 = - undistributed now gone"
    "fold (\<lambda>b x. i64 (x + snd b)) gone 0 = bucket_sum gone"
    "0 \<le> - undistributed now gone" "- undistributed now gone \<le> 2 ^ 62"
proof -
  have nn: "buckets_nn gone" "0 \<le> bucket_sum gone" using gone by (intro rates_nonneg; blast)+
  have each: "0 \<le> snd b \<and> snd b \<le> bucket_sum gone" if "b \<in> set gone" for b
    using that nn(1)
  proof (induction gone)
    case (Cons c cs)
    then show ?case using bucket_sum_nonneg [of cs] by auto
  qed simp
  have one: "i64 (snd b * elapsed_intervals now (u32 (fst b + return_span))) = - bucket_left now b \<and> 0 \<le> - bucket_left now b \<and>
      - bucket_left now b \<le> snd b * 2 ^ 23" if b: "b \<in> set gone" for b
  proof -
    have bk: "bucket_ok now b" "fst b + return_span \<le> now" using gone b by auto
    note ex = bucket_expired [OF bk now]
    have "snd b * 2 ^ 23 \<le> 2 ^ 62" using each [OF b] le by (simp add: max_return_rate_def)
    then have "i64 (- bucket_left now b) = - bucket_left now b" using ex by (simp add: width_simps)
    then show ?thesis using ex by (simp add: mult.commute)
  qed
  have total: "sum_list (map (\<lambda>b. - bucket_left now b) gone) = - undistributed now gone" by (induction gone) auto
  have "sum_list (map (\<lambda>b. - bucket_left now b) gone) \<le> sum_list (map (\<lambda>b. snd b * 2 ^ 23) gone)"
    using one by (intro sum_list_mono) blast
  also have "\<dots> = bucket_sum gone * 2 ^ 23" by (induction gone) auto
  finally show u: "- undistributed now gone \<le> 2 ^ 62" using le by (simp add: total max_return_rate_def)
  have "0 \<le> sum_list (map (\<lambda>b. - bucket_left now b) gone)" using one by (intro sum_list_nonneg) auto
  then show "0 \<le> - undistributed now gone" by (simp only: total)
  have "fold (\<lambda>b x. i64 (x + i64 (snd b * elapsed_intervals now (u32 (fst b + return_span))))) gone 0 =
      fold (\<lambda>b x. i64 (x + - bucket_left now b)) gone 0"
    using one by (intro fold_cong) simp_all
  also have "\<dots> = 0 + sum_list (map (\<lambda>b. - bucket_left now b) gone)"
    using one u total by (intro fold_i64_sum) auto
  finally show "fold (\<lambda>b x. i64 (x + i64 (snd b * elapsed_intervals now (u32 (fst b + return_span))))) gone 0 = - undistributed now gone"
    by (simp only: total add_0)
  show "fold (\<lambda>b x. i64 (x + snd b)) gone 0 = bucket_sum gone"
  proof -
    have "\<forall>b\<in>set gone. 0 \<le> snd b" using nn(1) by (simp add: buckets_nn_def)
    moreover have "0 + sum_list (map snd gone) < 2 ^ 63" using le by (simp add: bucket_sum_def max_return_rate_def)
    ultimately show ?thesis using fold_i64_sum [of gone snd 0] by (simp add: bucket_sum_def)
  qed
qed

lemma close_expired_ok:
  assumes o: "opened now rp bs change" and now: "on_grid now" "return_span \<le> now"
    and r: "close_expired now (rp\<lparr>proceeds := i64 (proceeds rp - change), last_dist_time := now\<rparr>) bs change = (rp', bs', change')"
  shows "returns_ok rp' bs'" "proceeds rp' = proceeds rp - change'" "0 \<le> change'" "0 \<le> proceeds rp'"
    "return_load rp' \<le> return_load rp"
proof -
  define thr where "thr = now - return_span"
  define gone where "gone = takeWhile (\<lambda>b. fst b \<le> thr) bs"
  define rest where "rest = dropWhile (\<lambda>b. fst b \<le> thr) bs"
  define rp2 where "rp2 = rp\<lparr>proceeds := i64 (proceeds rp - change), last_dist_time := now\<rparr>"
  have srt: "sorted_wrt (<) (map fst bs)" and bs: "\<forall>b\<in>set bs. bucket_ok now b" and pend: "pending_ok now rp bs" and rates: "rates_ok rp bs"
    and ch: "0 \<le> change" "change \<le> 2 ^ 62 + total_intervals"
    and pr: "proceeds rp - change = pending_bucket_proceeds rp + undistributed now bs"
    and open_le: "pending_bucket_proceeds rp + undistributed now (filter (\<lambda>b. now < fst b + return_span) bs) \<le> proceeds rp"
    using o by (simp_all add: opened_def)
  have thr: "u32 (now - return_span) = thr" using now by (simp add: thr_def on_grid_def width_simps return_consts)
  have split: "bs = gone @ rest" by (simp add: gone_def rest_def)
  have rest_filter: "rest = filter (\<lambda>b. now < fst b + return_span) bs"
    unfolding rest_def sorted_split_buckets [OF srt] by (rule filter_cong) (auto simp: thr_def)
  have gone_ok: "\<forall>b\<in>set gone. bucket_ok now b \<and> fst b + return_span \<le> now"
  proof
    fix b assume b: "b \<in> set gone"
    have "b \<in> set bs" "fst b \<le> thr" using set_takeWhileD [OF b [unfolded gone_def]] by auto
    then show "bucket_ok now b \<and> fst b + return_span \<le> now" using bs by (simp add: thr_def)
  qed
  have rest_ok: "\<forall>b\<in>set rest. bucket_ok now b \<and> now < fst b + return_span" using bs by (auto simp: rest_filter)
  have pend0: "0 \<le> pending_bucket_proceeds rp" "0 \<le> pending_bucket_proceeds rp div total_intervals"
    using pend by (auto simp: pending_ok_def return_consts pos_imp_zdiv_nonneg_iff)
  have sums: "0 \<le> bucket_sum gone" "0 \<le> bucket_sum rest"
    using gone_ok rest_ok by (intro rates_nonneg(2) [of _ now]; blast)+
  have cur: "current_rate_of_increase rp = bucket_sum gone + bucket_sum rest"
    "total_intervals * (bucket_sum gone + bucket_sum rest) + pending_bucket_proceeds rp \<le> total_intervals * max_return_rate"
    using rates by (simp_all add: rates_ok_def split)
  have cmax: "bucket_sum gone + bucket_sum rest \<le> max_return_rate" using cur(2) pend0(1) by (simp add: return_consts)
  then have gmax: "bucket_sum gone \<le> max_return_rate" using sums by simp
  note gs = gone_sums [OF gone_ok now(1) gmax]
  have und: "undistributed now bs = undistributed now gone + undistributed now rest" by (simp add: split)
  have rest_le: "0 \<le> undistributed now rest" "undistributed now rest \<le> total_intervals * bucket_sum rest"
    using rest_ok now(1) by (rule undistributed_nonneg undistributed_le)+
  have "pending_bucket_proceeds rp \<le> total_intervals * max_return_rate"
    using cur(2) sums by (simp add: return_consts)
  moreover have "bucket_sum rest \<le> max_return_rate" using cmax sums by simp
  ultimately have bound: "pending_bucket_proceeds rp + undistributed now rest < 2 ^ 60" using rest_le(2) by (simp add: return_consts max_return_rate_def)
  have "i64 (proceeds rp - change) = proceeds rp - change"
    using pr und gs(3,4) rest_le(1) pend0(1) bound by (intro i64_id) simp_all
  then have rp2: "proceeds rp2 = pending_bucket_proceeds rp + undistributed now bs" "current_rate_of_increase rp2 = current_rate_of_increase rp"
    "pending_bucket_proceeds rp2 = pending_bucket_proceeds rp" "pending_bucket_time rp2 = pending_bucket_time rp"
    "oldest_bucket_time rp2 = oldest_bucket_time rp" "last_dist_time rp2 = now"
    using pr by (simp_all add: rp2_def)
  have fin: "bs' = rest \<and> proceeds rp' = pending_bucket_proceeds rp + undistributed now rest \<and> change' = change + undistributed now gone \<and>
     current_rate_of_increase rp' = bucket_sum rest \<and> pending_bucket_proceeds rp' = pending_bucket_proceeds rp \<and>
     pending_bucket_time rp' = pending_bucket_time rp \<and> last_dist_time rp' = now \<and> (rest \<noteq> [] \<longrightarrow> oldest_bucket_time rp' \<le> fst (hd rest))"
  proof (cases "oldest_bucket_time rp \<le> thr")
    case False
    have "gone = []"
    proof (rule ccontr)
      assume "gone \<noteq> []"
      then have "hd bs \<in> set gone" "bs \<noteq> []" by (auto simp: split)
      then have "fst (hd bs) \<le> thr" using gone_ok by (auto simp: thr_def)
      then show False using False rates \<open>bs \<noteq> []\<close> by (simp add: rates_ok_def)
    qed
    then have "rest = bs" by (simp add: split)
    have "rp' = rp2" "bs' = bs" "change' = change"
      using r [folded rp2_def] False rp2(5) unfolding close_expired_def return_span_def [symmetric] thr Let_def by simp_all
    then show ?thesis using rp2 \<open>gone = []\<close> \<open>rest = bs\<close> rates cur(1) by (simp add: rates_ok_def)
  next
    case True
    have i1: "i64 (bucket_sum gone + bucket_sum rest - bucket_sum gone) = bucket_sum rest"
      using sums cmax by (simp add: width_simps max_return_rate_def)
    have i2: "i64 (proceeds rp2 + - undistributed now gone) = pending_bucket_proceeds rp + undistributed now rest"
      unfolding rp2(1) und using bound rest_le(1) pend0(1) by (simp add: width_simps)
    have i3: "i64 (change - - undistributed now gone) = change + undistributed now gone"
      using ch gs(3,4) by (simp add: width_simps return_consts)
    define rpa where "rpa = rp2\<lparr>oldest_bucket_time := (if rest \<noteq> [] then fst (hd rest) else 0)\<rparr>"
    define rp3 where "rp3 = rpa\<lparr>current_rate_of_increase := bucket_sum rest\<rparr>"
    have rpa: "current_rate_of_increase rpa = bucket_sum gone + bucket_sum rest" using rp2(2) cur(1) by (simp add: rpa_def)
    have eq: "(if 0 < bucket_sum gone then rpa\<lparr>current_rate_of_increase := i64 (current_rate_of_increase rpa - bucket_sum gone)\<rparr> else rpa) = rp3"
      unfolding rp3_def rpa i1 using sums(1) rpa by auto
    have pr2: "proceeds rp3 = proceeds rp2" by (simp add: rp3_def rpa_def)
    have "(rp', bs', change') =
        (if 0 < - undistributed now gone
         then (rp3\<lparr>proceeds := i64 (proceeds rp3 + - undistributed now gone)\<rparr>, rest, i64 (change - - undistributed now gone))
         else (rp3, rest, change))"
      unfolding r [symmetric] close_expired_def return_span_def [symmetric] thr rp2_def [symmetric] Let_def gone_def [symmetric] rest_def [symmetric]
        gs(1,2) rpa_def [symmetric] eq
      using True rp2(5) by simp
    then show ?thesis
      unfolding pr2 i2 i3 using gs(3) rp2 und by (auto simp: rp3_def rpa_def split: if_splits)
  qed
  have "sorted_wrt (<) (map fst rest)" using srt by (simp add: split sorted_wrt_append)
  moreover have "pending_ok now rp' rest" using pend fin by (auto simp: pending_ok_def split)
  moreover have "rates_ok rp' rest" using fin cur(2) sums by (simp add: rates_ok_def return_consts)
  ultimately show "returns_ok rp' bs'" using fin now(1) rest_ok by (simp add: returns_ok_def)
  show "proceeds rp' = proceeds rp - change'" using fin pr und by simp
  show "0 \<le> proceeds rp'" using fin rest_le(1) pend0(1) by simp
  show "return_load rp' \<le> return_load rp" using fin cur(1) sums by (simp add: return_load_def return_consts)
  show "0 \<le> change'" using fin pr und open_le by (simp add: rest_filter [symmetric])
qed

text \<open>No bucket comes from nowhere.\<close>

lemma set_insert_bucket: "set (insert_bucket t n bs) \<subseteq> insert (t, n) (set bs)"
proof -
  have "set (takeWhile P bs) \<subseteq> set bs" "set (dropWhile P bs) \<subseteq> set bs" for P :: "int \<times> int \<Rightarrow> bool"
    using set_takeWhileD [of _ P bs] set_dropWhileD [of _ P bs] by blast+
  moreover have "set (tl xs) \<subseteq> set xs" for xs :: buckets by (cases xs) auto
  ultimately show ?thesis unfolding insert_bucket_def Let_def by (fastforce split: if_splits)
qed

lemma open_pending_buckets:
  assumes "open_pending now rp bs c = (rp1, bs1, c1)"
  shows "\<forall>b\<in>set bs1. b \<in> set bs \<or> fst b = pending_bucket_time rp \<and> (pending_bucket_proceeds rp = 0 \<longrightarrow> snd b = 0)"
    "pending_bucket_proceeds rp = 0 \<or> pending_bucket_time rp \<le> now \<Longrightarrow> pending_bucket_proceeds rp1 = 0"
proof -
  have "tdiv (i64 (0 - tmod 0 n)) n = 0" for n by (simp add: tdiv_def tmod_def i64_def)
  then show "\<forall>b\<in>set bs1. b \<in> set bs \<or> fst b = pending_bucket_time rp \<and> (pending_bucket_proceeds rp = 0 \<longrightarrow> snd b = 0)"
    "pending_bucket_proceeds rp = 0 \<or> pending_bucket_time rp \<le> now \<Longrightarrow> pending_bucket_proceeds rp1 = 0"
    using assms set_insert_bucket by (fastforce simp: open_pending_def Let_def split: if_splits)+
qed

lemma close_expired_buckets:
  assumes "close_expired now rp bs c = (rp1, bs1, c1)"
  shows "set bs1 \<subseteq> set bs" "pending_bucket_proceeds rp1 = pending_bucket_proceeds rp"
  using assms by (auto simp: close_expired_def Let_def split: if_splits dest: set_dropWhileD)

subsection \<open>The update of the pool\<close>

text \<open>The clock of the chain: after the first thirty days of the epoch and before its end.\<close>

definition clock_ok :: "env \<Rightarrow> bool" where
  "clock_ok E \<longleftrightarrow> return_span + dist_interval \<le> current_sec E \<and> current_sec E + 12 * seconds_per_hour < 2 ^ 32"

definition grid_time :: "env \<Rightarrow> int" where
  "grid_time E = current_sec E - current_sec E mod dist_interval"

lemma grid_time_ok:
  assumes "clock_ok E"
  shows "on_grid (grid_time E)" "return_span \<le> grid_time E" "grid_time E \<le> current_sec E"
proof -
  have r: "0 \<le> current_sec E mod 600" "current_sec E mod 600 < 600" by simp_all
  have b: "2592600 \<le> current_sec E" "current_sec E < 2 ^ 32" using assms by (simp_all add: clock_ok_def return_consts seconds_per_hour_def)
  have "600 dvd current_sec E - current_sec E mod 600" by simp
  moreover have "0 \<le> current_sec E - current_sec E mod 600" "current_sec E - current_sec E mod 600 < 2 ^ 32"
    "2592000 \<le> current_sec E - current_sec E mod 600" using r b by linarith+
  ultimately show "on_grid (grid_time E)" "return_span \<le> grid_time E" "grid_time E \<le> current_sec E"
    unfolding on_grid_def grid_time_def return_consts using r by auto
qed

text \<open>
  The invariant of the tables at a time: the last update is in the past, except right after the first
  fee, when it is the future time at which the first bucket opens.
\<close>

definition ret_ok :: "int \<Rightarrow> sys \<Rightarrow> bool" where
  "ret_ok now s \<longleftrightarrow> (case rexretpool s of None \<Rightarrow> True
     | Some rp \<Rightarrow> (case rexretbuckets s of None \<Rightarrow> False
        | Some bs \<Rightarrow> returns_ok rp bs \<and> (pending_bucket_time rp = max_time_sec \<longrightarrow> last_dist_time rp \<le> now)))"

lemma ret_ok_later: "ret_ok now s \<Longrightarrow> now \<le> later \<Longrightarrow> ret_ok later s"
  by (auto simp: ret_ok_def split: option.splits)

definition ret_proceeds :: "sys \<Rightarrow> int" where
  "ret_proceeds s = fmval proceeds (rexretpool s)"

definition pool_plus :: "int \<Rightarrow> asset \<Rightarrow> rex_pool \<Rightarrow> rex_pool" where
  "pool_plus n lendable p = p\<lparr>total_unlent := add_amt (total_unlent p) n, total_lendable := lendable\<rparr>"

lemma returns_nonneg: "returns_ok rp bs \<Longrightarrow> 0 \<le> proceeds rp"
  using undistributed_nonneg [of bs "last_dist_time rp"] by (auto simp: returns_ok_def pending_ok_def)

lemma ret_proceeds_nonneg: "ret_ok now s \<Longrightarrow> 0 \<le> ret_proceeds s"
  by (auto simp: ret_ok_def ret_proceeds_def returns_nonneg split: option.splits)

text \<open>What the update does to the return pool.\<close>

lemma update_returns:
  assumes ok: "ret_ok now s" and clock: "clock_ok E" and r: "update_rex_pool E s = Inr s'"
  obtains "s' = s" "\<forall>rp. rexretpool s = Some rp \<longrightarrow> grid_time E \<le> last_dist_time rp"
  | rp rp' bs' change where "rexretpool s = Some rp" "returns_ok rp' bs'" "proceeds rp' = proceeds rp - change" "0 \<le> change"
     "last_dist_time rp' = grid_time E" "return_load rp' \<le> return_load rp"
     "\<forall>bs. rexretbuckets s = Some bs \<longrightarrow> (\<forall>b\<in>set bs'. b \<in> set bs \<or>
        fst b = pending_bucket_time rp \<and> (pending_bucket_proceeds rp = 0 \<longrightarrow> snd b = 0))"
     "pending_bucket_proceeds rp = 0 \<or> pending_bucket_time rp \<le> grid_time E \<longrightarrow> pending_bucket_proceeds rp' = 0"
     "s' = s\<lparr>rexretpool := Some rp', rexretbuckets := Some bs', rexpool := rexpool s'\<rparr>"
     "change = 0 \<and> rexpool s' = rexpool s \<or>
      (\<exists>p q. rexpool s = Some p \<and> asset_add E (add_amt (total_unlent p) change) (total_lent p) = Inr q \<and>
             rexpool s' = Some (pool_plus change q p))"
proof (cases "rexretpool s")
  case None
  then have "s' = s" using r by (simp add: update_rex_pool_def result_simps Let_def)
  then show ?thesis using None by (intro that(1)) auto
next
  case (Some rp)
  then obtain bs where bs: "rexretbuckets s = Some bs" and rok: "returns_ok rp bs" using ok by (auto simp: ret_ok_def split: option.splits)
  note g = grid_time_ok [OF clock]
  show ?thesis
  proof (cases "grid_time E \<le> last_dist_time rp")
    case True
    then have "s' = s" using r Some by (simp add: update_rex_pool_def result_simps Let_def flip: grid_time_def)
    then show ?thesis using Some True by (intro that(1)) auto
  next
    case False
    obtain rp1 bs1 c1 where op: "open_pending (grid_time E) rp bs
        (i64 (current_rate_of_increase rp * elapsed_intervals (grid_time E) (last_dist_time rp))) = (rp1, bs1, c1)"
      by (metis prod_cases3)
    obtain rp3 bs3 c3 where cl: "close_expired (grid_time E) (rp1\<lparr>proceeds := i64 (proceeds rp1 - c1), last_dist_time := grid_time E\<rparr>) bs1 c1 =
        (rp3, bs3, c3)"
      by (metis prod_cases3)
    have lt: "last_dist_time rp < grid_time E" using False by simp
    note o = open_pending_ok [OF rok g(1) lt op]
    note c = close_expired_ok [OF o(1) g(1,2) cl]
    have load: "return_load rp3 \<le> return_load rp" using c(5) o(3) by simp
    have time: "last_dist_time rp3 = grid_time E" using cl by (auto simp: close_expired_def Let_def split: if_splits)
    have orig: "\<forall>bs. rexretbuckets s = Some bs \<longrightarrow> (\<forall>b\<in>set bs3. b \<in> set bs \<or>
        fst b = pending_bucket_time rp \<and> (pending_bucket_proceeds rp = 0 \<longrightarrow> snd b = 0))"
      "pending_bucket_proceeds rp = 0 \<or> pending_bucket_time rp \<le> grid_time E \<longrightarrow> pending_bucket_proceeds rp3 = 0"
      using open_pending_buckets [OF op] close_expired_buckets [OF cl] bs by auto
    define s1 where "s1 = s\<lparr>rexretpool := Some rp3, rexretbuckets := Some bs3\<rparr>"
    have eq: "update_rex_pool E s = (if \<not> 0 < c3 then Inr s1 else
       (case rexpool s1 of None \<Rightarrow> Inl No_row | Some pool \<Rightarrow>
          (case asset_add E (add_amt (total_unlent pool) c3) (total_lent pool) of Inl e \<Rightarrow> Inl e | Inr lendable \<Rightarrow>
             Inr (s1\<lparr>rexpool := Some (pool_plus c3 lendable pool)\<rparr>))))"
      unfolding update_rex_pool_def Let_def grid_time_def [symmetric]
      using False c(4) by (auto simp: Some bs op cl s1_def pool_plus_def split: option.split sum.split)
    show ?thesis
    proof (cases "0 < c3")
      case True
      then obtain p q where p: "rexpool s = Some p" "asset_add E (add_amt (total_unlent p) c3) (total_lent p) = Inr q"
        "s' = s1\<lparr>rexpool := Some (pool_plus c3 q p)\<rparr>"
        using r unfolding eq by (auto simp: result_simps s1_def)
      show ?thesis by (rule that(2) [OF Some c(1) _ c(3) time load orig]) (use p c o in \<open>simp_all add: s1_def\<close>)
    next
      case False
      then have "s' = s1" using r unfolding eq by simp
      then show ?thesis by (intro that(2) [OF Some c(1) _ c(3) time load orig]) (use False c o in \<open>simp_all add: s1_def\<close>)
    qed
  qed
qed

subsection \<open>Fees\<close>

definition ret_load :: "sys \<Rightarrow> int" where
  "ret_load s = fmval return_load (rexretpool s)"

definition next_half_day :: "env \<Rightarrow> int" where
  "next_half_day E = u32 (current_sec E - current_sec E mod (12 * seconds_per_hour) + 12 * seconds_per_hour)"

lemma next_half_day_ok:
  assumes "clock_ok E"
  shows "on_grid (next_half_day E)" "current_sec E < next_half_day E"
proof -
  have r: "0 \<le> current_sec E mod 43200" "current_sec E mod 43200 < 43200" "0 \<le> current_sec E mod 600" by simp_all
  have b: "2592600 \<le> current_sec E" "current_sec E + 43200 < 2 ^ 32" using assms by (simp_all add: clock_ok_def return_consts seconds_per_hour_def)
  have n: "next_half_day E = current_sec E - current_sec E mod 43200 + 43200"
    unfolding next_half_day_def using r b by (simp add: seconds_per_hour_def width_simps)
  have "43200 dvd current_sec E - current_sec E mod 43200 + 43200" by (intro dvd_add) simp_all
  then have "600 dvd next_half_day E" unfolding n by (rule dvd_trans [rotated]) simp
  moreover have "0 \<le> next_half_day E" "next_half_day E < 2 ^ 32" unfolding n using r b by linarith+
  ultimately show "on_grid (next_half_day E)" by (simp add: on_grid_def return_consts)
  show "current_sec E < next_half_day E" unfolding n using r by linarith
qed

definition fee_of :: "asset \<Rightarrow> int" where
  "fee_of fee = max 0 (amount fee)"

text \<open>A fee adds to the proceeds and to the load; everything else is the update.\<close>

lemma returns_fee:
  assumes ok: "returns_ok rp bs" and n: "on_grid n" "pending_bucket_time rp = max_time_sec \<Longrightarrow> last_dist_time rp < n" and f: "0 < f"
    and load: "return_load rp + f \<le> total_intervals * max_return_rate"
  shows "returns_ok (rp\<lparr>pending_bucket_proceeds := i64 (pending_bucket_proceeds rp + f), proceeds := i64 (proceeds rp + f),
       pending_bucket_time := (if pending_bucket_time rp = max_time_sec then n else pending_bucket_time rp)\<rparr>) bs"
    "i64 (proceeds rp + f) = proceeds rp + f" "i64 (pending_bucket_proceeds rp + f) = pending_bucket_proceeds rp + f"
proof -
  have rates: "rates_ok rp bs" and pend: "pending_ok (last_dist_time rp) rp bs"
    and pr: "proceeds rp = pending_bucket_proceeds rp + undistributed (last_dist_time rp) bs"
    and bs: "\<forall>b\<in>set bs. bucket_ok (last_dist_time rp) b \<and> last_dist_time rp < fst b + return_span" and now: "on_grid (last_dist_time rp)"
    using ok by (simp_all add: returns_ok_def)
  have u: "0 \<le> undistributed (last_dist_time rp) bs" "undistributed (last_dist_time rp) bs \<le> total_intervals * bucket_sum bs"
    using bs now by (rule undistributed_nonneg undistributed_le)+
  have p0: "0 \<le> pending_bucket_proceeds rp" using pend by (auto simp: pending_ok_def)
  have cur: "current_rate_of_increase rp = bucket_sum bs" using rates by (simp add: rates_ok_def)
  have le: "proceeds rp \<le> return_load rp" using pr u cur by (simp add: return_load_def)
  have lim: "total_intervals * max_return_rate < 2 ^ 62" by (simp add: return_consts max_return_rate_def)
  show i: "i64 (proceeds rp + f) = proceeds rp + f" "i64 (pending_bucket_proceeds rp + f) = pending_bucket_proceeds rp + f"
    using le load lim f pr u(1) p0 by (simp_all add: width_simps)
  have before: "fst b \<le> last_dist_time rp" if "b \<in> set bs" for b
    using bs that by (simp add: bucket_ok_def)
  define rp' where "rp' = rp\<lparr>pending_bucket_proceeds := pending_bucket_proceeds rp + f, proceeds := proceeds rp + f,
       pending_bucket_time := (if pending_bucket_time rp = max_time_sec then n else pending_bucket_time rp)\<rparr>"
  have "pending_ok (last_dist_time rp) rp' bs"
  proof (cases "pending_bucket_time rp = max_time_sec")
    case True
    then show ?thesis using n(1) n(2) [OF True] before p0 f unfolding pending_ok_def rp'_def
      by (auto intro: le_less_trans)
  next
    case False
    then show ?thesis using pend p0 f unfolding pending_ok_def rp'_def by auto
  qed
  moreover have "rates_ok rp' bs" using rates load cur by (simp add: rates_ok_def rp'_def return_load_def)
  ultimately have "returns_ok rp' bs" using ok by (simp add: returns_ok_def rp'_def)
  then show "returns_ok (rp\<lparr>pending_bucket_proceeds := i64 (pending_bucket_proceeds rp + f), proceeds := i64 (proceeds rp + f),
       pending_bucket_time := (if pending_bucket_time rp = max_time_sec then n else pending_bucket_time rp)\<rparr>) bs"
    unfolding i rp'_def .
qed

lemma ret_load_nonneg: "ret_ok now s \<Longrightarrow> 0 \<le> ret_load s"
proof (cases "rexretpool s")
  case (Some rp)
  assume "ret_ok now s"
  then obtain bs where ok: "returns_ok rp bs" using Some by (auto simp: ret_ok_def split: option.splits)
  then have "0 \<le> bucket_sum bs" by (intro rates_nonneg(2) [of _ "last_dist_time rp"]) (simp add: returns_ok_def)
  then show ?thesis using ok Some by (auto simp: ret_load_def returns_ok_def rates_ok_def pending_ok_def return_load_def return_consts)
qed (simp add: ret_load_def)

lemma ret_proceeds_le: "ret_ok now s \<Longrightarrow> ret_proceeds s \<le> ret_load s \<and> ret_load s \<le> total_intervals * max_return_rate"
proof (cases "rexretpool s")
  case (Some rp)
  assume "ret_ok now s"
  then obtain bs where ok: "returns_ok rp bs" using Some by (auto simp: ret_ok_def split: option.splits)
  then have "undistributed (last_dist_time rp) bs \<le> total_intervals * bucket_sum bs" by (intro undistributed_le) (simp_all add: returns_ok_def)
  then show ?thesis using ok Some by (simp add: ret_load_def ret_proceeds_def returns_ok_def rates_ok_def return_load_def)
qed (simp add: ret_load_def ret_proceeds_def return_consts max_return_rate_def)

lemma update_keeps:
  assumes ok: "ret_ok (current_sec E) s" and clock: "clock_ok E" and r: "update_rex_pool E s = Inr s'"
  shows "ret_ok (current_sec E) s'" "ret_load s' \<le> ret_load s"
  using update_returns [OF ok clock r] grid_time_ok(3) [OF clock]
  by (cases; use ok in \<open>auto simp: ret_ok_def ret_load_def\<close>)+

lemma add_fee:
  assumes ok: "ret_ok (current_sec E) s" and clock: "clock_ok E" and load: "ret_load s + fee_of fee \<le> total_intervals * max_return_rate"
    and r: "add_to_rex_return_pool E fee s = Inr s'"
  obtains s1 where "update_rex_pool E s = Inr s1" "ret_ok (current_sec E) s'" "nopool s' = nopool s1" "rexpool s' = rexpool s1"
    "ret_proceeds s' = ret_proceeds s1 + fee_of fee" "ret_load s' \<le> ret_load s + fee_of fee"
proof -
  obtain s1 where u: "update_rex_pool E s = Inr s1" using r by (auto simp: add_to_rex_return_pool_def result_simps)
  note k = update_keeps [OF ok clock u]
  note n = next_half_day_ok [OF clock]
  show ?thesis
  proof (cases "amount fee \<le> 0")
    case True
    then have "s' = s1" using r by (simp add: add_to_rex_return_pool_def u)
    then show ?thesis using True k by (intro that [OF u]) (simp_all add: fee_of_def)
  next
    case False
    then have f: "0 < amount fee" "fee_of fee = amount fee" by (simp_all add: fee_of_def)
    show ?thesis
    proof (cases "rexretpool s1")
      case None
      then have s': "s' = s1\<lparr>rexretpool := Some \<lparr>last_dist_time = next_half_day E, pending_bucket_time = next_half_day E, oldest_bucket_time = 0,
          pending_bucket_proceeds = amount fee, current_rate_of_increase = 0, proceeds = amount fee\<rparr>, rexretbuckets := Some []\<rparr>"
        using r False by (simp add: add_to_rex_return_pool_def u Let_def next_half_day_def)
      have "amount fee \<le> total_intervals * max_return_rate" using load ret_load_nonneg [OF ok] f by simp
      then have "ret_ok (current_sec E) s'"
        using n f max_time_off_grid by (auto simp: ret_ok_def s' returns_ok_def pending_ok_def rates_ok_def)
      then show ?thesis
        using None f ret_load_nonneg [OF ok]
        by (intro that [OF u]) (simp_all add: s' nopool_def ret_proceeds_def ret_load_def return_load_def)
    next
      case (Some rp)
      then obtain bs where bs: "rexretbuckets s1 = Some bs" "returns_ok rp bs" "pending_bucket_time rp = max_time_sec \<Longrightarrow> last_dist_time rp \<le> current_sec E"
        using k(1) by (auto simp: ret_ok_def split: option.splits)
      have l: "return_load rp + amount fee \<le> total_intervals * max_return_rate" "return_load rp \<le> ret_load s"
        using load k(2) f Some by (simp_all add: ret_load_def)
      have lt: "pending_bucket_time rp = max_time_sec \<Longrightarrow> last_dist_time rp < next_half_day E" using bs(3) n(2) by (rule le_less_trans)
      note rf = returns_fee [OF bs(2) n(1) lt f(1) l(1)]
      have s': "s' = s1\<lparr>rexretpool := Some (rp\<lparr>pending_bucket_proceeds := i64 (pending_bucket_proceeds rp + amount fee), proceeds := i64 (proceeds rp + amount fee),
          pending_bucket_time := (if pending_bucket_time rp = max_time_sec then next_half_day E else pending_bucket_time rp)\<rparr>)\<rparr>"
        using r False Some by (auto simp: add_to_rex_return_pool_def u Let_def next_half_day_def)
      have "next_half_day E \<noteq> max_time_sec" using n(1) max_time_off_grid by auto
      then have "ret_ok (current_sec E) s'" using rf(1) bs(1) by (auto simp: ret_ok_def s')
      then show ?thesis
        using Some f rf(2,3) l(2) by (intro that [OF u]) (simp_all add: s' nopool_def ret_proceeds_def ret_load_def return_load_def)
    qed
  qed
qed

subsection \<open>The pool\<close>

text \<open>What can be lent is what is lent plus what is not; the two parts may wrap, their sum may not.\<close>

definition pool_ok :: "rex_pool \<Rightarrow> bool" where
  "pool_ok p \<longleftrightarrow> amount (total_lendable p) = i64 (amount (total_unlent p) + amount (total_lent p)) \<and>
     0 \<le> amount (total_lendable p) \<and> amount (total_lendable p) \<le> max_amount"

lemma i64_unique: "in_i64 a \<Longrightarrow> in_i64 b \<Longrightarrow> i64 a = i64 b \<Longrightarrow> a = b"
  by (simp add: in_i64_def width_simps)

lemma sum_after_change:
  assumes "d = i64 (u + l)" "0 \<le> d" "d \<le> max_amount" "0 \<le> c" "c \<le> max_amount" "\<bar>i64 (u + c) + l\<bar> \<le> max_amount"
  shows "i64 (u + c) + l = d + c"
proof (rule i64_unique)
  show "in_i64 (i64 (u + c) + l)" using assms(6) by (simp add: in_i64_def max_amount_def abs_le_iff)
  show "in_i64 (d + c)" using assms(2-5) by (simp add: in_i64_def max_amount_def)
  have "i64 (d + c) = i64 (u + l + c)" unfolding assms(1) by (rule i64_add_left)
  then show "i64 (i64 (u + c) + l) = i64 (d + c)" unfolding i64_add_left by (simp add: ac_simps)
qed

lemma pool_plus_ok:
  assumes E: "chain_laws E" and p: "pool_ok p" and c: "0 \<le> change" "change \<le> max_amount"
    and q: "asset_add E (add_amt (total_unlent p) change) (total_lent p) = Inr q"
  shows "pool_ok (pool_plus change q p)" "amount q = amount (total_lendable p) + change" "sym q = sym (total_unlent p)"
proof -
  have ex: "amount q = i64 (amount (total_unlent p) + change) + amount (total_lent p)" "sym q = sym (total_unlent p)"
     "\<bar>amount q\<bar> \<le> max_amount"
    using chain_laws.add_exact [OF E q] by auto
  have p': "amount (total_lendable p) = i64 (amount (total_unlent p) + amount (total_lent p))" "0 \<le> amount (total_lendable p)"
    "amount (total_lendable p) \<le> max_amount" using p unfolding pool_ok_def by blast+
  show eq: "amount q = amount (total_lendable p) + change"
    unfolding ex(1) by (rule sum_after_change [OF p' c]) (use ex in simp)
  have "i64 (amount q) = amount q" using ex(3) by (simp add: width_simps max_amount_def abs_le_iff)
  moreover have "0 \<le> amount q" unfolding eq using p' c by simp
  ultimately show "pool_ok (pool_plus change q p)" using ex by (simp add: pool_ok_def pool_plus_def)
  show "sym q = sym (total_unlent p)" by (rule ex)
qed

lemma update_pool:
  assumes E: "chain_laws E" and ok: "ret_ok (current_sec E) s" and clock: "clock_ok E" and p: "rexpool s = Some p" "pool_ok p"
    and r: "update_rex_pool E s = Inr s'"
  obtains p' where "rexpool s' = Some p'" "pool_ok p'" "ret_ok (current_sec E) s'" "ret_load s' \<le> ret_load s"
    "amount (total_lendable p') + ret_proceeds s' = amount (total_lendable p) + ret_proceeds s" "ret_proceeds s' \<le> ret_proceeds s"
    "total_rex p' = total_rex p" "namebid_proceeds p' = namebid_proceeds p"
    "s' = s\<lparr>rexretpool := rexretpool s', rexretbuckets := rexretbuckets s', rexpool := rexpool s'\<rparr>"
  using ok clock r
proof (cases rule: update_returns)
  case 1
  then show ?thesis using p ok by (intro that) auto
next
  case (2 rp rp' bs' change)
  have k: "ret_ok (current_sec E) s'" "ret_load s' \<le> ret_load s" using update_keeps [OF ok clock r] .
  have f: "rexretpool s' = Some rp'" "rexretbuckets s' = Some bs'"
    using arg_cong [OF 2(9), of rexretpool] arg_cong [OF 2(9), of rexretbuckets] by simp_all
  have ret: "ret_proceeds s' = ret_proceeds s - change" using 2(1,3) f by (simp add: ret_proceeds_def)
  have s': "s' = s\<lparr>rexretpool := rexretpool s', rexretbuckets := rexretbuckets s', rexpool := rexpool s'\<rparr>"
    unfolding f by (rule 2(9))
  show ?thesis
  proof (cases "change = 0 \<and> rexpool s' = rexpool s")
    case True
    then show ?thesis using p ret k s' by (intro that [of p]) auto
  next
    case False
    then obtain q where q: "asset_add E (add_amt (total_unlent p) change) (total_lent p) = Inr q"
      "rexpool s' = Some (pool_plus change q p)" using 2(10) p by auto
    have "change \<le> max_amount"
      using ret ret_proceeds_nonneg [OF k(1)] ret_proceeds_le [OF ok] by (simp add: max_amount_def max_return_rate_def return_consts)
    note pl = pool_plus_ok [OF E p(2) 2(4) this q(1)]
    show ?thesis by (rule that [OF q(2) pl(1) k _ _ _ _ s']) (use ret 2(4) pl in \<open>simp_all add: pool_plus_def\<close>)
  qed
qed

subsection \<open>Everything is paid out\<close>

text \<open>Every fee is in a bucket that opened at least thirty days ago.\<close>

definition all_vested :: "env \<Rightarrow> sys \<Rightarrow> bool" where
  "all_vested E s \<longleftrightarrow> (case rexretpool s of None \<Rightarrow> True | Some rp \<Rightarrow>
     (pending_bucket_proceeds rp = 0 \<or> pending_bucket_time rp + return_span \<le> grid_time E) \<and>
     (case rexretbuckets s of None \<Rightarrow> True | Some bs \<Rightarrow> \<forall>b\<in>set bs. fst b + return_span \<le> grid_time E \<or> snd b = 0))"

lemma undistributed_zero: "\<forall>b\<in>set bs. snd b = 0 \<Longrightarrow> undistributed now bs = 0"
  by (induction bs) (auto simp: bucket_left_def)

lemma vested_zero:
  assumes "returns_ok rp bs" "pending_bucket_proceeds rp = 0" "\<forall>b\<in>set bs. snd b = 0"
  shows "proceeds rp = 0"
  using assms undistributed_zero [of bs "last_dist_time rp"] by (simp add: returns_ok_def)

text \<open>
  C22. The return pool pays exactly what came in: an update moves part of the undistributed proceeds into the lendable
  tokens of the pool, neither more nor less, never takes anything back, leaves the undistributed rest at the pending fees plus what
  the open buckets still owe, and once all fees are older than thirty days nothing is left to pay.
\<close>

theorem returns_pay_out:
  assumes E: "chain_laws E" and clock: "clock_ok E" and ok: "ret_ok (current_sec E) s" and p: "rexpool s = Some p" "pool_ok p"
    and r: "update_rex_pool E s = Inr s'"
  shows "ret_ok (current_sec E) s' \<and> 0 \<le> ret_proceeds s' \<and> ret_proceeds s' \<le> ret_proceeds s \<and>
    (\<exists>p'. rexpool s' = Some p' \<and> pool_ok p' \<and>
       amount (total_lendable p') - amount (total_lendable p) = ret_proceeds s - ret_proceeds s') \<and>
    (all_vested E s \<longrightarrow> ret_proceeds s' = 0)"
proof -
  have "ret_proceeds s' = 0" if v: "all_vested E s"
    using ok clock r
  proof (cases rule: update_returns)
    case 1
    show ?thesis
    proof (cases "rexretpool s")
      case (Some rp)
      obtain bs where bs: "rexretbuckets s = Some bs" "returns_ok rp bs" using ok Some by (auto simp: ret_ok_def split: option.splits)
      have "grid_time E \<le> last_dist_time rp" using 1(2) Some by simp
      then have "\<forall>b\<in>set bs. snd b = 0" "pending_bucket_proceeds rp = 0"
        using v bs Some by (fastforce simp: all_vested_def returns_ok_def pending_ok_def return_consts)+
      then show ?thesis using vested_zero [OF bs(2)] Some 1(1) by (simp add: ret_proceeds_def)
    qed (simp add: 1(1) ret_proceeds_def)
  next
    case (2 rp rp' bs' change)
    obtain bs where bs: "rexretbuckets s = Some bs" using ok 2(1) by (auto simp: ret_ok_def split: option.splits)
    have v': "pending_bucket_proceeds rp = 0 \<or> pending_bucket_time rp + return_span \<le> grid_time E"
      "\<forall>b\<in>set bs. fst b + return_span \<le> grid_time E \<or> snd b = 0"
      using v 2(1) bs by (simp_all add: all_vested_def)
    have young: "\<forall>b\<in>set bs'. grid_time E < fst b + return_span" using 2(2,5) by (simp add: returns_ok_def)
    have "pending_bucket_proceeds rp' = 0" using 2(8) v'(1) by (auto simp: return_consts)
    moreover have "\<forall>b\<in>set bs'. snd b = 0" using 2(7) bs v' young by force
    ultimately have "proceeds rp' = 0" by (rule vested_zero [OF 2(2)])
    then show ?thesis using arg_cong [OF 2(9), of rexretpool] by (simp add: ret_proceeds_def)
  qed
  moreover obtain p' where "rexpool s' = Some p'" "pool_ok p'" "ret_ok (current_sec E) s'"
    "amount (total_lendable p') + ret_proceeds s' = amount (total_lendable p) + ret_proceeds s" "ret_proceeds s' \<le> ret_proceeds s"
    by (rule update_pool [OF E ok clock p r])
  ultimately show ?thesis using ret_proceeds_nonneg [of "current_sec E" s'] by auto
qed

text \<open>A fee of 43205 units opens on day fifty; on day eighty the pool has received all of it.\<close>

definition demo_pool :: rex_pool where
  "demo_pool = \<lparr>total_lent = core 0, total_unlent = core 1000, total_rent = core 200000000, total_lendable = core 1000,
     total_rex = rex_asset 10000000, namebid_proceeds = core 0, loan_num = 0\<rparr>"

definition demo_returns :: sys where
  "demo_returns = sys0\<lparr>rexpool := Some demo_pool,
     rexretpool := Some \<lparr>last_dist_time = 4320000, pending_bucket_time = 4320000, oldest_bucket_time = 0,
       pending_bucket_proceeds = 43205, current_rate_of_increase = 0, proceeds = 43205\<rparr>, rexretbuckets := Some []\<rparr>"

theorem returns_pay_out_witness:
  "\<exists>s' p'. update_rex_pool (sdk_env eosio_account 6912000) demo_returns = Inr s' \<and> rexpool s' = Some p' \<and>
     ret_proceeds s' = 0 \<and> amount (total_lendable p') = 44205"
proof -
  let ?E = "sdk_env eosio_account 6912000"
  have now: "current_sec ?E = 6912000" by (simp add: sdk_env_def)
  have clock: "clock_ok ?E" by (simp add: clock_ok_def now return_consts seconds_per_hour_def)
  have ok: "ret_ok (current_sec ?E) demo_returns"
    by (simp add: now ret_ok_def demo_returns_def returns_ok_def pending_ok_def rates_ok_def on_grid_def return_consts max_time_sec_def max_return_rate_def)
  have p: "rexpool demo_returns = Some demo_pool" "pool_ok demo_pool"
    by (simp_all add: demo_returns_def demo_pool_def pool_ok_def width_simps max_amount_def)
  have "case update_rex_pool ?E demo_returns of Inl e \<Rightarrow> False | Inr s' \<Rightarrow> True" by code_simp
  then obtain s' where s': "update_rex_pool ?E demo_returns = Inr s'" by (auto split: sum.splits)
  have v: "all_vested ?E demo_returns" by (simp add: all_vested_def demo_returns_def grid_time_def now return_consts)
  have a0: "ret_proceeds demo_returns = 43205" "amount (total_lendable demo_pool) = 1000"
    by (simp_all add: ret_proceeds_def demo_returns_def demo_pool_def)
  show ?thesis using returns_pay_out [OF sdk.chain_laws_axioms clock ok p s'] v s' a0 by auto
qed

end
