(* ===== verification/Rex_Books.thy ===== *)
theory Rex_Books
  imports Rex_Returns "HOL-Library.Multiset"
begin

section \<open>The books of the resource exchange\<close>

text \<open>
  What REX owes its users is spread over seven tables: the funds, the balances of the CPU and NET loans, the proceeds of filled sell orders, the
  lendable tokens of the pool, and the undistributed proceeds of the return pool; what it has is the token balance
  of the account \<open>eosio.rex\<close>.  This theory states the invariant of these tables (\<open>rex_inv\<close>) and shows for every helper of \<open>rex.cpp\<close>
  that it keeps the invariant and that the tables do not promise more than the tokens that flow in (\<open>moves\<close>).

  All amounts are signed 64-bit integers that wrap.  The helpers are exact as long as REX owes less than
  \<open>max_owed\<close> and the fees of the last thirty days stay below \<open>fee_limit\<close>; both are far above the
  supply of the core token.
\<close>

subsection \<open>The invariant\<close>

definition money_ok :: "symbol \<Rightarrow> asset \<Rightarrow> bool" where
  "money_ok y a \<longleftrightarrow> sym a = y \<and> 0 \<le> amount a"

definition loan_ok :: "symbol \<Rightarrow> rex_loan \<Rightarrow> bool" where
  "loan_ok y l \<longleftrightarrow> money_ok y (loan_balance l) \<and> money_ok y (loan_payment l)"

text \<open>An open order asks for REX that has matured; a filled one holds its proceeds.\<close>

definition order_ok :: "symbol \<Rightarrow> rex_balance option \<Rightarrow> rex_order \<Rightarrow> bool" where
  "order_ok y b ord \<longleftrightarrow> sym (o_proceeds ord) = y \<and>
     (if o_is_open ord
      then (case b of None \<Rightarrow> False | Some rb \<Rightarrow> 0 < amount (o_rex_requested ord) \<and> amount (o_rex_requested ord) \<le> matured_rex rb)
      else money_ok y (o_proceeds ord))"

definition tables_ok :: "symbol \<Rightarrow> sys \<Rightarrow> bool" where
  "tables_ok y s \<longleftrightarrow>
     (\<forall>x a. fmlookup (rexfunds s) x = Some a \<longrightarrow> money_ok y a) \<and>
     (\<forall>k l. fmlookup (cpuloans s) k = Some l \<longrightarrow> loan_ok y l) \<and>
     (\<forall>k l. fmlookup (netloans s) k = Some l \<longrightarrow> loan_ok y l)"

definition sell_orders_ok :: "symbol \<Rightarrow> name set \<Rightarrow> sys \<Rightarrow> bool" where
  "sell_orders_ok y X s \<longleftrightarrow> (\<forall>x ord. x \<notin> X \<longrightarrow> fmlookup (rexorders s) x = Some ord \<longrightarrow> order_ok y (fmlookup (rexbalance s) x) ord) \<and>
     (\<forall>x ord. fmlookup (rexorders s) x = Some ord \<longrightarrow> \<not> o_is_open ord \<longrightarrow> money_ok y (o_proceeds ord))"

definition share_sum :: "sys \<Rightarrow> int" where
  "share_sum s = fmsum (\<lambda>rb. amount (rex_bal rb)) (rexbalance s)"

definition all_shares :: "sys \<Rightarrow> int" where
  "all_shares s = fmval (\<lambda>p. amount (total_rex p)) (rexpool s)"

definition shares_ok :: "sys \<Rightarrow> bool" where
  "shares_ok s \<longleftrightarrow> share_sum s = all_shares s \<and> all_shares s \<le> max_amount \<and> (\<forall>x rb. fmlookup (rexbalance s) x = Some rb \<longrightarrow> rb_ok rb)"

definition rexpool_ok :: "symbol \<Rightarrow> sys \<Rightarrow> bool" where
  "rexpool_ok y s \<longleftrightarrow> (case rexpool s of None \<Rightarrow> True | Some p \<Rightarrow> pool_ok p \<and> sym (namebid_proceeds p) = y)"

text \<open>The invariant at a time; the owners in \<open>X\<close> are those whose open order is being changed.\<close>

definition rex_inv :: "symbol \<Rightarrow> int \<Rightarrow> name set \<Rightarrow> sys \<Rightarrow> bool" where
  "rex_inv y now X s \<longleftrightarrow> core_symbol s = Inr y \<and> tables_ok y s \<and> sell_orders_ok y X s \<and> shares_ok s \<and> rexpool_ok y s \<and> ret_ok now s"

subsection \<open>What REX owes\<close>

definition fund_sum :: "sys \<Rightarrow> int" where "fund_sum s = fmsum amount (rexfunds s)"

definition loan_sum :: "sys \<Rightarrow> int" where
  "loan_sum s = fmsum (\<lambda>l. amount (loan_balance l)) (cpuloans s) + fmsum (\<lambda>l. amount (loan_balance l)) (netloans s)"

definition order_due :: "rex_order \<Rightarrow> int" where
  "order_due ord = (if o_is_open ord then 0 else amount (o_proceeds ord))"

definition order_sum :: "sys \<Rightarrow> int" where "order_sum s = fmsum order_due (rexorders s)"

definition lendable :: "sys \<Rightarrow> int" where "lendable s = fmval (\<lambda>p. amount (total_lendable p)) (rexpool s)"

definition rex_owed :: "sys \<Rightarrow> int" where
  "rex_owed s = fund_sum s + loan_sum s + order_sum s + lendable s + ret_proceeds s"

text \<open>What may become a fee: the load of the return pool, the funds and the prepaid balances of loans.\<close>

definition fee_base :: "sys \<Rightarrow> int" where
  "fee_base s = ret_load s + fund_sum s + loan_sum s"

definition max_owed :: int where "max_owed = 2 ^ 60"
definition fee_limit :: int where "fee_limit = total_intervals * max_return_rate"

definition rex_flow :: "symbol \<Rightarrow> sys \<Rightarrow> int" where
  "rex_flow y s = net_flow (transfers_of (effects s)) rex_account (scode y)"

definition moves :: "symbol \<Rightarrow> int \<Rightarrow> name set \<Rightarrow> int \<Rightarrow> sys \<Rightarrow> sys \<Rightarrow> bool" where
  "moves y now X n s s' \<longleftrightarrow> rex_inv y now X s' \<and> rex_owed s' \<le> rex_owed s + n \<and> rex_flow y s' = rex_flow y s + n \<and> fee_base s' \<le> fee_base s + n"

lemma moves_trans: "moves y now X m s s1 \<Longrightarrow> moves y now X' n s1 s2 \<Longrightarrow> moves y now X' (m + n) s s2"
  by (auto simp: moves_def)

lemma moves_refl: "rex_inv y now X s \<Longrightarrow> moves y now X 0 s s"
  by (simp add: moves_def)

subsection \<open>Signs and sizes\<close>

lemma fund_nonneg: "tables_ok y s \<Longrightarrow> 0 \<le> fund_sum s"
  unfolding fund_sum_def by (rule fmsum_nonneg) (auto simp: tables_ok_def money_ok_def)

lemma fund_le: "tables_ok y s \<Longrightarrow> fmlookup (rexfunds s) x = Some a \<Longrightarrow> 0 \<le> amount a \<and> amount a \<le> fund_sum s \<and> sym a = y"
  unfolding fund_sum_def by (intro conjI fmsum_ge_row) (auto simp: tables_ok_def money_ok_def)

lemma loans_nonneg:
  "tables_ok y s \<Longrightarrow> 0 \<le> fmsum (\<lambda>l. amount (loan_balance l)) (cpuloans s) \<and> 0 \<le> fmsum (\<lambda>l. amount (loan_balance l)) (netloans s)"
  by (intro conjI fmsum_nonneg) (auto simp: tables_ok_def loan_ok_def money_ok_def)

lemma loan_sum_nonneg: "tables_ok y s \<Longrightarrow> 0 \<le> loan_sum s"
  using loans_nonneg [of y s] by (simp add: loan_sum_def)

lemma loan_row: "tables_ok y s \<Longrightarrow> fmlookup (loans cpu s) k = Some l \<Longrightarrow> loan_ok y l"
  by (auto simp: tables_ok_def loans_def split: if_splits)

lemma loan_le:
  assumes "tables_ok y s" "fmlookup (loans cpu s) k = Some l"
  shows "amount (loan_balance l) \<le> loan_sum s"
proof -
  have "amount (loan_balance l) \<le> fmsum (\<lambda>l. amount (loan_balance l)) (loans cpu s)"
    using loan_row [OF assms(1)] assms(2) by (intro fmsum_ge_row [of _ "\<lambda>l. amount (loan_balance l)"]) (auto simp: loan_ok_def money_ok_def)
  then show ?thesis using loans_nonneg [OF assms(1)] by (auto simp: loan_sum_def loans_def split: if_splits)
qed

lemma order_sum_nonneg: "sell_orders_ok y X s \<Longrightarrow> 0 \<le> order_sum s"
  unfolding order_sum_def by (rule fmsum_nonneg) (auto simp: sell_orders_ok_def order_due_def money_ok_def)

lemma order_le: "sell_orders_ok y X s \<Longrightarrow> fmlookup (rexorders s) x = Some ord \<Longrightarrow> 0 \<le> order_due ord \<and> order_due ord \<le> order_sum s"
  unfolding order_sum_def by (intro conjI fmsum_ge_row) (auto simp: sell_orders_ok_def order_due_def money_ok_def)

lemma lendable_nonneg: "rexpool_ok y s \<Longrightarrow> 0 \<le> lendable s"
  by (auto simp: rexpool_ok_def lendable_def pool_ok_def split: option.splits)

lemma owed_parts:
  assumes "rex_inv y now X s"
  shows "0 \<le> fund_sum s" "0 \<le> loan_sum s" "0 \<le> order_sum s" "0 \<le> lendable s" "0 \<le> ret_proceeds s"
    "fund_sum s \<le> rex_owed s" "loan_sum s \<le> rex_owed s" "order_sum s \<le> rex_owed s" "lendable s \<le> rex_owed s" "ret_proceeds s \<le> rex_owed s"
    "0 \<le> rex_owed s" "0 \<le> ret_load s"
proof -
  have i: "tables_ok y s" "sell_orders_ok y X s" "rexpool_ok y s" "ret_ok now s" using assms by (simp_all add: rex_inv_def)
  show nn: "0 \<le> fund_sum s" "0 \<le> loan_sum s" "0 \<le> order_sum s" "0 \<le> lendable s" "0 \<le> ret_proceeds s" "0 \<le> ret_load s"
    using fund_nonneg [OF i(1)] loan_sum_nonneg [OF i(1)] order_sum_nonneg [OF i(2)] lendable_nonneg [OF i(3)]
      ret_proceeds_nonneg [OF i(4)] ret_load_nonneg [OF i(4)] by auto
  show "fund_sum s \<le> rex_owed s" "loan_sum s \<le> rex_owed s" "order_sum s \<le> rex_owed s" "lendable s \<le> rex_owed s" "ret_proceeds s \<le> rex_owed s"
    "0 \<le> rex_owed s" using nn by (simp_all add: rex_owed_def)
qed

text \<open>A user holds at most all shares.\<close>

lemma rb_ok_bounds:
  assumes "rb_ok rb"
  shows "0 \<le> matured_rex rb" "matured_rex rb \<le> amount (rex_bal rb)" "amount (rex_bal rb) \<le> max_amount"
proof -
  have "0 \<le> bucket_sum (rex_maturities rb)" using assms by (intro bucket_sum_nonneg) (simp add: rb_ok_def rb_wf_def)
  then show "0 \<le> matured_rex rb" "matured_rex rb \<le> amount (rex_bal rb)" "amount (rex_bal rb) \<le> max_amount"
    using assms by (simp_all add: rb_ok_def rb_wf_def rex_total_def)
qed

lemma share_le:
  assumes "shares_ok s" "fmlookup (rexbalance s) x = Some rb"
  shows "rb_ok rb" "amount (rex_bal rb) \<le> all_shares s"
proof -
  show "rb_ok rb" using assms by (auto simp: shares_ok_def)
  have "amount (rex_bal rb) \<le> share_sum s"
    unfolding share_sum_def using assms rb_ok_bounds
    by (intro fmsum_ge_row [of _ "\<lambda>rb. amount (rex_bal rb)"]) (force simp: shares_ok_def)+
  then show "amount (rex_bal rb) \<le> all_shares s" using assms by (simp add: shares_ok_def)
qed

lemma all_shares_nonneg: "shares_ok s \<Longrightarrow> 0 \<le> all_shares s"
proof -
  assume s: "shares_ok s"
  have "0 \<le> share_sum s" unfolding share_sum_def using s rb_ok_bounds by (intro fmsum_nonneg) (force simp: shares_ok_def)
  then show ?thesis using s by (simp add: shares_ok_def)
qed

subsection \<open>Operations that touch no book\<close>

definition rex_view :: "symbol \<Rightarrow> sys \<Rightarrow> (symbol result \<times> rex_pool option \<times> rex_return_pool option \<times> buckets option) \<times>
    (name, asset) fmap \<times> (name, rex_balance) fmap \<times> (name, rex_order) fmap \<times> (int, rex_loan) fmap \<times> (int, rex_loan) fmap \<times> int" where
  "rex_view y s = ((core_symbol s, rexpool s, rexretpool s, rexretbuckets s), rexfunds s, rexbalance s, rexorders s, cpuloans s, netloans s, rex_flow y s)"

lemma rex_view_keeps:
  assumes "rex_view y s' = rex_view y s"
  shows "rex_inv y now X s' = rex_inv y now X s" "rex_owed s' = rex_owed s" "rex_flow y s' = rex_flow y s" "fee_base s' = fee_base s"
    "rexorders s' = rexorders s" "rexbalance s' = rexbalance s" "rexfunds s' = rexfunds s" "rexpool s' = rexpool s" "core_symbol s' = core_symbol s"
    "loans cpu s' = loans cpu s" "ret_ok now s' = ret_ok now s" "ret_proceeds s' = ret_proceeds s" "ret_load s' = ret_load s"
  using assms
  by (simp_all add: rex_view_def rex_inv_def tables_ok_def sell_orders_ok_def shares_ok_def share_sum_def all_shares_def rexpool_ok_def ret_ok_def
      rex_owed_def fund_sum_def loan_sum_def order_sum_def lendable_def ret_proceeds_def fee_base_def ret_load_def rex_flow_def loans_def
      cong: option.case_cong)

lemma view_moves: "rex_view y s' = rex_view y s \<Longrightarrow> rex_inv y now X s \<Longrightarrow> moves y now X 0 s s'"
  using rex_view_keeps [of y s' s] by (simp add: moves_def)

lemma limits_view: "update_resource_limits E x z n c s = Inr s' \<Longrightarrow> rex_view y s' = rex_view y s"
  by (erule update_resource_limits_shape) (auto simp: rex_view_def core_symbol_def rex_flow_def)

lemma voting_view: "update_voting_power E x a s = Inr s' \<Longrightarrow> rex_view y s' = rex_view y s"
  using novotes_fields [OF update_voting_power_frame] by (simp add: rex_view_def core_symbol_def rex_flow_def)

lemma emit_view [simp]: "rex_view y (emit (Inline_result r as) s) = rex_view y s"
  by (simp add: rex_view_def emit_def core_symbol_def rex_flow_def)

lemma set_loans_view: "rex_view y s' = rex_view y s \<Longrightarrow> rex_view y (set_loans cpu m s') = rex_view y (set_loans cpu m s)"
  by (auto simp: rex_view_def set_loans_def core_symbol_def rex_flow_def)

subsection \<open>The pool\<close>

lemma nopool_books:
  assumes "nopool s' = nopool s"
  shows "tables_ok y s' = tables_ok y s" "sell_orders_ok y X s' = sell_orders_ok y X s" "share_sum s' = share_sum s" "fund_sum s' = fund_sum s"
    "loan_sum s' = loan_sum s" "order_sum s' = order_sum s" "core_symbol s' = core_symbol s" "rex_flow y s' = rex_flow y s"
    "loans cpu s' = loans cpu s"
  using nopool_fields [OF assms]
  by (simp_all add: tables_ok_def sell_orders_ok_def share_sum_def fund_sum_def loan_sum_def order_sum_def core_symbol_def rex_flow_def loans_def)

lemma pool_moves:
  assumes inv: "rex_inv y now X s" and np: "nopool s' = nopool s"
    and ret: "ret_ok now s'" "ret_load s' \<le> ret_load s + n" "lendable s' + ret_proceeds s' \<le> lendable s + ret_proceeds s + n"
    and pool: "all_shares s' = all_shares s" "rexpool_ok y s'"
  shows "rex_inv y now X s'" "rex_owed s' \<le> rex_owed s + n" "rex_flow y s' = rex_flow y s" "fee_base s' \<le> fee_base s + n"
proof -
  have "shares_ok s'" using inv pool(1) nopool_books(3) [OF np] nopool_fields(8) [OF np] by (simp add: rex_inv_def shares_ok_def)
  then show "rex_inv y now X s'" using inv ret(1) pool(2) nopool_books [OF np] by (simp add: rex_inv_def)
  show "rex_owed s' \<le> rex_owed s + n" using ret(3) nopool_books [OF np] by (simp add: rex_owed_def)
  show "rex_flow y s' = rex_flow y s" by (rule nopool_books(8) [OF np])
  show "fee_base s' \<le> fee_base s + n" using ret(2) nopool_books [OF np] by (simp add: fee_base_def)
qed

lemma pool_row: "rexpool s = Some p \<Longrightarrow> rexpool_ok y s \<Longrightarrow> pool_ok p \<and> sym (namebid_proceeds p) = y"
  by (simp add: rexpool_ok_def)

lemma update_moves:
  assumes E: "chain_laws E" and clock: "clock_ok E" and inv: "rex_inv y (current_sec E) X s" and r: "update_rex_pool E s = Inr s'"
  shows "moves y (current_sec E) X 0 s s'"
proof -
  have ok: "ret_ok (current_sec E) s" and pool: "rexpool_ok y s" using inv by (simp_all add: rex_inv_def)
  note np = update_rex_pool_frame [OF r] and k = update_keeps [OF ok clock r]
  have "lendable s' + ret_proceeds s' \<le> lendable s + ret_proceeds s \<and> all_shares s' = all_shares s \<and> rexpool_ok y s'"
  proof (cases "rexpool s")
    case (Some p)
    obtain p' where "rexpool s' = Some p'" "pool_ok p'" "amount (total_lendable p') + ret_proceeds s' = amount (total_lendable p) + ret_proceeds s"
      "total_rex p' = total_rex p" "namebid_proceeds p' = namebid_proceeds p"
      using pool_row [OF Some pool] by (auto intro: update_pool [OF E ok clock Some _ r])
    then show ?thesis using Some pool by (simp add: lendable_def all_shares_def rexpool_ok_def)
  next
    case None
    from ok clock r show ?thesis
    proof (cases rule: update_returns)
      case (2 rp rp' bs' change)
      then have "rexpool s' = None" "change = 0" using None by auto
      moreover have "rexretpool s' = Some rp'" using arg_cong [OF 2(9), of rexretpool] by simp
      ultimately show ?thesis using None 2(1,3) by (simp add: lendable_def all_shares_def rexpool_ok_def ret_proceeds_def)
    qed (simp add: pool)
  qed
  then show ?thesis using pool_moves [OF inv np k(1), of 0] k(2) by (simp add: moves_def)
qed

text \<open>A fee enters the return pool; the tokens come from somewhere else.\<close>

lemma fee_moves:
  assumes E: "chain_laws E" and clock: "clock_ok E" and inv: "rex_inv y (current_sec E) X s"
    and lim: "ret_load s + fee_of fee \<le> fee_limit" and r: "add_to_rex_return_pool E fee s = Inr s'"
  shows "rex_inv y (current_sec E) X s'" "rex_owed s' \<le> rex_owed s + fee_of fee" "rex_flow y s' = rex_flow y s"
    "fee_base s' \<le> fee_base s + fee_of fee" "nopool s' = nopool s" "rexpool s = None \<longleftrightarrow> rexpool s' = None"
proof -
  have ok: "ret_ok (current_sec E) s" and pool: "rexpool_ok y s" using inv by (simp_all add: rex_inv_def)
  obtain s1 where u: "update_rex_pool E s = Inr s1" and s': "ret_ok (current_sec E) s'" "nopool s' = nopool s1" "rexpool s' = rexpool s1"
    "ret_proceeds s' = ret_proceeds s1 + fee_of fee" "ret_load s' \<le> ret_load s + fee_of fee"
    using add_fee [OF ok clock lim [unfolded fee_limit_def] r] by blast
  note m = update_moves [OF E clock inv u]
  have inv1: "rex_inv y (current_sec E) X s1" and o1: "rex_owed s1 \<le> rex_owed s" using m by (simp_all add: moves_def)
  note np1 = update_rex_pool_frame [OF u]
  show np: "nopool s' = nopool s" using s'(2) np1 by simp
  have pool1: "all_shares s' = all_shares s1" "rexpool_ok y s'" "lendable s' = lendable s1"
    using inv1 s'(3) by (simp_all add: all_shares_def rexpool_ok_def rex_inv_def lendable_def)
  have sh: "all_shares s1 = all_shares s" using inv inv1 nopool_books(3) [OF np1] by (simp add: rex_inv_def shares_ok_def)
  have eq: "lendable s1 + ret_proceeds s1 \<le> lendable s + ret_proceeds s" using o1 nopool_books [OF np1] by (simp add: rex_owed_def)
  have "lendable s' + ret_proceeds s' \<le> lendable s + ret_proceeds s + fee_of fee" using eq s'(4) pool1(3) by simp
  then show "rex_inv y (current_sec E) X s'" "rex_owed s' \<le> rex_owed s + fee_of fee" "rex_flow y s' = rex_flow y s"
    "fee_base s' \<le> fee_base s + fee_of fee"
    using pool_moves [OF inv np s'(1,5) _ _ pool1(2)] pool1(1) sh by simp_all
  show "rexpool s = None \<longleftrightarrow> rexpool s' = None"
    unfolding s'(3) using ok clock u by (cases rule: update_returns) auto
qed

lemma ret_ok_cong: "rexretpool s' = rexretpool s \<Longrightarrow> rexretbuckets s' = rexretbuckets s \<Longrightarrow> ret_ok now s' = ret_ok now s"
  by (simp add: ret_ok_def cong: option.case_cong)

text \<open>Changing the parts of the pool but not what can be lent.\<close>

lemma pool_row_moves:
  assumes inv: "rex_inv y now X s" and p: "rexpool s = Some p" "amount (total_lendable p') = amount (total_lendable p)" "pool_ok p'"
     "total_rex p' = total_rex p" "sym (namebid_proceeds p') = y"
  shows "moves y now X 0 s (s\<lparr>rexpool := Some p'\<rparr>)"
proof -
  let ?s = "s\<lparr>rexpool := Some p'\<rparr>"
  have "nopool ?s = nopool s" by (simp add: nopool_def)
  moreover have "ret_ok now ?s" "ret_load ?s = ret_load s" "ret_proceeds ?s = ret_proceeds s"
    using inv ret_ok_cong [of ?s s now] by (simp_all add: rex_inv_def ret_load_def ret_proceeds_def)
  moreover have "lendable ?s = lendable s" "all_shares ?s = all_shares s" "rexpool_ok y ?s"
    using p by (simp_all add: lendable_def all_shares_def rexpool_ok_def)
  ultimately show ?thesis using pool_moves [OF inv, of ?s 0] by (simp add: moves_def)
qed

lemma pool_ok_shift:
  assumes "pool_ok p" "amount (total_unlent p') = i64 (amount (total_unlent p) + n)" "amount (total_lent p') = i64 (amount (total_lent p) - n)"
    "amount (total_lendable p') = amount (total_lendable p)"
  shows "pool_ok p'"
proof -
  have "i64 (amount (total_unlent p') + amount (total_lent p')) = i64 (amount (total_unlent p) + amount (total_lent p))"
    unfolding assms(2,3) i64_add_left i64_add_right by simp
  then show ?thesis using assms(1,4) by (simp add: pool_ok_def)
qed

lemma remove_loan_moves:
  assumes inv: "rex_inv y now X s" and r: "remove_loan_from_rex_pool l s = Inr s'"
  shows "moves y now X 0 s s'" "nopool s' = nopool s"
proof -
  obtain p p' where p: "rexpool s = Some p" and s': "s' = s\<lparr>rexpool := Some p'\<rparr>"
    and f: "amount (total_unlent p') = i64 (amount (total_unlent p) + amount (loan_staked l))"
      "amount (total_lent p') = i64 (amount (total_lent p) - amount (loan_staked l))"
      "amount (total_lendable p') = i64 (amount (total_unlent p') + amount (total_lent p'))"
      "total_rex p' = total_rex p" "namebid_proceeds p' = namebid_proceeds p"
    using r by (auto simp: remove_loan_from_rex_pool_def result_simps Let_def)
  have pk: "pool_ok p" "sym (namebid_proceeds p) = y" using pool_row [OF p] inv by (auto simp: rex_inv_def)
  have "i64 (amount (total_unlent p') + amount (total_lent p')) = i64 (amount (total_unlent p) + amount (total_lent p))"
    unfolding f(1,2) i64_add_left i64_add_right by simp
  then have l: "amount (total_lendable p') = amount (total_lendable p)" using f(3) pk(1) by (simp add: pool_ok_def)
  show "moves y now X 0 s s'"
    unfolding s' using pool_row_moves [OF inv p l pool_ok_shift [OF pk(1) f(1,2) l] f(4)] f(5) pk(2) by simp
  show "nopool s' = nopool s" by (simp add: s' nopool_def)
qed

lemma add_loan_moves:
  assumes E: "chain_laws E" and clock: "clock_ok E" and inv: "rex_inv y (current_sec E) X s"
    and lim: "ret_load s + fee_of payment \<le> fee_limit" and r: "add_loan_to_rex_pool E payment n new s = Inr s'"
  shows "rex_inv y (current_sec E) X s'" "rex_owed s' \<le> rex_owed s + fee_of payment" "rex_flow y s' = rex_flow y s"
    "fee_base s' \<le> fee_base s + fee_of payment" "nopool s' = nopool s"
proof -
  obtain s1 p p' where s1: "add_to_rex_return_pool E payment s = Inr s1" and p: "rexpool s1 = Some p" and s': "s' = s1\<lparr>rexpool := Some p'\<rparr>"
    and f: "amount (total_unlent p') = i64 (amount (total_unlent p) + - n)" "amount (total_lent p') = i64 (amount (total_lent p) - - n)"
      "total_lendable p' = total_lendable p" "total_rex p' = total_rex p" "namebid_proceeds p' = namebid_proceeds p"
    using r by (auto simp: add_loan_to_rex_pool_def result_simps)
  note m = fee_moves [OF E clock inv lim s1]
  have pk: "pool_ok p" "sym (namebid_proceeds p) = y" using pool_row [OF p] m(1) by (auto simp: rex_inv_def)
  have l: "amount (total_lendable p') = amount (total_lendable p)" using f(3) by simp
  have "moves y (current_sec E) X 0 s1 s'"
    unfolding s' using pool_row_moves [OF m(1) p l pool_ok_shift [OF pk(1) f(1,2) l] f(4)] f(5) pk(2) by simp
  then show "rex_inv y (current_sec E) X s'" "rex_owed s' \<le> rex_owed s + fee_of payment" "rex_flow y s' = rex_flow y s"
    "fee_base s' \<le> fee_base s + fee_of payment" using m by (auto simp: moves_def)
  show "nopool s' = nopool s" using m(5) by (simp add: s' nopool_def)
qed

subsection \<open>Funds and loans\<close>

lemma fund_update:
  fixes x :: name
  assumes inv: "rex_inv y now X s" and a: "money_ok y a"
  defines "s' \<equiv> s\<lparr>rexfunds := fmupd x a (rexfunds s)\<rparr>" and "n \<equiv> amount a - fmval amount (fmlookup (rexfunds s) x)"
  shows "rex_inv y now X s'" "rex_owed s' = rex_owed s + n" "fee_base s' = fee_base s + n" "rex_flow y s' = rex_flow y s"
proof -
  have f: "fund_sum s' = fund_sum s + n" by (simp add: fund_sum_def s'_def n_def fmsum_upd)
  have same: "loan_sum s' = loan_sum s" "order_sum s' = order_sum s" "lendable s' = lendable s" "ret_proceeds s' = ret_proceeds s" "ret_load s' = ret_load s"
    by (simp_all add: s'_def loan_sum_def order_sum_def lendable_def ret_proceeds_def ret_load_def)
  have "ret_ok now s' = ret_ok now s" by (rule ret_ok_cong) (simp_all add: s'_def)
  then show "rex_inv y now X s'"
    using inv a by (auto simp: rex_inv_def s'_def tables_ok_def sell_orders_ok_def shares_ok_def share_sum_def all_shares_def rexpool_ok_def core_symbol_def)
  show "rex_owed s' = rex_owed s + n" "fee_base s' = fee_base s + n" using f same by (simp_all add: rex_owed_def fee_base_def)
  show "rex_flow y s' = rex_flow y s" by (simp add: s'_def rex_flow_def)
qed

lemma to_fund_moves:
  assumes inv: "rex_inv y now X s" and le: "rex_owed s + amount a \<le> 2 ^ 63 - 1" and r: "transfer_to_fund x a s = Inr s'"
  shows "rex_inv y now X s'" "rex_owed s' = rex_owed s + amount a" "rex_flow y s' = rex_flow y s" "fee_base s' = fee_base s + amount a"
    "sym a = y" "0 < amount a" "s' = s\<lparr>rexfunds := rexfunds s'\<rparr>"
proof -
  have t: "tables_ok y s" and c: "core_symbol s = Inr y" using inv by (simp_all add: rex_inv_def)
  show a: "sym a = y" "0 < amount a" using r c by (auto simp: transfer_to_fund_def result_simps)
  define b where "b = (case fmlookup (rexfunds s) x of None \<Rightarrow> a | Some f \<Rightarrow> add_amt f (amount a))"
  have s': "s' = s\<lparr>rexfunds := fmupd x b (rexfunds s)\<rparr>" using r by (auto simp: transfer_to_fund_def result_simps b_def split: option.splits)
  have "amount b = fmval amount (fmlookup (rexfunds s) x) + amount a \<and> money_ok y b"
  proof (cases "fmlookup (rexfunds s) x")
    case (Some f)
    have f: "0 \<le> amount f" "amount f \<le> rex_owed s" "sym f = y" using fund_le [OF t Some] owed_parts(6) [OF inv] by auto
    then have "i64 (amount f + amount a) = amount f + amount a" using a le by (simp add: width_simps)
    then show ?thesis using Some f a by (simp add: b_def money_ok_def)
  qed (use a in \<open>simp add: b_def money_ok_def\<close>)
  then show "rex_inv y now X s'" "rex_owed s' = rex_owed s + amount a" "rex_flow y s' = rex_flow y s" "fee_base s' = fee_base s + amount a"
    using fund_update [OF inv, of b x] by (simp_all add: s')
  show "s' = s\<lparr>rexfunds := rexfunds s'\<rparr>" by (simp add: s')
qed

lemma from_fund_moves:
  assumes E: "chain_laws E" and inv: "rex_inv y now X s" and small: "rex_owed s \<le> max_owed" and r: "transfer_from_fund E x a s = Inr s'"
  shows "rex_inv y now X s'" "rex_owed s' = rex_owed s - amount a" "rex_flow y s' = rex_flow y s" "fee_base s' = fee_base s - amount a"
    "sym a = y" "0 < amount a" "s' = s\<lparr>rexfunds := rexfunds s'\<rparr>" "amount a \<le> rex_owed s"
proof -
  have t: "tables_ok y s" and c: "core_symbol s = Inr y" using inv by (simp_all add: rex_inv_def)
  obtain f where a: "sym a = y" "0 < amount a" and f: "fmlookup (rexfunds s) x = Some f" "asset_le E a f = Inr True"
    and s': "s' = s\<lparr>rexfunds := fmupd x (add_amt f (- amount a)) (rexfunds s)\<rparr>"
    using r c by (auto simp: transfer_from_fund_def result_simps)
  have le: "amount a \<le> amount f" using chain_laws.le_exact [OF E f(2)] by simp
  have fb: "0 \<le> amount f" "sym f = y" "amount f \<le> rex_owed s" using fund_le [OF t f(1)] owed_parts(6) [OF inv] by auto
  have i: "i64 (amount f - amount a) = amount f - amount a" using le a fb small by (simp add: width_simps max_owed_def)
  have "money_ok y (add_amt f (- amount a))" using i le fb by (simp add: money_ok_def)
  then show "rex_inv y now X s'" "rex_owed s' = rex_owed s - amount a" "rex_flow y s' = rex_flow y s" "fee_base s' = fee_base s - amount a"
    using fund_update [OF inv, of "add_amt f (- amount a)" x] f(1) i by (simp_all add: s')
  show "sym a = y" "0 < amount a" by (rule a)+
  show "s' = s\<lparr>rexfunds := rexfunds s'\<rparr>" by (simp add: s')
  show "amount a \<le> rex_owed s" using le fb by simp
qed

text \<open>Storing and erasing a loan.\<close>

lemma loan_update:
  fixes k :: int
  assumes inv: "rex_inv y now X s" and m: "m = fmdrop k (loans cpu s) \<and> b = 0 \<or> m = fmupd k l (loans cpu s) \<and> loan_ok y l \<and> b = amount (loan_balance l)"
  defines "s' \<equiv> set_loans cpu m s" and "n \<equiv> b - fmval (\<lambda>l. amount (loan_balance l)) (fmlookup (loans cpu s) k)"
  shows "rex_inv y now X s'" "rex_owed s' = rex_owed s + n" "fee_base s' = fee_base s + n" "rex_flow y s' = rex_flow y s"
proof -
  have t: "tables_ok y s" using inv by (simp add: rex_inv_def)
  have f: "loan_sum s' = loan_sum s + n" using m by (auto simp: loan_sum_def s'_def n_def set_loans_def loans_def fmsum_upd fmsum_drop)
  have same: "fund_sum s' = fund_sum s" "order_sum s' = order_sum s" "lendable s' = lendable s" "ret_proceeds s' = ret_proceeds s" "ret_load s' = ret_load s"
    by (simp_all add: s'_def set_loans_def fund_sum_def order_sum_def lendable_def ret_proceeds_def ret_load_def)
  have "ret_ok now s' = ret_ok now s" by (rule ret_ok_cong) (simp_all add: s'_def set_loans_def)
  moreover have "tables_ok y s'" using t m by (auto simp: tables_ok_def s'_def set_loans_def loans_def split: if_splits)
  moreover have "sell_orders_ok y X s' = sell_orders_ok y X s" "shares_ok s' = shares_ok s" "rexpool_ok y s' = rexpool_ok y s" "core_symbol s' = core_symbol s"
    by (simp_all add: s'_def set_loans_def sell_orders_ok_def shares_ok_def share_sum_def all_shares_def rexpool_ok_def core_symbol_def)
  ultimately show "rex_inv y now X s'" using inv by (simp add: rex_inv_def)
  show "rex_owed s' = rex_owed s + n" "fee_base s' = fee_base s + n" using f same by (simp_all add: rex_owed_def fee_base_def)
  show "rex_flow y s' = rex_flow y s" by (simp add: s'_def rex_flow_def set_loans_def)
qed

subsection \<open>Expired loans\<close>

definition after_loan :: "bool \<Rightarrow> int \<Rightarrow> bool \<Rightarrow> sys \<Rightarrow> sys" where
  "after_loan cpu k delete s = (if delete then set_loans cpu (fmdrop k (loans cpu s)) s else s)"

lemma renewed_loan_moves:
  assumes E: "chain_laws E" and clock: "clock_ok E" and inv: "rex_inv y (current_sec E) X s"
    and small: "rex_owed s \<le> max_owed" "fee_base s \<le> fee_limit" and l: "fmlookup (loans cpu s) k = Some l"
    and funded: "amount (loan_payment l) \<le> amount (loan_balance l)" and r: "add_loan_to_rex_pool E (loan_payment l) n False s = Inr s'"
    and l': "loan_balance l' = add_amt (loan_balance l) (- amount (loan_payment l))" "loan_payment l' = loan_payment l"
  shows "moves y (current_sec E) X 0 s (set_loans cpu (fmupd k l' (loans cpu s')) s')"
proof -
  have t: "tables_ok y s" using inv by (simp add: rex_inv_def)
  let ?p = "amount (loan_payment l)" and ?b = "amount (loan_balance l)"
  have lk: "loan_ok y l" "0 \<le> ?p" "0 \<le> ?b" using loan_row [OF t l] by (auto simp: loan_ok_def money_ok_def)
  have b: "?b \<le> loan_sum s" "?b \<le> rex_owed s" using loan_le [OF t l] owed_parts(7) [OF inv] by auto
  have fee: "fee_of (loan_payment l) = ?p" using lk(2) by (simp add: fee_of_def)
  have lim: "ret_load s + fee_of (loan_payment l) \<le> fee_limit"
    using small(2) b(1) funded owed_parts(1) [OF inv] by (simp add: fee fee_base_def)
  note m = add_loan_moves [OF E clock inv lim r]
  have i: "i64 (?b - ?p) = ?b - ?p" using lk b funded small(1) by (simp add: width_simps max_owed_def)
  have "loan_ok y l'" using lk(1) funded by (simp add: loan_ok_def money_ok_def l' i)
  moreover have "loans cpu s' = loans cpu s" by (rule nopool_books(9) [OF m(5)])
  ultimately show ?thesis
    using loan_update [OF m(1), of "fmupd k l' (loans cpu s')" k cpu "amount (loan_balance l')" l'] m(2-4) l
    by (simp add: moves_def fee l'(1) i)
qed

lemma ended_loan_moves:
  assumes inv: "rex_inv y now X s" and small: "rex_owed s \<le> max_owed" and l: "fmlookup (loans cpu s) k = Some l"
    and r: "(if 0 < amount (loan_balance l) then transfer_to_fund (loan_from l) (loan_balance l) s else Inr s) = Inr s'"
  shows "moves y now X 0 s (set_loans cpu (fmdrop k (loans cpu s')) s')"
proof -
  have t: "tables_ok y s" using inv by (simp add: rex_inv_def)
  let ?b = "amount (loan_balance l)"
  have b: "0 \<le> ?b" "?b \<le> rex_owed s"
    using loan_row [OF t l] loan_le [OF t l] owed_parts(7) [OF inv] by (auto simp: loan_ok_def money_ok_def)
  have "rex_inv y now X s' \<and> rex_owed s' = rex_owed s + ?b \<and> rex_flow y s' = rex_flow y s \<and> fee_base s' = fee_base s + ?b \<and>
      loans cpu s' = loans cpu s"
  proof (cases "0 < ?b")
    case True
    then have t: "transfer_to_fund (loan_from l) (loan_balance l) s = Inr s'" using r by simp
    have "rex_owed s + ?b \<le> 2 ^ 63 - 1" using b small by (simp add: max_owed_def)
    note f = to_fund_moves [OF inv this t]
    have "loans cpu s' = loans cpu s" by (subst f(7)) (simp add: loans_def)
    then show ?thesis using f by simp
  next
    case False
    then show ?thesis using r b inv by simp
  qed
  then show ?thesis
    using loan_update [of y now X s' "fmdrop k (loans cpu s')" k cpu 0] l by (simp add: moves_def)
qed

lemma expired_loan_moves:
  assumes E: "chain_laws E" and clock: "clock_ok E" and inv: "rex_inv y (current_sec E) X s"
    and small: "rex_owed s \<le> max_owed" "fee_base s \<le> fee_limit" and l: "fmlookup (loans cpu s) k = Some l"
    and r: "process_expired_loan E cpu k l s = Inr (s', delete, d)"
  shows "moves y (current_sec E) X 0 s (after_loan cpu k delete s')"
proof -
  obtain s1 where s1: "remove_loan_from_rex_pool l s = Inr s1" using r by (auto simp: process_expired_loan_def result_simps)
  note m1 = remove_loan_moves [OF inv s1]
  have inv1: "rex_inv y (current_sec E) X s1" and small1: "rex_owed s1 \<le> max_owed" "fee_base s1 \<le> fee_limit"
    using m1(1) small by (auto simp: moves_def)
  have l1: "fmlookup (loans cpu s1) k = Some l" using l nopool_books(9) [OF m1(2)] by simp
  consider (renewed) n s2 where "asset_le E (loan_payment l) (loan_balance l) = Inr True" "add_loan_to_rex_pool E (loan_payment l) n False s1 = Inr s2"
      "delete = False" "s' = set_loans cpu (fmupd k (l\<lparr>loan_staked := set_amt (loan_staked l) n, loan_expiration := loan_expiration l + days30,
                          loan_balance := add_amt (loan_balance l) (- amount (loan_payment l))\<rparr>) (loans cpu s2)) s2"
    | (ended) "(if 0 < amount (loan_balance l) then transfer_to_fund (loan_from l) (loan_balance l) s1 else Inr s1) = Inr s'" "delete = True"
    using r by (auto simp: process_expired_loan_def s1 result_simps Let_def split: if_splits)
  then show ?thesis
  proof cases
    case renewed
    have le: "amount (loan_payment l) \<le> amount (loan_balance l)" using chain_laws.le_exact [OF E renewed(1)] by simp
    have "moves y (current_sec E) X 0 s1 s'" unfolding renewed(4) by (rule renewed_loan_moves [OF E clock inv1 small1 l1 le renewed(2)]) simp_all
    then show ?thesis using moves_trans [OF m1(1)] by (fastforce simp: after_loan_def renewed(3))
  next
    case ended
    show ?thesis using moves_trans [OF m1(1) ended_loan_moves [OF inv1 small1(1) l1 ended(1)]] by (simp add: after_loan_def ended(2))
  qed
qed

lemma first_expiring_row:
  assumes "first_expiring cpu s = Some (k, l)"
  shows "fmlookup (loans cpu s) k = Some l"
proof -
  let ?xs = "map (\<lambda>k. (k, the (fmlookup (loans cpu s) k))) (sorted_list_of_fset (fmdom (loans cpu s)))"
  have "(k, l) \<in> set (sort_key (\<lambda>(k, l). u64 (loan_expiration l)) ?xs)"
    using assms by (cases "sort_key (\<lambda>(k, l). u64 (loan_expiration l)) ?xs") (auto simp: first_expiring_def)
  then show ?thesis by (auto simp: fmlookup_dom_iff)
qed

lemma after_loan_view:
  assumes "rex_view y s' = rex_view y s"
  shows "rex_view y (after_loan cpu k d s') = rex_view y (after_loan cpu k d s)"
  using assms rex_view_keeps(10) [OF assms, of cpu] set_loans_view [OF assms] by (simp add: after_loan_def)

lemma moves_view: "moves y now X n s s1 \<Longrightarrow> rex_view y s2 = rex_view y s1 \<Longrightarrow> moves y now X n s s2"
  using rex_view_keeps [of y s2 s1] by (simp add: moves_def)

lemma loan_loop_moves:
  assumes E: "chain_laws E" and clock: "clock_ok E"
  shows "loan_loop E cpu n s = Inr s' \<Longrightarrow> rex_inv y (current_sec E) X s \<Longrightarrow> rex_owed s \<le> max_owed \<Longrightarrow> fee_base s \<le> fee_limit \<Longrightarrow>
    moves y (current_sec E) X 0 s s'"
proof (induction n arbitrary: s)
  case (Suc n)
  consider (stop) "s' = s" | (step) k l s1 d e s2 where "first_expiring cpu s = Some (k, l)" "process_expired_loan E cpu k l s = Inr (s1, d, e)"
      "rex_view y s2 = rex_view y s1" "loan_loop E cpu n (after_loan cpu k d s2) = Inr s'"
    using Suc.prems(1) limits_view [of E]
    by (fastforce simp: result_simps after_loan_def split: option.splits prod.splits if_splits sum.splits)
  then show ?case
  proof cases
    case stop
    then show ?thesis using Suc.prems by (simp add: moves_refl)
  next
    case step
    have m: "moves y (current_sec E) X 0 s (after_loan cpu k d s2)"
      using expired_loan_moves [OF E clock Suc.prems(2-4) first_expiring_row [OF step(1)] step(2)] after_loan_view [OF step(3)] by (rule moves_view)
    then have "moves y (current_sec E) X 0 (after_loan cpu k d s2) s'"
      using Suc.prems by (intro Suc.IH [OF step(4)]) (auto simp: moves_def)
    then show ?thesis using moves_trans [OF m] by fastforce
  qed
qed (simp add: moves_refl)

subsection \<open>Sell orders\<close>

text \<open>A sale takes its part of the lendable tokens, rounded down, and its shares.\<close>

lemma sale_price:
  fixes rex S0 R0 :: int
  assumes "0 < rex" "rex \<le> R0" "0 \<le> S0" "S0 \<le> max_amount" "R0 \<le> max_amount"
  shows "muldiv rex S0 R0 = Inr (rex * S0 div R0)" "0 \<le> rex * S0 div R0" "rex * S0 div R0 \<le> S0"
proof -
  have R: "0 < R0" using assms by simp
  show nn: "0 \<le> rex * S0 div R0" using assms R by (simp add: pos_imp_zdiv_nonneg_iff)
  have "rex * S0 \<le> R0 * S0" using assms by (intro mult_right_mono) auto
  then have "rex * S0 div R0 \<le> R0 * S0 div R0" using R by (intro zdiv_mono1)
  also have "\<dots> = S0" using R by simp
  finally show "rex * S0 div R0 \<le> S0" .
  then show "muldiv rex S0 R0 = Inr (rex * S0 div R0)" using assms R by (intro muldiv_exact) (simp_all add: max_amount_def)
qed

lemma pool_ok_set:
  assumes "amount (total_lendable p) = S1" "amount (total_unlent p) = i64 (S1 - amount (total_lent p))" "0 \<le> S1" "S1 \<le> max_amount"
  shows "pool_ok p"
proof -
  have "i64 (amount (total_unlent p) + amount (total_lent p)) = i64 S1" unfolding assms(2) i64_add_left by simp
  then show ?thesis using assms by (simp add: pool_ok_def width_simps max_amount_def)
qed

lemma sold_shares_ok:
  assumes "rb_ok rb" "0 < n" "n \<le> matured_rex rb"
    "rex_bal rb' = add_amt (rex_bal rb) (- n)" "matured_rex rb' = i64 (matured_rex rb - n)" "rex_maturities rb' = rex_maturities rb"
  shows "rb_ok rb'" "amount (rex_bal rb') = amount (rex_bal rb) - n" "matured_rex rb' = matured_rex rb - n"
proof -
  note b = rb_ok_bounds [OF assms(1)]
  have i: "i64 (amount (rex_bal rb) + - n) = amount (rex_bal rb) - n" "i64 (matured_rex rb - n) = matured_rex rb - n"
    using b assms(2,3) by (simp_all add: width_simps max_amount_def)
  show "amount (rex_bal rb') = amount (rex_bal rb) - n" "matured_rex rb' = matured_rex rb - n"
    unfolding assms(4,5) amt_simps i by simp_all
  then show "rb_ok rb'" using assms(1-3,6) by (simp add: rb_ok_def rb_wf_def rex_total_def)
qed

text \<open>Changing one row of the balances and the pool.\<close>

lemma share_update:
  fixes x :: name and po :: "rex_pool option"
  assumes inv: "rex_inv y now X s" and rb': "rb_ok rb'"
  defines "s' \<equiv> s\<lparr>rexpool := po, rexbalance := fmupd x rb' (rexbalance s)\<rparr>"
  assumes p': "rexpool_ok y s'" "all_shares s' \<le> max_amount"
    and shares: "all_shares s' = all_shares s + (amount (rex_bal rb') - fmval (\<lambda>rb. amount (rex_bal rb)) (fmlookup (rexbalance s) x))"
  shows "rex_inv y now (insert x X) s'" "rex_owed s' = rex_owed s + (lendable s' - lendable s)"
    "rex_flow y s' = rex_flow y s" "fee_base s' = fee_base s"
proof -
  have sh: "shares_ok s" using inv by (simp add: rex_inv_def)
  have "share_sum s' = share_sum s + (amount (rex_bal rb') - fmval (\<lambda>rb. amount (rex_bal rb)) (fmlookup (rexbalance s) x))"
    by (simp add: share_sum_def s'_def fmsum_upd)
  moreover have "\<forall>z rb. fmlookup (rexbalance s') z = Some rb \<longrightarrow> rb_ok rb" using sh rb' by (auto simp: shares_ok_def s'_def)
  ultimately have "shares_ok s'" using sh shares p'(2) by (simp add: shares_ok_def)
  moreover have "sell_orders_ok y (insert x X) s'" using inv by (auto simp: rex_inv_def sell_orders_ok_def s'_def)
  moreover have "ret_ok now s' = ret_ok now s" by (rule ret_ok_cong) (simp_all add: s'_def)
  ultimately show "rex_inv y now (insert x X) s'"
    using inv p'(1) by (simp add: rex_inv_def tables_ok_def s'_def core_symbol_def)
  show "rex_owed s' = rex_owed s + (lendable s' - lendable s)"
    by (simp add: rex_owed_def s'_def fund_sum_def loan_sum_def order_sum_def ret_proceeds_def)
  show "rex_flow y s' = rex_flow y s" "fee_base s' = fee_base s"
    by (simp_all add: s'_def rex_flow_def fee_base_def fund_sum_def loan_sum_def ret_load_def)
qed

lemma fill_moves:
  assumes E: "chain_laws E" and inv: "rex_inv y now X s" and rb: "fmlookup (rexbalance s) x = Some rb"
    and rex: "0 < amount rex" "amount rex \<le> matured_rex rb" and r: "fill_rex_order E x rex s = Inr (s', oc)"
  shows "money_ok y (oc_proceeds oc)" "\<not> success oc \<Longrightarrow> s' = s \<and> amount (oc_proceeds oc) = 0"
    "success oc \<Longrightarrow> rex_inv y now (insert x X) s' \<and> rex_owed s' = rex_owed s - amount (oc_proceeds oc) \<and> rex_flow y s' = rex_flow y s \<and>
       fee_base s' = fee_base s \<and> (\<exists>rb'. matured_rex rb' = matured_rex rb - amount rex \<and>
         s' = s\<lparr>rexpool := rexpool s', rexbalance := fmupd x rb' (rexbalance s)\<rparr>)"
proof -
  have sh: "shares_ok s" and c: "core_symbol s = Inr y" and po: "rexpool_ok y s" using inv by (simp_all add: rex_inv_def)
  obtain p where p: "rexpool s = Some p" using r by (auto simp: fill_rex_order_def result_simps)
  have pk: "pool_ok p" "sym (namebid_proceeds p) = y" using pool_row [OF p po] by auto
  have R0: "amount (total_rex p) = all_shares s" using p by (simp add: all_shares_def)
  have bal: "rb_ok rb" "amount (rex_bal rb) \<le> all_shares s" using share_le [OF sh rb] by auto
  have le: "amount rex \<le> all_shares s" using rex rb_ok_bounds [OF bal(1)] bal(2) by simp
  define S0 where "S0 = amount (total_lendable p)"
  have S0: "0 \<le> S0" "S0 \<le> max_amount" using pk by (simp_all add: pool_ok_def S0_def)
  have Rmax: "all_shares s \<le> max_amount" using sh by (simp add: shares_ok_def)
  define n where "n = amount rex * S0 div all_shares s"
  note pr = sale_price [OF rex(1) le S0 Rmax, folded n_def]
  have i: "i64 (all_shares s - amount rex) = all_shares s - amount rex" "i64 (S0 - n) = S0 - n"
    using rex(1) le Rmax pr(2,3) S0 by (simp_all add: width_simps max_amount_def)
  define p' where "p' = p\<lparr>total_rex := set_amt (total_rex p) (all_shares s - amount rex), total_lendable := set_amt (total_lendable p) (S0 - n),
                               total_unlent := set_amt (total_unlent p) (i64 (S0 - n - amount (total_lent p)))\<rparr>"
  define rb' where "rb' v = rb\<lparr>vote_stake := v, rex_bal := add_amt (rex_bal rb) (- amount rex), matured_rex := i64 (matured_rex rb - amount rex)\<rparr>" for v
  define enough where "enough = (n \<le> i64 (amount (total_unlent p) - tdiv (amount (total_lent p)) 10))"
  have eq: "fill_rex_order E x rex s =
     (case asset_new E n y of Inl e \<Rightarrow> Inl e | Inr pr \<Rightarrow>
     (case asset_new E 0 y of Inl e \<Rightarrow> Inl e | Inr zero \<Rightarrow>
      if enough then
        (case muldiv (amount (rex_bal rb)) S0 (all_shares s) of Inl e \<Rightarrow> Inl e | Inr value \<Rightarrow>
          Inr (s\<lparr>rexpool := Some p', rexbalance := fmupd x (rb' (set_amt (vote_stake rb) (i64 (value - n)))) (rexbalance s)\<rparr>,
               \<lparr>success = True, oc_proceeds = pr, oc_stake_change = set_amt zero (i64 (i64 (value - n) - amount (vote_stake rb)))\<rparr>))
      else Inr (s, \<lparr>success = False, oc_proceeds = set_amt pr 0, oc_stake_change = zero\<rparr>)))"
    unfolding fill_rex_order_def p rb option.case Let_def R0 S0_def [symmetric] pr(1) sum.case c i enough_def p'_def rb'_def ..
  obtain a z where a: "asset_new E n y = Inr a" "asset_new E 0 y = Inr z" using r unfolding eq by (simp only: result_simps) blast
  have an: "amount a = n" "sym a = y" using chain_laws.new_exact [OF E a(1)] by simp_all
  have "success oc = False \<and> s' = s \<and> oc_proceeds oc = set_amt a 0 \<or>
      (\<exists>v. success oc = True \<and> oc_proceeds oc = a \<and> s' = s\<lparr>rexpool := Some p', rexbalance := fmupd x (rb' v) (rexbalance s)\<rparr>)"
    using r unfolding eq a sum.case by (cases enough) (auto simp: result_simps)
  then consider (no) "s' = s" "success oc = False" "oc_proceeds oc = set_amt a 0"
    | (yes) v where "success oc = True" "oc_proceeds oc = a" "s' = s\<lparr>rexpool := Some p', rexbalance := fmupd x (rb' v) (rexbalance s)\<rparr>"
    by blast
  then have "money_ok y (oc_proceeds oc) \<and> (\<not> success oc \<longrightarrow> s' = s \<and> amount (oc_proceeds oc) = 0) \<and>
      (success oc \<longrightarrow> rex_inv y now (insert x X) s' \<and> rex_owed s' = rex_owed s - amount (oc_proceeds oc) \<and> rex_flow y s' = rex_flow y s \<and>
       fee_base s' = fee_base s \<and> (\<exists>rb'. matured_rex rb' = matured_rex rb - amount rex \<and>
         s' = s\<lparr>rexpool := rexpool s', rexbalance := fmupd x rb' (rexbalance s)\<rparr>))"
  proof cases
    case no
    then show ?thesis using an by (simp add: money_ok_def)
  next
    case yes
    have p'_ok: "pool_ok p'" "sym (namebid_proceeds p') = y"
      using pr(2,3) S0 pk(2) by (auto simp: p'_def intro!: pool_ok_set [of _ "S0 - n"])
    have rb'_ok: "rb_ok (rb' v)" "amount (rex_bal (rb' v)) = amount (rex_bal rb) - amount rex" "matured_rex (rb' v) = matured_rex rb - amount rex"
      by (rule sold_shares_ok [OF bal(1) rex]; simp add: rb'_def)+
    have "rex_inv y now (insert x X) s' \<and> rex_owed s' = rex_owed s - n \<and> rex_flow y s' = rex_flow y s \<and> fee_base s' = fee_base s"
      using share_update [OF inv rb'_ok(1), of x "Some p'"] rb rb'_ok(2) Rmax rex(1) p p'_ok
      by (simp add: yes(3) rexpool_ok_def all_shares_def lendable_def p'_def S0_def)
    moreover have "\<exists>rb'. matured_rex rb' = matured_rex rb - amount rex \<and> s' = s\<lparr>rexpool := rexpool s', rexbalance := fmupd x rb' (rexbalance s)\<rparr>"
      by (rule exI [of _ "rb' v"]) (simp add: rb'_ok(3), simp add: yes(3))
    ultimately show ?thesis using yes(1,2) an pr(2) by (simp add: money_ok_def)
  qed
  then show "money_ok y (oc_proceeds oc)" "\<not> success oc \<Longrightarrow> s' = s \<and> amount (oc_proceeds oc) = 0"
    "success oc \<Longrightarrow> rex_inv y now (insert x X) s' \<and> rex_owed s' = rex_owed s - amount (oc_proceeds oc) \<and> rex_flow y s' = rex_flow y s \<and>
       fee_base s' = fee_base s \<and> (\<exists>rb'. matured_rex rb' = matured_rex rb - amount rex \<and>
         s' = s\<lparr>rexpool := rexpool s', rexbalance := fmupd x rb' (rexbalance s)\<rparr>)" by blast+
qed

lemma order_row: "sell_orders_ok y X s \<Longrightarrow> x \<notin> X \<Longrightarrow> fmlookup (rexorders s) x = Some ord \<Longrightarrow> order_ok y (fmlookup (rexbalance s) x) ord"
  by (simp add: sell_orders_ok_def)

lemma closed_order: "order_ok y b ord \<Longrightarrow> \<not> o_is_open ord \<Longrightarrow> money_ok y (o_proceeds ord)"
  by (simp add: order_ok_def)

lemma order_update:
  fixes x :: name
  assumes inv: "rex_inv y now (insert x X) s"
    and m: "m = fmdrop x (rexorders s) \<and> b = 0 \<or> m = fmupd x ord (rexorders s) \<and> order_ok y (fmlookup (rexbalance s) x) ord \<and> b = order_due ord"
  defines "s' \<equiv> s\<lparr>rexorders := m\<rparr>" and "n \<equiv> b - fmval order_due (fmlookup (rexorders s) x)"
  shows "rex_inv y now X s'" "rex_owed s' = rex_owed s + n" "rex_flow y s' = rex_flow y s" "fee_base s' = fee_base s"
proof -
  have f: "order_sum s' = order_sum s + n" using m by (auto simp: order_sum_def s'_def n_def fmsum_upd fmsum_drop)
  have same: "fund_sum s' = fund_sum s" "loan_sum s' = loan_sum s" "lendable s' = lendable s" "ret_proceeds s' = ret_proceeds s" "ret_load s' = ret_load s"
    by (simp_all add: s'_def fund_sum_def loan_sum_def lendable_def ret_proceeds_def ret_load_def)
  have "ret_ok now s' = ret_ok now s" by (rule ret_ok_cong) (simp_all add: s'_def)
  moreover have "sell_orders_ok y X s'"
    using inv m closed_order [of y _ ord] by (auto simp: rex_inv_def sell_orders_ok_def s'_def split: if_splits)
  moreover have "tables_ok y s' = tables_ok y s" "shares_ok s' = shares_ok s" "rexpool_ok y s' = rexpool_ok y s" "core_symbol s' = core_symbol s"
    by (simp_all add: s'_def tables_ok_def shares_ok_def share_sum_def all_shares_def rexpool_ok_def core_symbol_def)
  ultimately show "rex_inv y now X s'" using inv by (simp add: rex_inv_def)
  show "rex_owed s' = rex_owed s + n" "fee_base s' = fee_base s" using f same by (simp_all add: rex_owed_def fee_base_def)
  show "rex_flow y s' = rex_flow y s" by (simp add: s'_def rex_flow_def)
qed

lemma rex_inv_weaken: "rex_inv y now X s \<Longrightarrow> X \<subseteq> Y \<Longrightarrow> rex_inv y now Y s"
  by (auto simp: rex_inv_def sell_orders_ok_def)

text \<open>The queue holds every row once.\<close>

lemma queue_rows: "(x, ord) \<in> set (orders_by_time s) \<Longrightarrow> fmlookup (rexorders s) x = Some ord"
  by (auto simp: orders_by_time_def fmlookup_dom_iff)

lemma queue_distinct: "distinct (map fst (orders_by_time s))"
proof -
  let ?xs = "map (\<lambda>x. (x, the (fmlookup (rexorders s) x))) (sorted_list_of_fset (fmdom (rexorders s)))"
  have "distinct (map fst ?xs)" by (simp add: comp_def sorted_list_of_fset.rep_eq)
  moreover have "mset (map fst (orders_by_time s)) = mset (map fst ?xs)" unfolding mset_map orders_by_time_def by simp
  ultimately show ?thesis using mset_eq_imp_distinct_iff [of "map fst (orders_by_time s)" "map fst ?xs"] by simp
qed

text \<open>The order of one owner: the step of the loop.\<close>

definition closed_with :: "rex_order_outcome \<Rightarrow> rex_order \<Rightarrow> rex_order" where
  "closed_with oc ord = ord\<lparr>o_proceeds := set_amt (o_proceeds ord) (amount (oc_proceeds oc)),
     o_stake_change := set_amt (o_stake_change ord) (amount (oc_stake_change oc)), o_is_open := False\<rparr>"

definition after_fill :: "name \<Rightarrow> rex_order \<Rightarrow> sys \<times> rex_order_outcome \<Rightarrow> sys" where
  "after_fill x ord r = (case r of (s1, oc) \<Rightarrow>
     if success oc then emit (Inline_result ''orderresult'' [oc_proceeds oc]) (s1\<lparr>rexorders := fmupd x (closed_with oc ord) (rexorders s1)\<rparr>) else s1)"

lemma order_loop_step:
  "order_loop E (Suc n) ((x, ord) # os) s =
     (if \<not> o_is_open ord then Inr s else
      if fmlookup (rexbalance s) x = None then order_loop E n os s else
      (case fill_rex_order E x (o_rex_requested ord) s of Inl e \<Rightarrow> Inl e | Inr r \<Rightarrow> order_loop E n os (after_fill x ord r)))"
  by (auto simp: after_fill_def closed_with_def split: sum.split)

lemma fill_order_moves:
  assumes E: "chain_laws E" and inv: "rex_inv y now {} s" and row: "fmlookup (rexorders s) x = Some ord"
    and rb: "fmlookup (rexbalance s) x = Some rb" and op: "o_is_open ord" and f: "fill_rex_order E x (o_rex_requested ord) s = Inr (s1, oc)"
  shows "moves y now {} 0 s (after_fill x ord (s1, oc))" "z \<noteq> x \<Longrightarrow> fmlookup (rexorders (after_fill x ord (s1, oc))) z = fmlookup (rexorders s) z"
proof -
  have "order_ok y (Some rb) ord" using order_row [of y "{}" s x ord] inv row rb by (simp add: rex_inv_def)
  then have req: "0 < amount (o_rex_requested ord)" "amount (o_rex_requested ord) \<le> matured_rex rb" "sym (o_proceeds ord) = y"
    using op by (auto simp: order_ok_def)
  note fm = fill_moves [OF E inv rb req(1,2) f]
  have "moves y now {} 0 s (after_fill x ord (s1, oc)) \<and> (z \<noteq> x \<longrightarrow> fmlookup (rexorders (after_fill x ord (s1, oc))) z = fmlookup (rexorders s) z)"
  proof (cases "success oc")
    case False
    then show ?thesis using fm(2) inv by (simp add: after_fill_def moves_refl)
  next
    case True
    obtain rb' where k: "rex_inv y now {x} s1" "rex_owed s1 = rex_owed s - amount (oc_proceeds oc)" "rex_flow y s1 = rex_flow y s"
      "fee_base s1 = fee_base s" "s1 = s\<lparr>rexpool := rexpool s1, rexbalance := fmupd x rb' (rexbalance s)\<rparr>"
      using fm(3) [OF True] by blast
    have orders: "rexorders s1 = rexorders s" by (subst k(5)) simp
    let ?o = "closed_with oc ord"
    have o: "order_ok y (fmlookup (rexbalance s1) x) ?o" "order_due ?o = amount (oc_proceeds oc)"
      using fm(1) req(3) by (simp_all add: closed_with_def order_ok_def money_ok_def order_due_def)
    have "order_due ord = 0" using op by (simp add: order_due_def)
    then have "moves y now {} 0 s (s1\<lparr>rexorders := fmupd x ?o (rexorders s1)\<rparr>)"
      using order_update [OF k(1), of "fmupd x ?o (rexorders s1)" "amount (oc_proceeds oc)" ?o] o k(2-4) row
      by (simp add: moves_def orders)
    then have "moves y now {} 0 s (after_fill x ord (s1, oc))" by (rule moves_view) (simp add: after_fill_def True)
    then show ?thesis by (simp add: after_fill_def True emit_def orders)
  qed
  then show "moves y now {} 0 s (after_fill x ord (s1, oc))"
    "z \<noteq> x \<Longrightarrow> fmlookup (rexorders (after_fill x ord (s1, oc))) z = fmlookup (rexorders s) z" by auto
qed

lemma order_loop_cases:
  assumes "order_loop E (Suc n) ((x, ord) # os) s = Inr s'"
  obtains "s' = s" | "order_loop E n os s = Inr s'"
    | rb s1 oc where "fmlookup (rexbalance s) x = Some rb" "o_is_open ord" "fill_rex_order E x (o_rex_requested ord) s = Inr (s1, oc)"
      "order_loop E n os (after_fill x ord (s1, oc)) = Inr s'"
proof (cases "o_is_open ord")
  case True
  show ?thesis
  proof (cases "fmlookup (rexbalance s) x")
    case None
    then show ?thesis using assms True that(2) unfolding order_loop_step by simp
  next
    case (Some rb)
    then obtain r where "fill_rex_order E x (o_rex_requested ord) s = Inr r" "order_loop E n os (after_fill x ord r) = Inr s'"
      using assms True unfolding order_loop_step by (auto simp: result_simps)
    then show ?thesis using that(3) [OF Some True] by (cases r) simp
  qed
qed (use assms that(1) in \<open>simp add: order_loop_step\<close>)

lemma order_loop_moves:
  assumes E: "chain_laws E"
  shows "order_loop E n os s = Inr s' \<Longrightarrow> rex_inv y now {} s \<Longrightarrow> distinct (map fst os) \<Longrightarrow>
    \<forall>x ord. (x, ord) \<in> set os \<longrightarrow> fmlookup (rexorders s) x = Some ord \<Longrightarrow> moves y now {} 0 s s'"
proof (induction n arbitrary: os s)
  case (Suc n)
  show ?case
  proof (cases os)
    case (Cons od os')
    obtain x ord where od: "od = (x, ord)" by (cases od)
    have row: "fmlookup (rexorders s) x = Some ord" using Suc.prems(4) by (simp add: Cons od)
    have rest: "distinct (map fst os')" using Suc.prems(3) by (simp add: Cons od)
    have other: "z \<noteq> x \<and> fmlookup (rexorders s) z = Some o0" if z: "(z, o0) \<in> set os'" for z o0
    proof
      have "z \<in> set (map fst os')" using z by force
      then show "z \<noteq> x" using Suc.prems(3) by (auto simp: Cons od)
      show "fmlookup (rexorders s) z = Some o0" using Suc.prems(4) z by (simp add: Cons)
    qed
    from Suc.prems(1) [unfolded Cons od] show ?thesis
    proof (cases rule: order_loop_cases)
      case 1
      then show ?thesis using Suc.prems(2) by (simp add: moves_refl)
    next
      case 2
      show ?thesis by (rule Suc.IH [OF 2 Suc.prems(2) rest]) (simp add: other)
    next
      case (3 rb s1 oc)
      note m = fill_order_moves [OF E Suc.prems(2) row 3(1-3)]
      have inv: "rex_inv y now {} (after_fill x ord (s1, oc))" using m(1) by (simp add: moves_def)
      have "moves y now {} 0 (after_fill x ord (s1, oc)) s'"
        by (rule Suc.IH [OF 3(4) inv rest]) (simp add: m(2) other)
      then show ?thesis using moves_trans [OF m(1)] by fastforce
    qed
  qed (use Suc.prems in \<open>simp add: moves_refl\<close>)
qed (simp add: moves_refl)

subsection \<open>Fees from other accounts\<close>

lemma transfer_in_flow:
  assumes "x \<noteq> rex_account" "sym a = y"
  shows "rex_flow y (send_transfer x rex_account a memo s) = rex_flow y s + amount a"
    "rex_inv y now X (send_transfer x rex_account a memo s) = rex_inv y now X s"
    "rex_owed (send_transfer x rex_account a memo s) = rex_owed s" "fee_base (send_transfer x rex_account a memo s) = fee_base s"
proof -
  let ?s = "send_transfer x rex_account a memo s"
  show "rex_flow y ?s = rex_flow y s + amount a" using assms by (auto simp: rex_flow_def send_transfer_def flow_def)
  have "ret_ok now ?s = ret_ok now s" by (rule ret_ok_cong) (simp_all add: send_transfer_def)
  then show "rex_inv y now X ?s = rex_inv y now X s"
    by (simp add: rex_inv_def tables_ok_def sell_orders_ok_def shares_ok_def share_sum_def all_shares_def rexpool_ok_def core_symbol_def send_transfer_def)
  show "rex_owed ?s = rex_owed s" "fee_base ?s = fee_base s"
    by (simp_all add: rex_owed_def fee_base_def fund_sum_def loan_sum_def order_sum_def lendable_def ret_proceeds_def ret_load_def send_transfer_def)
qed

lemma channel_moves:
  assumes E: "chain_laws E" and clock: "clock_ok E" and inv: "rex_inv y (current_sec E) X s"
    and x: "x \<noteq> rex_account" and a: "money_ok y a" and lim: "fee_base s + amount a \<le> fee_limit" and r: "channel_to_rex E x a b s = Inr s'"
  shows "moves y (current_sec E) X 0 s s' \<or> moves y (current_sec E) X (amount a) s s'" "rexpool s = None \<longleftrightarrow> rexpool s' = None"
proof -
  have sy: "sym a = y" "fee_of a = amount a" using a by (simp_all add: money_ok_def fee_of_def)
  have l: "ret_load s + fee_of a \<le> fee_limit" using lim sy owed_parts(1,2) [OF inv] by (simp add: fee_base_def)
  have "(moves y (current_sec E) X 0 s s' \<or> moves y (current_sec E) X (amount a) s s') \<and> (rexpool s = None \<longleftrightarrow> rexpool s' = None)"
  proof (cases "rex_available s")
    case True
    then obtain s1 memo where s1: "add_to_rex_return_pool E a s = Inr s1" and s': "s' = send_transfer x rex_account a memo s1"
      using r by (auto simp: channel_to_rex_def result_simps)
    note m = fee_moves [OF E clock inv l s1]
    show ?thesis using m(1-4,6) by (simp add: s' moves_def transfer_in_flow [OF x sy(1)] sy(2)) (simp add: send_transfer_def)
  next
    case False
    then have "s' = s" using r by (simp add: channel_to_rex_def split: if_splits)
    then show ?thesis using inv by (simp add: moves_refl)
  qed
  then show "moves y (current_sec E) X 0 s s' \<or> moves y (current_sec E) X (amount a) s s'" "rexpool s = None \<longleftrightarrow> rexpool s' = None" by auto
qed

subsection \<open>The maintenance run\<close>

definition bids_due :: "sys \<Rightarrow> int" where
  "bids_due s = fmval (\<lambda>p. max 0 (amount (namebid_proceeds p))) (rexpool s)"

lemma bids_due_nonneg: "0 \<le> bids_due s"
  by (cases "rexpool s") (simp_all add: bids_due_def)

lemma bids_cleared:
  assumes "rex_inv y now X s"
  shows "moves y now X 0 s (s\<lparr>rexpool := map_option (\<lambda>rt. rt\<lparr>namebid_proceeds := set_amt (namebid_proceeds rt) 0\<rparr>) (rexpool s)\<rparr>)"
proof (cases "rexpool s")
  case (Some p)
  have "rexpool_ok y s" using assms by (simp add: rex_inv_def)
  then have p: "pool_ok p" "sym (namebid_proceeds p) = y" using pool_row [OF Some] by auto
  then have "pool_ok (p\<lparr>namebid_proceeds := set_amt (namebid_proceeds p) 0\<rparr>)" by (simp add: pool_ok_def)
  then show ?thesis
    using pool_row_moves [OF assms Some, of "p\<lparr>namebid_proceeds := set_amt (namebid_proceeds p) 0\<rparr>"] p by (simp add: Some)
next
  case None
  have "s\<lparr>rexpool := map_option (\<lambda>rt. rt\<lparr>namebid_proceeds := set_amt (namebid_proceeds rt) 0\<rparr>) (rexpool s)\<rparr> = s" by (simp add: None)
  then show ?thesis using moves_refl [OF assms] by simp
qed

lemma bids_moves:
  assumes E: "chain_laws E" and clock: "clock_ok E" and inv: "rex_inv y (current_sec E) X s" and p: "rexpool s = Some p"
    and lim: "fee_base s + bids_due s \<le> fee_limit"
    and r: "(if 0 < amount (namebid_proceeds p)
       then (case channel_to_rex E names_account (namebid_proceeds p) False s of Inl e \<Rightarrow> Inl e | Inr s1 \<Rightarrow>
            Inr (s1\<lparr>rexpool := map_option (\<lambda>rt. rt\<lparr>namebid_proceeds := set_amt (namebid_proceeds rt) 0\<rparr>) (rexpool s1)\<rparr>))
       else Inr s) = Inr s'"
  obtains n where "0 \<le> n" "n \<le> bids_due s" "moves y (current_sec E) X n s s'"
proof (cases "0 < amount (namebid_proceeds p)")
  case True
  have "rexpool_ok y s" using inv by (simp add: rex_inv_def)
  then have a: "money_ok y (namebid_proceeds p)" "bids_due s = amount (namebid_proceeds p)"
    using pool_row [OF p] True p by (simp_all add: money_ok_def bids_due_def)
  obtain s1 where s1: "channel_to_rex E names_account (namebid_proceeds p) False s = Inr s1"
    and s': "s' = s1\<lparr>rexpool := map_option (\<lambda>rt. rt\<lparr>namebid_proceeds := set_amt (namebid_proceeds rt) 0\<rparr>) (rexpool s1)\<rparr>"
    using r True by (auto simp: result_simps)
  have "names_account \<noteq> rex_account" by (simp add: names_account_def rex_account_def)
  then have "moves y (current_sec E) X 0 s s1 \<or> moves y (current_sec E) X (bids_due s) s s1"
    using channel_moves(1) [OF E clock inv _ a(1) _ s1] lim a(2) by simp
  then obtain n where n: "0 \<le> n" "n \<le> bids_due s" "moves y (current_sec E) X n s s1" using bids_due_nonneg by fastforce
  have "rex_inv y (current_sec E) X s1" using n(3) by (simp add: moves_def)
  then have "moves y (current_sec E) X (n + 0) s s'" unfolding s' by (rule moves_trans [OF n(3) bids_cleared])
  then show ?thesis using n that by simp
next
  case False
  then show ?thesis using r inv bids_due_nonneg by (intro that [of 0]) (simp_all add: moves_refl)
qed

lemma runrex_moves:
  assumes E: "chain_laws E" and clock: "clock_ok E" and inv: "rex_inv y (current_sec E) {} s"
    and lim: "rex_owed s + bids_due s \<le> max_owed" "fee_base s + bids_due s \<le> fee_limit" and r: "runrex E k s = Inr s'"
  obtains n where "0 \<le> n" "n \<le> bids_due s" "moves y (current_sec E) {} n s s'"
proof -
  obtain s1 p s2 s3 s4 where s1: "update_rex_pool E s = Inr s1" and p: "rexpool s1 = Some p"
    and s2: "(if 0 < amount (namebid_proceeds p)
       then (case channel_to_rex E names_account (namebid_proceeds p) False s1 of Inl e \<Rightarrow> Inl e | Inr s1 \<Rightarrow>
            Inr (s1\<lparr>rexpool := map_option (\<lambda>rt. rt\<lparr>namebid_proceeds := set_amt (namebid_proceeds rt) 0\<rparr>) (rexpool s1)\<rparr>))
       else Inr s1) = Inr s2"
    and s3: "loan_loop E True k s2 = Inr s3" and s4: "loan_loop E False k s3 = Inr s4" and s5: "order_loop E k (orders_by_time s4) s4 = Inr s'"
    using r unfolding runrex_def by (simp only: result_simps) blast
  note m1 = update_moves [OF E clock inv s1]
  have inv1: "rex_inv y (current_sec E) {} s1" "rex_owed s1 \<le> rex_owed s" "fee_base s1 \<le> fee_base s" using m1 by (simp_all add: moves_def)
  have bids: "bids_due s1 = bids_due s"
  proof (cases "rexpool s")
    case (Some p0)
    have ok: "ret_ok (current_sec E) s" "pool_ok p0" using inv pool_row [OF Some, of y] by (simp_all add: rex_inv_def)
    show ?thesis by (rule update_pool [OF E ok(1) clock Some ok(2) s1]) (simp add: bids_due_def Some)
  next
    case None
    have ok: "ret_ok (current_sec E) s" using inv by (simp add: rex_inv_def)
    show ?thesis using ok clock s1 by (cases rule: update_returns) (use None p in auto)
  qed
  obtain n where n: "0 \<le> n" "n \<le> bids_due s" "moves y (current_sec E) {} n s1 s2"
    using bids_moves [OF E clock inv1(1) p _ s2] lim(2) inv1(3) bids by auto
  have inv2: "rex_inv y (current_sec E) {} s2" "rex_owed s2 \<le> max_owed" "fee_base s2 \<le> fee_limit"
    using n inv1 lim by (auto simp: moves_def)
  note m3 = loan_loop_moves [OF E clock s3 inv2]
  have inv3: "rex_inv y (current_sec E) {} s3" "rex_owed s3 \<le> max_owed" "fee_base s3 \<le> fee_limit" using m3 inv2 by (auto simp: moves_def)
  note m4 = loan_loop_moves [OF E clock s4 inv3]
  have inv4: "rex_inv y (current_sec E) {} s4" using m4 by (simp add: moves_def)
  have m5: "moves y (current_sec E) {} 0 s4 s'"
    by (rule order_loop_moves [OF E s5 inv4 queue_distinct]) (simp add: queue_rows)
  show ?thesis using moves_trans [OF moves_trans [OF moves_trans [OF moves_trans [OF m1 n(3)] m3] m4] m5] n that by simp
qed

end
