(* ===== verification/Rex_Solvency.thy ===== *)
theory Rex_Solvency
  imports Rex_Books
begin

section \<open>The solvency of the resource exchange\<close>

text \<open>
  Every action of \<open>rex.cpp\<close> keeps the invariant of the books and promises no more tokens than it receives.  The
  actions run in any order by any users; the other contracts join in with the fees they channel to REX and with the
  proceeds of the name auction.
\<close>

subsection \<open>Settling an account\<close>

definition open_request :: "sys \<Rightarrow> name \<Rightarrow> int" where
  "open_request s x = fmval (\<lambda>ord. if o_is_open ord then amount (o_rex_requested ord) else 0) (fmlookup (rexorders s) x)"

definition settled_orders :: "name \<Rightarrow> sys \<Rightarrow> (name, rex_order) fmap" where
  "settled_orders x s = (if fmval (\<lambda>ord. if o_is_open ord then 0 else 1 :: int) (fmlookup (rexorders s) x) = 1
     then fmdrop x (rexorders s) else rexorders s)"

lemma settle_moves:
  assumes inv: "rex_inv y now X s" and p: "money_ok y p0" and le: "rex_owed s + amount p0 \<le> max_owed" and z: "amount zero = 0"
    and r: "settle_order x p0 d zero s = (fu, st, a, s1)"
  shows "rex_inv y now X s1" "rex_owed s1 + amount fu = rex_owed s + amount p0" "money_ok y fu" "amount a = open_request s x"
    "rex_flow y s1 = rex_flow y s" "s1 = s\<lparr>rexorders := settled_orders x s\<rparr>"
proof -
  have "rex_inv y now X s1 \<and> rex_owed s1 + amount fu = rex_owed s + amount p0 \<and> money_ok y fu \<and> amount a = open_request s x \<and>
    rex_flow y s1 = rex_flow y s \<and> s1 = s\<lparr>rexorders := settled_orders x s\<rparr>"
  proof (cases "\<exists>ord. fmlookup (rexorders s) x = Some ord \<and> \<not> o_is_open ord")
    case False
    then have "s1 = s" "fu = p0" "amount a = open_request s x" "settled_orders x s = rexorders s"
      using r z by (auto simp: settle_order_def open_request_def settled_orders_def split: option.splits)
    then show ?thesis using inv p by simp
  next
    case True
    then obtain ord where ord: "fmlookup (rexorders s) x = Some ord" "\<not> o_is_open ord" by auto
    then have eqs: "fu = add_amt p0 (amount (o_proceeds ord))" "a = zero" "s1 = s\<lparr>rexorders := fmdrop x (rexorders s)\<rparr>"
      "settled_orders x s = fmdrop x (rexorders s)" "open_request s x = 0"
      using r by (auto simp: settle_order_def settled_orders_def open_request_def)
    have due: "order_due ord = amount (o_proceeds ord)" using ord by (simp add: order_due_def)
    have ob: "0 \<le> amount (o_proceeds ord)" "amount (o_proceeds ord) \<le> rex_owed s"
      using order_le [OF _ ord(1), of y X] inv owed_parts(8) [OF inv] due by (auto simp: rex_inv_def)
    have i: "i64 (amount p0 + amount (o_proceeds ord)) = amount p0 + amount (o_proceeds ord)"
      using ob le p by (simp add: width_simps money_ok_def max_owed_def)
    have w: "rex_inv y now (insert x X) s" by (rule rex_inv_weaken [OF inv]) auto
    have m: "fmdrop x (rexorders s) = fmdrop x (rexorders s) \<and> (0::int) = 0 \<or>
        fmdrop x (rexorders s) = fmupd x ord (rexorders s) \<and> order_ok y (fmlookup (rexbalance s) x) ord \<and> 0 = order_due ord" by simp
    note o = order_update [OF w m]
    show ?thesis using o p ob ord(1) due z by (simp add: eqs i money_ok_def)
  qed
  then show "rex_inv y now X s1" "rex_owed s1 + amount fu = rex_owed s + amount p0" "money_ok y fu" "amount a = open_request s x"
    "rex_flow y s1 = rex_flow y s" "s1 = s\<lparr>rexorders := settled_orders x s\<rparr>" by blast+
qed

lemma account_moves:
  assumes E: "chain_laws E" and inv: "rex_inv y now X s" and p: "money_ok y p0" and le: "rex_owed s + amount p0 \<le> max_owed"
    and r: "update_rex_account E x p0 d f s = Inr (s', a)"
  shows "rex_inv y now X s'" "rex_owed s' = rex_owed s + amount p0" "rex_flow y s' = rex_flow y s" "amount a = open_request s x"
    "rexbalance s' = rexbalance s" "rexorders s' = settled_orders x s" "rexpool s' = rexpool s" "core_symbol s' = core_symbol s"
    "\<And>cpu. loans cpu s' = loans cpu s"
proof -
  obtain zero fu st s1 s2 where 1: "asset_new E 0 rex_symbol = Inr zero" "settle_order x p0 d zero s = (fu, st, a, s1)"
    "(if 0 < amount fu then transfer_to_fund x fu s1 else Inr s1) = Inr s2"
    "(if f \<or> amount st \<noteq> 0 then update_voting_power E x st s2 else Inr s2) = Inr s'"
    by (rule update_rex_account_steps [OF r])
  have z: "amount zero = 0" using chain_laws.new_exact [OF E 1(1)] by simp
  note s = settle_moves [OF inv p le z 1(2)]
  have "rex_inv y now X s2 \<and> rex_owed s2 = rex_owed s + amount p0 \<and> rex_flow y s2 = rex_flow y s \<and> s2 = s1\<lparr>rexfunds := rexfunds s2\<rparr>"
  proof (cases "0 < amount fu")
    case True
    then have t: "transfer_to_fund x fu s1 = Inr s2" using 1(3) by simp
    have "rex_owed s1 + amount fu \<le> 2 ^ 63 - 1" using s(2) le by (simp add: max_owed_def)
    note f = to_fund_moves [OF s(1) this t]
    show ?thesis using f s by simp
  next
    case False
    then show ?thesis using 1(3) s by (simp add: money_ok_def)
  qed
  moreover have v: "rex_view y s' = rex_view y s2" using 1(4) voting_view by (auto split: if_splits)
  ultimately have m: "rex_inv y now X s'" "rex_owed s' = rex_owed s + amount p0" "rex_flow y s' = rex_flow y s"
    and s2: "s2 = s1\<lparr>rexfunds := rexfunds s2\<rparr>" using rex_view_keeps [OF v] by auto
  show "rex_inv y now X s'" "rex_owed s' = rex_owed s + amount p0" "rex_flow y s' = rex_flow y s" by (rule m)+
  show "amount a = open_request s x" by (rule s(4))
  have shape: "s2 = s\<lparr>rexorders := settled_orders x s, rexfunds := rexfunds s2\<rparr>" using s2 [unfolded s(6)] by simp
  have "rexbalance s2 = rexbalance s \<and> rexorders s2 = settled_orders x s \<and> rexpool s2 = rexpool s \<and> core_symbol s2 = core_symbol s \<and>
      loans cpu s2 = loans cpu s" for cpu
    using arg_cong [OF shape, of rexbalance] arg_cong [OF shape, of rexorders] arg_cong [OF shape, of rexpool]
      arg_cong [OF shape, of rammarket] arg_cong [OF shape, of cpuloans] arg_cong [OF shape, of netloans]
    by (simp add: core_symbol_def loans_def)
  then show "rexbalance s' = rexbalance s" "rexorders s' = settled_orders x s" "rexpool s' = rexpool s" "core_symbol s' = core_symbol s"
    "\<And>cpu. loans cpu s' = loans cpu s"
    using rex_view_keeps [OF v] by simp_all
qed

subsection \<open>Rows of the balances\<close>

text \<open>A row keeps its shares and what an open order asks for.\<close>

lemma order_again:
  assumes inv: "rex_inv y now (insert x X) s"
    and ord: "0 < open_request s x \<Longrightarrow> \<exists>rb. fmlookup (rexbalance s) x = Some rb \<and> open_request s x \<le> matured_rex rb"
    and old: "\<And>o0. fmlookup (rexorders s) x = Some o0 \<Longrightarrow> o_is_open o0 \<Longrightarrow> 0 < open_request s x \<and> sym (o_proceeds o0) = y"
  shows "rex_inv y now X s"
proof -
  have "order_ok y (fmlookup (rexbalance s) x) o0" if o0: "fmlookup (rexorders s) x = Some o0" for o0
  proof (cases "o_is_open o0")
    case True
    have r: "open_request s x = amount (o_rex_requested o0)" using o0 True by (simp add: open_request_def)
    obtain rb where "fmlookup (rexbalance s) x = Some rb" "open_request s x \<le> matured_rex rb" using ord old [OF o0 True] by blast
    then show ?thesis using r old [OF o0 True] True by (simp add: order_ok_def)
  next
    case False
    then have "money_ok y (o_proceeds o0)" using inv o0 by (auto simp: rex_inv_def sell_orders_ok_def)
    then show ?thesis using False by (simp add: order_ok_def money_ok_def)
  qed
  moreover have "sell_orders_ok y (insert x X) s" using inv by (simp add: rex_inv_def)
  ultimately have "sell_orders_ok y X s" unfolding sell_orders_ok_def by (metis insertE)
  then show ?thesis using inv by (simp add: rex_inv_def)
qed

lemma open_order:
  assumes "sell_orders_ok y X s" "x \<notin> X" "fmlookup (rexorders s) x = Some o0" "o_is_open o0"
  shows "0 < open_request s x" "sym (o_proceeds o0) = y" "\<exists>rb. fmlookup (rexbalance s) x = Some rb \<and> open_request s x \<le> matured_rex rb"
proof -
  have "order_ok y (fmlookup (rexbalance s) x) o0" by (rule order_row [OF assms(1-3)])
  then show "0 < open_request s x" "sym (o_proceeds o0) = y" "\<exists>rb. fmlookup (rexbalance s) x = Some rb \<and> open_request s x \<le> matured_rex rb"
    using assms(3,4) by (auto simp: order_ok_def open_request_def split: option.splits)
qed

lemma open_request_le:
  assumes inv: "rex_inv y now {} s" and rb: "fmlookup (rexbalance s) x = Some rb"
  shows "0 \<le> open_request s x" "open_request s x \<le> matured_rex rb"
proof -
  have o: "sell_orders_ok y {} s" and sh: "shares_ok s" using inv by (simp_all add: rex_inv_def)
  have m: "0 \<le> matured_rex rb" using rb_ok_bounds(1) [OF share_le(1) [OF sh rb]] .
  have "0 \<le> open_request s x \<and> open_request s x \<le> matured_rex rb"
  proof (cases "\<exists>o0. fmlookup (rexorders s) x = Some o0 \<and> o_is_open o0")
    case True
    then obtain o0 where o0: "fmlookup (rexorders s) x = Some o0" "o_is_open o0" by blast
    show ?thesis using open_order [OF o _ o0] rb by auto
  next
    case False
    then have "open_request s x = 0" by (auto simp: open_request_def fmval_def split: option.splits)
    then show ?thesis using m by simp
  qed
  then show "0 \<le> open_request s x" "open_request s x \<le> matured_rex rb" by auto
qed

definition put_row :: "name \<Rightarrow> rex_balance \<Rightarrow> sys \<Rightarrow> sys" where
  "put_row x rb s = s\<lparr>rexbalance := fmupd x rb (rexbalance s)\<rparr>"

lemma row_moves:
  assumes inv: "rex_inv y now {} s" and rb: "fmlookup (rexbalance s) x = Some rb"
    and rb': "rb_ok rb'" "amount (rex_bal rb') = amount (rex_bal rb)" "open_request s x \<le> matured_rex rb'"
  shows "moves y now {} 0 s (put_row x rb' s)"
proof -
  have pool: "rexpool_ok y s" "all_shares s \<le> max_amount" using inv by (simp_all add: rex_inv_def shares_ok_def)
  define s' where "s' = s\<lparr>rexpool := rexpool s, rexbalance := fmupd x rb' (rexbalance s)\<rparr>"
  have same: "rexpool_ok y s' = rexpool_ok y s" "all_shares s' = all_shares s" "lendable s' = lendable s" "open_request s' x = open_request s x"
    "fmlookup (rexbalance s') x = Some rb'" "rexorders s' = rexorders s"
    by (simp_all add: s'_def rexpool_ok_def all_shares_def lendable_def open_request_def)
  have u: "rex_inv y now {x} s'" "rex_owed s' = rex_owed s" "rex_flow y s' = rex_flow y s" "fee_base s' = fee_base s"
    using share_update [OF inv rb'(1), of x "rexpool s", folded s'_def] pool same rb rb'(2) by simp_all
  have o: "sell_orders_ok y {} s" using inv by (simp add: rex_inv_def)
  have "rex_inv y now {} s'"
  proof (rule order_again [OF u(1)])
    show "\<exists>rb. fmlookup (rexbalance s') x = Some rb \<and> open_request s' x \<le> matured_rex rb" using same rb'(3) by simp
    show "0 < open_request s' x \<and> sym (o_proceeds o0) = y" if "fmlookup (rexorders s') x = Some o0" "o_is_open o0" for o0
      using open_order(1,2) [OF o] that same by simp
  qed
  moreover have "put_row x rb' s = s'" by (simp add: put_row_def s'_def)
  ultimately show ?thesis using u by (simp add: moves_def)
qed

text \<open>The operations on a row that keep its shares.\<close>

lemma processed_row:
  assumes "rb_ok rb"
  shows "rb_ok (process_rex_maturities E rb)" "amount (rex_bal (process_rex_maturities E rb)) = amount (rex_bal rb)"
    "matured_rex rb \<le> matured_rex (process_rex_maturities E rb)"
  using process_wf [of rb E] assms by (simp_all add: rb_ok_def)

lemma process_moves:
  assumes inv: "rex_inv y now {} s" and rb: "fmlookup (rexbalance s) x = Some rb"
  shows "moves y now {} 0 s (put_row x (process_rex_maturities E rb) s)"
proof -
  have "rb_ok rb" using share_le(1) [OF _ rb] inv by (simp add: rex_inv_def)
  note p = processed_row [OF this, of E]
  show ?thesis using open_request_le(2) [OF inv rb] p by (intro row_moves [OF inv rb]) auto
qed

lemma vote_stake_moves:
  assumes inv: "rex_inv y now {} s" and rb: "fmlookup (rexbalance s) x = Some rb"
  shows "moves y now {} 0 s (put_row x (rb\<lparr>vote_stake := v\<rparr>) s)"
proof -
  have "rb_ok rb" using share_le(1) [OF _ rb] inv by (simp add: rex_inv_def)
  then have "rb_ok (rb\<lparr>vote_stake := v\<rparr>)" by (simp add: rb_ok_def rb_wf_def rex_total_def)
  then show ?thesis using open_request_le(2) [OF inv rb] by (intro row_moves [OF inv rb]) auto
qed

subsection \<open>Buying shares\<close>

text \<open>The shares after a purchase fit into the range of an asset.\<close>

definition share_room :: "int \<Rightarrow> sys \<Rightarrow> bool" where
  "share_room n s \<longleftrightarrow>
     (if all_shares s = 0 then n * rex_ratio \<le> max_amount
      else lendable s \<le> 0 \<or> (lendable s + n) * all_shares s div lendable s \<le> max_amount)"

definition new_row :: "env \<Rightarrow> int \<Rightarrow> rex_balance \<Rightarrow> rex_balance" where
  "new_row E n rb = (let (savings, rb2) = read_rex_savings rb
     in put_rex_savings savings (add_maturity E n (process_rex_maturities E rb2)))"

lemma new_row_ok:
  assumes wf: "rb_wf rb" and n: "0 \<le> n" "rex_total rb + n \<le> max_amount"
  shows "rb_wf (new_row E n rb)" "rex_total (new_row E n rb) = rex_total rb + n" "rex_bal (new_row E n rb) = rex_bal rb"
    "matured_rex rb \<le> matured_rex (new_row E n rb)"
proof -
  obtain sv rb2 where r: "read_rex_savings rb = (sv, rb2)" by force
  note rd = read_wf [OF wf r]
  note pr = process_wf [OF rd(1), of E]
  have le: "rex_total (process_rex_maturities E rb2) + n \<le> max_amount" using pr(2) rd(2,3) n by simp
  note am = add_maturity_wf [OF pr(1) n(1) le, of E]
  have le2: "rex_total (add_maturity E n (process_rex_maturities E rb2)) + sv \<le> max_amount" using am(2) pr(2) rd(2) n by simp
  note pu = put_wf [OF am(1) rd(3) le2]
  have eq: "new_row E n rb = put_rex_savings sv (add_maturity E n (process_rex_maturities E rb2))" by (simp add: new_row_def r)
  show "rb_wf (new_row E n rb)" "rex_total (new_row E n rb) = rex_total rb + n" "rex_bal (new_row E n rb) = rex_bal rb"
    "matured_rex rb \<le> matured_rex (new_row E n rb)"
    unfolding eq using pu am pr rd by simp_all
qed

lemma buy_ratio:
  fixes n S0 R0 :: int
  assumes "0 < n" "0 < S0" "0 < R0" "S0 + n \<le> max_amount" "R0 \<le> max_amount" "(S0 + n) * R0 div S0 \<le> max_amount"
  shows "muldiv (S0 + n) R0 S0 = Inr ((S0 + n) * R0 div S0)" "R0 \<le> (S0 + n) * R0 div S0"
proof -
  show "muldiv (S0 + n) R0 S0 = Inr ((S0 + n) * R0 div S0)"
    using assms by (intro muldiv_exact) (simp_all add: max_amount_def)
  have "S0 * R0 \<le> (S0 + n) * R0" using assms by (intro mult_right_mono) auto
  then have "S0 * R0 div S0 \<le> (S0 + n) * R0 div S0" using assms(2) by (intro zdiv_mono1)
  then show "R0 \<le> (S0 + n) * R0 div S0" using assms(2) by simp
qed

text \<open>What a purchase has to make of the pool.\<close>

definition pool_bought :: "symbol \<Rightarrow> int \<Rightarrow> int \<Rightarrow> sys \<Rightarrow> rex_pool \<Rightarrow> bool" where
  "pool_bought y n r s p \<longleftrightarrow> pool_ok p \<and> sym (namebid_proceeds p) = y \<and> amount (total_rex p) = all_shares s + r \<and> 0 \<le> r \<and>
     amount (total_rex p) \<le> max_amount \<and> amount (total_lendable p) \<le> lendable s + n \<and> max 0 (amount (namebid_proceeds p)) \<le> bids_due s"

lemma buy_pool:
  assumes E: "chain_laws E" and inv: "rex_inv y now {} s" and a: "money_ok y payment" "0 < amount payment"
    and small: "rex_owed s + amount payment \<le> max_owed" and room: "share_room (amount payment) s"
    and r: "add_to_rex_pool E payment s = Inr (s1, rr)"
  shows "\<exists>p'. s1 = s\<lparr>rexpool := Some p'\<rparr>" "rexpool_ok y s1" "all_shares s1 = all_shares s + amount rr" "0 \<le> amount rr" "all_shares s1 \<le> max_amount"
    "lendable s1 \<le> lendable s + amount payment" "bids_due s1 \<le> bids_due s"
proof -
  let ?n = "amount payment"
  have sh: "shares_ok s" and c: "core_symbol s = Inr y" and po: "rexpool_ok y s" using inv by (simp_all add: rex_inv_def)
  have R: "0 \<le> all_shares s" "all_shares s \<le> max_amount" using all_shares_nonneg [OF sh] sh by (simp_all add: shares_ok_def)
  have L: "0 \<le> lendable s" "lendable s + ?n \<le> max_owed" using owed_parts(4,9) [OF inv] small by auto
  obtain rent rex0 where ini: "asset_new E 200000000 y = Inr rent" "asset_new E 0 rex_symbol = Inr rex0"
    using r unfolding add_to_rex_pool_def c sum.case by (simp only: result_simps) blast
  have fresh: "i64 (?n * rex_ratio) = ?n * rex_ratio" "0 \<le> ?n * rex_ratio" "?n * rex_ratio \<le> max_amount" if "all_shares s = 0"
    using room that a(2) by (simp_all add: share_room_def width_simps max_amount_def rex_ratio_def)
  have n63: "i64 ?n = ?n" "?n \<le> max_amount" using L a(2) by (simp_all add: width_simps max_owed_def max_amount_def)
  have "\<exists>p'. s1 = s\<lparr>rexpool := Some p'\<rparr> \<and> pool_bought y ?n (amount rr) s p'"
  proof (cases "rexpool s")
    case None
    then have z0: "all_shares s = 0" by (simp add: all_shares_def)
    obtain zero unlent where z: "asset_new E 0 y = Inr zero" "asset_sub E payment zero = Inr unlent"
      and eq: "s1 = s\<lparr>rexpool := Some \<lparr>total_lent = zero, total_unlent = unlent, total_rent = rent, total_lendable = payment,
         total_rex = set_amt rex0 (i64 (?n * rex_ratio)), namebid_proceeds = zero, loan_num = 0\<rparr>\<rparr>" "rr = set_amt rex0 (i64 (?n * rex_ratio))"
      using r unfolding add_to_rex_pool_def c sum.case ini None option.case Let_def by (simp only: result_simps prod.inject sum.inject) blast
    have zf: "amount zero = 0" "sym zero = y" "amount unlent = ?n"
      using chain_laws.new_exact [OF E z(1)] chain_laws.sub_amount [OF E z(2)] by simp_all
    have "pool_bought y ?n (amount rr) s \<lparr>total_lent = zero, total_unlent = unlent, total_rent = rent, total_lendable = payment,
         total_rex = set_amt rex0 (i64 (?n * rex_ratio)), namebid_proceeds = zero, loan_num = 0\<rparr>"
      using a(2) n63 fresh [OF z0] zf z0 L(1) bids_due_nonneg [of s] by (simp add: pool_bought_def eq(2) pool_ok_def)
    then show ?thesis using eq(1) by blast
  next
    case (Some p)
    have pk: "pool_ok p" "sym (namebid_proceeds p) = y" using pool_row [OF Some po] by auto
    have R0: "amount (total_rex p) = all_shares s" and S0: "amount (total_lendable p) = lendable s" using Some by (simp_all add: all_shares_def lendable_def)
    show ?thesis
    proof (cases "0 < all_shares s")
      case False
      then have z0: "all_shares s = 0" using R by simp
      have eq: "s1 = s\<lparr>rexpool := Some (p\<lparr>total_lendable := set_amt (total_lendable p) ?n, total_lent := set_amt (total_lent p) 0,
          total_unlent := set_amt (total_unlent p) (i64 (?n - 0)), total_rent := set_amt (total_rent p) (amount rent),
          total_rex := set_amt (total_rex p) (amount rr)\<rparr>)\<rparr>" "rr = set_amt rex0 (i64 (?n * rex_ratio))"
        using r False unfolding add_to_rex_pool_def c sum.case ini Some option.case Let_def R0 by auto
      have bd: "max 0 (amount (namebid_proceeds p)) \<le> bids_due s" by (simp add: bids_due_def Some)
      have "pool_bought y ?n (amount rr) s (p\<lparr>total_lendable := set_amt (total_lendable p) ?n, total_lent := set_amt (total_lent p) 0,
          total_unlent := set_amt (total_unlent p) (i64 (?n - 0)), total_rent := set_amt (total_rent p) (amount rent),
          total_rex := set_amt (total_rex p) (amount rr)\<rparr>)"
        using a(2) n63 fresh [OF z0] z0 pk(2) L(1) bd by (simp add: pool_bought_def eq(2) pool_ok_def)
      then show ?thesis using eq(1) by blast
    next
      case True
      have pos: "0 < lendable s"
        using r True unfolding add_to_rex_pool_def c sum.case ini Some option.case Let_def R0 S0 by (simp split: if_splits)
      have S1: "i64 (lendable s + ?n) = lendable s + ?n" using L a(2) by (simp add: width_simps max_owed_def)
      define R1 where "R1 = (lendable s + ?n) * all_shares s div lendable s"
      have Smax: "lendable s + ?n \<le> max_amount" using L by (simp add: max_owed_def max_amount_def)
      have R1m: "R1 \<le> max_amount" using room True pos by (simp add: share_room_def R1_def)
      note q = buy_ratio [OF a(2) pos True Smax R(2) R1m [unfolded R1_def], folded R1_def]
      have d: "i64 (R1 - all_shares s) = R1 - all_shares s" using q(2) R1m R by (simp add: width_simps max_amount_def)
      have eq: "s1 = s\<lparr>rexpool := Some (p\<lparr>total_lendable := set_amt (total_lendable p) (lendable s + ?n), total_rex := set_amt (total_rex p) R1,
           total_unlent := set_amt (total_unlent p) (i64 (lendable s + ?n - amount (total_lent p)))\<rparr>)\<rparr>" "rr = set_amt rex0 (R1 - all_shares s)"
        using r True pos unfolding add_to_rex_pool_def c sum.case ini Some option.case Let_def R0 S0 S1 q(1) d by (auto split: if_splits)
      have ok: "pool_ok (p\<lparr>total_lendable := set_amt (total_lendable p) (lendable s + ?n), total_rex := set_amt (total_rex p) R1,
           total_unlent := set_amt (total_unlent p) (i64 (lendable s + ?n - amount (total_lent p)))\<rparr>)"
        by (rule pool_ok_set [of _ "lendable s + ?n"]) (use pos a(2) Smax in simp_all)
      have bd: "max 0 (amount (namebid_proceeds p)) \<le> bids_due s" by (simp add: bids_due_def Some)
      have "pool_bought y ?n (amount rr) s (p\<lparr>total_lendable := set_amt (total_lendable p) (lendable s + ?n), total_rex := set_amt (total_rex p) R1,
           total_unlent := set_amt (total_unlent p) (i64 (lendable s + ?n - amount (total_lent p)))\<rparr>)"
        using ok pk(2) q(2) R1m bd by (simp add: pool_bought_def eq(2))
      then show ?thesis using eq(1) by blast
    qed
  qed
  then obtain p' where p': "s1 = s\<lparr>rexpool := Some p'\<rparr>" and b: "pool_bought y ?n (amount rr) s p'" by blast
  show "\<exists>p'. s1 = s\<lparr>rexpool := Some p'\<rparr>" using p' by blast
  show "rexpool_ok y s1" "all_shares s1 = all_shares s + amount rr" "0 \<le> amount rr" "all_shares s1 \<le> max_amount"
    "lendable s1 \<le> lendable s + ?n" "bids_due s1 \<le> bids_due s"
    using b unfolding pool_bought_def by (simp_all add: p' rexpool_ok_def all_shares_def lendable_def bids_due_def)
qed

text \<open>The row that the buyer gets.\<close>

definition bought_row :: "env \<Rightarrow> asset \<Rightarrow> asset \<Rightarrow> asset \<Rightarrow> rex_balance option \<Rightarrow> rex_balance" where
  "bought_row E payment rr v row = new_row E (amount rr)
     (case row of None \<Rightarrow> \<lparr>vote_stake = payment, rex_bal = rr, matured_rex = 0, rex_maturities = []\<rparr>
      | Some rb \<Rightarrow> rb\<lparr>rex_bal := add_amt (rex_bal rb) (amount rr), vote_stake := v\<rparr>)"

lemma balance_shape:
  assumes "add_to_rex_balance E x payment rr s = Inr (s', d)"
  obtains v where "s' = put_row x (bought_row E payment rr v (fmlookup (rexbalance s) x)) s"
proof (cases "fmlookup (rexbalance s) x")
  case None
  then show ?thesis using assms
    by (intro that [of payment]) (auto simp: add_to_rex_balance_def result_simps Let_def case_prod_unfold put_row_def bought_row_def new_row_def)
next
  case (Some rb)
  then obtain v where "s' = put_row x (bought_row E payment rr (set_amt (vote_stake rb) v) (Some rb)) s"
    using assms
    by (auto simp: add_to_rex_balance_def result_simps Let_def case_prod_unfold put_row_def bought_row_def new_row_def)
  then show ?thesis using Some by (intro that) simp
qed

lemma bought_row_ok:
  fixes x :: name
  assumes sh: "shares_ok s" and rr: "0 \<le> amount rr" "all_shares s + amount rr \<le> max_amount"
  defines "row \<equiv> fmlookup (rexbalance s) x"
  shows "rb_ok (bought_row E payment rr v row)"
    "amount (rex_bal (bought_row E payment rr v row)) = fmval (\<lambda>rb. amount (rex_bal rb)) row + amount rr"
    "\<forall>rb. row = Some rb \<longrightarrow> matured_rex rb \<le> matured_rex (bought_row E payment rr v row)"
proof -
  have "rb_ok (bought_row E payment rr v row) \<and>
    amount (rex_bal (bought_row E payment rr v row)) = fmval (\<lambda>rb. amount (rex_bal rb)) row + amount rr \<and>
    (\<forall>rb. row = Some rb \<longrightarrow> matured_rex rb \<le> matured_rex (bought_row E payment rr v row))"
  proof (cases row)
    case None
    define rb where "rb = \<lparr>vote_stake = payment, rex_bal = rr, matured_rex = 0, rex_maturities = []\<rparr>"
    have t: "rex_total rb = 0" "rb_wf rb" by (simp_all add: rb_def rex_total_def rb_wf_def max_amount_def)
    have le: "rex_total rb + amount rr \<le> max_amount" using rr all_shares_nonneg [OF sh] t by simp
    note n = new_row_ok [OF t(2) rr(1) le, of E]
    show ?thesis using n t None by (simp add: bought_row_def rb_def rb_ok_def)
  next
    case (Some rb0)
    then have rb0: "rb_ok rb0" "amount (rex_bal rb0) \<le> all_shares s" using share_le [OF sh] unfolding row_def by blast+
    define rb where "rb = rb0\<lparr>rex_bal := add_amt (rex_bal rb0) (amount rr), vote_stake := v\<rparr>"
    have t: "rex_total rb = amount (rex_bal rb0)" "rb_wf rb" "matured_rex rb = matured_rex rb0"
      using rb0(1) by (simp_all add: rb_def rb_ok_def rex_total_def rb_wf_def)
    have b0: "0 \<le> amount (rex_bal rb0)" using rb_ok_bounds [OF rb0(1)] by simp
    have le: "rex_total rb + amount rr \<le> max_amount" using rr rb0 t by simp
    have i: "i64 (amount (rex_bal rb0) + amount rr) = amount (rex_bal rb0) + amount rr"
      using b0 rr rb0(2) by (simp add: width_simps max_amount_def)
    note n = new_row_ok [OF t(2) rr(1) le, of E]
    have "amount (rex_bal (new_row E (amount rr) rb)) = amount (rex_bal rb0) + amount rr" using n(3) i by (simp add: rb_def)
    then show ?thesis using n t i Some by (simp add: bought_row_def rb_def rb_ok_def)
  qed
  then show "rb_ok (bought_row E payment rr v row)"
    "amount (rex_bal (bought_row E payment rr v row)) = fmval (\<lambda>rb. amount (rex_bal rb)) row + amount rr"
    "\<forall>rb. row = Some rb \<longrightarrow> matured_rex rb \<le> matured_rex (bought_row E payment rr v row)" by blast+
qed

lemma buy_moves:
  assumes E: "chain_laws E" and inv: "rex_inv y now {} s" and a: "money_ok y payment" "0 < amount payment"
    and small: "rex_owed s + amount payment \<le> max_owed" and room: "share_room (amount payment) s"
    and r: "add_to_rex_pool E payment s = Inr (s1, rr)" "add_to_rex_balance E x payment rr s1 = Inr (s2, d)"
  shows "rex_inv y now {} s2" "rex_owed s2 \<le> rex_owed s + amount payment" "rex_flow y s2 = rex_flow y s" "fee_base s2 = fee_base s"
    "bids_due s2 \<le> bids_due s"
proof -
  note b = buy_pool [OF E inv a small room r(1)]
  obtain p' where p': "s1 = s\<lparr>rexpool := Some p'\<rparr>" using b(1) by blast
  obtain v where v: "s2 = put_row x (bought_row E payment rr v (fmlookup (rexbalance s1) x)) s1" by (rule balance_shape [OF r(2)])
  have row: "fmlookup (rexbalance s1) x = fmlookup (rexbalance s) x" by (simp add: p')
  define rb' where "rb' = bought_row E payment rr v (fmlookup (rexbalance s) x)"
  have sh: "shares_ok s" and o: "sell_orders_ok y {} s" using inv by (simp_all add: rex_inv_def)
  have "all_shares s + amount rr \<le> max_amount" using b(3,5) by simp
  note rb' = bought_row_ok [OF sh b(4) this, where x = x and E = E and payment = payment and v = v, folded rb'_def]
  have s2: "s2 = s\<lparr>rexpool := Some p', rexbalance := fmupd x rb' (rexbalance s)\<rparr>" by (simp add: v row put_row_def p' rb'_def)
  have same: "rexpool_ok y s2 = rexpool_ok y s1" "all_shares s2 = all_shares s1" "lendable s2 = lendable s1" "bids_due s2 = bids_due s1"
    "open_request s2 x = open_request s x" "rexorders s2 = rexorders s"
    by (simp_all add: s2 p' rexpool_ok_def all_shares_def lendable_def bids_due_def open_request_def)
  have u: "rex_inv y now {x} s2" "rex_owed s2 = rex_owed s + (lendable s2 - lendable s)" "rex_flow y s2 = rex_flow y s" "fee_base s2 = fee_base s"
    using share_update [OF inv rb'(1), of x "Some p'", folded s2] b(2,3,5) same rb'(2) by simp_all
  show "rex_inv y now {} s2"
  proof (rule order_again [OF u(1)])
    assume pos: "0 < open_request s2 x"
    then obtain o0 where "fmlookup (rexorders s) x = Some o0" "o_is_open o0"
      using same(5) by (auto simp: open_request_def fmval_def split: option.splits if_splits)
    then obtain rb where "fmlookup (rexbalance s) x = Some rb" "open_request s x \<le> matured_rex rb" using open_order(3) [OF o] by blast
    then show "\<exists>rb. fmlookup (rexbalance s2) x = Some rb \<and> open_request s2 x \<le> matured_rex rb" using rb'(3) same(5) by (force simp: s2)
  next
    show "0 < open_request s2 x \<and> sym (o_proceeds o0) = y" if "fmlookup (rexorders s2) x = Some o0" "o_is_open o0" for o0
      using open_order(1,2) [OF o] that same by simp
  qed
  show "rex_owed s2 \<le> rex_owed s + amount payment" using u(2) b(6) same by simp
  show "rex_flow y s2 = rex_flow y s" "fee_base s2 = fee_base s" by (rule u)+
  show "bids_due s2 \<le> bids_due s" using b(7) same by simp
qed

subsection \<open>Actions\<close>

definition in_scale :: "int \<Rightarrow> sys \<Rightarrow> bool" where
  "in_scale n s \<longleftrightarrow> 0 \<le> n \<and> rex_owed s + bids_due s + n \<le> max_owed \<and> fee_base s + bids_due s + n \<le> fee_limit"

definition settles :: "symbol \<Rightarrow> int \<Rightarrow> sys \<Rightarrow> sys \<Rightarrow> bool" where
  "settles y now s s' \<longleftrightarrow> rex_inv y now {} s' \<and> rex_owed s' - rex_flow y s' \<le> rex_owed s - rex_flow y s"

lemma settles_trans: "settles y now s s1 \<Longrightarrow> settles y now s1 s2 \<Longrightarrow> settles y now s s2"
  by (simp add: settles_def)

lemma moves_settles: "moves y now {} n s s' \<Longrightarrow> settles y now s s'"
  by (simp add: moves_def settles_def)

lemma view_settles: "settles y now s s1 \<Longrightarrow> rex_view y s2 = rex_view y s1 \<Longrightarrow> settles y now s s2"
  using rex_view_keeps [of y s2 s1] by (simp add: settles_def)

lemma transfer_out_flow:
  assumes "x \<noteq> rex_account" "sym a = y"
  shows "rex_flow y (send_transfer rex_account x a memo s) = rex_flow y s - amount a"
    "rex_inv y now X (send_transfer rex_account x a memo s) = rex_inv y now X s"
    "rex_owed (send_transfer rex_account x a memo s) = rex_owed s"
proof -
  let ?s = "send_transfer rex_account x a memo s"
  show "rex_flow y ?s = rex_flow y s - amount a" using assms by (auto simp: rex_flow_def send_transfer_def flow_def)
  have "ret_ok now ?s = ret_ok now s" by (rule ret_ok_cong) (simp_all add: send_transfer_def)
  then show "rex_inv y now X ?s = rex_inv y now X s"
    by (simp add: rex_inv_def tables_ok_def sell_orders_ok_def shares_ok_def share_sum_def all_shares_def rexpool_ok_def core_symbol_def send_transfer_def)
  show "rex_owed ?s = rex_owed s"
    by (simp add: rex_owed_def fund_sum_def loan_sum_def order_sum_def lendable_def ret_proceeds_def send_transfer_def)
qed

text \<open>The run that opens most actions, in the scale of the caller.\<close>

lemma run_first:
  assumes E: "chain_laws E" and clock: "clock_ok E" and inv: "rex_inv y (current_sec E) {} s" and sc: "in_scale n s" and r: "runrex E k s = Inr s'"
  shows "rex_inv y (current_sec E) {} s'" "settles y (current_sec E) s s'" "rex_owed s' + n \<le> max_owed" "fee_base s' + n \<le> fee_limit"
    "core_symbol s' = Inr y"
proof -
  have lim: "rex_owed s + bids_due s \<le> max_owed" "fee_base s + bids_due s \<le> fee_limit" using sc by (simp_all add: in_scale_def)
  obtain b where b: "0 \<le> b" "b \<le> bids_due s" "moves y (current_sec E) {} b s s'" by (rule runrex_moves [OF E clock inv lim r])
  show "settles y (current_sec E) s s'" by (rule moves_settles [OF b(3)])
  show "rex_inv y (current_sec E) {} s'" "rex_owed s' + n \<le> max_owed" "fee_base s' + n \<le> fee_limit" "core_symbol s' = Inr y"
    using b sc by (auto simp: moves_def in_scale_def rex_inv_def)
qed

lemma core_zero_money: "chain_laws E \<Longrightarrow> core_symbol s = Inr y \<Longrightarrow> core_zero E s = Inr z \<Longrightarrow> money_ok y z \<and> amount z = 0"
  using chain_laws.new_exact [of E 0 y z] by (simp add: core_zero_def money_ok_def)

text \<open>Settling without proceeds.\<close>

lemma account_settles:
  assumes E: "chain_laws E" and inv: "rex_inv y now {} s" and le: "rex_owed s \<le> max_owed" and z: "core_zero E s = Inr z"
    and r: "update_rex_account E x z d f s = Inr (s', a)"
  shows "settles y now s s'" "rex_inv y now {} s'" "rex_owed s' = rex_owed s" "rexbalance s' = rexbalance s" "amount a = open_request s' x"
    "core_symbol s' = Inr y"
proof -
  have c: "core_symbol s = Inr y" using inv by (simp add: rex_inv_def)
  have zm: "money_ok y z" "amount z = 0" using core_zero_money [OF E c z] by auto
  have le': "rex_owed s + amount z \<le> max_owed" using le zm by simp
  note m = account_moves [OF E inv zm(1) le' r]
  show "settles y now s s'" "rex_inv y now {} s'" "rex_owed s' = rex_owed s" using m(1-3) zm by (simp_all add: settles_def)
  show "rexbalance s' = rexbalance s" by (rule m)
  show "core_symbol s' = Inr y" using m(8) c by simp
  have "open_request s' x = open_request s x"
    unfolding open_request_def m(6) settled_orders_def by (auto simp: fmval_def split: option.splits)
  then show "amount a = open_request s' x" using m(4) by simp
qed

lemma deposit_settles:
  assumes inv: "rex_inv y now {} s" and sc: "in_scale (amount a) s" and x: "x \<noteq> rex_account" and r: "deposit E x a s = Inr s'"
  shows "settles y now s s'"
proof -
  have c: "core_symbol s = Inr y" using inv by (simp add: rex_inv_def)
  have a: "sym a = y" and t: "transfer_to_fund x a (send_transfer x rex_account a ''deposit to REX fund'' s) = Inr s'"
    using r c by (auto simp: deposit_def result_simps)
  note f = transfer_in_flow [OF x a, where memo = "''deposit to REX fund''" and s = s]
  have inv1: "rex_inv y now {} (send_transfer x rex_account a ''deposit to REX fund'' s)" using inv f(2) by simp
  have le: "rex_owed (send_transfer x rex_account a ''deposit to REX fund'' s) + amount a \<le> 2 ^ 63 - 1"
    using sc f(3) bids_due_nonneg [of s] by (simp add: in_scale_def max_owed_def)
  note m = to_fund_moves [OF inv1 le t]
  show ?thesis using m(1-3) f by (simp add: settles_def)
qed

lemma withdraw_settles:
  assumes E: "chain_laws E" and inv: "rex_inv y now {} s" and sc: "in_scale 0 s" and x: "x \<noteq> rex_account" and r: "withdraw E x a s = Inr s'"
  shows "settles y now s s'"
proof -
  obtain z s1 o1 s2 where z: "core_zero E s = Inr z" and u: "update_rex_account E x z z False s = Inr (s1, o1)"
    and t: "transfer_from_fund E x a s1 = Inr s2" and s': "s' = send_transfer rex_account x a ''withdraw from REX fund'' s2"
    using r by (auto simp: withdraw_def result_simps)
  have le: "rex_owed s \<le> max_owed" using sc bids_due_nonneg [of s] by (simp add: in_scale_def)
  note m = account_settles [OF E inv le z u]
  have le1: "rex_owed s1 \<le> max_owed" using m(3) le by simp
  note f = from_fund_moves [OF E m(2) le1 t]
  note o = transfer_out_flow [OF x f(5), where memo = "''withdraw from REX fund''" and s = s2]
  show ?thesis using m(1) f(1-3) o by (simp add: settles_def s')
qed

lemma share_room_cong: "rexpool s' = rexpool s \<Longrightarrow> share_room n s' = share_room n s"
  by (simp add: share_room_def all_shares_def lendable_def)

text \<open>What follows a purchase: the run, the settlement and the result.\<close>

lemma after_purchase:
  assumes E: "chain_laws E" and clock: "clock_ok E" and inv: "rex_inv y (current_sec E) {} s" and sc: "in_scale 0 s"
    and r: "runrex E k s = Inr s1" "core_zero E s1 = Inr z" "update_rex_account E x z d f s1 = Inr (s2, o2)"
    and s': "s' = emit (Inline_result nm as) s2"
  shows "settles y (current_sec E) s s'"
proof -
  note m = run_first [OF E clock inv sc r(1)]
  have le: "rex_owed s1 \<le> max_owed" using m(3) by simp
  note u = account_settles [OF E m(1) le r(2,3)]
  show ?thesis unfolding s' by (rule view_settles [OF settles_trans [OF m(2) u(1)]]) simp
qed

lemma buyrex_settles:
  assumes E: "chain_laws E" and clock: "clock_ok E" and inv: "rex_inv y (current_sec E) {} s" and sc: "in_scale 0 s"
    and room: "share_room (amount a) s" and r: "buyrex E x a s = Inr s'"
  shows "settles y (current_sec E) s s'"
proof -
  obtain s1 s2 rr s3 d s4 z s5 o5 where t: "transfer_from_fund E x a s = Inr s1" and b: "add_to_rex_pool E a s1 = Inr (s2, rr)"
    "add_to_rex_balance E x a rr s2 = Inr (s3, d)"
    and rest: "runrex E 2 s3 = Inr s4" "core_zero E s4 = Inr z" "update_rex_account E x z d False s4 = Inr (s5, o5)"
    and s': "s' = emit (Inline_result ''buyresult'' [rr]) s5"
    using r unfolding buyrex_def by (simp only: result_simps split_paired_Ex prod.case sum.inject not_not) blast
  have le: "rex_owed s \<le> max_owed" using sc bids_due_nonneg [of s] by (simp add: in_scale_def)
  note f = from_fund_moves [OF E inv le t]
  have p: "rexpool s1 = rexpool s" using arg_cong [OF f(7), of rexpool] by simp
  have am: "money_ok y a" using f(5,6) by (simp add: money_ok_def)
  have small: "rex_owed s1 + amount a \<le> max_owed" using f(2) le by simp
  have room1: "share_room (amount a) s1" using room share_room_cong [OF p] by simp
  note bm = buy_moves [OF E f(1) am f(6) small room1 b]
  have "bids_due s1 = bids_due s" by (simp add: bids_due_def p)
  then have sc3: "in_scale 0 s3" using bm f sc by (simp add: in_scale_def)
  have "settles y (current_sec E) s s3" using bm f(2,3) by (simp add: settles_def)
  then show ?thesis using after_purchase [OF E clock bm(1) sc3 rest s'] by (rule settles_trans)
qed

lemma undelegate_view: "undelegate_row x z n c s = Inr s' \<Longrightarrow> rex_view y s' = rex_view y s"
  by (auto simp: undelegate_row_def result_simps Let_def rex_view_def core_symbol_def rex_flow_def)

lemma unstaketorex_settles:
  assumes E: "chain_laws E" and clock: "clock_ok E" and inv: "rex_inv y (current_sec E) {} s" and sc: "in_scale (amount n + amount c) s"
    and room: "share_room (amount n + amount c) s" and r: "unstaketorex E x z n c s = Inr s'"
  shows "settles y (current_sec E) s s'"
proof -
  have cs: "core_symbol s = Inr y" using inv by (simp add: rex_inv_def)
  obtain s1 s2 pay s4 rr s5 d s6 ze d' s7 o7 where u: "undelegate_row x z n c s = Inr s1"
    "update_resource_limits E 0 z (i64 (- amount n)) (i64 (- amount c)) s1 = Inr s2"
    and pay: "asset_add E n c = Inr pay" and b: "add_to_rex_pool E pay (send_transfer stake_account rex_account pay ''buy REX with staked tokens'' s2) = Inr (s4, rr)"
    "add_to_rex_balance E x pay rr s4 = Inr (s5, d)"
    and rest: "runrex E 2 s5 = Inr s6" "core_zero E s6 = Inr ze" "update_rex_account E x ze d' True s6 = Inr (s7, o7)"
    and s': "s' = emit (Inline_result ''buyresult'' [rr]) s7"
    and a: "sym n = y" "0 \<le> amount n" "0 \<le> amount c" "0 < amount n \<or> 0 < amount c"
    using r unfolding unstaketorex_def cs sum.case by (simp only: result_simps split_paired_Ex prod.case sum.inject not_not) blast
  define s3 where "s3 = send_transfer stake_account rex_account pay ''buy REX with staked tokens'' s2"
  have pm: "amount pay = amount n + amount c" "sym pay = y" using chain_laws.add_exact [OF E pay] a by auto
  have v: "rex_view y s2 = rex_view y s" using undelegate_view [OF u(1)] limits_view [OF u(2)] by simp
  note k = rex_view_keeps [OF v]
  have ne: "stake_account \<noteq> rex_account" by (simp add: stake_account_def rex_account_def)
  note f = transfer_in_flow [OF ne pm(2), where memo = "''buy REX with staked tokens''" and s = s2, folded s3_def]
  have inv3: "rex_inv y (current_sec E) {} s3" using f(2) k(1) inv by simp
  have p3: "rexpool s3 = rexpool s" using k(8) by (simp add: s3_def send_transfer_def)
  have small: "rex_owed s3 + amount pay \<le> max_owed" using f(3) k(2) sc bids_due_nonneg [of s] pm(1) by (simp add: in_scale_def)
  have am: "money_ok y pay" "0 < amount pay" using a pm by (auto simp: money_ok_def)
  have room3: "share_room (amount pay) s3" using room share_room_cong [OF p3] pm(1) by simp
  note bm = buy_moves [OF E inv3 am small room3 b [folded s3_def]]
  have bd: "bids_due s3 = bids_due s" by (simp add: bids_due_def p3)
  have sc5: "in_scale 0 s5" using bm f(3,4) k(2,4) sc pm(1) bd am by (simp add: in_scale_def)
  have "settles y (current_sec E) s s5" using bm f k(2,3) by (simp add: settles_def)
  then show ?thesis using after_purchase [OF E clock bm(1) sc5 rest s'] by (rule settles_trans)
qed

text \<open>Selling.\<close>

definition queued_order :: "env \<Rightarrow> asset \<Rightarrow> asset \<Rightarrow> rex_order option \<Rightarrow> rex_order" where
  "queued_order E rex zero o0 = (case o0 of
     None \<Rightarrow> \<lparr>o_rex_requested = rex, o_proceeds = zero, o_stake_change = zero, o_time = current_time E, o_is_open = True\<rparr>
   | Some ord \<Rightarrow> ord\<lparr>o_rex_requested := add_amt (o_rex_requested ord) (amount rex)\<rparr>)"

lemma settled_open: "fmlookup (settled_orders x s) x = Some ord \<Longrightarrow> o_is_open ord"
  by (auto simp: settled_orders_def split: if_splits)

lemma order_again_settled:
  assumes inv: "rex_inv y now {x} s" and ok: "\<And>o0. fmlookup (rexorders s) x = Some o0 \<Longrightarrow> o_is_open o0 \<and> 0 < amount (o_rex_requested o0) \<and> sym (o_proceeds o0) = y"
    and rb: "fmlookup (rexbalance s) x = Some rb" "open_request s x \<le> matured_rex rb"
  shows "rex_inv y now {} s"
proof (rule order_again [OF inv])
  show "\<exists>rb. fmlookup (rexbalance s) x = Some rb \<and> open_request s x \<le> matured_rex rb" using rb by blast
  show "0 < open_request s x \<and> sym (o_proceeds o0) = y" if "fmlookup (rexorders s) x = Some o0" "o_is_open o0" for o0
    using ok [OF that(1)] that by (simp add: open_request_def)
qed

text \<open>The queue after a sale that could not be filled.\<close>

lemma queue_moves:
  assumes inv: "rex_inv y now {} s" and rb: "fmlookup (rexbalance s) x = Some rb" and rex: "0 < amount rex" "amount rex \<le> matured_rex rb"
    and z: "money_ok y zero" and op: "\<And>o0. fmlookup (rexorders s) x = Some o0 \<Longrightarrow> o_is_open o0"
    and le: "amount (o_rex_requested (queued_order E rex zero (fmlookup (rexorders s) x))) \<le> matured_rex rb"
  shows "settles y now s (s\<lparr>rexorders := fmupd x (queued_order E rex zero (fmlookup (rexorders s) x)) (rexorders s)\<rparr>)"
proof -
  define q where "q = queued_order E rex zero (fmlookup (rexorders s) x)"
  have sh: "shares_ok s" and o: "sell_orders_ok y {} s" using inv by (simp_all add: rex_inv_def)
  have m: "matured_rex rb \<le> max_amount" using rb_ok_bounds [OF share_le(1) [OF sh rb]] by simp
  have q: "o_is_open q" "0 < amount (o_rex_requested q)" "sym (o_proceeds q) = y" "order_due q = 0"
  proof -
    have "o_is_open q \<and> 0 < amount (o_rex_requested q) \<and> sym (o_proceeds q) = y \<and> order_due q = 0"
    proof (cases "fmlookup (rexorders s) x")
      case None
      then show ?thesis using rex z by (simp add: q_def queued_order_def money_ok_def order_due_def)
    next
      case (Some ord)
      note oo = open_order [OF o _ Some op [OF Some]]
      have rq: "open_request s x = amount (o_rex_requested ord)" using Some op [OF Some] by (simp add: open_request_def)
      have b: "0 < amount (o_rex_requested ord)" "amount (o_rex_requested ord) \<le> matured_rex rb" "sym (o_proceeds ord) = y"
        using oo rq rb by auto
      have "i64 (amount (o_rex_requested ord) + amount rex) = amount (o_rex_requested ord) + amount rex"
        using b rex m by (simp add: width_simps max_amount_def)
      then show ?thesis using Some b rex op [OF Some] by (simp add: q_def queued_order_def order_due_def)
    qed
    then show "o_is_open q" "0 < amount (o_rex_requested q)" "sym (o_proceeds q) = y" "order_due q = 0" by blast+
  qed
  have old: "fmval order_due (fmlookup (rexorders s) x) = 0"
    using op by (cases "fmlookup (rexorders s) x") (auto simp: order_due_def)
  have "order_ok y (fmlookup (rexbalance s) x) q" using q rb le by (simp add: order_ok_def q_def [symmetric])
  then have "fmupd x q (rexorders s) = fmdrop x (rexorders s) \<and> (0 :: int) = 0 \<or>
      fmupd x q (rexorders s) = fmupd x q (rexorders s) \<and> order_ok y (fmlookup (rexbalance s) x) q \<and> 0 = order_due q" using q by simp
  note u = order_update [OF rex_inv_weaken [OF inv subset_insertI] this]
  show ?thesis using u old by (simp add: settles_def q_def [symmetric])
qed

lemma sold_settles:
  assumes E: "chain_laws E" and inv: "rex_inv y now {} s" and le: "rex_owed s \<le> max_owed" and rb: "fmlookup (rexbalance s) x = Some rb"
    and rex: "0 < amount rex" "amount rex \<le> matured_rex rb" and f: "fill_rex_order E x rex s = Inr (s2, r)" and ok: "success r"
    and u: "update_rex_account E x (oc_proceeds r) d fc s2 = Inr (s3, pending)"
    and rb3: "fmlookup (rexbalance s3) x = Some rb3" "amount pending \<le> matured_rex rb3"
  shows "settles y now s s3"
proof -
  note fm = fill_moves [OF E inv rb rex f]
  obtain rb' where k: "rex_inv y now {x} s2" "rex_owed s2 = rex_owed s - amount (oc_proceeds r)" "rex_flow y s2 = rex_flow y s"
    "s2 = s\<lparr>rexpool := rexpool s2, rexbalance := fmupd x rb' (rexbalance s)\<rparr>" using fm(3) [OF ok] by blast
  have orders: "rexorders s2 = rexorders s" using arg_cong [OF k(4), of rexorders] by simp
  have le2: "rex_owed s2 + amount (oc_proceeds r) \<le> max_owed" using k(2) le by simp
  note m = account_moves [OF E k(1) fm(1) le2 u]
  have o: "sell_orders_ok y {} s" using inv by (simp add: rex_inv_def)
  have "rex_inv y now {} s3"
  proof (rule order_again_settled [OF m(1) _ rb3(1)])
    fix o0 assume o0: "fmlookup (rexorders s3) x = Some o0"
    then have "fmlookup (rexorders s) x = Some o0" "o_is_open o0"
      using settled_open [of x s2 o0] by (auto simp: m(6) settled_orders_def orders split: if_splits)
    then show "o_is_open o0 \<and> 0 < amount (o_rex_requested o0) \<and> sym (o_proceeds o0) = y"
      using open_order [OF o, of x o0] by (simp add: open_request_def)
  next
    have "open_request s3 x = open_request s2 x"
      unfolding open_request_def m(6) settled_orders_def by (auto simp: fmval_def split: option.splits)
    then show "open_request s3 x \<le> matured_rex rb3" using m(4) rb3(2) by simp
  qed
  then show ?thesis using m(2,3) k(2,3) by (simp add: settles_def)
qed

definition queue_sale :: "env \<Rightarrow> name \<Rightarrow> asset \<Rightarrow> bool \<Rightarrow> asset \<Rightarrow> sys \<Rightarrow> (sys \<times> int) result" where
  "queue_sale E from rex ok pending s3 =
     (if ok then Inr (s3, amount pending) else
      if from = b1_account then Inl (Check ''b1 sellrex orders should not be queued'') else
      (case fmlookup (rexorders s3) from of
        None \<Rightarrow>
          (case core_zero E s3 of Inl e \<Rightarrow> Inl e | Inr zero \<Rightarrow>
           Inr (s3\<lparr>rexorders := fmupd from
                  \<lparr>o_rex_requested = rex, o_proceeds = zero, o_stake_change = zero,
                   o_time = current_time E, o_is_open = True\<rparr> (rexorders s3)\<rparr>, amount rex))
      | Some ord \<Rightarrow>
          Inr (s3\<lparr>rexorders := fmupd from (ord\<lparr>o_rex_requested := add_amt (o_rex_requested ord) (amount rex)\<rparr>) (rexorders s3)\<rparr>,
            amount (add_amt (o_rex_requested ord) (amount rex)))))"

lemma queue_sale_result:
  assumes "queue_sale E x rex False pending s = Inr (s', n)" and E: "chain_laws E" and c: "core_symbol s = Inr y"
  obtains zero where "money_ok y zero" "s' = s\<lparr>rexorders := fmupd x (queued_order E rex zero (fmlookup (rexorders s) x)) (rexorders s)\<rparr>"
    "n = amount (o_rex_requested (queued_order E rex zero (fmlookup (rexorders s) x)))"
proof (cases "fmlookup (rexorders s) x")
  case None
  then obtain z where "core_zero E s = Inr z" "s' = s\<lparr>rexorders := fmupd x (queued_order E rex z None) (rexorders s)\<rparr>" "n = amount rex"
    using assms(1) by (auto simp: queue_sale_def result_simps queued_order_def)
  then show ?thesis using core_zero_money [OF E c] None by (intro that [of z]) (auto simp: queued_order_def)
next
  case (Some ord)
  have "money_ok y \<lparr>amount = 0, sym = y\<rparr>" by (simp add: money_ok_def)
  then show ?thesis using assms(1) Some by (intro that [of "\<lparr>amount = 0, sym = y\<rparr>"]) (auto simp: queue_sale_def result_simps queued_order_def Let_def)
qed

lemma sellrex_steps:
  assumes "sellrex E x rex s0 = Inr s'"
  obtains s rb s2 r s3 pending s4 n rb4 where "runrex E 2 s0 = Inr s" "fmlookup (rexbalance s) x = Some rb" "0 < amount rex"
    "amount rex \<le> matured_rex (process_rex_maturities E rb)"
    "fill_rex_order E x rex (put_row x (process_rex_maturities E rb) s) = Inr (s2, r)"
    "update_rex_account E x (oc_proceeds r) (oc_stake_change r) False s2 = Inr (s3, pending)"
    "queue_sale E x rex (success r) pending s3 = Inr (s4, n)" "fmlookup (rexbalance s4) x = Some rb4" "n \<le> matured_rex rb4"
    "s' = (if success r then emit (Inline_result ''sellresult'' [oc_proceeds r]) s4 else s4)"
  using assms unfolding sellrex_def Let_def queue_sale_def [symmetric] put_row_def [symmetric]
  by (simp only: result_simps split_paired_Ex prod.case sum.inject not_not) blast

lemma sellrex_settles:
  assumes E: "chain_laws E" and clock: "clock_ok E" and inv: "rex_inv y (current_sec E) {} s0" and sc: "in_scale 0 s0"
    and r: "sellrex E x rex s0 = Inr s'"
  shows "settles y (current_sec E) s0 s'"
proof -
  obtain s rb s2 r s3 pending s4 n rb4 where run: "runrex E 2 s0 = Inr s" and rb: "fmlookup (rexbalance s) x = Some rb" and rex: "0 < amount rex"
    "amount rex \<le> matured_rex (process_rex_maturities E rb)"
    and f: "fill_rex_order E x rex (put_row x (process_rex_maturities E rb) s) = Inr (s2, r)"
    and u: "update_rex_account E x (oc_proceeds r) (oc_stake_change r) False s2 = Inr (s3, pending)"
    and q: "queue_sale E x rex (success r) pending s3 = Inr (s4, n)" and rb4: "fmlookup (rexbalance s4) x = Some rb4" "n \<le> matured_rex rb4"
    and s': "s' = (if success r then emit (Inline_result ''sellresult'' [oc_proceeds r]) s4 else s4)"
    by (rule sellrex_steps [OF r])
  note m = run_first [OF E clock inv sc run]
  note p = process_moves [OF m(1) rb, of E]
  define s1 where "s1 = put_row x (process_rex_maturities E rb) s"
  have s1: "rex_inv y (current_sec E) {} s1" "settles y (current_sec E) s s1" "rex_owed s1 \<le> max_owed"
    using p m(3) moves_settles [OF p] by (auto simp: moves_def s1_def)
  have row: "fmlookup (rexbalance s1) x = Some (process_rex_maturities E rb)" by (simp add: s1_def put_row_def)
  have "settles y (current_sec E) s1 s4"
  proof (cases "success r")
    case True
    then have "s4 = s3" "n = amount pending" using q by (simp_all add: queue_sale_def)
    then show ?thesis using sold_settles [OF E s1(1,3) row rex f [folded s1_def] True u] rb4 by simp
  next
    case False
    note fm = fill_moves [OF E s1(1) row rex f [folded s1_def]]
    have s2: "s2 = s1" "amount (oc_proceeds r) = 0" using fm(2) [OF False] by auto
    have le: "rex_owed s1 + amount (oc_proceeds r) \<le> max_owed" using s1(3) s2(2) by simp
    note a = account_moves [OF E s1(1) fm(1) le u [unfolded s2]]
    have set3: "settles y (current_sec E) s1 s3" using a(1-3) s2(2) by (simp add: settles_def)
    have c: "core_symbol s3 = Inr y" using a(1) by (simp add: rex_inv_def)
    have sF: "success r = False" using False by simp
    obtain zero where z: "money_ok y zero" and s4: "s4 = s3\<lparr>rexorders := fmupd x (queued_order E rex zero (fmlookup (rexorders s3) x)) (rexorders s3)\<rparr>"
      and n: "n = amount (o_rex_requested (queued_order E rex zero (fmlookup (rexorders s3) x)))"
      by (rule queue_sale_result [OF q [unfolded sF] E c])
    have row3: "fmlookup (rexbalance s3) x = Some (process_rex_maturities E rb)" using a(5) row by simp
    have eq: "rb4 = process_rex_maturities E rb" using rb4(1) row3 by (simp add: s4)
    have op: "o_is_open o0" if "fmlookup (rexorders s3) x = Some o0" for o0 using settled_open that by (simp add: a(6))
    have "settles y (current_sec E) s3 s4"
      unfolding s4 by (rule queue_moves [OF a(1) row3 rex z op]) (use rb4(2) n eq in simp_all)
    then show ?thesis using set3 by (rule settles_trans [rotated])
  qed
  then have "settles y (current_sec E) s0 s4" using settles_trans [OF settles_trans [OF m(2) s1(2)]] by blast
  then show ?thesis unfolding s' by (auto intro: view_settles)
qed

lemma cnclrexorder_settles:
  assumes inv: "rex_inv y now {} s" and r: "cnclrexorder E x s = Inr s'"
  shows "settles y now s s'"
proof -
  obtain ord where ord: "fmlookup (rexorders s) x = Some ord" "o_is_open ord" and s': "s' = s\<lparr>rexorders := fmdrop x (rexorders s)\<rparr>"
    using r by (auto simp: cnclrexorder_def result_simps)
  have "fmdrop x (rexorders s) = fmdrop x (rexorders s) \<and> (0 :: int) = 0 \<or>
      fmdrop x (rexorders s) = fmupd x ord (rexorders s) \<and> order_ok y (fmlookup (rexbalance s) x) ord \<and> 0 = order_due ord" by simp
  note u = order_update [OF rex_inv_weaken [OF inv subset_insertI] this]
  show ?thesis using u ord by (simp add: settles_def s' order_due_def)
qed

text \<open>Renting.\<close>

lemma rent_steps:
  assumes "rent_rex E cpu x z payment fund s0 = Inr (s', n)"
  obtains s y tot s1 k s2 staked lk loan where "runrex E 2 s0 = Inr s" "core_symbol s = Inr y" "sym payment = y" "sym fund = y"
    "0 < amount payment" "0 \<le> amount fund" "asset_add E payment fund = Inr tot" "transfer_from_fund E x tot s = Inr s1"
    "add_loan_to_rex_pool E payment k True s1 = Inr s2" "fmlookup (loans cpu s2) lk = None"
    "s' = emit (Inline_result ''rentresult'' [staked]) (set_loans cpu (fmupd lk loan (loans cpu s2)) s2)"
    "loan_balance loan = fund" "loan_payment loan = payment"
proof -
  show ?thesis
    using assms unfolding rent_rex_def Let_def
    by (simp only: result_simps split_paired_Ex prod.case sum.inject prod.inject not_not) (elim exE conjE, rule that, (assumption | erule sym | simp)+)
qed

lemma rent_settles:
  assumes E: "chain_laws E" and clock: "clock_ok E" and inv: "rex_inv y (current_sec E) {} s0" and sc: "in_scale 0 s0"
    and r: "rent_rex E cpu x z payment fund s0 = Inr (s', n)"
  shows "settles y (current_sec E) s0 s'"
proof -
  obtain s y' tot s1 k s2 staked lk loan where run: "runrex E 2 s0 = Inr s" and c: "core_symbol s = Inr y'" and a: "sym payment = y'" "sym fund = y'"
    "0 < amount payment" "0 \<le> amount fund" and tot: "asset_add E payment fund = Inr tot" and t: "transfer_from_fund E x tot s = Inr s1"
    and l: "add_loan_to_rex_pool E payment k True s1 = Inr s2" "fmlookup (loans cpu s2) lk = None"
    and s': "s' = emit (Inline_result ''rentresult'' [staked]) (set_loans cpu (fmupd lk loan (loans cpu s2)) s2)"
    and lo: "loan_balance loan = fund" "loan_payment loan = payment"
    by (rule rent_steps [OF r])
  note m = run_first [OF E clock inv sc run]
  have y: "y' = y" using c m(5) by simp
  have le: "rex_owed s \<le> max_owed" using m(3) by simp
  have tt: "amount tot = amount payment + amount fund" using chain_laws.add_amount [OF E tot] .
  note f = from_fund_moves [OF E m(1) le t]
  have fee: "fee_of payment = amount payment" using a(3) by (simp add: fee_of_def)
  have lim: "ret_load s1 + fee_of payment \<le> fee_limit"
    using f(4) m(4) tt a(4) owed_parts(1,2) [OF f(1)] by (simp add: fee fee_base_def)
  note al = add_loan_moves [OF E clock f(1) lim l(1)]
  have "loan_ok y loan" using a lo y by (simp add: loan_ok_def money_ok_def)
  then have "fmupd lk loan (loans cpu s2) = fmdrop lk (loans cpu s2) \<and> amount fund = 0 \<or>
      fmupd lk loan (loans cpu s2) = fmupd lk loan (loans cpu s2) \<and> loan_ok y loan \<and> amount fund = amount (loan_balance loan)"
    using lo by simp
  note lu = loan_update [OF al(1) this]
  have "settles y (current_sec E) s (set_loans cpu (fmupd lk loan (loans cpu s2)) s2)"
    using lu(1,2,4) al(2,3) f(2,3) l(2) tt fee by (simp add: settles_def)
  then have "settles y (current_sec E) s0 (set_loans cpu (fmupd lk loan (loans cpu s2)) s2)" using m(2) by (rule settles_trans [rotated])
  then show ?thesis unfolding s' by (rule view_settles) simp
qed

lemma rentcpu_settles:
  assumes E: "chain_laws E" and clock: "clock_ok E" and inv: "rex_inv y (current_sec E) {} s0" and sc: "in_scale 0 s0"
    and r: "(\<exists>n. rent_rex E cpu x z payment fund s0 = Inr (s1, n)) \<and> update_resource_limits E x z a b s1 = Inr s'"
  shows "settles y (current_sec E) s0 s'"
  using r rent_settles [OF E clock inv sc] limits_view view_settles by blast

lemma fund_loan_settles:
  assumes E: "chain_laws E" and inv: "rex_inv y now {} s" and sc: "in_scale 0 s" and r: "fund_rex_loan E cpu x k payment s = Inr s'"
  shows "settles y now s s'"
proof -
  obtain s1 l l' where t: "transfer_from_fund E x payment s = Inr s1" and l: "fmlookup (loans cpu s1) k = Some l"
    and s': "s' = set_loans cpu (fmupd k l' (loans cpu s1)) s1"
    and l': "loan_balance l' = add_amt (loan_balance l) (amount payment)" "loan_payment l' = loan_payment l"
    using r by (auto simp: fund_rex_loan_def result_simps)
  have le: "rex_owed s \<le> max_owed" using sc bids_due_nonneg [of s] by (simp add: in_scale_def)
  note f = from_fund_moves [OF E inv le t]
  have tk: "tables_ok y s1" using f(1) by (simp add: rex_inv_def)
  have lb: "loan_ok y l" "0 \<le> amount (loan_balance l)" "amount (loan_balance l) \<le> rex_owed s1"
    using loan_row [OF tk l] loan_le [OF tk l] owed_parts(7) [OF f(1)] by (auto simp: loan_ok_def money_ok_def)
  have i: "i64 (amount (loan_balance l) + amount payment) = amount (loan_balance l) + amount payment"
    using lb f(2,6) le by (simp add: width_simps max_owed_def)
  have "loan_ok y l'" using lb f(6) by (simp add: loan_ok_def money_ok_def l' i)
  then have "fmupd k l' (loans cpu s1) = fmdrop k (loans cpu s1) \<and> amount (loan_balance l') = 0 \<or>
      fmupd k l' (loans cpu s1) = fmupd k l' (loans cpu s1) \<and> loan_ok y l' \<and> amount (loan_balance l') = amount (loan_balance l')" by simp
  note lu = loan_update [OF f(1) this]
  show ?thesis using lu(1,2,4) f(2,3) l i by (simp add: settles_def s' l'(1))
qed

lemma defund_loan_settles:
  assumes E: "chain_laws E" and inv: "rex_inv y now {} s" and sc: "in_scale 0 s" and r: "defund_rex_loan E cpu x k a s = Inr s'"
  shows "settles y now s s'"
proof -
  obtain l where l: "fmlookup (loans cpu s) k = Some l" and le: "asset_le E a (loan_balance l) = Inr True"
    and t: "transfer_to_fund x a (set_loans cpu (fmupd k (l\<lparr>loan_balance := add_amt (loan_balance l) (- amount a)\<rparr>) (loans cpu s)) s) = Inr s'"
    using r by (auto simp: defund_rex_loan_def result_simps)
  define l' where "l' = l\<lparr>loan_balance := add_amt (loan_balance l) (- amount a)\<rparr>"
  have l': "loan_balance l' = add_amt (loan_balance l) (- amount a)" "loan_payment l' = loan_payment l" by (simp_all add: l'_def)
  note t = t [folded l'_def]
  have pos: "0 < amount a" using t by (auto simp: transfer_to_fund_def result_simps)
  have al: "amount a \<le> amount (loan_balance l)" using chain_laws.le_exact [OF E le] by simp
  have tk: "tables_ok y s" using inv by (simp add: rex_inv_def)
  have small: "rex_owed s \<le> max_owed" using sc bids_due_nonneg [of s] by (simp add: in_scale_def)
  have lb: "loan_ok y l" "0 \<le> amount (loan_balance l)" "amount (loan_balance l) \<le> rex_owed s"
    using loan_row [OF tk l] loan_le [OF tk l] owed_parts(7) [OF inv] by (auto simp: loan_ok_def money_ok_def)
  have i: "i64 (amount (loan_balance l) - amount a) = amount (loan_balance l) - amount a"
    using lb pos al small by (simp add: width_simps max_owed_def)
  have "loan_ok y l'" using lb al by (simp add: loan_ok_def money_ok_def l' i)
  then have "fmupd k l' (loans cpu s) = fmdrop k (loans cpu s) \<and> amount (loan_balance l') = 0 \<or>
      fmupd k l' (loans cpu s) = fmupd k l' (loans cpu s) \<and> loan_ok y l' \<and> amount (loan_balance l') = amount (loan_balance l')" by simp
  note lu = loan_update [OF inv this]
  have o: "rex_owed (set_loans cpu (fmupd k l' (loans cpu s)) s) = rex_owed s - amount a" using lu(2) l i by (simp add: l'(1))
  have le1: "rex_owed (set_loans cpu (fmupd k l' (loans cpu s)) s) + amount a \<le> 2 ^ 63 - 1" using o small by (simp add: max_owed_def)
  note m = to_fund_moves [OF lu(1) le1 t]
  show ?thesis using m(1-3) o lu(4) by (simp add: settles_def)
qed

text \<open>Maintenance of an account.\<close>

lemma updaterex_settles:
  assumes E: "chain_laws E" and clock: "clock_ok E" and inv: "rex_inv y (current_sec E) {} s0" and sc: "in_scale 0 s0"
    and r: "updaterex E x s0 = Inr s'"
  shows "settles y (current_sec E) s0 s'"
proof -
  obtain s rb z v d s2 o2 rb2 where run: "runrex E 2 s0 = Inr s" and rb: "fmlookup (rexbalance s) x = Some rb" and z: "core_zero E s = Inr z"
    and u: "update_rex_account E x z d True (put_row x (rb\<lparr>vote_stake := v\<rparr>) s) = Inr (s2, o2)"
    and rb2: "fmlookup (rexbalance s2) x = Some rb2" and s': "s' = put_row x (process_rex_maturities E rb2) s2"
    using r unfolding updaterex_def Let_def put_row_def [symmetric]
    by (simp only: result_simps split_paired_Ex prod.case sum.inject not_not) blast
  note m = run_first [OF E clock inv sc run]
  define s1 where "s1 = put_row x (rb\<lparr>vote_stake := v\<rparr>) s"
  have v: "moves y (current_sec E) {} 0 s s1" unfolding s1_def by (rule vote_stake_moves [OF m(1) rb])
  have inv1: "rex_inv y (current_sec E) {} s1" "rex_owed s1 \<le> max_owed" using v m(3) by (auto simp: moves_def)
  have z1: "core_zero E s1 = Inr z" using z by (simp add: core_zero_def s1_def put_row_def core_symbol_def)
  note a = account_settles [OF E inv1 z1 u [folded s1_def]]
  have p: "moves y (current_sec E) {} 0 s2 s'" unfolding s' by (rule process_moves [OF a(2) rb2])
  show ?thesis using settles_trans [OF m(2) settles_trans [OF moves_settles [OF v] settles_trans [OF a(1) moves_settles [OF p]]]] .
qed

text \<open>The actions that begin with the run and settle the account without proceeds.\<close>

lemma run_and_settle:
  assumes E: "chain_laws E" and clock: "clock_ok E" and inv: "rex_inv y (current_sec E) {} s0" and sc: "in_scale 0 s0"
    and r: "runrex E 2 s0 = Inr s" "core_zero E s = Inr z" "update_rex_account E x z z False s = Inr (s1, a)"
  shows "settles y (current_sec E) s0 s1" "rex_inv y (current_sec E) {} s1" "amount a = open_request s1 x" "rexbalance s1 = rexbalance s"
proof -
  note m = run_first [OF E clock inv sc r(1)]
  have le: "rex_owed s \<le> max_owed" using m(3) by simp
  note u = account_settles [OF E m(1) le r(2,3)]
  show "settles y (current_sec E) s0 s1" using m(2) u(1) by (rule settles_trans)
  show "rex_inv y (current_sec E) {} s1" "amount a = open_request s1 x" "rexbalance s1 = rexbalance s" by (rule u)+
qed

lemma row_ok: "rex_inv y now {} s \<Longrightarrow> fmlookup (rexbalance s) x = Some rb \<Longrightarrow> rb_ok rb"
  using share_le(1) [of s x rb] by (simp add: rex_inv_def)

lemma consolidate_settles:
  assumes E: "chain_laws E" and clock: "clock_ok E" and inv: "rex_inv y (current_sec E) {} s0" and sc: "in_scale 0 s0"
    and r: "consolidate E x s0 = Inr s'"
  shows "settles y (current_sec E) s0 s'"
proof -
  obtain s z s1 a rb where run: "runrex E 2 s0 = Inr s" "core_zero E s = Inr z" "update_rex_account E x z z False s = Inr (s1, a)"
    and rb: "fmlookup (rexbalance s1) x = Some rb" and s': "s' = put_row x (consolidate_rex_balance E a rb) s1"
    using r unfolding consolidate_def Let_def put_row_def [symmetric]
    by (simp only: result_simps split_paired_Ex prod.case sum.inject not_not) blast
  note m = run_and_settle [OF E clock inv sc run]
  note q = open_request_le [OF m(2) rb]
  have ok: "rb_ok rb" by (rule row_ok [OF m(2) rb])
  note c = consolidate_wf [of rb a E]
  have "rb_ok (consolidate_rex_balance E a rb)" "amount (rex_bal (consolidate_rex_balance E a rb)) = amount (rex_bal rb)"
    using c ok q m(3) by (simp_all add: rb_ok_def)
  moreover have "open_request s1 x \<le> matured_rex (consolidate_rex_balance E a rb)"
    using m(3) by (simp add: consolidate_rex_balance_def put_rex_savings_def Let_def split: prod.splits)
  ultimately have "moves y (current_sec E) {} 0 s1 s'" unfolding s' by (rule row_moves [OF m(2) rb])
  then show ?thesis using m(1) moves_settles settles_trans by blast
qed

lemma mvtosavings_settles:
  assumes E: "chain_laws E" and clock: "clock_ok E" and inv: "rex_inv y (current_sec E) {} s0" and sc: "in_scale 0 s0"
    and big: "amount rex < 2 ^ 63" and r: "mvtosavings E x rex s0 = Inr s'"
  shows "settles y (current_sec E) s0 s'"
proof -
  obtain s z s1 a rb rb2 where run: "runrex E 2 s0 = Inr s" "core_zero E s = Inr z" "update_rex_account E x z z False s = Inr (s1, a)"
    and rb: "fmlookup (rexbalance s1) x = Some rb" and rex: "0 < amount rex"
    and le: "i64 (i64 (amount rex + amount a) + fst (read_rex_savings rb)) \<le> amount (rex_bal (snd (read_rex_savings rb)))"
    and mv: "move_to_savings (amount rex) a (process_rex_maturities E (snd (read_rex_savings rb))) = Inr rb2"
    and s': "s' = put_row x (put_rex_savings (i64 (fst (read_rex_savings rb) + amount rex)) rb2) s1"
    using r unfolding mvtosavings_def Let_def put_row_def [symmetric] case_prod_unfold
    by (simp only: result_simps split_paired_Ex prod.sel sum.inject not_not) blast
  note m = run_and_settle [OF E clock inv sc run]
  note q = open_request_le [OF m(2) rb]
  have ok: "rb_ok rb" by (rule row_ok [OF m(2) rb])
  obtain sv rb1 where rd: "read_rex_savings rb = (sv, rb1)" by force
  have wf: "rb_wf rb" "rex_total rb = amount (rex_bal rb)" "rex_total rb \<le> max_amount" using ok by (simp_all add: rb_ok_def rb_wf_def)
  note w = read_wf [OF wf(1) rd]
  note p = process_wf [OF w(1), of E]
  have a: "0 \<le> amount a" "amount a \<le> matured_rex (process_rex_maturities E rb1)" using q m(3) p(5) w(6) by auto
  have mv': "move_to_savings (amount rex) a (process_rex_maturities E rb1) = Inr rb2" using mv by (simp add: rd)
  note mw = move_to_savings_wf [OF p(1) _ big a(1) mv']
  have tot: "rex_total rb2 + amount rex + sv = amount (rex_bal rb)" using mw(2) rex p(2) w(2) wf(2) by simp
  have sv: "0 \<le> sv" "sv + amount rex \<le> max_amount" using tot w(3) mw(1) rex wf rb_ok_bounds(3) [OF ok]
    bucket_sum_nonneg [of "rex_maturities rb2"] by (auto simp: rb_wf_def rex_total_def)
  have i: "i64 (sv + amount rex) = sv + amount rex" using sv rex by (simp add: width_simps max_amount_def)
  have wf2: "rb_wf rb2" using mw(1) rex by simp
  have room: "rex_total rb2 + (sv + amount rex) \<le> max_amount" using tot wf by simp
  note pu = put_wf [OF wf2 _ room]
  have "rb_ok (put_rex_savings (sv + amount rex) rb2)" "amount (rex_bal (put_rex_savings (sv + amount rex) rb2)) = amount (rex_bal rb)"
    "open_request s1 x \<le> matured_rex (put_rex_savings (sv + amount rex) rb2)"
    using pu sv rex tot mw(3,5) p(3) w(4) a m(3) by (simp_all add: rb_ok_def)
  then have "moves y (current_sec E) {} 0 s1 s'" unfolding s' by (simp only: rd fst_conv i) (rule row_moves [OF m(2) rb])
  then show ?thesis using m(1) moves_settles settles_trans by blast
qed

lemma mvfrsavings_settles:
  assumes E: "chain_laws E" and clock: "clock_ok E" and inv: "rex_inv y (current_sec E) {} s0" and sc: "in_scale 0 s0"
    and r: "mvfrsavings E x rex s0 = Inr s'"
  shows "settles y (current_sec E) s0 s'"
proof -
  obtain s rb z a where run: "runrex E 2 s0 = Inr s" and rb: "fmlookup (rexbalance s) x = Some rb" and rex: "0 < amount rex"
    and le: "amount rex \<le> fst (read_rex_savings rb)"
    and z: "core_zero E (put_row x (put_rex_savings (i64 (fst (read_rex_savings rb) - amount rex))
        (add_maturity E (amount rex) (process_rex_maturities E (snd (read_rex_savings rb))))) s) = Inr z"
    and u: "update_rex_account E x z z False (put_row x (put_rex_savings (i64 (fst (read_rex_savings rb) - amount rex))
        (add_maturity E (amount rex) (process_rex_maturities E (snd (read_rex_savings rb))))) s) = Inr (s', a)"
    using r unfolding mvfrsavings_def Let_def put_row_def [symmetric] case_prod_unfold
    by (simp only: result_simps split_paired_Ex prod.sel sum.inject not_not) blast
  note m = run_first [OF E clock inv sc run]
  have ok: "rb_ok rb" by (rule row_ok [OF m(1) rb])
  obtain sv rb1 where rd: "read_rex_savings rb = (sv, rb1)" by force
  have wf: "rb_wf rb" "rex_total rb = amount (rex_bal rb)" "rex_total rb \<le> max_amount" using ok by (simp_all add: rb_ok_def rb_wf_def)
  note w = read_wf [OF wf(1) rd]
  note p = process_wf [OF w(1), of E]
  have b1: "0 \<le> rex_total rb1"
    using w(1) bucket_sum_nonneg [of "rex_maturities rb1"] by (simp add: rb_wf_def rex_total_def)
  have sv: "0 < amount rex" "amount rex \<le> sv" "sv \<le> max_amount" using rex le w(2) wf b1 by (simp_all add: rd)
  have i: "i64 (sv - amount rex) = sv - amount rex" using sv by (simp add: width_simps max_amount_def)
  have room1: "rex_total (process_rex_maturities E rb1) + amount rex \<le> max_amount" using p(2) w(2) sv wf by simp
  note am = add_maturity_wf [OF p(1) _ room1, of E]
  define rb2 where "rb2 = add_maturity E (amount rex) (process_rex_maturities E rb1)"
  have t2: "rex_total rb2 + (sv - amount rex) = amount (rex_bal rb)" using am(2) p(2) w(2) wf sv by (simp add: rb2_def)
  have wf2: "rb_wf rb2" using am(1) sv by (simp add: rb2_def)
  have room2: "rex_total rb2 + (sv - amount rex) \<le> max_amount" using t2 wf by simp
  note pu = put_wf [OF wf2 _ room2]
  define s1 where "s1 = put_row x (put_rex_savings (sv - amount rex) rb2) s"
  have v: "moves y (current_sec E) {} 0 s s1" unfolding s1_def
  proof (rule row_moves [OF m(1) rb])
    show "rb_ok (put_rex_savings (sv - amount rex) rb2)" using pu sv t2 am p(3) w(4) by (simp add: rb_ok_def rb2_def)
    show "amount (rex_bal (put_rex_savings (sv - amount rex) rb2)) = amount (rex_bal rb)" using pu sv am p(3) w(4) by (simp add: rb2_def)
    show "open_request s x \<le> matured_rex (put_rex_savings (sv - amount rex) rb2)"
      using pu sv am p(5) w(6) open_request_le [OF m(1) rb] by (simp add: rb2_def)
  qed
  have eq: "put_row x (put_rex_savings (i64 (fst (read_rex_savings rb) - amount rex))
        (add_maturity E (amount rex) (process_rex_maturities E (snd (read_rex_savings rb))))) s = s1"
    by (simp add: rd i s1_def rb2_def)
  have inv1: "rex_inv y (current_sec E) {} s1" "rex_owed s1 \<le> max_owed" using v m(3) by (auto simp: moves_def)
  note a = account_settles [OF E inv1 z [unfolded eq] u [unfolded eq]]
  show ?thesis using settles_trans [OF m(2) settles_trans [OF moves_settles [OF v] a(1)]] .
qed

text \<open>Closing an account.\<close>

lemma drop_fund_moves:
  assumes inv: "rex_inv y now {} s" and z: "fmval amount (fmlookup (rexfunds s) x) = 0"
  shows "moves y now {} 0 s (s\<lparr>rexfunds := fmdrop x (rexfunds s)\<rparr>)"
proof -
  let ?s = "s\<lparr>rexfunds := fmdrop x (rexfunds s)\<rparr>"
  have f: "fund_sum ?s = fund_sum s" using z by (simp add: fund_sum_def fmsum_drop)
  have same: "loan_sum ?s = loan_sum s" "order_sum ?s = order_sum s" "lendable ?s = lendable s" "ret_proceeds ?s = ret_proceeds s" "ret_load ?s = ret_load s"
    by (simp_all add: loan_sum_def order_sum_def lendable_def ret_proceeds_def ret_load_def)
  have "ret_ok now ?s = ret_ok now s" by (rule ret_ok_cong) simp_all
  moreover have "tables_ok y ?s" using inv by (auto simp: rex_inv_def tables_ok_def split: if_splits)
  moreover have "sell_orders_ok y {} ?s = sell_orders_ok y {} s" "shares_ok ?s = shares_ok s" "rexpool_ok y ?s = rexpool_ok y s" "core_symbol ?s = core_symbol s"
    by (simp_all add: sell_orders_ok_def shares_ok_def share_sum_def all_shares_def rexpool_ok_def core_symbol_def)
  ultimately show ?thesis using inv f same by (simp add: moves_def rex_inv_def rex_owed_def fee_base_def rex_flow_def)
qed

lemma drop_row_moves:
  assumes inv: "rex_inv y now {} s" and rb: "fmlookup (rexbalance s) x = Some rb" "amount (rex_bal rb) = 0"
  shows "moves y now {} 0 s (s\<lparr>rexbalance := fmdrop x (rexbalance s)\<rparr>)"
proof -
  let ?s = "s\<lparr>rexbalance := fmdrop x (rexbalance s)\<rparr>"
  have o: "sell_orders_ok y {} s" and sh: "shares_ok s" using inv by (simp_all add: rex_inv_def)
  have z: "matured_rex rb \<le> 0" using rb_ok_bounds(2) [OF row_ok [OF inv rb(1)]] rb(2) by simp
  have no: "\<not> o_is_open o0" if "fmlookup (rexorders s) x = Some o0" for o0
    using open_order(1,3) [OF o _ that] z rb(1) by auto
  have "order_ok y (fmlookup (rexbalance ?s) w) o0" if o0: "fmlookup (rexorders s) w = Some o0" for w o0
  proof -
    have ok: "order_ok y (fmlookup (rexbalance s) w) o0" using order_row [OF o _ o0] by simp
    show ?thesis
    proof (cases "w = x")
      case True
      then show ?thesis using ok no [of o0] o0 by (simp add: order_ok_def)
    next
      case False
      then show ?thesis using ok by simp
    qed
  qed
  then have "sell_orders_ok y {} ?s" using o by (simp add: sell_orders_ok_def)
  moreover have "share_sum ?s = share_sum s" using rb by (simp add: share_sum_def fmsum_drop)
  then have "shares_ok ?s" using sh by (auto simp: shares_ok_def all_shares_def split: if_splits)
  moreover have "ret_ok now ?s = ret_ok now s" by (rule ret_ok_cong) simp_all
  ultimately show ?thesis
    using inv by (simp add: moves_def rex_inv_def tables_ok_def rexpool_ok_def core_symbol_def rex_owed_def fund_sum_def loan_sum_def order_sum_def
        lendable_def ret_proceeds_def fee_base_def ret_load_def rex_flow_def)
qed

definition closed_fund :: "name \<Rightarrow> sys \<Rightarrow> sys" where
  "closed_fund x s = (let no_fund = (case fmlookup (rexfunds s) x of None \<Rightarrow> False | Some b \<Rightarrow> amount b = 0)
     in if \<not> owns_loan x (cpuloans s) \<and> \<not> owns_loan x (netloans s) \<and> no_fund
        then s\<lparr>rexfunds := fmdrop x (rexfunds s)\<rparr> else s)"

lemma closed_fund_cases:
  "closed_fund x s = s \<or> fmval amount (fmlookup (rexfunds s) x) = 0 \<and> closed_fund x s = s\<lparr>rexfunds := fmdrop x (rexfunds s)\<rparr>"
  by (auto simp: closed_fund_def Let_def split: option.splits)

lemma closerex_steps:
  assumes "closerex E x s0 = Inr s'"
  obtains s z s1 a s2 where "(if rex_system_initialized s0 then runrex E 2 s0 else Inr s0) = Inr s" "core_zero E s = Inr z"
    "update_rex_account E x z z False s = Inr (s1, a)"
    "s2 = s1 \<or> fmval amount (fmlookup (rexfunds s1) x) = 0 \<and> s2 = s1\<lparr>rexfunds := fmdrop x (rexfunds s1)\<rparr>"
    "s' = s2 \<or> (\<exists>rb. fmlookup (rexbalance s2) x = Some rb \<and> amount (rex_bal rb) = 0 \<and> s' = s2\<lparr>rexbalance := fmdrop x (rexbalance s2)\<rparr>)"
proof -
  have eq: "closerex E x s0 = (if \<not> has_auth E x then Inl Missing_auth else
      (case (if rex_system_initialized s0 then runrex E 2 s0 else Inr s0) of Inl e \<Rightarrow> Inl e | Inr s \<Rightarrow>
      (case core_zero E s of Inl e \<Rightarrow> Inl e | Inr zero \<Rightarrow>
      (case update_rex_account E x zero zero False s of Inl e \<Rightarrow> Inl e | Inr (s1, _) \<Rightarrow>
      (case fmlookup (rexbalance (closed_fund x s1)) x of
           None \<Rightarrow> Inr (closed_fund x s1)
         | Some rb \<Rightarrow>
             if amount (rex_bal rb) \<noteq> 0 then Inl (Check ''account has remaining REX balance, must sell first'') else
             Inr ((closed_fund x s1)\<lparr>rexbalance := fmdrop x (rexbalance (closed_fund x s1))\<rparr>))))))"
    unfolding closerex_def closed_fund_def Let_def ..
  obtain s z s1 a where s1: "(if rex_system_initialized s0 then runrex E 2 s0 else Inr s0) = Inr s" "core_zero E s = Inr z"
    "update_rex_account E x z z False s = Inr (s1, a)"
    and t: "(case fmlookup (rexbalance (closed_fund x s1)) x of
           None \<Rightarrow> Inr (closed_fund x s1)
         | Some rb \<Rightarrow>
             if amount (rex_bal rb) \<noteq> 0 then Inl (Check ''account has remaining REX balance, must sell first'') else
             Inr ((closed_fund x s1)\<lparr>rexbalance := fmdrop x (rexbalance (closed_fund x s1))\<rparr>)) = Inr s'"
    using assms unfolding eq by (simp only: result_simps split_paired_Ex prod.case) blast
  have "s' = closed_fund x s1 \<or> (\<exists>rb. fmlookup (rexbalance (closed_fund x s1)) x = Some rb \<and> amount (rex_bal rb) = 0 \<and>
      s' = (closed_fund x s1)\<lparr>rexbalance := fmdrop x (rexbalance (closed_fund x s1))\<rparr>)"
    using t by (auto split: option.splits if_splits)
  then show ?thesis by (rule that [OF s1 closed_fund_cases])
qed

lemma closerex_settles:
  assumes E: "chain_laws E" and clock: "clock_ok E" and inv: "rex_inv y (current_sec E) {} s0" and sc: "in_scale 0 s0"
    and r: "closerex E x s0 = Inr s'"
  shows "settles y (current_sec E) s0 s'"
proof -
  obtain s z s1 a s2 where run: "(if rex_system_initialized s0 then runrex E 2 s0 else Inr s0) = Inr s" and z: "core_zero E s = Inr z"
    and u: "update_rex_account E x z z False s = Inr (s1, a)"
    and s2: "s2 = s1 \<or> fmval amount (fmlookup (rexfunds s1) x) = 0 \<and> s2 = s1\<lparr>rexfunds := fmdrop x (rexfunds s1)\<rparr>"
    and s': "s' = s2 \<or> (\<exists>rb. fmlookup (rexbalance s2) x = Some rb \<and> amount (rex_bal rb) = 0 \<and> s' = s2\<lparr>rexbalance := fmdrop x (rexbalance s2)\<rparr>)"
    by (rule closerex_steps [OF r])
  have m: "rex_inv y (current_sec E) {} s" "settles y (current_sec E) s0 s" "rex_owed s \<le> max_owed"
  proof -
    have "rex_inv y (current_sec E) {} s \<and> settles y (current_sec E) s0 s \<and> rex_owed s \<le> max_owed"
    proof (cases "rex_system_initialized s0")
      case True
      then have "runrex E 2 s0 = Inr s" using run by simp
      note m = run_first [OF E clock inv sc this]
      show ?thesis using m by simp
    next
      case False
      then show ?thesis using run inv sc bids_due_nonneg [of s0] by (auto simp: settles_def in_scale_def)
    qed
    then show "rex_inv y (current_sec E) {} s" "settles y (current_sec E) s0 s" "rex_owed s \<le> max_owed" by auto
  qed
  note a = account_settles [OF E m(1,3) z u]
  have m2: "moves y (current_sec E) {} 0 s1 s2" using s2 drop_fund_moves [OF a(2)] moves_refl [OF a(2)] by auto
  then have inv2: "rex_inv y (current_sec E) {} s2" by (simp add: moves_def)
  have m3: "moves y (current_sec E) {} 0 s2 s'" using s' drop_row_moves [OF inv2] moves_refl [OF inv2] by blast
  show ?thesis using settles_trans [OF m(2) settles_trans [OF a(1) settles_trans [OF moves_settles [OF m2] moves_settles [OF m3]]]] .
qed

text \<open>The rest of the contract: fees, the proceeds of the name auction, votes.\<close>

lemma setrex_settles:
  assumes inv: "rex_inv y now {} s" and r: "setrex E b s = Inr s'"
  shows "settles y now s s'"
proof -
  obtain p where p: "rexpool s = Some p" and s': "s' = s\<lparr>rexpool := Some (p\<lparr>total_rent := b\<rparr>)\<rparr>"
    using r by (auto simp: setrex_def result_simps)
  have "rexpool_ok y s" using inv by (simp add: rex_inv_def)
  then have pk: "pool_ok p" "sym (namebid_proceeds p) = y" using pool_row [OF p] by auto
  have "moves y now {} 0 s s'" unfolding s' by (rule pool_row_moves [OF inv p]) (use pk in \<open>simp_all add: pool_ok_def\<close>)
  then show ?thesis by (rule moves_settles)
qed

lemma namebid_settles:
  assumes inv: "rex_inv y now {} s"
  shows "settles y now s (channel_namebid_to_rex n s)"
proof (cases "rexpool s")
  case (Some p)
  have "rexpool_ok y s" using inv by (simp add: rex_inv_def)
  then have pk: "pool_ok p" "sym (namebid_proceeds p) = y" using pool_row [OF Some] by auto
  have "moves y now {} 0 s (s\<lparr>rexpool := Some (p\<lparr>namebid_proceeds := add_amt (namebid_proceeds p) n\<rparr>)\<rparr>)"
    by (rule pool_row_moves [OF inv Some]) (use pk in \<open>simp_all add: pool_ok_def\<close>)
  then have "settles y now s (s\<lparr>rexpool := Some (p\<lparr>namebid_proceeds := add_amt (namebid_proceeds p) n\<rparr>)\<rparr>)" by (rule moves_settles)
  moreover have "settles y now s s" using inv by (simp add: settles_def)
  ultimately show ?thesis using Some by (simp add: channel_namebid_to_rex_def)
qed (use inv in \<open>simp add: channel_namebid_to_rex_def settles_def\<close>)

lemma rex_stake_settles:
  assumes inv: "rex_inv y now {} s" and r: "update_rex_stake E x s = Inr s'"
  shows "settles y now s s'"
proof -
  have view: "rex_view y (s1\<lparr>voters := vs\<rparr>) = rex_view y s1" for s1 vs by (simp add: rex_view_def core_symbol_def rex_flow_def)
  have "s' = s \<or> (\<exists>rb v. fmlookup (rexbalance s) x = Some rb \<and> rex_view y s' = rex_view y (put_row x (rb\<lparr>vote_stake := v\<rparr>) s))"
  proof (cases "fmlookup (rexbalance s) x")
    case (Some rb)
    show ?thesis
    proof (cases "\<exists>p. rexpool s = Some p \<and> 0 < amount (total_rex p)")
      case True
      then obtain p where p: "rexpool s = Some p" "0 < amount (total_rex p)" by blast
      obtain v where "(let s1 = put_row x (rb\<lparr>vote_stake := set_amt (vote_stake rb) v\<rparr>) s; delta = i64 (v - amount (vote_stake rb))
          in (case fmlookup (voters s1) x of None \<Rightarrow> Inr s1
             | Some vi \<Rightarrow> if delta = 0 then Inr s1 else Inr (s1\<lparr>voters := fmupd x (vi\<lparr>v_staked := i64 (v_staked vi + delta)\<rparr>) (voters s1)\<rparr>))) = (Inr s' :: sys result)"
        using r p(2) unfolding update_rex_stake_def Some p(1) option.case put_row_def [symmetric] by (simp only: not_True_eq_False if_False result_simps) blast
      then have "rex_view y s' = rex_view y (put_row x (rb\<lparr>vote_stake := set_amt (vote_stake rb) v\<rparr>) s)"
        by (auto simp: Let_def view split: option.splits if_splits)
      then show ?thesis using Some by blast
    next
      case False
      then show ?thesis using r Some by (auto simp: update_rex_stake_def split: option.splits)
    qed
  qed (use r in \<open>simp add: update_rex_stake_def\<close>)
  then show ?thesis
  proof
    assume "\<exists>rb v. fmlookup (rexbalance s) x = Some rb \<and> rex_view y s' = rex_view y (put_row x (rb\<lparr>vote_stake := v\<rparr>) s)"
    then obtain rb v where v: "fmlookup (rexbalance s) x = Some rb" "rex_view y s' = rex_view y (put_row x (rb\<lparr>vote_stake := v\<rparr>) s)" by blast
    show ?thesis by (rule view_settles [OF moves_settles [OF vote_stake_moves [OF inv v(1)]] v(2)])
  qed (use inv in \<open>simp add: settles_def\<close>)
qed

subsection \<open>Runs\<close>

datatype rex_action =
    Do_deposit name asset | Do_withdraw name asset | Do_buyrex name asset | Do_unstaketorex name name asset asset
  | Do_sellrex name asset | Do_cnclrexorder name | Do_rentcpu name name asset asset | Do_rentnet name name asset asset
  | Do_fundcpuloan name int asset | Do_fundnetloan name int asset | Do_defcpuloan name int asset | Do_defnetloan name int asset
  | Do_updaterex name | Do_setrex asset | Do_rexexec name nat | Do_consolidate name | Do_mvtosavings name asset
  | Do_mvfrsavings name asset | Do_closerex name
  | Channel_fee name asset bool   \<comment> \<open>RAM and PowerUp fees: \<open>channel_to_rex\<close>\<close>
  | Close_auction int             \<comment> \<open>a closed name auction: \<open>channel_namebid_to_rex\<close>\<close>
  | Revote name                   \<comment> \<open>\<open>update_rex_stake\<close> of a voter\<close>

fun rex_step :: "env \<times> rex_action \<Rightarrow> sys \<Rightarrow> sys result" where
  "rex_step (E, Do_deposit x a) s = deposit E x a s"
| "rex_step (E, Do_withdraw x a) s = withdraw E x a s"
| "rex_step (E, Do_buyrex x a) s = buyrex E x a s"
| "rex_step (E, Do_unstaketorex x z n c) s = unstaketorex E x z n c s"
| "rex_step (E, Do_sellrex x a) s = sellrex E x a s"
| "rex_step (E, Do_cnclrexorder x) s = cnclrexorder E x s"
| "rex_step (E, Do_rentcpu x z p f) s = rentcpu E x z p f s"
| "rex_step (E, Do_rentnet x z p f) s = rentnet E x z p f s"
| "rex_step (E, Do_fundcpuloan x k a) s = fundcpuloan E x k a s"
| "rex_step (E, Do_fundnetloan x k a) s = fundnetloan E x k a s"
| "rex_step (E, Do_defcpuloan x k a) s = defcpuloan E x k a s"
| "rex_step (E, Do_defnetloan x k a) s = defnetloan E x k a s"
| "rex_step (E, Do_updaterex x) s = updaterex E x s"
| "rex_step (E, Do_setrex a) s = setrex E a s"
| "rex_step (E, Do_rexexec x n) s = rexexec E x n s"
| "rex_step (E, Do_consolidate x) s = consolidate E x s"
| "rex_step (E, Do_mvtosavings x a) s = mvtosavings E x a s"
| "rex_step (E, Do_mvfrsavings x a) s = mvfrsavings E x a s"
| "rex_step (E, Do_closerex x) s = closerex E x s"
| "rex_step (E, Channel_fee x a b) s = channel_to_rex E x a b s"
| "rex_step (E, Close_auction n) s = Inr (channel_namebid_to_rex n s)"
| "rex_step (E, Revote x) s = update_rex_stake E x s"

text \<open>
  The scale of an action: what REX owes, with the tokens that come in, stays below the bounds; a purchase leaves the number
  of shares in the range of an asset; the account of REX itself sends no action.
\<close>

fun act_scale :: "symbol \<Rightarrow> rex_action \<Rightarrow> sys \<Rightarrow> bool" where
  "act_scale y (Do_deposit x a) s = (in_scale (max 0 (amount a)) s \<and> x \<noteq> rex_account)"
| "act_scale y (Do_withdraw x a) s = (in_scale 0 s \<and> x \<noteq> rex_account)"
| "act_scale y (Do_buyrex x a) s = (in_scale 0 s \<and> share_room (amount a) s)"
| "act_scale y (Do_unstaketorex x z n c) s = (in_scale (max 0 (amount n + amount c)) s \<and> share_room (amount n + amount c) s)"
| "act_scale y (Do_mvtosavings x a) s = (in_scale 0 s \<and> in_i64 (amount a))"
| "act_scale y (Channel_fee x a b) s = (in_scale (amount a) s \<and> x \<noteq> rex_account \<and> sym a = y)"
| "act_scale y a s = in_scale 0 s"

lemma rex_step_settles:
  assumes E: "chain_laws E" and clock: "clock_ok E" and inv: "rex_inv y (current_sec E) {} s" and sc: "act_scale y act s"
    and r: "rex_step (E, act) s = Inr s'"
  shows "settles y (current_sec E) s s'"
proof (cases act)
  case (Do_deposit x a)
  have "deposit E x a s = Inr s'" "0 \<le> amount a" using r by (auto simp: Do_deposit deposit_def result_simps)
  then show ?thesis using sc by (intro deposit_settles [OF inv]) (auto simp: Do_deposit)
next
  case (Do_withdraw x a)
  then show ?thesis using r sc by (intro withdraw_settles [OF E inv]) auto
next
  case (Do_buyrex x a)
  then show ?thesis using r sc by (intro buyrex_settles [OF E clock inv]) auto
next
  case (Do_unstaketorex x z n c)
  then have "0 \<le> amount n + amount c" using r by (auto simp: unstaketorex_def result_simps)
  then show ?thesis using r sc Do_unstaketorex by (intro unstaketorex_settles [OF E clock inv]) auto
next
  case (Do_sellrex x a)
  then show ?thesis using r sc by (intro sellrex_settles [OF E clock inv]) auto
next
  case (Do_cnclrexorder x)
  then show ?thesis using r by (intro cnclrexorder_settles [OF inv]) auto
next
  case (Do_rentcpu x z p f)
  then show ?thesis using r sc limits_view by (auto simp: rentcpu_def result_simps intro: rentcpu_settles [OF E clock inv])
next
  case (Do_rentnet x z p f)
  then show ?thesis using r sc limits_view by (auto simp: rentnet_def result_simps intro: rentcpu_settles [OF E clock inv])
next
  case (Do_fundcpuloan x k a)
  then show ?thesis using r sc by (auto simp: fundcpuloan_def result_simps intro: fund_loan_settles [OF E inv])
next
  case (Do_fundnetloan x k a)
  then show ?thesis using r sc by (auto simp: fundnetloan_def result_simps intro: fund_loan_settles [OF E inv])
next
  case (Do_defcpuloan x k a)
  then show ?thesis using r sc by (auto simp: defcpuloan_def result_simps intro: defund_loan_settles [OF E inv])
next
  case (Do_defnetloan x k a)
  then show ?thesis using r sc by (auto simp: defnetloan_def result_simps intro: defund_loan_settles [OF E inv])
next
  case (Do_updaterex x)
  then show ?thesis using r sc by (intro updaterex_settles [OF E clock inv]) auto
next
  case (Do_setrex a)
  then show ?thesis using r by (intro setrex_settles [OF inv]) auto
next
  case (Do_rexexec x n)
  then show ?thesis using r sc by (auto simp: rexexec_def result_simps intro: run_first(2) [OF E clock inv])
next
  case (Do_consolidate x)
  then show ?thesis using r sc by (intro consolidate_settles [OF E clock inv]) auto
next
  case (Do_mvtosavings x a)
  then show ?thesis using r sc by (intro mvtosavings_settles [OF E clock inv]) (auto simp: in_i64_def)
next
  case (Do_mvfrsavings x a)
  then show ?thesis using r sc by (intro mvfrsavings_settles [OF E clock inv]) auto
next
  case (Do_closerex x)
  then show ?thesis using r sc by (intro closerex_settles [OF E clock inv]) auto
next
  case (Channel_fee x a b)
  then have a: "money_ok y a" "fee_base s + amount a \<le> fee_limit" using sc bids_due_nonneg [of s] by (auto simp: in_scale_def money_ok_def)
  have "x \<noteq> rex_account" "channel_to_rex E x a b s = Inr s'" using sc r Channel_fee by auto
  then show ?thesis using channel_moves(1) [OF E clock inv _ a] moves_settles by blast
next
  case (Close_auction n)
  then show ?thesis using r namebid_settles [OF inv] by auto
next
  case (Revote x)
  then show ?thesis using r by (intro rex_stake_settles [OF inv]) auto
qed

text \<open>
  The states REX can reach.  It starts with empty tables; it takes a step of its own in the scale of the action, with a
  clock that does not run backwards; and the rest of the contract may change whatever is not in its books.
\<close>

definition rex_start :: "symbol \<Rightarrow> sys \<Rightarrow> bool" where
  "rex_start y s \<longleftrightarrow> core_symbol s = Inr y \<and> rexpool s = None \<and> rexretpool s = None \<and> rexfunds s = fmempty \<and> rexbalance s = fmempty \<and>
     rexorders s = fmempty \<and> cpuloans s = fmempty \<and> netloans s = fmempty \<and> rex_flow y s = 0"

inductive rex_reach :: "symbol \<Rightarrow> int \<Rightarrow> sys \<Rightarrow> bool" for y :: symbol where
  rex_init: "rex_start y s \<Longrightarrow> rex_reach y now s"
| rex_act: "rex_reach y now s \<Longrightarrow> chain_laws E \<Longrightarrow> clock_ok E \<Longrightarrow> now \<le> current_sec E \<Longrightarrow> act_scale y a s \<Longrightarrow> rex_step (E, a) s = Inr s' \<Longrightarrow>
    rex_reach y (current_sec E) s'"
| rex_other: "rex_reach y now s \<Longrightarrow> rex_view y s' = rex_view y s \<Longrightarrow> rex_reach y now s'"

lemma rex_start_inv: "rex_start y s \<Longrightarrow> rex_inv y now {} s \<and> rex_owed s = 0 \<and> rex_flow y s = 0"
  by (simp add: rex_start_def rex_inv_def tables_ok_def sell_orders_ok_def shares_ok_def share_sum_def all_shares_def rexpool_ok_def ret_ok_def
      rex_owed_def fund_sum_def loan_sum_def order_sum_def lendable_def ret_proceeds_def max_amount_def)

lemma rex_inv_later: "rex_inv y now X s \<Longrightarrow> now \<le> later \<Longrightarrow> rex_inv y later X s"
  using ret_ok_later by (auto simp: rex_inv_def)

lemma rex_reach_inv: "rex_reach y now s \<Longrightarrow> rex_inv y now {} s \<and> rex_owed s \<le> rex_flow y s"
proof (induction rule: rex_reach.induct)
  case (rex_init s now)
  then show ?case using rex_start_inv [of y s now] by simp
next
  case (rex_act now s E a s')
  have "rex_inv y (current_sec E) {} s" using rex_act.IH rex_act.hyps(4) rex_inv_later by blast
  from rex_step_settles [OF rex_act.hyps(2,3) this rex_act.hyps(5,6)] show ?case using rex_act.IH by (simp add: settles_def)
next
  case (rex_other now s s')
  then show ?case using rex_view_keeps [OF rex_other.hyps(2)] by simp
qed

text \<open>
  C3. REX is solvent: in every state it reaches through its actions, fees and name auctions in any order, the tokens that
  went to \<open>eosio.rex\<close> cover the sum of everything it owes -- funds, loan balances, proceeds of filled orders, lendable
  tokens, undistributed fees -- and none of these is negative.
\<close>

theorem rex_solvent:
  assumes "rex_reach y now s"
  shows "fund_sum s + loan_sum s + order_sum s + lendable s + ret_proceeds s \<le> net_flow (transfers_of (effects s)) rex_account (scode y) \<and>
    (\<forall>x a. fmlookup (rexfunds s) x = Some a \<longrightarrow> 0 \<le> amount a) \<and>
    (\<forall>cpu k l. fmlookup (loans cpu s) k = Some l \<longrightarrow> 0 \<le> amount (loan_balance l)) \<and>
    0 \<le> order_sum s \<and> 0 \<le> lendable s \<and> 0 \<le> ret_proceeds s"
proof -
  have inv: "rex_inv y now {} s" and le: "rex_owed s \<le> rex_flow y s" using rex_reach_inv [OF assms] by auto
  have t: "tables_ok y s" using inv by (simp add: rex_inv_def)
  show ?thesis
    using le owed_parts(3-5) [OF inv] t loan_row [OF t] by (auto simp: rex_owed_def rex_flow_def tables_ok_def money_ok_def loan_ok_def)
qed

text \<open>
  C8. The shares of REX are accounted for: in every reachable state the shares of all users add up to the total of
  the pool, the matured shares and the maturity buckets of each user add up to the user's shares, no
  open sell order asks for more than its owner's matured shares, and the lendable tokens of the pool are the lent plus the unlent ones.
\<close>

theorem rex_shares:
  assumes "rex_reach y now s"
  shows "share_sum s = all_shares s \<and> (\<forall>x rb. fmlookup (rexbalance s) x = Some rb \<longrightarrow> rb_ok rb \<and> amount (rex_bal rb) \<le> all_shares s) \<and>
    (\<forall>x rb. fmlookup (rexbalance s) x = Some rb \<longrightarrow> open_request s x \<le> matured_rex rb) \<and>
    (\<forall>p. rexpool s = Some p \<longrightarrow> amount (total_lendable p) = i64 (amount (total_unlent p) + amount (total_lent p)))"
proof -
  have inv: "rex_inv y now {} s" using rex_reach_inv [OF assms] by auto
  then have sh: "shares_ok s" and p: "rexpool_ok y s" by (simp_all add: rex_inv_def)
  show ?thesis using share_le [OF sh] open_request_le(2) [OF inv] sh pool_row [OF _ p] by (auto simp: shares_ok_def pool_ok_def)
qed

subsection \<open>A run\<close>

text \<open>Running a list of actions, each in its scale.\<close>

fun scaled_run :: "symbol \<Rightarrow> int \<Rightarrow> (env \<times> rex_action) list \<Rightarrow> sys \<Rightarrow> sys option" where
  "scaled_run y now [] s = Some s"
| "scaled_run y now ((E, a) # as) s =
     (if clock_ok E \<and> now \<le> current_sec E \<and> act_scale y a s
      then (case rex_step (E, a) s of Inl e \<Rightarrow> None | Inr s' \<Rightarrow> scaled_run y (current_sec E) as s') else None)"

lemma scaled_run_reach:
  "scaled_run y now as s = Some s' \<Longrightarrow> \<forall>(E, a)\<in>set as. chain_laws E \<Longrightarrow> rex_reach y now s \<Longrightarrow> \<exists>later. rex_reach y later s'"
proof (induction as arbitrary: now s)
  case (Cons ea as)
  obtain E a where ea: "ea = (E, a)" by (cases ea)
  obtain s1 where s1: "clock_ok E" "now \<le> current_sec E" "act_scale y a s" "rex_step (E, a) s = Inr s1" "scaled_run y (current_sec E) as s1 = Some s'"
    using Cons.prems(1) by (auto simp: ea split: if_splits sum.splits)
  have "rex_reach y (current_sec E) s1" by (rule rex_act [OF Cons.prems(3) _ s1(1-4)]) (use Cons.prems(2) in \<open>simp add: ea\<close>)
  then show ?case using Cons.prems(2) by (intro Cons.IH [OF s1(5)]) auto
qed auto

text \<open>
  Account 10 buys shares, account 11 rents CPU with a prepaid renewal, and half a year later the loan has been renewed and has
  ended, and account 10 sells.
\<close>

definition demo_rex :: "(env \<times> rex_action) list" where
  "demo_rex = [(sdk_env eosio_account 5000000, Do_deposit 10 (core 50000000000)),
     (sdk_env eosio_account 5000000, Do_buyrex 10 (core 40000000000)),
     (sdk_env eosio_account 5000100, Do_deposit 11 (core 3000)),
     (sdk_env eosio_account 5000200, Do_rentcpu 11 12 (core 1000) (core 1000)),
     (sdk_env eosio_account 20000000, Do_rexexec 11 1),
     (sdk_env eosio_account 20000000, Do_sellrex 10 (rex_asset 100000000000000))]"

lemma demo_rex_run:
  "case scaled_run core_sym 0 demo_rex sys0 of None \<Rightarrow> False | Some s' \<Rightarrow> rex_owed s' = 50000003000 \<and> all_shares s' = 300000000000000"
  by code_simp

lemma demo_rex_reach: "\<exists>later s'. rex_reach core_sym later s' \<and> rex_owed s' = 50000003000 \<and> all_shares s' = 300000000000000"
proof -
  obtain s' where s': "scaled_run core_sym 0 demo_rex sys0 = Some s'" "rex_owed s' = 50000003000 \<and> all_shares s' = 300000000000000"
    using demo_rex_run by (auto split: option.splits)
  have "rex_start core_sym sys0"
    by (simp add: rex_start_def core_symbol_def sys0_def core_sym_def rex_flow_def)
  then have "rex_reach core_sym 0 sys0" by (rule rex_init)
  moreover have "\<forall>(E, a)\<in>set demo_rex. chain_laws E" by (simp add: demo_rex_def sdk.chain_laws_axioms)
  ultimately show ?thesis using scaled_run_reach [OF s'(1)] s'(2) by blast
qed

theorem rex_solvent_witness:
  "\<exists>s'. rex_owed s' = 50000003000 \<and> 50000003000 \<le> net_flow (transfers_of (effects s')) rex_account (scode core_sym)"
proof -
  obtain later s' where r: "rex_reach core_sym later s'" "rex_owed s' = 50000003000" using demo_rex_reach by blast
  show ?thesis using rex_solvent [OF r(1)] r(2) by (auto simp: rex_owed_def)
qed

theorem rex_shares_witness: "\<exists>s'. all_shares s' = 300000000000000 \<and> share_sum s' = 300000000000000"
proof -
  obtain later s' where r: "rex_reach core_sym later s'" "all_shares s' = 300000000000000" using demo_rex_reach by blast
  show ?thesis using rex_shares [OF r(1)] r(2) by auto
qed

end
