(* ===== verification/Spec2Isabelle.thy ===== *)
theory Spec2Isabelle
  imports Eosio_Msig Block_Hook Name_Bidding Evm_Voting Powerup Proxy_Chains Block_Info Limit_Auth Rex_Solvency
begin

text \<open>
  The contracts of the Telos network under \<open>src/contracts\<close>, as an executable model with the theorems that make them correct.

  \<^bold>\<open>The program.\<close>  \<open>eosio.token\<close> holds the balances of all tokens.  \<open>eosio.msig\<close> collects approvals for a
  proposed transaction and sends it.  \<open>eosio.system\<close> is everything else: it sells RAM on a Bancor market, takes stakes for
  bandwidth, lends staked tokens through REX, rents bandwidth through PowerUp, registers producers, counts votes, elects and rotates
  the schedule, pays producers, auctions short account names, limits changes of permissions, keeps the times of the last blocks,
  and takes over votes from a contract in the EVM, to which it talks in RLP.  The parts of \<open>eosio.system\<close> share one set of
  tables and call each other: a stake changes the votes and the resource limits of its owner, fees of the RAM market, PowerUp and the
  name auction go to REX, every REX action runs a few steps of maintenance and updates the votes of the user, and the block hook
  drives the schedule, the auction and the pay.  Tokens move by inline \<open>transfer\<close> actions to \<open>eosio.token\<close>.

  \<^bold>\<open>Correspondence.\<close>  An action \<open>a\<close> of the code is a function \<open>a E args s\<close> of the chain environment \<open>E\<close> and
  the tables \<open>s\<close>; it returns \<open>Inl e\<close> where the code raises (a failed \<open>check\<close>, a missing row, a trapping conversion) and \<open>Inr s'\<close>
  otherwise.  A table is a finite map from its primary key; a secondary index is computed from it.  Inline actions, deferred
  transactions and resource limits are appended to a list of effects in the order the code sends them.  Fixed-width integers are
  \<open>int\<close> with the wrap-around of their width written out (\<open>i64\<close>, \<open>u32\<close>), bytes are words.

  \<^item> \<open>Prelude\<close>: errors, integer widths, sums over tables.  \<open>IEEE_Double\<close>, \<open>Double_Approx\<close>: the doubles of the contracts, exactly
    rounded, with conversions that trap, and a calculus for rounding errors.  \<open>Chain_Env\<close>: what the contracts use of
    the development kit, with the documented laws as the locale \<open>chain_laws\<close>.  \<open>Ledger\<close>: the interface of a token ledger
    that the system contract relies on, as the locale \<open>fungible_ledger\<close>; \<open>Eosio_Token\<close> provides it.
  \<^item> \<open>Eosio_Token\<close> (\<open>eosio.token.cpp\<close>), \<open>Eosio_Msig\<close> (\<open>eosio.msig.cpp\<close>).
  \<^item> \<open>System_State\<close>: the tables of \<open>eosio.system.hpp\<close> as the record \<open>sys\<close>.  \<open>Exchange\<close> (\<open>exchange_state.cpp\<close>), \<open>Ram_Market\<close>
    and \<open>Delegate_Bandwidth\<close> (\<open>delegate_bandwidth.cpp\<close>), \<open>Voting\<close> and \<open>Proxy_Chains\<close> (\<open>voting.cpp\<close>), \<open>Producer_Schedule\<close>
    (\<open>voting.cpp\<close>, \<open>system_rotation.cpp\<close>, \<open>system_kick.cpp\<close>), \<open>Name_Bidding\<close> (\<open>name_bidding.cpp\<close>), \<open>Producer_Pay\<close> and \<open>Block_Hook\<close>
    (\<open>producer_pay.cpp\<close>), \<open>Block_Info\<close> (\<open>block_info.cpp\<close>), \<open>Limit_Auth\<close> (\<open>limit_auth_changes.cpp\<close>, \<open>native.hpp\<close>), \<open>Powerup\<close>
    (\<open>powerup.cpp\<close>), \<open>System_Admin\<close> and \<open>Evm_Voting\<close> (\<open>eosio.system.cpp\<close>).
  \<^item> REX (\<open>rex.cpp\<close>): \<open>Rex_Balance\<close>, \<open>Rex_Pool\<close> and \<open>Rex\<close> hold the operations, \<open>Rex_Frame\<close> what REX leaves alone, \<open>Rex_Returns\<close> the
    distribution of fees, \<open>Rex_Books\<close> and \<open>Rex_Solvency\<close> the invariant of all its tables.
  \<^item> \<open>Rlp\<close> (\<open>libs/rlp/rlp.hpp\<close>).

  \<^bold>\<open>What is proved.\<close>
  \<^item> Money.  The supply of a token is the sum of its balances, and every action of the token contract refines a step of an
    abstract ledger.  Whatever the system contract owes is backed by what it received: the stakes and refunds, the RAM
    market, the bids and refunds of the auction, the pay bucket, and everything REX owes -- for any sequence of actions.
    The shares of REX add up, and fees that went to REX are paid out completely.
  \<^item> Markets.  A Bancor trade is exact up to the precision of a double, and trades in the exact range (\<open>exact_trade\<close>: the product of input
    and output reserve stays below \<open>2 ^ 53\<close>) never make a profit together; beyond that range rounding can favour a trader.  The PowerUp market never oversells, charges fees in their bounds, and its utilization decays as documented.
  \<^item> Producers.  Voting and staking keep the activated stake equal to the stakes that are voted; the propagation along proxies
    ends; EVM votes are taken over once; the proposed schedule has at most 21 eligible producers; after a cycle of blocks exactly those
    producers lose their place, worst first and at most a seventh of the schedule, whose missed blocks exceed 15 percent of those due (up
    to a tie at the threshold); the bucket is divided on doubles without failing or overdrawing when the counted
    producers are the paid ones.
  \<^item> Authority.  Proposals run once, after their delay, with live approvals; unstaked tokens wait three days; premium names go to auction
    winners; the limits an account set last decide who changes its permissions and never lock out the owner; administrative actions need the authority of the contract.
  \<^item> Errors in the code are theorems too: an RLP length is truncated, a decreased EVM vote wraps around, a
    standby producer can be proposed twice, and the pay of a snapshot can exceed its bucket.

  \<^bold>\<open>Bounds and fuel.\<close>  The propagation along proxies gets one more step than there are voters, enough for any graph without a
  cycle (\<open>propagate_terminates\<close>); a cycle makes the code recurse until the call stack is exhausted, which is an error of the model.
  All other loops are structural or bounded by a table.  PowerUp weights stay below \<open>2 ^ 62\<close>, where the code's 64-bit and
  128-bit arithmetic is exact; the pay bucket below \<open>2 ^ 47\<close>, so that a share is the double nearest to it within two units;
  the debts of REX below \<open>2 ^ 60\<close> and the rate of its fees below \<open>2 ^ 39\<close> per ten minutes, where no 64-bit sum wraps
  (the maximal amount of an asset is \<open>2 ^ 62\<close>).  REX assumes a clock that does not run backwards and fits in 32 bits.

  \<^bold>\<open>Not modelled.\<close>  Serialisation, the dispatcher and the generated interfaces, which the compiler derives from the declarations;
  RAM payers and the memory bill of a row, which the chain keeps; deferred transactions after they are
  sent.  The 256-bit integers of \<open>libs/intx\<close>, a vendored library, are the natural numbers below \<open>2 ^ 256\<close> that they represent, as the code
  only divides by a constant, compares and serialises them.  The contracts \<open>eosio.bios\<close>, \<open>eosio.boot\<close> and \<open>eosio.wrap\<close>, which check an
  authority and forward their arguments to the chain, and the contracts used by the tests.  Of the oracle and the fund (\<open>delphioracle\<close>, \<open>eosio.tedp\<close>),
  whose code is elsewhere, the tables that the system contract reads are parameters.  Parameters, because their code is not in the repository: the chain (authorisation, time, permissions,
  hashing, the check of a stored transaction), the assets of the development kit, \<open>pow\<close>, \<open>exp\<close>, \<open>log1p\<close> and \<open>sin\<close>, the order of \<open>std::sort\<close> on
  equivalent elements, and the tables of the EVM contract.
\<close>

end
